(* ===== verification/Prelude.thy ===== *)
theory Prelude
  imports Main "HOL-Library.Word"
begin

text \<open>
  Shared material of the development: the byte and integer types of the C++ code, exceptions as
  values of a sum type with their sequencing operator, slices of byte vectors, and the arithmetic
  of base-256 numerals on which every codec of the code base rests.
\<close>

section \<open>Types\<close>

type_synonym byte = "8 word"
type_synonym bytes = "8 word list"
type_synonym u64 = "64 word"
type_synonym u160 = "160 word"
type_synonym u256 = "256 word"
type_synonym u512 = "512 word"
type_synonym h256 = "256 word"
type_synonym address = u160

section \<open>Exceptions as values\<close>

text \<open>
  A C++ operation that may throw returns a value of type \<open>'e + 'a\<close>: \<open>Inl\<close> of the exception or
  \<open>Inr\<close> of the result. \<open>ebind\<close> sequences two of them, the first exception winning, as control flow
  does when a call throws.
\<close>

definition ebind :: "'e + 'a \<Rightarrow> ('a \<Rightarrow> 'e + 'b) \<Rightarrow> 'e + 'b" where
  "ebind r f = (case r of Inl e \<Rightarrow> Inl e | Inr x \<Rightarrow> f x)"

definition is_ok :: "'e + 'a \<Rightarrow> bool" where
  "is_ok r = (case r of Inl _ \<Rightarrow> False | Inr _ \<Rightarrow> True)"

section \<open>Slices\<close>

text \<open>\<open>slice i n xs\<close> is the run of \<open>n\<close> elements from offset \<open>i\<close>.\<close>

definition slice :: "nat \<Rightarrow> nat \<Rightarrow> 'a list \<Rightarrow> 'a list" where
  "slice i n xs = take n (drop i xs)"

text \<open>\<open>splice i ys xs\<close> overwrites \<open>xs\<close> from offset \<open>i\<close> with \<open>ys\<close>: the effect of \<open>memcpy\<close> into a buffer.\<close>

definition splice :: "nat \<Rightarrow> 'a list \<Rightarrow> 'a list \<Rightarrow> 'a list" where
  "splice i ys xs = take i xs @ ys @ drop (i + length ys) xs"

section \<open>Base-256 numerals\<close>

text \<open>The value of a big-endian byte string.\<close>

definition be_nat :: "bytes \<Rightarrow> nat" where
  "be_nat bs = foldl (\<lambda>a b. a * 256 + unat b) 0 bs"

named_theorems result_simps \<open>rewriting of exception-valued computations\<close>
named_theorems codec_simps \<open>rewriting of base-256 numerals and slices\<close>

lemma ebind_Inl [simp, result_simps]: "ebind (Inl e) f = Inl e"
  by (simp add: ebind_def)

lemma ebind_Inr [simp, result_simps]: "ebind (Inr x) f = f x"
  by (simp add: ebind_def)

lemma ebind_eq_Inr_iff [result_simps]: "ebind r f = Inr y \<longleftrightarrow> (\<exists>x. r = Inr x \<and> f x = Inr y)"
  by (cases r) auto

lemma ebind_eq_Inl_iff: "ebind r f = Inl e \<longleftrightarrow> r = Inl e \<or> (\<exists>x. r = Inr x \<and> f x = Inl e)"
  by (cases r) auto

lemma ebind_assoc: "ebind (ebind r f) g = ebind r (\<lambda>x. ebind (f x) g)"
  by (cases r) auto

lemma ebind_Inr_right [simp]: "ebind r Inr = r"
  by (cases r) auto

lemma is_ok_Inl [simp]: "\<not> is_ok (Inl e)"
  by (simp add: is_ok_def)

lemma is_ok_Inr [simp]: "is_ok (Inr x)"
  by (simp add: is_ok_def)

lemma is_ok_iff: "is_ok r \<longleftrightarrow> (\<exists>x. r = Inr x)"
  by (cases r) auto

lemma length_slice [simp]: "length (slice i n xs) = min n (length xs - i)"
  by (simp add: slice_def)

lemma slice_zero_count [simp]: "slice i 0 xs = []"
  by (simp add: slice_def)

lemma slice_Nil [simp]: "slice i n [] = []"
  by (simp add: slice_def)

lemma slice_append_prefix [codec_simps]: "n = length ys \<Longrightarrow> i = length xs \<Longrightarrow> slice i n (xs @ ys @ zs) = ys"
  by (simp add: slice_def)

lemma nth_slice: "k < n \<Longrightarrow> i + k < length xs \<Longrightarrow> slice i n xs ! k = xs ! (i + k)"
  by (simp add: slice_def)

lemma length_splice [simp]: "i + length ys \<le> length xs \<Longrightarrow> length (splice i ys xs) = length xs"
  by (simp add: splice_def)

lemma nth_splice:
  "i + length ys \<le> length xs \<Longrightarrow> k < length xs \<Longrightarrow>
   splice i ys xs ! k = (if i \<le> k \<and> k < i + length ys then ys ! (k - i) else xs ! k)"
  by (auto simp: splice_def nth_append)

lemma slice_splice: "i + length ys \<le> length xs \<Longrightarrow> slice i (length ys) (splice i ys xs) = ys"
  by (simp add: slice_def splice_def)

lemma splice_Nil [simp]: "splice i [] xs = xs"
  by (simp add: splice_def)

lemma be_nat_Nil [simp, codec_simps]: "be_nat [] = 0"
  by (simp add: be_nat_def)

lemma be_nat_snoc [simp, codec_simps]: "be_nat (bs @ [b]) = be_nat bs * 256 + unat b"
  by (simp add: be_nat_def)

lemma be_nat_foldl: "foldl (\<lambda>a b. a * 256 + unat b) x bs = x * 256 ^ length bs + be_nat bs"
proof (induction bs rule: rev_induct)
  case Nil
  show ?case by simp
next
  case (snoc b bs)
  then show ?case by (simp add: algebra_simps)
qed

lemma be_nat_Cons [codec_simps]: "be_nat (b # bs) = unat b * 256 ^ length bs + be_nat bs"
  using be_nat_foldl [of "unat b" bs] by (simp add: be_nat_def)

lemma be_nat_append: "be_nat (xs @ ys) = be_nat xs * 256 ^ length ys + be_nat ys"
  using be_nat_foldl [of "be_nat xs" ys] by (simp add: be_nat_def)

lemma unat_byte_lt [simp]: "unat (b :: byte) < 256"
  using unsigned_less [of b] by simp

lemma be_nat_bound: "be_nat bs < 256 ^ length bs"
proof (induction bs rule: rev_induct)
  case Nil
  show ?case by simp
next
  case (snoc b bs)
  have "be_nat bs * 256 + unat b < (be_nat bs + 1) * 256"
    using unat_byte_lt [of b] by simp
  also have "\<dots> \<le> 256 ^ length bs * 256"
    using snoc by (simp add: Suc_leI)
  finally show ?case by (simp add: mult.commute)
qed

lemma be_nat_inject: "length xs = length ys \<Longrightarrow> be_nat xs = be_nat ys \<Longrightarrow> xs = ys"
proof (induction xs arbitrary: ys rule: rev_induct)
  case Nil
  then show ?case by simp
next
  case (snoc x xs)
  then obtain ys' y where ys: "ys = ys' @ [y]" by (cases ys rule: rev_cases) auto
  have eq: "be_nat xs * 256 + unat x = be_nat ys' * 256 + unat y"
    using snoc.prems ys by simp
  have "unat x = unat y"
    using arg_cong [OF eq, of "\<lambda>n. n mod 256"] unat_byte_lt [of x] unat_byte_lt [of y] by simp
  with eq snoc ys show ?case by (auto simp: word_unat_eq_iff)
qed

lemma be_nat_lower: "bs \<noteq> [] \<Longrightarrow> hd bs \<noteq> 0 \<Longrightarrow> 256 ^ (length bs - 1) \<le> be_nat bs"
  by (cases bs) (auto simp: be_nat_Cons unat_gt_0 Suc_leI intro: trans_le_add1)

lemma unat_of_nat_byte: "n < 256 \<Longrightarrow> unat (of_nat n :: byte) = n"
  by (simp add: unat_of_nat)

lemma unat_byte_offset [simp]: "numeral k + n < 256 \<Longrightarrow> unat (numeral k + of_nat n :: byte) = numeral k + n"
  using unat_of_nat_byte [of "numeral k + n"] by simp

lemma of_nat_unat_byte [simp]: "(of_nat (unat b) :: byte) = b"
  by simp

lemma sum_case_commute_ok: "is_ok (ebind r f) \<longleftrightarrow> (\<exists>x. r = Inr x \<and> is_ok (f x))"
  by (cases r) auto

end
