(* ===== verification/CommonData.thy ===== *)
theory CommonData
  imports Prelude "HOL-Library.Char_ord"
begin

unbundle bit_operations_syntax

text \<open>
  Byte-string helpers of \<open>libdevcore/CommonData.h\<close>, \<open>CommonData.cpp\<close> and \<open>Common.h\<close>: hexadecimal
  text, nibbles, big-endian integers, and the two's-complement reading of a \<open>u256\<close>. The integer
  templates are used with unsigned types or non-negative \<open>bigint\<close>s only; their argument is read as a
  natural number, which the code merely shifts right.
\<close>

section \<open>Hexadecimal text\<close>

datatype WhenError = DontThrow | Throw

datatype hex_error = BadHexCharacter

definition hexdigits :: string where
  "hexdigits = ''0123456789abcdef''"

definition toHex :: "bytes \<Rightarrow> string \<Rightarrow> string" where
  "toHex bs prefix =
     prefix @ concat (map (\<lambda>b. [hexdigits ! unat (drop_bit 4 b AND 0x0f), hexdigits ! unat (b AND 0x0f)]) bs)"

definition fromHexChar :: "char \<Rightarrow> int" where
  "fromHexChar i =
     (if CHR ''0'' \<le> i \<and> i \<le> CHR ''9'' then of_char i - of_char (CHR ''0'')
      else if CHR ''a'' \<le> i \<and> i \<le> CHR ''f'' then of_char i - of_char (CHR ''a'') + 10
      else if CHR ''A'' \<le> i \<and> i \<le> CHR ''F'' then of_char i - of_char (CHR ''A'') + 10
      else - 1)"

definition isHex :: "string \<Rightarrow> bool" where
  "isHex s = list_all (\<lambda>c. fromHexChar c \<noteq> - 1) (if take 2 s = ''0x'' then drop 2 s else s)"

text \<open>
  The loop over pairs of characters. A string with an odd tail would make \<open>_s[i + 1]\<close> read the
  terminating zero, which is no hexadecimal digit.
\<close>

fun fromHex_pairs :: "WhenError \<Rightarrow> bytes \<Rightarrow> string \<Rightarrow> hex_error + bytes" where
  "fromHex_pairs t ret [] = Inr ret"
| "fromHex_pairs t ret [c] = (if t = Throw then Inl BadHexCharacter else Inr [])"
| "fromHex_pairs t ret (ch # cl # rest) =
     (let h = fromHexChar ch; l = fromHexChar cl in
      if h \<noteq> - 1 \<and> l \<noteq> - 1 then fromHex_pairs t (ret @ [word_of_int (h * 16 + l)]) rest
      else if t = Throw then Inl BadHexCharacter
      else Inr [])"

definition fromHex :: "string \<Rightarrow> WhenError \<Rightarrow> hex_error + bytes" where
  "fromHex s t =
     (let body = (if length s \<ge> 2 \<and> s ! 0 = CHR ''0'' \<and> s ! 1 = CHR ''x'' then drop 2 s else s) in
      if odd (length s) then
        (let h = fromHexChar (hd body) in
         if h \<noteq> - 1 then fromHex_pairs t [word_of_int h] (tl body)
         else if t = Throw then Inl BadHexCharacter
         else Inr [])
      else fromHex_pairs t [] body)"

definition prettyEscapes :: "char \<rightharpoonup> char" where
  "prettyEscapes = [CHR 0x0D \<mapsto> CHR ''r'', CHR 0x0A \<mapsto> CHR ''n'', CHR 0x09 \<mapsto> CHR ''t'', CHR 0x0B \<mapsto> CHR ''v'']"

text \<open>\<open>char\<close> is signed on the supported targets, so \<open>i < ' '\<close> also holds from \<open>0x80\<close> on.\<close>

definition escaped_char :: "bool \<Rightarrow> char \<Rightarrow> string" where
  "escaped_char everything i =
     (if i = CHR 0x22 \<and> \<not> everything then [CHR 0x5C, CHR 0x22]
      else if i = CHR 0x5C \<and> \<not> everything then [CHR 0x5C, CHR 0x5C]
      else if prettyEscapes i \<noteq> None \<and> \<not> everything then [CHR 0x5C, the (prettyEscapes i)]
      else if (of_char i :: nat) < 32 \<or> (of_char i :: nat) \<ge> 128 \<or> everything then
        [CHR 0x5C, CHR ''x'', hexdigits ! (of_char i div 16), hexdigits ! (of_char i mod 16)]
      else [i])"

definition escaped :: "string \<Rightarrow> bool \<Rightarrow> string" where
  "escaped s everything = [CHR 0x22] @ concat (map (escaped_char everything) s) @ [CHR 0x22]"

definition asNibbles :: "bytes \<Rightarrow> bytes" where
  "asNibbles s = concat (map (\<lambda>i. [i div 16, i mod 16]) s)"

section \<open>Big-endian integers\<close>

text \<open>The loop fills the output from its last byte; \<open>toBigEndian v n\<close> is the content of an \<open>n\<close>-byte output.\<close>

fun toBigEndian :: "nat \<Rightarrow> nat \<Rightarrow> bytes" where
  "toBigEndian val 0 = []"
| "toBigEndian val (Suc i) = toBigEndian (val div 256) i @ [of_nat (val mod 256)]"

definition fromBigEndian :: "bytes \<Rightarrow> 'a::len word" where
  "fromBigEndian bs = foldl (\<lambda>ret i. push_bit 8 ret OR ucast i) 0 bs"

definition fromBigEndian_bigint :: "bytes \<Rightarrow> nat" where
  "fromBigEndian_bigint bs = foldl (\<lambda>ret i. push_bit 8 ret OR unat i) 0 bs"

fun bytesRequired :: "nat \<Rightarrow> nat" where
  "bytesRequired i = (if i = 0 then 0 else Suc (bytesRequired (i div 256)))"

declare bytesRequired.simps [simp del]

definition toCompactBigEndian :: "nat \<Rightarrow> nat \<Rightarrow> bytes" where
  "toCompactBigEndian val minb = toBigEndian val (max minb (bytesRequired val))"

definition toCompactBigEndian_byte :: "byte \<Rightarrow> nat \<Rightarrow> bytes" where
  "toCompactBigEndian_byte val minb = (if minb \<noteq> 0 \<or> val \<noteq> 0 then [val] else [])"

definition toCompactHex :: "u256 \<Rightarrow> nat \<Rightarrow> string" where
  "toCompactHex val minb = toHex (toCompactBigEndian (unat val) minb) ''''"

definition toCompactHexPrefixed :: "u256 \<Rightarrow> nat \<Rightarrow> string" where
  "toCompactHexPrefixed val minb = toHex (toCompactBigEndian (unat val) minb) ''0x''"

fun commonPrefix :: "'a list \<Rightarrow> 'a list \<Rightarrow> nat" where
  "commonPrefix (t # ts) (u # us) = (if t \<noteq> u then 0 else Suc (commonPrefix ts us))"
| "commonPrefix _ _ = 0"

definition trimFront :: "'a list \<Rightarrow> nat \<Rightarrow> 'a list" where
  "trimFront t n = drop n t"

definition pushFront :: "'a list \<Rightarrow> 'a \<Rightarrow> 'a list" where
  "pushFront t e = e # t"

section \<open>Two's complement and integer logarithm\<close>

text \<open>\<open>s256\<close> is a sign-and-magnitude integer; its values are read as \<open>int\<close>.\<close>

definition u2s :: "u256 \<Rightarrow> int" where
  "u2s u = (if bit u 255 then - (2 ^ 256 - uint u) else uint u)"

definition s2u :: "int \<Rightarrow> u256" where
  "s2u u = (if u \<ge> 0 then word_of_int u else word_of_int (2 ^ 256 + u))"

fun toLog2_loop :: "nat \<Rightarrow> nat \<Rightarrow> nat" where
  "toLog2_loop x ret = (if x div 2 = 0 then ret else toLog2_loop (x div 2) (Suc ret))"

declare toLog2_loop.simps [simp del]

definition toLog2 :: "u256 \<Rightarrow> nat" where
  "toLog2 x = toLog2_loop (unat x) 0"

definition diff_abs :: "'a::{linorder, minus} \<Rightarrow> 'a \<Rightarrow> 'a" where
  "diff_abs a b = max a b - min a b"

section \<open>Facts on big-endian integers\<close>

lemma length_toBigEndian [simp]: "length (toBigEndian v n) = n"
  by (induction n arbitrary: v) auto

lemma be_nat_toBigEndian [codec_simps]: "be_nat (toBigEndian v n) = v mod 256 ^ n"
proof (induction n arbitrary: v)
  case 0
  show ?case by simp
next
  case (Suc n)
  have "v mod 256 ^ Suc n = (v div 256) mod 256 ^ n * 256 + v mod 256"
    by (simp add: mod_mult2_eq mult.commute)
  with Suc show ?case by (simp add: unat_of_nat_byte)
qed

lemma toBigEndian_be_nat [codec_simps]: "toBigEndian (be_nat bs) (length bs) = bs"
  by (rule be_nat_inject) (simp_all add: be_nat_toBigEndian be_nat_bound)

lemma push_or_nat: "push_bit 8 (n :: nat) OR unat (b :: byte) = n * 256 + unat b"
proof -
  have "take_bit 8 (unat b) = unat b"
    by (simp add: take_bit_nat_eq_self)
  then have "push_bit 8 n OR unat b = push_bit 8 n + unat b"
    by (metis disjunctive_add bit_push_bit_iff bit_take_bit_iff linorder_not_le)
  then show ?thesis
    by (simp add: push_bit_eq_mult)
qed

lemma fromBigEndian_bigint_be_nat [codec_simps]: "fromBigEndian_bigint bs = be_nat bs"
  by (simp add: fromBigEndian_bigint_def be_nat_def push_or_nat)

lemma fromBigEndian_snoc [simp]:
  "(fromBigEndian (bs @ [b]) :: 'a::len word) = push_bit 8 (fromBigEndian bs) OR ucast b"
  by (simp add: fromBigEndian_def)

lemma fromBigEndian_Nil [simp]: "fromBigEndian [] = 0"
  by (simp add: fromBigEndian_def)

lemma push_or_word: "push_bit 8 (w :: 'a::len word) OR ucast (b :: byte) = w * 256 + ucast b"
proof -
  have "push_bit 8 w AND ucast b = 0"
    by (rule bit_word_eqI) (auto simp: bit_simps dest: bit_imp_le_length)
  then have "push_bit 8 w OR ucast b = push_bit 8 w + ucast b"
    by (simp add: disjunctive_add_eq_or)
  then show ?thesis
    by (simp add: push_bit_eq_mult)
qed

lemma fromBigEndian_of_nat: "(fromBigEndian bs :: 'a::len word) = of_nat (be_nat bs)"
proof (induction bs rule: rev_induct)
  case Nil
  show ?case by simp
next
  case (snoc b bs)
  then show ?case by (simp add: push_or_word unsigned_of_nat)
qed

lemma unat_fromBigEndian [codec_simps]:
  "unat (fromBigEndian bs :: 'a::len word) = be_nat bs mod 2 ^ LENGTH('a)"
  by (simp add: fromBigEndian_of_nat unat_of_nat take_bit_eq_mod)

lemma bytesRequired_0 [simp]: "bytesRequired 0 = 0"
  by (simp add: bytesRequired.simps)

lemma bytesRequired_pos: "0 < n \<Longrightarrow> bytesRequired n = Suc (bytesRequired (n div 256))"
  by (simp add: bytesRequired.simps [of n])

lemma bytesRequired_gt_0 [simp]: "0 < bytesRequired n \<longleftrightarrow> 0 < n"
  by (simp add: bytesRequired.simps [of n])

lemma bytesRequired_le_iff: "bytesRequired n \<le> k \<longleftrightarrow> n < 256 ^ k"
proof (induction n arbitrary: k rule: bytesRequired.induct)
  case (1 n)
  show ?case
  proof (cases "n = 0")
    case True
    then show ?thesis by simp
  next
    case n: False
    show ?thesis
    proof (cases k)
      case 0
      with n show ?thesis by (simp add: bytesRequired_pos)
    next
      case (Suc k')
      with 1 n show ?thesis
        by (simp add: bytesRequired_pos) (metis div_less_iff_less_mult mult.commute zero_less_numeral)
    qed
  qed
qed

lemma less_pow_bytesRequired: "n < 256 ^ bytesRequired n"
  by (simp flip: bytesRequired_le_iff)

lemma bytesRequired_unique: "bs \<noteq> [] \<Longrightarrow> hd bs \<noteq> 0 \<Longrightarrow> bytesRequired (be_nat bs) = length bs"
proof (rule antisym)
  show "bytesRequired (be_nat bs) \<le> length bs"
    by (simp add: bytesRequired_le_iff be_nat_bound)
  assume "bs \<noteq> []" "hd bs \<noteq> 0"
  then have "\<not> be_nat bs < 256 ^ (length bs - 1)"
    using be_nat_lower by (simp add: linorder_not_less)
  then show "length bs \<le> bytesRequired (be_nat bs)"
    by (simp flip: bytesRequired_le_iff)
qed

lemma hd_toBigEndian_bytesRequired: "0 < n \<Longrightarrow> hd (toBigEndian n (bytesRequired n)) \<noteq> 0"
proof
  assume n: "0 < n" and z: "hd (toBigEndian n (bytesRequired n)) = 0"
  let ?b = "toBigEndian n (bytesRequired n)"
  have "be_nat ?b = n"
    by (simp add: be_nat_toBigEndian less_pow_bytesRequired)
  moreover have "?b = 0 # tl ?b"
    using n z by (metis bytesRequired_pos length_toBigEndian list.collapse list.size(3) nat.distinct(1))
  ultimately have "n = be_nat (tl ?b)"
    by (metis add_0 be_nat_Cons mult_zero_left unsigned_0)
  also have "\<dots> < 256 ^ (bytesRequired n - 1)"
    using be_nat_bound [of "tl ?b"] by simp
  finally have "bytesRequired n \<le> bytesRequired n - 1"
    by (simp add: bytesRequired_le_iff)
  with n show False by (simp add: bytesRequired_pos)
qed

lemma toBigEndian_compact: "bs = [] \<or> hd bs \<noteq> 0 \<Longrightarrow> toBigEndian (be_nat bs) (bytesRequired (be_nat bs)) = bs"
  by (cases "bs = []") (auto simp: bytesRequired_unique toBigEndian_be_nat)

lemma bytesRequired_mono: "m \<le> n \<Longrightarrow> bytesRequired m \<le> bytesRequired n"
  by (meson bytesRequired_le_iff le_less_trans less_pow_bytesRequired)

section \<open>Facts on hexadecimal text\<close>

lemma fromHexChar_hexdigits: "n < 16 \<Longrightarrow> fromHexChar (hexdigits ! n) = int n"
proof -
  have "\<forall>n \<in> set [0..<16]. fromHexChar (hexdigits ! n) = int n"
    by code_simp
  then show "n < 16 \<Longrightarrow> fromHexChar (hexdigits ! n) = int n"
    by simp
qed

lemma high_nibble: "unat (drop_bit 4 b) mod 16 = unat (b :: byte) div 16"
proof -
  have "unat b div 16 < 16"
    using unat_byte_lt [of b] by linarith
  then show ?thesis
    by (simp add: unat_drop_bit_eq) (simp add: drop_bit_eq_div)
qed

lemma low_nibble: "unat (b AND 0x0f) = unat (b :: byte) mod 16"
proof -
  have "b AND 0x0f = take_bit 4 b"
    by (simp add: take_bit_eq_mask mask_eq_exp_minus_1)
  then show ?thesis
    by (simp only: unsigned_take_bit_eq) (simp add: take_bit_eq_mod)
qed

lemma hex_pair_value:
  "word_of_int (int (unat (b :: byte) div 16) * 16 + int (unat b mod 16)) = b"
proof -
  have "int (unat b div 16) * 16 + int (unat b mod 16) = int (unat b)"
    by presburger
  then show ?thesis by simp
qed

lemma toHex_Nil [simp]: "toHex [] p = p"
  by (simp add: toHex_def)

lemma toHex_Cons:
  "toHex (b # bs) p = p @ [hexdigits ! (unat b div 16), hexdigits ! (unat b mod 16)] @ toHex bs ''''"
  by (simp add: toHex_def high_nibble low_nibble)

lemma length_toHex [simp]: "length (toHex bs p) = length p + 2 * length bs"
  by (induction bs arbitrary: p) (simp_all add: toHex_Cons)

lemma fromHex_pairs_toHex: "fromHex_pairs t ret (toHex bs '''') = Inr (ret @ bs)"
proof (induction bs arbitrary: ret)
  case Nil
  show ?case by simp
next
  case (Cons b bs)
  have "unat b div 16 < 16" "unat b mod 16 < 16"
    using unat_byte_lt [of b] by linarith+
  then have "fromHexChar (hexdigits ! (unat b div 16)) = int (unat b div 16)"
    "fromHexChar (hexdigits ! (unat b mod 16)) = int (unat b mod 16)"
    by (simp_all only: fromHexChar_hexdigits)
  then show ?case
    using Cons hex_pair_value [of b] by (simp add: toHex_Cons Let_def)
qed

lemma hexdigits_not_x: "n < 16 \<Longrightarrow> hexdigits ! n \<noteq> CHR ''x''"
proof -
  have "\<forall>n \<in> set [0..<16]. hexdigits ! n \<noteq> CHR ''x''"
    by code_simp
  then show "n < 16 \<Longrightarrow> hexdigits ! n \<noteq> CHR ''x''"
    by simp
qed

lemma toHex_no_prefix: "bs \<noteq> [] \<Longrightarrow> toHex bs '''' ! 1 \<noteq> CHR ''x''"
  by (cases bs) (simp_all add: toHex_Cons hexdigits_not_x)

lemma toHex_prefix_eq: "toHex bs p = p @ toHex bs ''''"
  by (simp add: toHex_def)

text \<open>(C22) Hexadecimal text round-trips: decoding what \<open>toHex\<close> printed, with or without the \<open>0x\<close>
  prefix and in both error modes, gives back the bytes.\<close>

theorem fromHex_toHex:
  "fromHex (toHex bs '''') t = Inr bs \<and> fromHex (toHex bs ''0x'') t = Inr bs"
proof (cases bs)
  case Nil
  then show ?thesis by (simp add: fromHex_def)
next
  case (Cons b bs')
  have "fromHex (toHex bs '''') t = Inr bs"
    using toHex_no_prefix [of bs] Cons by (auto simp: fromHex_def fromHex_pairs_toHex)
  moreover have "fromHex (toHex bs ''0x'') t = Inr bs"
    by (simp add: fromHex_def toHex_prefix_eq [of bs "''0x''"] fromHex_pairs_toHex)
  ultimately show ?thesis ..
qed

lemma fromHex_pairs_throw_dont:
  "fromHex_pairs DontThrow ret s = (case fromHex_pairs Throw ret s of Inl _ \<Rightarrow> Inr [] | Inr bs \<Rightarrow> Inr bs)"
  by (induction DontThrow ret s rule: fromHex_pairs.induct) (auto simp: Let_def)

text \<open>The lenient mode of \<open>fromHex\<close> gives exactly the strict result, except that where the strict mode
  throws on a bad character the lenient one returns no bytes at all (the header documents that bad
  characters become zeros).\<close>

theorem fromHex_lenient:
  "fromHex s DontThrow = (case fromHex s Throw of Inl BadHexCharacter \<Rightarrow> Inr [] | Inr bs \<Rightarrow> Inr bs)"
  by (auto simp: fromHex_def Let_def fromHex_pairs_throw_dont split: sum.split hex_error.split)

section \<open>Properties of big-endian integers\<close>

text \<open>The compact big-endian form of a number decodes to that number, has exactly
  \<open>bytesRequired\<close> bytes and never starts with a zero byte, and it is the only byte string with
  no leading zero that decodes to it.\<close>

theorem toCompactBigEndian_canonical:
  "fromBigEndian_bigint (toCompactBigEndian v 0) = v \<and>
   length (toCompactBigEndian v 0) = bytesRequired v \<and>
   (v \<noteq> 0 \<longrightarrow> hd (toCompactBigEndian v 0) \<noteq> 0) \<and>
   (\<forall>bs. (bs = [] \<or> hd bs \<noteq> 0) \<and> fromBigEndian_bigint bs = v \<longrightarrow> bs = toCompactBigEndian v 0)"
  by (auto simp: toCompactBigEndian_def codec_simps less_pow_bytesRequired hd_toBigEndian_bytesRequired
      toBigEndian_compact)

lemma u256_roundtrip: "(fromBigEndian (toBigEndian (unat v) 32) :: u256) = v"
proof -
  have "unat v < 2 ^ 256"
    using unsigned_less [of v] by simp
  then show ?thesis
    by (simp add: fromBigEndian_of_nat be_nat_toBigEndian)
qed

lemma fromBigEndian_inject:
  assumes "length xs = 32" "length ys = 32" "(fromBigEndian xs :: u256) = fromBigEndian ys"
  shows "xs = ys"
proof (rule be_nat_inject)
  show "length xs = length ys" using assms by simp
  have "be_nat xs < 2 ^ 256" "be_nat ys < 2 ^ 256"
    using be_nat_bound [of xs] be_nat_bound [of ys] assms by simp_all
  moreover have "be_nat xs mod 2 ^ 256 = be_nat ys mod 2 ^ 256"
    using arg_cong [OF assms(3), of unat] by (simp add: unat_fromBigEndian)
  ultimately show "be_nat xs = be_nat ys" by simp
qed

section \<open>Properties of the integer helpers\<close>

lemma u2s_sint: "u2s u = sint u"
proof -
  have "sint u = take_bit 256 (uint u) - 2 ^ 256 * of_bool (bit (uint u) 255)"
    by (simp add: sint_uint signed_take_bit_eq_take_bit_minus)
  also have "take_bit 256 (uint u) = uint u"
    using uint_lt2p [of u] by (simp add: take_bit_int_eq_self_iff)
  finally show ?thesis
    by (simp add: u2s_def bit_uint_iff)
qed

lemma toLog2_loop_bounds:
  "0 < x \<Longrightarrow> 2 ^ ret * x \<le> y \<Longrightarrow> y < 2 ^ ret * (x + 1) \<Longrightarrow>
   2 ^ toLog2_loop x ret \<le> y \<and> y < 2 ^ Suc (toLog2_loop x ret)"
proof (induction x ret rule: toLog2_loop.induct)
  case (1 x ret)
  show ?case
  proof (cases "x div 2 = 0")
    case True
    with 1 have "x = 1" by linarith
    with 1 show ?thesis by (simp add: toLog2_loop.simps [of "Suc 0"])
  next
    case False
    have "2 ^ Suc ret * (x div 2) \<le> 2 ^ ret * x"
      by simp
    moreover have "2 ^ ret * (x + 1) \<le> 2 ^ ret * (2 * (x div 2 + 1))"
      by (rule mult_le_mono2) simp
    then have "2 ^ ret * (x + 1) \<le> 2 ^ Suc ret * (x div 2 + 1)"
      by simp
    ultimately have "2 ^ Suc ret * (x div 2) \<le> y" "y < 2 ^ Suc ret * (x div 2 + 1)"
      using 1 by linarith+
    with 1 False show ?thesis by (simp add: toLog2_loop.simps [of x])
  qed
qed

text \<open>\<open>u2s\<close> reads a \<open>u256\<close> as a two's-complement number, its values are exactly those of 256 bits,
  and \<open>s2u\<close> is its inverse.\<close>

theorem u2s_s2u:
  "s2u (u2s u) = u \<and> - (2 ^ 255) \<le> u2s u \<and> u2s u < 2 ^ 255 \<and>
   (- (2 ^ 255) \<le> i \<and> i < 2 ^ 255 \<longrightarrow> u2s (s2u i) = i)"
proof -
  have s2u: "s2u i = word_of_int i" for i
    unfolding s2u_def by (rule word_uint_eqI) (simp add: uint_word_of_int del: of_int_add)
  show ?thesis
    using sint_ge [of u] sint_lt [of u]
    by (simp add: u2s_sint s2u signed_of_int signed_take_bit_int_eq_self)
qed

theorem u2s_s2u_witness: "u2s (s2u (- 5)) = - 5 \<and> s2u (u2s 7) = 7"
  using u2s_s2u [of 7 "- 5"] by simp

text \<open>\<open>toLog2\<close> is the integer logarithm rounded down. The comment in \<open>Common.h\<close> promises the least
  \<open>n\<close> with \<open>2 ^ n \<ge> x\<close>, which differs for every \<open>x\<close> that is no power of two, such as 3.\<close>

theorem toLog2_floor:
  "(x \<noteq> 0 \<longrightarrow> 2 ^ toLog2 x \<le> unat x \<and> unat x < 2 ^ Suc (toLog2 x)) \<and>
   toLog2 3 = 1 \<and> \<not> 2 ^ toLog2 3 \<ge> (3 :: nat)"
proof -
  have "toLog2 3 = 1"
    by (simp add: toLog2_def toLog2_loop.simps [of 3] toLog2_loop.simps [of "Suc 0"])
  moreover have "x \<noteq> 0 \<Longrightarrow> 2 ^ toLog2 x \<le> unat x \<and> unat x < 2 ^ Suc (toLog2 x)"
    unfolding toLog2_def by (rule toLog2_loop_bounds) (simp_all add: unat_gt_0)
  ultimately show ?thesis by simp
qed

theorem toLog2_floor_witness: "2 ^ toLog2 1000 \<le> unat (1000 :: u256)"
  using toLog2_floor [of 1000] by simp

end
