(* ===== verification/Rlp.thy ===== *)
theory Rlp
  imports CommonData
begin

text \<open>
  The RLP reader: class \<open>RLP\<close> of \<open>libdevcore/RLP.h\<close> and \<open>libdevcore/RLP.cpp\<close>, over the byte views of
  \<open>libdevcore/vector_ref.h\<close>. An \<open>RLP\<close> object is a view of bytes plus a cache for indexed access; the
  operations that read only the view take the bytes, those that use the cache take the record.
  Sizes (\<open>size_t\<close>) are natural numbers; where the code computes a size by shifting, it does so in a
  64-bit word. Reading through the null pointer of an empty view is the error \<open>NullRead\<close>.
\<close>

datatype rlp_error = BadRLP | BadCast | OversizeRLP | UndersizeRLP | RLPException | NullRead

section \<open>Views and constants\<close>

definition cropped :: "nat \<Rightarrow> nat \<Rightarrow> bytes \<Rightarrow> bytes" where
  "cropped begn cnt d =
     (if begn \<le> length d \<and> cnt \<le> length d \<and> begn + cnt \<le> length d then slice begn cnt d else [])"

definition cropped_from :: "nat \<Rightarrow> bytes \<Rightarrow> bytes" where
  "cropped_from begn d = (if begn \<le> length d then drop begn d else [])"

definition c_rlpMaxLengthBytes :: nat where "c_rlpMaxLengthBytes = 8"

definition c_rlpDataImmLenStart :: nat where "c_rlpDataImmLenStart = 0x80"

definition c_rlpListStart :: nat where "c_rlpListStart = 0xc0"

definition c_rlpDataImmLenCount :: nat where
  "c_rlpDataImmLenCount = c_rlpListStart - c_rlpDataImmLenStart - c_rlpMaxLengthBytes"

definition c_rlpDataIndLenZero :: nat where
  "c_rlpDataIndLenZero = c_rlpDataImmLenStart + c_rlpDataImmLenCount - 1"

definition c_rlpListImmLenCount :: nat where
  "c_rlpListImmLenCount = 256 - c_rlpListStart - c_rlpMaxLengthBytes"

definition c_rlpListIndLenZero :: nat where
  "c_rlpListIndLenZero = c_rlpListStart + c_rlpListImmLenCount - 1"

lemmas rlp_consts = c_rlpMaxLengthBytes_def c_rlpDataImmLenStart_def c_rlpListStart_def
  c_rlpDataImmLenCount_def c_rlpDataIndLenZero_def c_rlpListImmLenCount_def c_rlpListIndLenZero_def

text \<open>The bit flags of \<open>RLP::Strictness\<close>.\<close>

record rlp_flags =
  AllowNonCanon :: bool
  ThrowOnFail :: bool
  FailIfTooBig :: bool
  FailIfTooSmall :: bool

definition Strict :: rlp_flags where
  "Strict = \<lparr>AllowNonCanon = False, ThrowOnFail = True, FailIfTooBig = True, FailIfTooSmall = False\<rparr>"

definition VeryStrict :: rlp_flags where
  "VeryStrict = \<lparr>AllowNonCanon = False, ThrowOnFail = True, FailIfTooBig = True, FailIfTooSmall = True\<rparr>"

definition LaissezFaire :: rlp_flags where
  "LaissezFaire = \<lparr>AllowNonCanon = True, ThrowOnFail = False, FailIfTooBig = False, FailIfTooSmall = False\<rparr>"

definition ThrowTooSmall :: rlp_flags where
  "ThrowTooSmall = \<lparr>AllowNonCanon = False, ThrowOnFail = True, FailIfTooBig = False, FailIfTooSmall = True\<rparr>"

section \<open>Shape of an item\<close>

definition isNull :: "bytes \<Rightarrow> bool" where
  "isNull d = (d = [])"

definition isEmpty :: "bytes \<Rightarrow> bool" where
  "isEmpty d = (\<not> isNull d \<and> (unat (d ! 0) = c_rlpDataImmLenStart \<or> unat (d ! 0) = c_rlpListStart))"

definition isData :: "bytes \<Rightarrow> bool" where
  "isData d = (\<not> isNull d \<and> unat (d ! 0) < c_rlpListStart)"

definition isList :: "bytes \<Rightarrow> bool" where
  "isList d = (\<not> isNull d \<and> unat (d ! 0) \<ge> c_rlpListStart)"

definition isSingleByte :: "bytes \<Rightarrow> bool" where
  "isSingleByte d = (\<not> isNull d \<and> unat (d ! 0) < c_rlpDataImmLenStart)"

definition requireGood :: "bytes \<Rightarrow> rlp_error + unit" where
  "requireGood d =
     (if isNull d then Inl BadRLP
      else if unat (d ! 0) \<noteq> c_rlpDataImmLenStart + 1 then Inr ()
      else if length d < 2 then Inl BadRLP
      else if unat (d ! 1) < c_rlpDataImmLenStart then Inl BadRLP
      else Inr ())"

definition isInt :: "bytes \<Rightarrow> rlp_error + bool" where
  "isInt d =
     (if isNull d then Inr False
      else ebind (requireGood d) (\<lambda>_.
        let n = unat (d ! 0) in
        if n < c_rlpDataImmLenStart then Inr (n \<noteq> 0)
        else if n = c_rlpDataImmLenStart then Inr True
        else if n \<le> c_rlpDataIndLenZero then
          (if length d \<le> 1 then Inl BadRLP else Inr (d ! 1 \<noteq> 0))
        else if n < c_rlpListStart then
          (if length d \<le> 1 + n - c_rlpDataIndLenZero then Inl BadRLP
           else Inr (d ! (1 + n - c_rlpDataIndLenZero) \<noteq> 0))
        else Inr False))"

definition lengthSize :: "bytes \<Rightarrow> nat" where
  "lengthSize d =
     (if isData d \<and> unat (d ! 0) > c_rlpDataIndLenZero then unat (d ! 0) - c_rlpDataIndLenZero
      else if isList d \<and> unat (d ! 0) > c_rlpListIndLenZero then unat (d ! 0) - c_rlpListIndLenZero
      else 0)"

definition payloadOffset :: "bytes \<Rightarrow> nat" where
  "payloadOffset d = (if isSingleByte d then 0 else 1 + lengthSize d)"

text \<open>
  The two long forms (a string or a list whose length has a length) run the same code up to the
  constants: \<open>ls\<close> is the number of length bytes and \<open>limit\<close> the least length that needs them.
\<close>

definition longLength :: "nat \<Rightarrow> nat \<Rightarrow> bytes \<Rightarrow> rlp_error + nat" where
  "longLength ls limit d =
     (if length d \<le> ls then Inl BadRLP
      else if length d > 1 \<and> d ! 1 = 0 then Inl BadRLP
      else if ls > 8 then Inl UndersizeRLP
      else if d ! 1 = 0 then Inl BadRLP
      else
        (let ret = unat (fromBigEndian (slice 1 ls d) :: u64) in
         if ret < limit then Inl BadRLP
         else if ret \<ge> 2 ^ 64 - 1 - 0x100 then Inl UndersizeRLP
         else Inr ret))"

definition rlp_length :: "bytes \<Rightarrow> rlp_error + nat" where
  "rlp_length d =
     (if isNull d then Inr 0
      else ebind (requireGood d) (\<lambda>_.
        let n = unat (d ! 0) in
        if n < c_rlpDataImmLenStart then Inr 1
        else if n \<le> c_rlpDataIndLenZero then Inr (n - c_rlpDataImmLenStart)
        else if n < c_rlpListStart then
          longLength (n - c_rlpDataIndLenZero) (c_rlpListStart - c_rlpDataImmLenStart - c_rlpMaxLengthBytes) d
        else if n \<le> c_rlpListIndLenZero then Inr (n - c_rlpListStart)
        else longLength (n - c_rlpListIndLenZero) (0x100 - c_rlpListStart - c_rlpMaxLengthBytes) d))"

definition actualSize :: "bytes \<Rightarrow> rlp_error + nat" where
  "actualSize d =
     (if isNull d then Inr 0
      else if isSingleByte d then Inr 1
      else if isData d \<or> isList d then ebind (rlp_length d) (\<lambda>l. Inr (payloadOffset d + l))
      else Inr 0)"

definition payload :: "bytes \<Rightarrow> rlp_error + bytes" where
  "payload d = ebind (rlp_length d) (\<lambda>l.
     if l > length d then Inl BadRLP else Inr (cropped (payloadOffset d) l d))"

section \<open>Construction\<close>

definition RLP_ctor :: "bytes \<Rightarrow> rlp_flags \<Rightarrow> rlp_error + bytes" where
  "RLP_ctor d s =
     ebind (if FailIfTooBig s
            then ebind (actualSize d) (\<lambda>a. if a < length d
                   then (if ThrowOnFail s then Inl OversizeRLP else Inr [])
                   else Inr d)
            else Inr d) (\<lambda>m.
     if FailIfTooSmall s
     then ebind (actualSize m) (\<lambda>a. if a > length d
            then (if ThrowOnFail s then Inl UndersizeRLP else Inr [])
            else Inr m)
     else Inr m)"

definition sizeAsEncoded :: "bytes \<Rightarrow> rlp_error + nat" where
  "sizeAsEncoded d = ebind (RLP_ctor d ThrowTooSmall) actualSize"

section \<open>Conversions of single items\<close>

text \<open>
  \<open>toBytes\<close> copies \<open>length()\<close> bytes from the start of the payload view. When the payload does not fit
  the view, \<open>cropped\<close> has returned the null view and the copy reads through the null pointer.
\<close>

definition toBytes :: "rlp_flags \<Rightarrow> bytes \<Rightarrow> rlp_error + bytes" where
  "toBytes fl d =
     (if \<not> isData d then (if ThrowOnFail fl then Inl BadCast else Inr [])
      else ebind (payload d) (\<lambda>p. ebind (rlp_length d) (\<lambda>l.
        if length p < l then Inl NullRead else Inr (take l p))))"

definition toBytesConstRef :: "rlp_flags \<Rightarrow> bytes \<Rightarrow> rlp_error + bytes" where
  "toBytesConstRef fl d =
     (if \<not> isData d then (if ThrowOnFail fl then Inl BadCast else Inr [])
      else ebind (payload d) (\<lambda>p. ebind (rlp_length d) (\<lambda>l. Inr (cropped 0 l p))))"

definition rlp_size :: "bytes \<Rightarrow> rlp_error + nat" where
  "rlp_size d = (if isData d then rlp_length d else Inr 0)"

definition sizeStrict :: "bytes \<Rightarrow> rlp_error + nat" where
  "sizeStrict d = (if \<not> isData d then Inl BadCast else rlp_length d)"

text \<open>\<open>toInt<T>\<close> for an unsigned \<open>T\<close> of \<open>LENGTH('a)\<close> bits, and for \<open>bigint\<close>.\<close>

definition toInt :: "rlp_flags \<Rightarrow> bytes \<Rightarrow> rlp_error + 'a::len word" where
  "toInt fl d = ebind (requireGood d) (\<lambda>_. ebind (isInt d) (\<lambda>isint.
     if (\<not> isint \<and> \<not> AllowNonCanon fl) \<or> isList d \<or> isNull d then
       (if ThrowOnFail fl then Inl BadCast else Inr 0)
     else ebind (payload d) (\<lambda>p.
       if length p > LENGTH('a) div 8 \<and> FailIfTooBig fl then
         (if ThrowOnFail fl then Inl BadCast else Inr 0)
       else Inr (fromBigEndian p))))"

definition toInt_bigint :: "rlp_flags \<Rightarrow> bytes \<Rightarrow> rlp_error + nat" where
  "toInt_bigint fl d = ebind (requireGood d) (\<lambda>_. ebind (isInt d) (\<lambda>isint.
     if (\<not> isint \<and> \<not> AllowNonCanon fl) \<or> isList d \<or> isNull d then
       (if ThrowOnFail fl then Inl BadCast else Inr 0)
     else ebind (payload d) (\<lambda>p.
       if length p > 2 ^ 32 - 1 \<and> FailIfTooBig fl then
         (if ThrowOnFail fl then Inl BadCast else Inr 0)
       else Inr (fromBigEndian_bigint p))))"

definition toPositiveInt64 :: "rlp_flags \<Rightarrow> bytes \<Rightarrow> rlp_error + int" where
  "toPositiveInt64 fl d = ebind (toInt fl d) (\<lambda>w :: u64.
     if ThrowOnFail fl \<and> sint w < 0 then Inl BadCast else Inr (sint w))"

text \<open>\<open>toHash<FixedHash<N>>\<close>: right-aligned in \<open>N\<close> zero bytes; a longer payload is cut to its first \<open>N\<close> bytes.\<close>

definition toHash :: "nat \<Rightarrow> rlp_flags \<Rightarrow> bytes \<Rightarrow> rlp_error + bytes" where
  "toHash N fl d = ebind (requireGood d) (\<lambda>_. ebind (payload d) (\<lambda>p.
     let l = length p in
     if \<not> isData d \<or> (l > N \<and> FailIfTooBig fl) \<or> (l < N \<and> FailIfTooSmall fl) then
       (if ThrowOnFail fl then Inl BadCast else Inr (replicate N 0))
     else
       (let s = min N l in Inr (replicate (N - s) 0 @ take s p))))"

section \<open>Access to the items of a list\<close>

lemma actualSize_pos: "d \<noteq> [] \<Longrightarrow> actualSize d = Inr n \<Longrightarrow> 0 < n"
  by (auto simp: actualSize_def isNull_def isData_def isList_def payloadOffset_def result_simps split: if_splits)

lemma RLP_ctor_ThrowTooSmall:
  "RLP_ctor d ThrowTooSmall = ebind (actualSize d) (\<lambda>a. if a > length d then Inl UndersizeRLP else Inr d)"
  by (simp add: RLP_ctor_def ThrowTooSmall_def)

lemma sizeAsEncoded_eq:
  "sizeAsEncoded d = ebind (actualSize d) (\<lambda>a. if a > length d then Inl UndersizeRLP else Inr a)"
  by (cases "actualSize d") (auto simp: sizeAsEncoded_def RLP_ctor_ThrowTooSmall)

lemma sizeAsEncoded_bounds: "sizeAsEncoded d = Inr n \<Longrightarrow> d \<noteq> [] \<Longrightarrow> 0 < n \<and> n \<le> length d"
  by (auto simp: sizeAsEncoded_eq result_simps actualSize_pos split: if_splits)

text \<open>\<open>items()\<close>: the loop that counts the items of a payload.\<close>

function items_loop :: "bytes \<Rightarrow> nat \<Rightarrow> rlp_error + nat" where
  "items_loop d i =
     (if d = [] then Inr i
      else case sizeAsEncoded d of
        Inl e \<Rightarrow> Inl e
      | Inr n \<Rightarrow> items_loop (cropped_from n d) (Suc i))"
  by pat_completeness auto
termination
  by (relation "measure (\<lambda>(d, i). length d)") (auto simp: cropped_from_def dest!: sizeAsEncoded_bounds)

declare items_loop.simps [simp del]

definition items :: "bytes \<Rightarrow> rlp_error + nat" where
  "items d = (if isList d then ebind (payload d) (\<lambda>p. items_loop p 0) else Inr 0)"

definition itemCount :: "bytes \<Rightarrow> rlp_error + nat" where
  "itemCount d = (if isList d then items d else Inr 0)"

definition itemCountStrict :: "bytes \<Rightarrow> rlp_error + nat" where
  "itemCountStrict d = (if \<not> isList d then Inl BadCast else items d)"

text \<open>
  The object with its indexing cache. \<open>m_lastIndex\<close> starts at \<open>(size_t)-1\<close>. \<open>rlp_nth\<close> is
  \<open>operator[]\<close>: it returns the item, or the exception, and the object with the cache it leaves behind.
\<close>

record rlp =
  m_data :: bytes
  m_lastIndex :: nat
  m_lastEnd :: nat
  m_lastItem :: bytes

definition rlp_of :: "bytes \<Rightarrow> rlp" where
  "rlp_of d = \<lparr>m_data = d, m_lastIndex = 2 ^ 64 - 1, m_lastEnd = 0, m_lastItem = []\<rparr>"

function nth_advance :: "nat \<Rightarrow> rlp \<Rightarrow> (rlp_error + unit) \<times> rlp" where
  "nth_advance i r =
     (if m_lastIndex r < i \<and> m_lastItem r \<noteq> [] then
        (case payload (m_data r) of
           Inl e \<Rightarrow> (Inl e, r)
         | Inr p \<Rightarrow>
             (let r1 = r\<lparr>m_lastItem := cropped_from (m_lastEnd r) p\<rparr> in
              case sizeAsEncoded (m_lastItem r1) of
                Inl e \<Rightarrow> (Inl e, r1)
              | Inr n \<Rightarrow>
                  (let item = cropped 0 n (m_lastItem r1) in
                   nth_advance i (r1\<lparr>m_lastItem := item, m_lastEnd := m_lastEnd r1 + length item,
                                     m_lastIndex := Suc (m_lastIndex r1)\<rparr>))))
      else (Inr (), r))"
  by pat_completeness auto
termination
  by (relation "measure (\<lambda>(i, r). i - m_lastIndex r)") (auto simp: Let_def)

declare nth_advance.simps [simp del]

definition nth_rewind :: "rlp \<Rightarrow> (rlp_error + unit) \<times> rlp" where
  "nth_rewind r =
     (case payload (m_data r) of
        Inl e \<Rightarrow> (Inl e, r)
      | Inr p \<Rightarrow>
          (case sizeAsEncoded p of
             Inl e \<Rightarrow> (Inl e, r)
           | Inr n \<Rightarrow> (Inr (), r\<lparr>m_lastEnd := n, m_lastItem := cropped 0 n p, m_lastIndex := 0\<rparr>)))"

definition rlp_nth :: "nat \<Rightarrow> rlp \<Rightarrow> (rlp_error + bytes) \<times> rlp" where
  "rlp_nth i r =
     (case (if i < m_lastIndex r then nth_rewind r else (Inr (), r)) of
        (Inl e, r1) \<Rightarrow> (Inl e, r1)
      | (Inr _, r1) \<Rightarrow>
          (case nth_advance i r1 of
             (Inl e, r2) \<Rightarrow> (Inl e, r2)
           | (Inr _, r2) \<Rightarrow> (RLP_ctor (m_lastItem r2) ThrowTooSmall, r2)))"

text \<open>
  The iterator. Its current item is a view into the parent's bytes: a pointer (an offset, or \<open>None\<close>
  for the null pointer) and a count.
\<close>

record rlp_iter =
  it_ptr :: "nat option"
  it_count :: nat
  it_remaining :: nat

definition it_view :: "bytes \<Rightarrow> rlp_iter \<Rightarrow> bytes" where
  "it_view d it = (case it_ptr it of None \<Rightarrow> [] | Some p \<Rightarrow> slice p (it_count it) d)"

definition iter_begin :: "bytes \<Rightarrow> rlp_error + rlp_iter" where
  "iter_begin d =
     (if isList d then
        ebind (rlp_length d) (\<lambda>l.
          if l > length d then Inl BadRLP
          else if payloadOffset d + l \<le> length d then
            ebind (sizeAsEncoded (slice (payloadOffset d) l d)) (\<lambda>n.
              Inr \<lparr>it_ptr = Some (payloadOffset d), it_count = n, it_remaining = l - n\<rparr>)
          else Inr \<lparr>it_ptr = None, it_count = 0, it_remaining = 0\<rparr>)
      else Inr \<lparr>it_ptr = (if isNull d then None else Some (length d)), it_count = 0, it_remaining = 0\<rparr>)"

definition iter_end :: "bytes \<Rightarrow> rlp_iter" where
  "iter_end d = \<lparr>it_ptr = (if isNull d then None else Some (length d)), it_count = 0, it_remaining = 0\<rparr>"

definition iter_eq :: "rlp_iter \<Rightarrow> rlp_iter \<Rightarrow> bool" where
  "iter_eq a b = (it_ptr a = it_ptr b \<and> it_count a = it_count b)"

definition iter_next :: "bytes \<Rightarrow> rlp_iter \<Rightarrow> rlp_error + rlp_iter" where
  "iter_next d it =
     (let p = map_option (\<lambda>p. p + it_count it) (it_ptr it) in
      if it_remaining it \<noteq> 0 then
        ebind (sizeAsEncoded (it_view d (it\<lparr>it_ptr := p, it_count := it_remaining it\<rparr>))) (\<lambda>n.
          Inr \<lparr>it_ptr = p, it_count = n, it_remaining = it_remaining it - min (it_remaining it) n\<rparr>)
      else Inr \<lparr>it_ptr = p, it_count = 0, it_remaining = 0\<rparr>)"

text \<open>
  \<open>for (auto const& i: *this) ret.push_back(conv(i))\<close>. The loop ends when the iterator equals \<open>end()\<close>;
  \<open>None\<close> says that it runs forever.
\<close>

partial_function (option) iter_loop ::
  "(bytes \<Rightarrow> rlp_error + 'a) \<Rightarrow> bytes \<Rightarrow> rlp_iter \<Rightarrow> 'a list \<Rightarrow> (rlp_error + 'a list) option" where
  "iter_loop conv d it ret =
     (if iter_eq it (iter_end d) then Some (Inr ret)
      else case ebind (RLP_ctor (it_view d it) VeryStrict) conv of
        Inl e \<Rightarrow> Some (Inl e)
      | Inr x \<Rightarrow>
          (case iter_next d it of
             Inl e \<Rightarrow> Some (Inl e)
           | Inr it' \<Rightarrow> iter_loop conv d it' (ret @ [x])))"

definition iterate :: "(bytes \<Rightarrow> rlp_error + 'a) \<Rightarrow> bytes \<Rightarrow> (rlp_error + 'a list) option" where
  "iterate conv d = (case iter_begin d of Inl e \<Rightarrow> Some (Inl e) | Inr it \<Rightarrow> iter_loop conv d it [])"

definition toList :: "rlp_flags \<Rightarrow> bytes \<Rightarrow> (rlp_error + bytes list) option" where
  "toList fl d =
     (if \<not> isList d then Some (if ThrowOnFail fl then Inl BadCast else Inr []) else iterate Inr d)"

text \<open>\<open>toVector<T>\<close> and \<open>toSet<T>\<close>, with the conversion of an item to \<open>T\<close> as a parameter.\<close>

definition toVector ::
  "(bytes \<Rightarrow> rlp_flags \<Rightarrow> rlp_error + 'a) \<Rightarrow> rlp_flags \<Rightarrow> bytes \<Rightarrow> (rlp_error + 'a list) option" where
  "toVector conv fl d =
     (if isList d then
        (case itemCount d of Inl e \<Rightarrow> Some (Inl e) | Inr _ \<Rightarrow> iterate (\<lambda>i. conv i fl) d)
      else Some (if ThrowOnFail fl then Inl BadCast else Inr []))"

definition toSet ::
  "(bytes \<Rightarrow> rlp_flags \<Rightarrow> rlp_error + 'a) \<Rightarrow> rlp_flags \<Rightarrow> bytes \<Rightarrow> (rlp_error + 'a set) option" where
  "toSet conv fl d =
     (if isList d then map_option (\<lambda>r. ebind r (\<lambda>xs. Inr (set xs))) (iterate (\<lambda>i. conv i fl) d)
      else Some (if ThrowOnFail fl then Inl BadCast else Inr {}))"

text \<open>\<open>toPair<T, U>\<close> and \<open>toArray<T, N>\<close> index the items through the cache.\<close>

definition toPair ::
  "(bytes \<Rightarrow> rlp_flags \<Rightarrow> rlp_error + 'a) \<Rightarrow> (bytes \<Rightarrow> rlp_flags \<Rightarrow> rlp_error + 'b) \<Rightarrow> 'a \<times> 'b \<Rightarrow>
   rlp_flags \<Rightarrow> rlp \<Rightarrow> (rlp_error + 'a \<times> 'b) \<times> rlp" where
  "toPair conv1 conv2 dflt fl r =
     (case itemCountStrict (m_data r) of
        Inl e \<Rightarrow> (Inl e, r)
      | Inr n \<Rightarrow>
          if n \<noteq> 2 then (if ThrowOnFail fl then Inl BadCast else Inr dflt, r)
          else (case rlp_nth 0 r of
              (Inl e, r1) \<Rightarrow> (Inl e, r1)
            | (Inr i0, r1) \<Rightarrow>
                (case conv1 i0 fl of
                   Inl e \<Rightarrow> (Inl e, r1)
                 | Inr a \<Rightarrow>
                     (case rlp_nth 1 r1 of
                        (Inl e, r2) \<Rightarrow> (Inl e, r2)
                      | (Inr i1, r2) \<Rightarrow> (ebind (conv2 i1 fl) (\<lambda>b. Inr (a, b)), r2)))))"

fun toArray_loop ::
  "(bytes \<Rightarrow> rlp_flags \<Rightarrow> rlp_error + 'a) \<Rightarrow> rlp_flags \<Rightarrow> nat list \<Rightarrow> rlp \<Rightarrow> 'a list \<Rightarrow> (rlp_error + 'a list) \<times> rlp" where
  "toArray_loop conv fl [] r ret = (Inr ret, r)"
| "toArray_loop conv fl (i # is) r ret =
     (case rlp_nth i r of
        (Inl e, r1) \<Rightarrow> (Inl e, r1)
      | (Inr x, r1) \<Rightarrow>
          (case conv x fl of
             Inl e \<Rightarrow> (Inl e, r1)
           | Inr a \<Rightarrow> toArray_loop conv fl is r1 (ret @ [a])))"

definition toArray ::
  "(bytes \<Rightarrow> rlp_flags \<Rightarrow> rlp_error + 'a) \<Rightarrow> 'a \<Rightarrow> nat \<Rightarrow> rlp_flags \<Rightarrow> rlp \<Rightarrow> (rlp_error + 'a list) \<times> rlp" where
  "toArray conv dflt N fl r =
     (case itemCountStrict (m_data r) of
        Inl e \<Rightarrow> (Inl e, r)
      | Inr n \<Rightarrow>
          if n \<noteq> N then (if ThrowOnFail fl then Inl BadCast else Inr (replicate N dflt), r)
          else toArray_loop conv fl [0..<N] r [])"

end
