(* ===== verification/RlpStream.thy ===== *)
theory RlpStream
  imports Rlp
begin

text \<open>
  The RLP writer: class \<open>RLPStream\<close> of \<open>libdevcore/RLP.h\<close> and \<open>libdevcore/RLP.cpp\<close>. \<open>m_listStack\<close> holds, for
  every list that is still open, the number of items it waits for and the offset of its payload; its
  \<open>back()\<close> is the head of the list here. A list's header is inserted when its last item arrives.
\<close>

record rlp_stream =
  m_out :: bytes
  m_listStack :: "(nat \<times> nat) list"

definition RLPStream_new :: rlp_stream where
  "RLPStream_new = \<lparr>m_out = [], m_listStack = []\<rparr>"

text \<open>\<open>pushInt\<close> writes \<open>i\<close> into \<open>br\<close> fresh bytes; every caller passes \<open>br = bytesRequired i\<close>.\<close>

definition pushInt :: "nat \<Rightarrow> nat \<Rightarrow> rlp_stream \<Rightarrow> rlp_stream" where
  "pushInt i br s = s\<lparr>m_out := m_out s @ toBigEndian i br\<rparr>"

definition push_back :: "byte \<Rightarrow> rlp_stream \<Rightarrow> rlp_stream" where
  "push_back b s = s\<lparr>m_out := m_out s @ [b]\<rparr>"

definition pushCount :: "nat \<Rightarrow> nat \<Rightarrow> rlp_stream \<Rightarrow> rlp_error + rlp_stream" where
  "pushCount cnt base s =
     (let br = bytesRequired cnt in
      if br + base > 0xff then Inl RLPException
      else Inr (pushInt cnt br (push_back (of_nat (br + base)) s)))"

text \<open>
  One turn of the loop of \<open>noteAppended\<close> closes the innermost list: the payload from offset \<open>p\<close> is
  moved up and the header written before it.
\<close>

definition closeList :: "nat \<Rightarrow> bytes \<Rightarrow> rlp_error + bytes" where
  "closeList p out =
     (let s = length out - p;
          brs = bytesRequired s in
      if s < c_rlpListImmLenCount then
        Inr (take p out @ [of_nat (c_rlpListStart + s)] @ drop p out)
      else if c_rlpListIndLenZero + brs \<le> 0xff then
        Inr (take p out @ [of_nat (c_rlpListIndLenZero + brs)] @ toBigEndian s brs @ drop p out)
      else Inl RLPException)"

fun noteAppended_loop :: "nat \<Rightarrow> bytes \<Rightarrow> (nat \<times> nat) list \<Rightarrow> rlp_error + rlp_stream" where
  "noteAppended_loop cnt out [] = Inr \<lparr>m_out = out, m_listStack = []\<rparr>"
| "noteAppended_loop cnt out ((n, p) # st) =
     (if n < cnt then Inl RLPException
      else if n - cnt \<noteq> 0 then Inr \<lparr>m_out = out, m_listStack = (n - cnt, p) # st\<rparr>
      else ebind (closeList p out) (\<lambda>out'. noteAppended_loop 1 out' st))"

definition noteAppended :: "nat \<Rightarrow> rlp_stream \<Rightarrow> rlp_error + rlp_stream" where
  "noteAppended cnt s = (if cnt = 0 then Inr s else noteAppended_loop cnt (m_out s) (m_listStack s))"

definition appendRaw :: "bytes \<Rightarrow> nat \<Rightarrow> rlp_stream \<Rightarrow> rlp_error + rlp_stream" where
  "appendRaw bs itemCnt s = noteAppended itemCnt (s\<lparr>m_out := m_out s @ bs\<rparr>)"

definition appendList_bytes :: "bytes \<Rightarrow> rlp_stream \<Rightarrow> rlp_error + rlp_stream" where
  "appendList_bytes rlp s =
     ebind (if length rlp < c_rlpListImmLenCount
            then Inr (push_back (of_nat (length rlp + c_rlpListStart)) s)
            else pushCount (length rlp) c_rlpListIndLenZero s) (appendRaw rlp 1)"

definition appendList :: "nat \<Rightarrow> rlp_stream \<Rightarrow> rlp_error + rlp_stream" where
  "appendList cnt s =
     (if cnt \<noteq> 0 then Inr (s\<lparr>m_listStack := (cnt, length (m_out s)) # m_listStack s\<rparr>)
      else appendList_bytes [] s)"

text \<open>With \<open>compact\<close>, leading zero bytes are skipped. Only a one-byte string below \<open>0x80\<close> has no header.\<close>

definition append_bytes :: "bytes \<Rightarrow> bool \<Rightarrow> rlp_stream \<Rightarrow> rlp_error + rlp_stream" where
  "append_bytes bs compact s =
     (let d = (if compact then dropWhile (\<lambda>b. b = 0) bs else bs) in
      ebind (if length d = 1 \<and> unat (d ! 0) < c_rlpDataImmLenStart then Inr (push_back (d ! 0) s)
             else ebind (if length d < c_rlpDataImmLenCount
                         then Inr (push_back (of_nat (length d + c_rlpDataImmLenStart)) s)
                         else pushCount (length d) c_rlpDataIndLenZero s) (appendRaw d 0))
        (noteAppended 1))"

text \<open>\<open>append(bigint)\<close>, of which the \<open>unsigned\<close>, \<open>u160\<close> and \<open>u256\<close> overloads are instances; no caller passes a
  negative number.\<close>

definition append_bigint :: "nat \<Rightarrow> rlp_stream \<Rightarrow> rlp_error + rlp_stream" where
  "append_bigint i s =
     ebind (if i = 0 then Inr (push_back (of_nat c_rlpDataImmLenStart) s)
            else if i < c_rlpDataImmLenStart then Inr (push_back (of_nat i) s)
            else
              (let br = bytesRequired i in
               ebind (if br < c_rlpDataImmLenCount then Inr (push_back (of_nat (br + c_rlpDataImmLenStart)) s)
                      else
                        (let brbr = bytesRequired br in
                         if c_rlpDataIndLenZero + brbr > 0xff then Inl RLPException
                         else Inr (pushInt br brbr (push_back (of_nat (c_rlpDataIndLenZero + brbr)) s))))
                 (\<lambda>s1. Inr (pushInt i br s1))))
       (noteAppended 1)"

text \<open>\<open>append(FixedHash<N>, compact, allOrNothing)\<close>.\<close>

definition append_hash :: "bytes \<Rightarrow> bool \<Rightarrow> bool \<Rightarrow> rlp_stream \<Rightarrow> rlp_error + rlp_stream" where
  "append_hash h compact allOrNothing s =
     (if allOrNothing \<and> list_all (\<lambda>b. b = 0) h then append_bytes [] False s else append_bytes h compact s)"

fun append_all :: "('a \<Rightarrow> rlp_stream \<Rightarrow> rlp_error + rlp_stream) \<Rightarrow> 'a list \<Rightarrow> rlp_stream \<Rightarrow> rlp_error + rlp_stream" where
  "append_all app [] s = Inr s"
| "append_all app (x # xs) s = ebind (app x s) (append_all app xs)"

text \<open>\<open>appendVector\<close> and the overloads for arrays, sets and pairs: open a list, append the elements.\<close>

definition appendVector ::
  "('a \<Rightarrow> rlp_stream \<Rightarrow> rlp_error + rlp_stream) \<Rightarrow> 'a list \<Rightarrow> rlp_stream \<Rightarrow> rlp_error + rlp_stream" where
  "appendVector app xs s = ebind (appendList (length xs) s) (append_all app xs)"

definition append_pair ::
  "('a \<Rightarrow> rlp_stream \<Rightarrow> rlp_error + rlp_stream) \<Rightarrow> ('b \<Rightarrow> rlp_stream \<Rightarrow> rlp_error + rlp_stream) \<Rightarrow>
   'a \<times> 'b \<Rightarrow> rlp_stream \<Rightarrow> rlp_error + rlp_stream" where
  "append_pair app1 app2 xy s = ebind (appendList 2 s) (\<lambda>s1. ebind (app1 (fst xy) s1) (app2 (snd xy)))"

definition stream_clear :: "rlp_stream \<Rightarrow> rlp_stream" where
  "stream_clear s = s\<lparr>m_out := [], m_listStack := []\<rparr>"

definition out :: "rlp_stream \<Rightarrow> rlp_error + bytes" where
  "out s = (if m_listStack s \<noteq> [] then Inl RLPException else Inr (m_out s))"

definition swapOut :: "rlp_stream \<Rightarrow> bytes \<Rightarrow> rlp_error + rlp_stream \<times> bytes" where
  "swapOut s dest = (if m_listStack s \<noteq> [] then Inl RLPException else Inr (s\<lparr>m_out := dest\<rparr>, m_out s))"

definition rlpList :: "(rlp_stream \<Rightarrow> rlp_error + rlp_stream) list \<Rightarrow> rlp_error + bytes" where
  "rlpList parts = ebind (ebind (appendList (length parts) RLPStream_new) (append_all (\<lambda>f. f) parts)) out"

end
