(* ===== verification/RlpCodec.thy ===== *)
theory RlpCodec
  imports RlpStream
begin

text \<open>
  What the RLP reader and writer compute, against a reference encoding of trees of byte strings: the
  writer produces exactly the reference encoding, the reader inverts it and accepts nothing else, and
  indexed and iterated access agree with the list of items.
\<close>

section \<open>Reference encoding\<close>

datatype item = Data bytes | List "item list"

definition rlp_header :: "nat \<Rightarrow> nat \<Rightarrow> bytes" where
  "rlp_header base n =
     (if n < 56 then [of_nat (base + n)]
      else of_nat (base + 55 + bytesRequired n) # toBigEndian n (bytesRequired n))"

fun enc :: "item \<Rightarrow> bytes" where
  "enc (Data bs) = (if length bs = 1 \<and> unat (bs ! 0) < 0x80 then bs else rlp_header 0x80 (length bs) @ bs)"
| "enc (List xs) = (let p = concat (map enc xs) in rlp_header 0xc0 (length p) @ p)"

text \<open>Lengths the reader accepts: everything from \<open>2 ^ 64 - 257\<close> on is refused as undersize.\<close>

definition max_rlp :: nat where "max_rlp = 2 ^ 64 - 257"

fun small :: "item \<Rightarrow> bool" where
  "small (Data bs) = (length bs < max_rlp)"
| "small (List xs) = (length (concat (map enc xs)) < max_rlp \<and> list_all small xs)"

section \<open>Headers\<close>

lemma max_rlp_bytes: "n < max_rlp \<Longrightarrow> bytesRequired n \<le> 8"
  by (simp add: bytesRequired_le_iff max_rlp_def)

lemma length_rlp_header: "length (rlp_header b n) = (if n < 56 then 1 else 1 + bytesRequired n)"
  by (simp add: rlp_header_def)

lemma length_rlp_header_pos [simp]: "0 < length (rlp_header b n)"
  by (simp add: rlp_header_def)

lemma rlp_header_ne [simp]: "rlp_header b n \<noteq> []"
  by (simp add: rlp_header_def)

lemma bytesRequired_ge_1: "56 \<le> n \<Longrightarrow> Suc 0 \<le> bytesRequired n"
  by (simp add: Suc_le_eq)

lemma nth_0_header:
  assumes "n < max_rlp" "b = 0x80 \<or> b = 0xc0"
  shows "unat ((rlp_header b n @ r) ! 0) = (if n < 56 then b + n else b + 55 + bytesRequired n)"
  using assms max_rlp_bytes [of n] by (auto simp: rlp_header_def nth_append unat_of_nat)

lemma longLength_header:
  assumes n: "56 \<le> n" "n < max_rlp"
  shows "longLength (bytesRequired n) 56 (rlp_header b n @ r) = Inr n"
proof -
  let ?br = "bytesRequired n" and ?d = "rlp_header b n @ r"
  have br: "1 \<le> ?br" "?br \<le> 8"
    using n by (auto simp: bytesRequired_ge_1 max_rlp_bytes)
  have sl: "slice 1 ?br ?d = toBigEndian n ?br"
    using n by (simp add: rlp_header_def slice_def)
  have v: "unat (fromBigEndian (toBigEndian n ?br) :: u64) = n"
    using n by (simp add: codec_simps less_pow_bytesRequired max_rlp_def)
  have "?d ! 1 = hd (toBigEndian n ?br)"
    using n br by (cases "toBigEndian n ?br") (auto simp: rlp_header_def dest: arg_cong [of _ _ length])
  then have "?d ! 1 \<noteq> 0"
    using n hd_toBigEndian_bytesRequired [of n] by simp
  then show ?thesis
    using n br v sl by (auto simp: longLength_def length_rlp_header max_rlp_def Let_def)
qed

lemma list_header:
  assumes "n < max_rlp"
  shows "rlp_length (rlp_header 0xc0 n @ r) = Inr n"
    and "payloadOffset (rlp_header 0xc0 n @ r) = length (rlp_header 0xc0 n)"
    and "isList (rlp_header 0xc0 n @ r)" and "\<not> isData (rlp_header 0xc0 n @ r)"
proof -
  note h = nth_0_header [OF assms, of "0xc0" r, simplified]
  show "rlp_length (rlp_header 0xc0 n @ r) = Inr n"
  proof (cases "n < 56")
    case True
    then show ?thesis by (simp add: rlp_length_def requireGood_def isNull_def rlp_consts h)
  next
    case False
    then show ?thesis
      using assms longLength_header [of n "0xc0" r] bytesRequired_ge_1 [of n]
      by (simp add: rlp_length_def requireGood_def isNull_def rlp_consts h)
  qed
  show "payloadOffset (rlp_header 0xc0 n @ r) = length (rlp_header 0xc0 n)"
    using bytesRequired_ge_1 [of n]
    by (auto simp: payloadOffset_def isSingleByte_def lengthSize_def isNull_def isData_def isList_def
        rlp_consts h length_rlp_header)
  show "isList (rlp_header 0xc0 n @ r)" "\<not> isData (rlp_header 0xc0 n @ r)"
    by (auto simp: isList_def isData_def isNull_def rlp_consts h)
qed

lemma data_header:
  assumes "n < max_rlp" and good: "n = 1 \<Longrightarrow> r \<noteq> [] \<and> 0x80 \<le> unat (hd r)"
  shows "rlp_length (rlp_header 0x80 n @ r) = Inr n"
    and "payloadOffset (rlp_header 0x80 n @ r) = length (rlp_header 0x80 n)"
    and "isData (rlp_header 0x80 n @ r)" and "\<not> isSingleByte (rlp_header 0x80 n @ r)"
proof -
  note h = nth_0_header [OF assms(1), of "0x80" r, simplified]
  have br: "56 \<le> n \<Longrightarrow> 1 \<le> bytesRequired n" "bytesRequired n \<le> 8"
    using assms by (auto simp: bytesRequired_ge_1 max_rlp_bytes)
  have g: "requireGood (rlp_header 0x80 n @ r) = Inr ()"
    using good br by (cases r) (auto simp: requireGood_def isNull_def rlp_consts h rlp_header_def)
  show "rlp_length (rlp_header 0x80 n @ r) = Inr n"
    using assms longLength_header [of n "0x80" r] br
    by (auto simp: rlp_length_def g isNull_def rlp_consts h Let_def)
  show "payloadOffset (rlp_header 0x80 n @ r) = length (rlp_header 0x80 n)"
    using br
    by (auto simp: payloadOffset_def isSingleByte_def lengthSize_def isNull_def isData_def isList_def
        rlp_consts h length_rlp_header)
  show "isData (rlp_header 0x80 n @ r)" "\<not> isSingleByte (rlp_header 0x80 n @ r)"
    using br by (auto simp: isSingleByte_def isData_def isNull_def rlp_consts h)
qed

text \<open>Conversely, a length that the reader accepts comes from the canonical header.\<close>

lemma longLength_inv:
  assumes "longLength ls 56 d = Inr n" "1 \<le> ls"
  shows "56 \<le> n \<and> n < max_rlp \<and> ls = bytesRequired n \<and> ls < length d \<and> slice 1 ls d = toBigEndian n ls"
proof -
  from assms have ls: "ls \<le> 8" "ls < length d" "d ! 1 \<noteq> 0"
    and n: "n = unat (fromBigEndian (slice 1 ls d) :: u64)" "56 \<le> n" "n < max_rlp"
    by (auto simp: longLength_def max_rlp_def Let_def split: if_splits)
  let ?s = "slice 1 ls d"
  have len: "length ?s = ls"
    using ls by simp
  have "be_nat ?s < 256 ^ ls"
    using be_nat_bound [of ?s] len by simp
  also have "(256 :: nat) ^ ls \<le> 256 ^ 8"
    using ls by (intro power_increasing) auto
  finally have nv: "n = be_nat ?s"
    using n by (simp add: codec_simps)
  have "hd ?s \<noteq> 0"
    using ls assms by (simp add: slice_def hd_take hd_drop_conv_nth)
  moreover have "?s \<noteq> []"
    using len assms(2) by (metis list.size(3) not_one_le_zero)
  ultimately have "bytesRequired n = ls"
    using bytesRequired_unique nv len by metis
  then show ?thesis
    using ls n nv len toBigEndian_be_nat [of ?s] by simp
qed

lemma rlp_length_inv:
  assumes "d \<noteq> []" "rlp_length d = Inr n"
  shows "if isSingleByte d then n = 1
    else n < max_rlp \<and> payloadOffset d \<le> length d \<and>
      take (payloadOffset d) d = rlp_header (if isList d then 0xc0 else 0x80) n"
proof -
  obtain b r where d: "d = b # r" using assms by (cases d) auto
  consider (single) "unat b < 0x80" | (sdata) "0x80 \<le> unat b" "unat b \<le> 0xb7"
    | (ldata) "0xb7 < unat b" "unat b < 0xc0" | (slist) "0xc0 \<le> unat b" "unat b \<le> 0xf7"
    | (llist) "0xf7 < unat b" by linarith
  then show ?thesis
  proof cases
    case single
    then show ?thesis
      using assms d by (auto simp: rlp_length_def isSingleByte_def isNull_def rlp_consts result_simps)
  next
    case sdata
    then show ?thesis
      using assms d by (auto simp: rlp_length_def isSingleByte_def isNull_def isList_def isData_def rlp_consts
          result_simps Let_def payloadOffset_def lengthSize_def rlp_header_def max_rlp_def word_unat_eq_iff unat_of_nat)
  next
    case ldata
    then have l: "longLength (unat b - 0xb7) 56 d = Inr n" "1 \<le> unat b - 0xb7"
      using assms d by (auto simp: rlp_length_def isNull_def rlp_consts result_simps Let_def)
    show ?thesis
      using longLength_inv [OF l] ldata d
      by (auto simp: isSingleByte_def isNull_def isList_def isData_def rlp_consts payloadOffset_def
          lengthSize_def rlp_header_def slice_def word_unat_eq_iff unat_of_nat)
  next
    case slist
    then show ?thesis
      using assms d unat_byte_lt [of b] by (auto simp: rlp_length_def isSingleByte_def isNull_def isList_def isData_def rlp_consts
          result_simps Let_def payloadOffset_def lengthSize_def rlp_header_def max_rlp_def word_unat_eq_iff unat_of_nat)
  next
    case llist
    then have l: "longLength (unat b - 0xf7) 56 d = Inr n" "1 \<le> unat b - 0xf7"
      using assms d by (auto simp: rlp_length_def isNull_def rlp_consts result_simps Let_def)
    show ?thesis
      using longLength_inv [OF l] llist d max_rlp_bytes [of n] unat_byte_lt [of b]
      by (auto simp: isSingleByte_def isNull_def isList_def isData_def rlp_consts payloadOffset_def
          lengthSize_def rlp_header_def slice_def word_unat_eq_iff unat_of_nat)
  qed
qed

section \<open>Reading one item\<close>

lemma actualSize_enc:
  assumes "small it"
  shows "actualSize (enc it @ r) = Inr (length (enc it))"
proof (cases it)
  case (Data bs)
  show ?thesis
  proof (cases "length bs = 1 \<and> unat (bs ! 0) < 0x80")
    case True
    with Data show ?thesis
      by (cases bs) (auto simp: actualSize_def isNull_def isSingleByte_def rlp_consts)
  next
    case False
    have good: "length bs = 1 \<Longrightarrow> bs @ r \<noteq> [] \<and> 0x80 \<le> unat (hd (bs @ r))"
      using False by (cases bs) auto
    have "length bs < max_rlp"
      using assms Data by simp
    note h = data_header [OF this good]
    have "enc it = rlp_header 0x80 (length bs) @ bs"
      using False Data by auto
    with h show ?thesis
      by (simp add: actualSize_def isNull_def)
  qed
next
  case (List xs)
  let ?p = "concat (map enc xs)"
  have "\<not> isSingleByte (rlp_header 0xc0 (length ?p) @ ?p @ r)"
    using list_header(3) [of "length ?p" "?p @ r"] assms List
    by (auto simp: isList_def isSingleByte_def rlp_consts)
  then show ?thesis
    using list_header [of "length ?p" "?p @ r"] assms List
    by (simp add: actualSize_def isNull_def Let_def)
qed

lemma sizeAsEncoded_enc: "small it \<Longrightarrow> sizeAsEncoded (enc it @ r) = Inr (length (enc it))"
  by (simp add: sizeAsEncoded_eq actualSize_enc)

lemma enc_ne [simp]: "enc it \<noteq> []"
  by (cases it) (auto simp: Let_def)

text \<open>An accepted size splits the bytes into a header, a payload and the rest.\<close>

lemma sizeAsEncoded_inv:
  assumes "d \<noteq> []" "sizeAsEncoded d = Inr n" "\<not> isSingleByte d"
  obtains h p rest l where "d = h @ p @ rest" "h = rlp_header (if isList d then 0xc0 else 0x80) l"
    "length p = l" "l < max_rlp" "n = length h + l" "rlp_length d = Inr l" "payloadOffset d = length h"
proof -
  from assms obtain l where l: "rlp_length d = Inr l" "n = payloadOffset d + l" "n \<le> length d"
    by (auto simp: sizeAsEncoded_eq actualSize_def isNull_def isData_def isList_def result_simps split: if_splits)
  from rlp_length_inv [OF assms(1) l(1)] assms(3)
  have h: "l < max_rlp" "payloadOffset d \<le> length d"
    "take (payloadOffset d) d = rlp_header (if isList d then 0xc0 else 0x80) l"
    by auto
  have split: "d = take (payloadOffset d) d @ slice (payloadOffset d) l d @ drop n d"
    using l by (metis append_take_drop_id drop_drop add.commute slice_def)
  have lh: "length (take (payloadOffset d) d) = payloadOffset d"
    using h(2) by simp
  show ?thesis
    by (rule that [OF split h(3)]) (use l h(1,2) lh in auto)
qed

lemma rlp_length_good:
  assumes "rlp_length d = Inr 1" "isData d" "\<not> isSingleByte d"
  shows "2 \<le> length d \<and> 0x80 \<le> unat (d ! 1)"
proof -
  have "unat (d ! 0) = 0x81"
    using rlp_length_inv [of d 1] assms
    by (cases d) (auto simp: isData_def isList_def isNull_def rlp_header_def payloadOffset_def rlp_consts)
  with assms show ?thesis
    by (auto simp: rlp_length_def requireGood_def isNull_def isData_def rlp_consts split: if_splits)
qed

text \<open>The size of an item does not depend on the bytes after it.\<close>

lemma sizeAsEncoded_take:
  assumes "d \<noteq> []" "sizeAsEncoded d = Inr n"
  shows "sizeAsEncoded (take n d @ r) = Inr n"
proof (cases "isSingleByte d")
  case True
  with assms have "n = 1"
    by (auto simp: sizeAsEncoded_eq actualSize_def isNull_def split: if_splits)
  with True assms show ?thesis
    by (cases d) (auto simp: sizeAsEncoded_eq actualSize_def isSingleByte_def isNull_def)
next
  case False
  obtain h p rest l where d: "d = h @ p @ rest" and h: "h = rlp_header (if isList d then 0xc0 else 0x80) l"
    and l: "length p = l" "l < max_rlp" "n = length h + l" "rlp_length d = Inr l" "payloadOffset d = length h"
    by (rule sizeAsEncoded_inv [OF assms False])
  have "actualSize (h @ p @ r) = Inr n"
  proof (cases "isList d")
    case True
    then show ?thesis
      using list_header [OF l(2), of "p @ r"] l(3) h
      by (simp add: actualSize_def isNull_def isSingleByte_def isList_def rlp_consts)
  next
    case nl: False
    then have id: "isData d" using assms by (auto simp: isData_def isList_def isNull_def)
    have "p @ r \<noteq> [] \<and> 0x80 \<le> unat (hd (p @ r))" if "l = 1"
    proof -
      have "length h = 1" "p \<noteq> []"
        using that l(1) h by (auto simp: rlp_header_def)
      then have "d ! 1 = hd p" "p \<noteq> []"
        using d by (simp_all add: nth_append hd_conv_nth)
      then show ?thesis
        using rlp_length_good [of d] that l(4) id False by simp
    qed
    from data_header [OF l(2) this] show ?thesis
      using nl l(3) h by (simp add: actualSize_def isNull_def)
  qed
  moreover have "take n d = h @ p"
    using d l by simp
  ultimately show ?thesis
    using l by (simp add: sizeAsEncoded_eq)
qed

section \<open>Splitting a payload into its items\<close>

function split_items :: "bytes \<Rightarrow> rlp_error + bytes list" where
  "split_items p =
     (if p = [] then Inr []
      else case sizeAsEncoded p of
        Inl e \<Rightarrow> Inl e
      | Inr n \<Rightarrow> ebind (split_items (drop n p)) (\<lambda>xs. Inr (take n p # xs)))"
  by pat_completeness auto
termination
  by (relation "measure length") (auto dest!: sizeAsEncoded_bounds)

declare split_items.simps [simp del]

lemma split_items_Nil [simp]: "split_items [] = Inr []"
  by (simp add: split_items.simps)

lemma split_items_Cons:
  assumes "split_items p = Inr (x # xs)"
  shows "p \<noteq> []" "sizeAsEncoded p = Inr (length x)" "split_items (drop (length x) p) = Inr xs" "p = x @ drop (length x) p"
    "x \<noteq> []"
proof -
  from assms show p: "p \<noteq> []" by auto
  with assms obtain n where n: "sizeAsEncoded p = Inr n" "split_items (drop n p) = Inr xs" "x = take n p"
    by (auto simp: split_items.simps [of p] result_simps split: sum.splits)
  then show "sizeAsEncoded p = Inr (length x)" "split_items (drop (length x) p) = Inr xs"
    "p = x @ drop (length x) p" "x \<noteq> []"
    using sizeAsEncoded_bounds [OF n(1) p] by (auto simp: min_absorb2)
qed

lemma split_items_eq_Nil [simp]: "split_items p = Inr [] \<longleftrightarrow> p = []"
  by (auto simp: split_items.simps [of p] result_simps split: sum.splits)

lemma split_items_concat: "split_items p = Inr xs \<Longrightarrow> concat xs = p"
proof (induction xs arbitrary: p)
  case Nil
  then show ?case by simp
next
  case (Cons x xs)
  note s = split_items_Cons [OF Cons.prems]
  from Cons.IH [OF s(3)] s(4) show ?case by simp
qed

lemma split_items_drop:
  "split_items p = Inr xs \<Longrightarrow> k \<le> length xs \<Longrightarrow> split_items (drop (length (concat (take k xs))) p) = Inr (drop k xs)"
proof (induction k arbitrary: p xs)
  case 0
  then show ?case by simp
next
  case (Suc k)
  then obtain x ys where xs: "xs = x # ys" by (cases xs) auto
  with Suc.prems have "split_items p = Inr (x # ys)" by simp
  note s = split_items_Cons [OF this]
  show ?case
    using Suc.IH [OF s(3)] Suc.prems xs by (simp add: drop_drop add.commute)
qed

lemma split_items_nth:
  assumes "split_items p = Inr xs" "k < length xs"
  shows "sizeAsEncoded (drop (length (concat (take k xs))) p) = Inr (length (xs ! k))"
    "take (length (xs ! k)) (drop (length (concat (take k xs))) p) = xs ! k"
    "length (concat (take k xs)) + length (xs ! k) \<le> length p" "xs ! k \<noteq> []"
    "sizeAsEncoded (xs ! k) = Inr (length (xs ! k))"
proof -
  let ?q = "drop (length (concat (take k xs))) p"
  have "split_items ?q = Inr (xs ! k # drop (Suc k) xs)"
    using split_items_drop [OF assms(1), of k] assms(2) by (simp add: Cons_nth_drop_Suc)
  note s = split_items_Cons [OF this]
  show s2: "sizeAsEncoded ?q = Inr (length (xs ! k))" by (rule s)
  show "take (length (xs ! k)) ?q = xs ! k"
    using s(4) by (metis append_eq_conv_conj)
  show "length (concat (take k xs)) + length (xs ! k) \<le> length p"
    using sizeAsEncoded_bounds [OF s2 s(1)] s(1) by auto
  show "xs ! k \<noteq> []" by (rule s)
  show "sizeAsEncoded (xs ! k) = Inr (length (xs ! k))"
    using sizeAsEncoded_take [OF s(1) s2, of "[]"] s(4) by (metis append_Nil2 append_eq_conv_conj)
qed

lemma split_items_enc:
  "list_all small xs \<Longrightarrow> split_items (concat (map enc xs)) = Inr (map enc xs)"
proof (induction xs)
  case Nil
  show ?case by simp
next
  case (Cons x xs)
  then show ?case by (simp add: split_items.simps sizeAsEncoded_enc)
qed

section \<open>Decoding trees\<close>

text \<open>What a strict reader sees when it walks a whole RLP: \<open>toBytes\<close> of strings, recursion into the items of lists.\<close>

fun emap :: "('a \<Rightarrow> 'e + 'b) \<Rightarrow> 'a list \<Rightarrow> 'e + 'b list" where
  "emap f [] = Inr []"
| "emap f (x # xs) = ebind (f x) (\<lambda>y. ebind (emap f xs) (\<lambda>ys. Inr (y # ys)))"

lemma emap_cong [fundef_cong]: "xs = ys \<Longrightarrow> (\<And>x. x \<in> set ys \<Longrightarrow> f x = g x) \<Longrightarrow> emap f xs = emap g ys"
  by (induction xs arbitrary: ys) auto

lemma RLP_ctor_VeryStrict:
  "RLP_ctor d VeryStrict = ebind (actualSize d) (\<lambda>a.
     if a < length d then Inl OversizeRLP else if a > length d then Inl UndersizeRLP else Inr d)"
  by (cases "actualSize d") (auto simp: RLP_ctor_def VeryStrict_def)

lemma RLP_ctor_VeryStrict_Inr:
  "RLP_ctor d VeryStrict = Inr d' \<longleftrightarrow> d' = d \<and> sizeAsEncoded d = Inr (length d)"
  by (auto simp: RLP_ctor_VeryStrict sizeAsEncoded_eq result_simps split: if_splits)

lemma split_items_shorter:
  assumes "split_items p = Inr xs" "x \<in> set xs"
  shows "length x \<le> length p"
proof -
  have "length x \<le> length (concat xs)"
    using assms(2) by (induction xs) auto
  then show ?thesis
    by (simp add: split_items_concat [OF assms(1)])
qed

lemma payload_shorter: "isList d \<Longrightarrow> payload d = Inr p \<Longrightarrow> length p < length d"
  by (auto simp: payload_def cropped_def payloadOffset_def isSingleByte_def isList_def isNull_def rlp_consts
      result_simps split: if_splits)

function decode :: "bytes \<Rightarrow> rlp_error + item" where
  "decode d =
     (case RLP_ctor d VeryStrict of
        Inl e \<Rightarrow> Inl e
      | Inr r \<Rightarrow>
          if isData r then ebind (toBytes VeryStrict r) (\<lambda>bs. Inr (Data bs))
          else if isList r then
            (case ebind (payload r) split_items of
               Inl e \<Rightarrow> Inl e
             | Inr xs \<Rightarrow> ebind (emap decode xs) (\<lambda>ys. Inr (List ys)))
          else Inl BadRLP)"
  by pat_completeness auto
termination
proof (relation "measure length", simp)
  fix d r xs x
  assume "RLP_ctor d VeryStrict = Inr r" "isList r" "ebind (payload r) split_items = Inr xs" "x \<in> set xs"
  then show "(x, d) \<in> measure length"
    by (auto simp: RLP_ctor_VeryStrict_Inr result_simps dest!: payload_shorter split_items_shorter)
qed

declare decode.simps [simp del]

lemma ctor_enc: "small it \<Longrightarrow> RLP_ctor (enc it) VeryStrict = Inr (enc it)"
  using sizeAsEncoded_enc [of it "[]"] by (simp add: RLP_ctor_VeryStrict_Inr)

lemma payload_list: "length p < max_rlp \<Longrightarrow> payload (rlp_header 0xc0 (length p) @ p) = Inr p"
  using list_header [of "length p" p]
  by (auto simp: payload_def cropped_def slice_def)

lemma toBytes_enc:
  assumes "length bs < max_rlp"
  shows "isData (enc (Data bs)) \<and> toBytes fl (enc (Data bs)) = Inr bs"
proof (cases "length bs = 1 \<and> unat (bs ! 0) < 0x80")
  case True
  then show ?thesis
    by (cases bs) (auto simp: toBytes_def isData_def isNull_def payload_def rlp_length_def requireGood_def
        payloadOffset_def isSingleByte_def cropped_def slice_def rlp_consts)
next
  case False
  then have "length bs = 1 \<Longrightarrow> bs \<noteq> [] \<and> 0x80 \<le> unat (hd bs)"
    by (cases bs) auto
  note h = data_header [OF assms this]
  have "enc (Data bs) = rlp_header 0x80 (length bs) @ bs"
    using False by auto
  then show ?thesis
    using h by (auto simp: toBytes_def payload_def cropped_def slice_def)
qed

lemma payload_enc:
  assumes "length bs < max_rlp"
  shows "payload (enc (Data bs)) = Inr bs"
proof -
  obtain p l where pl: "payload (enc (Data bs)) = Inr p" "rlp_length (enc (Data bs)) = Inr l" "take l p = bs"
    using toBytes_enc [OF assms, of VeryStrict] by (auto simp: toBytes_def result_simps split: if_splits simp del: enc.simps)
  moreover have "length p \<le> l"
    using pl(1,2) by (auto simp: payload_def cropped_def split: if_splits simp del: enc.simps)
  ultimately show ?thesis by simp
qed

lemma decode_enc: "small it \<Longrightarrow> decode (enc it) = Inr it"
proof (induction it)
  case (Data bs)
  then show ?case
    using toBytes_enc [of bs VeryStrict] ctor_enc [of "Data bs"] by (simp add: decode.simps del: enc.simps)
next
  case (List xs)
  let ?p = "concat (map enc xs)"
  have p: "length ?p < max_rlp" and xs: "list_all small xs"
    using List.prems by auto
  have e: "enc (List xs) = rlp_header 0xc0 (length ?p) @ ?p"
    by (simp add: Let_def)
  have "emap decode (map enc ys) = Inr ys" if "set ys \<subseteq> set xs" for ys
    using that List.IH xs by (induction ys) (auto simp: list_all_iff)
  then have "emap decode (map enc xs) = Inr xs" by simp
  then show ?case
    using ctor_enc [OF List.prems] payload_list [OF p] list_header [OF p, of ?p] split_items_enc [OF xs] e
    unfolding e by (subst decode.simps) simp
qed

lemma emap_Inr_iff: "emap f xs = Inr ys \<longleftrightarrow> list_all2 (\<lambda>x y. f x = Inr y) xs ys"
  by (induction xs arbitrary: ys) (auto simp: result_simps list_all2_Cons1)

text \<open>An exactly sized item is its header and its payload.\<close>

lemma exact_item:
  assumes "d \<noteq> []" "sizeAsEncoded d = Inr (length d)" "\<not> isSingleByte d"
  obtains p where "d = rlp_header (if isList d then 0xc0 else 0x80) (length p) @ p" "length p < max_rlp"
    "payload d = Inr p" "rlp_length d = Inr (length p)"
proof -
  obtain h p rest l where d: "d = h @ p @ rest" and h: "h = rlp_header (if isList d then 0xc0 else 0x80) l"
    and l: "length p = l" "l < max_rlp" "length d = length h + l" "rlp_length d = Inr l" "payloadOffset d = length h"
    by (rule sizeAsEncoded_inv [OF assms])
  have rest: "rest = []" using d l by simp
  have "payload d = Inr p"
    using d l rest by (simp add: payload_def cropped_def slice_def)
  moreover have "d = rlp_header (if isList d then 0xc0 else 0x80) (length p) @ p"
    using d h l(1) rest by simp
  ultimately show ?thesis
    using that [of p] l by simp
qed

lemma enc_Data_exact:
  assumes "isData d" "sizeAsEncoded d = Inr (length d)" "toBytes VeryStrict d = Inr bs"
  shows "enc (Data bs) = d \<and> length bs < max_rlp"
proof (cases "isSingleByte d")
  case True
  with assms obtain b where "d = [b]"
    by (cases d) (auto simp: sizeAsEncoded_eq actualSize_def isData_def isNull_def)
  with True assms show ?thesis
    by (auto simp: isSingleByte_def isNull_def toBytes_def payload_def rlp_length_def requireGood_def
        payloadOffset_def cropped_def slice_def rlp_consts max_rlp_def)
next
  case False
  have "d \<noteq> []" using assms by (auto simp: isData_def isNull_def)
  then obtain p where p: "d = rlp_header (if isList d then 0xc0 else 0x80) (length p) @ p" "length p < max_rlp"
    "payload d = Inr p" "rlp_length d = Inr (length p)"
    using assms(2) False by (rule exact_item)
  have nl: "\<not> isList d" using assms by (auto simp: isData_def isList_def)
  have "bs = p" using assms(1,3) p by (simp add: toBytes_def)
  moreover have "\<not> (length p = 1 \<and> unat (p ! 0) < 0x80)"
  proof
    assume one: "length p = 1 \<and> unat (p ! 0) < 0x80"
    have "d ! 1 = p ! 0"
      using nl one by (subst p(1)) (simp add: nth_append rlp_header_def)
    then show False
      using rlp_length_good [of d] assms(1) p(4) one False by simp
  qed
  ultimately show ?thesis
    using p(1,2) nl by auto
qed

lemma decode_canonical: "decode d = Inr it \<Longrightarrow> enc it = d \<and> small it"
proof (induction d arbitrary: it rule: decode.induct)
  case (1 d)
  from "1.prems" have exact: "sizeAsEncoded d = Inr (length d)" "RLP_ctor d VeryStrict = Inr d"
    by (auto simp: decode.simps [of d] RLP_ctor_VeryStrict_Inr split: sum.splits)
  show ?case
  proof (cases "isData d")
    case True
    then obtain bs where "toBytes VeryStrict d = Inr bs" "it = Data bs"
      using "1.prems" exact(2) by (auto simp: decode.simps [of d] result_simps)
    then show ?thesis
      using enc_Data_exact [OF True exact(1)] by (simp del: enc.simps)
  next
    case nd: False
    have lst: "isList d"
      using "1.prems" exact(2) nd by (auto simp: decode.simps [of d] split: if_splits)
    then have ns: "\<not> isSingleByte d" "d \<noteq> []"
      by (auto simp: isList_def isSingleByte_def isNull_def rlp_consts)
    obtain p where p: "d = rlp_header (if isList d then 0xc0 else 0x80) (length p) @ p" "length p < max_rlp"
      "payload d = Inr p" "rlp_length d = Inr (length p)"
      by (rule exact_item [OF ns(2) exact(1) ns(1)])
    obtain xs ys where xs: "split_items p = Inr xs" "emap decode xs = Inr ys" "it = List ys"
      using "1.prems" exact(2) nd lst p(3) by (auto simp: decode.simps [of d] result_simps split: sum.splits)
    have "list_all2 (\<lambda>x y. decode x = Inr y) xs ys"
      using xs(2) by (simp add: emap_Inr_iff)
    moreover have "enc y = x \<and> small y" if "x \<in> set xs" "decode x = Inr y" for x y
      using "1.IH" [OF exact(2) nd lst] p(3) xs(1) that by simp
    ultimately have "list_all2 (\<lambda>x y. enc y = x \<and> small y) xs ys"
      by (rule list.rel_mono_strong) blast
    then have "map enc ys = xs" "list_all small ys"
      by (auto simp: list_all2_conv_all_nth list_all_length intro: nth_equalityI)
    then show ?thesis
      using split_items_concat [OF xs(1)] p(1,2) lst xs(3) by (simp add: Let_def)
  qed
qed

section \<open>The writer produces the reference encoding\<close>

lemma append_all_append: "append_all f (xs @ ys) s = ebind (append_all f xs s) (append_all f ys)"
proof (induction xs arbitrary: s)
  case (Cons x xs)
  then show ?case by (cases "f x s") auto
qed simp

lemma append_all_cong [fundef_cong]:
  "xs = ys \<Longrightarrow> s = t \<Longrightarrow> (\<And>x u. x \<in> set ys \<Longrightarrow> f x u = g x u) \<Longrightarrow> append_all f xs s = append_all g ys t"
proof (induction xs arbitrary: ys s t)
  case Nil
  then show ?case by auto
next
  case (Cons x xs)
  then have "append_all f xs = append_all g xs"
    by auto
  with Cons.prems show ?case
    by auto
qed

lemma append_all_Nil_fun [simp]: "append_all f [] = Inr"
  by (rule ext) simp

lemma appendVector_cong [fundef_cong]:
  "xs = ys \<Longrightarrow> s = t \<Longrightarrow> (\<And>x u. x \<in> set ys \<Longrightarrow> f x u = g x u) \<Longrightarrow> appendVector f xs s = appendVector g ys t"
  by (cases "appendList (length ys) t") (auto simp: appendVector_def intro: append_all_cong)

text \<open>A client that writes a tree: strings with \<open>append\<close>, lists with \<open>appendList\<close> and then their items.\<close>

fun write_item :: "item \<Rightarrow> rlp_stream \<Rightarrow> rlp_error + rlp_stream" where
  "write_item (Data bs) s = append_bytes bs False s"
| "write_item (List xs) s = appendVector write_item xs s"

lemma closeList_header:
  "length p < max_rlp \<Longrightarrow> closeList (length o1) (o1 @ p) = Inr (o1 @ rlp_header 0xc0 (length p) @ p)"
  using max_rlp_bytes [of "length p"] by (auto simp: closeList_def rlp_consts rlp_header_def Let_def add.commute)

lemma append_bytes_enc:
  assumes "length bs < max_rlp"
  shows "append_bytes bs False s = noteAppended 1 (s\<lparr>m_out := m_out s @ enc (Data bs)\<rparr>)"
  using assms max_rlp_bytes [of "length bs"]
  by (auto simp: append_bytes_def rlp_consts rlp_header_def push_back_def pushCount_def pushInt_def appendRaw_def
      noteAppended_def Let_def add.commute length_Suc_conv)

lemma write_Nil_list: "appendList 0 s = noteAppended 1 (s\<lparr>m_out := m_out s @ rlp_header 0xc0 0\<rparr>)"
  by (simp add: appendList_def appendList_bytes_def push_back_def appendRaw_def rlp_consts rlp_header_def)

lemma append_all_closes:
  assumes "\<And>y u. y \<in> set ys \<Longrightarrow> w y u = noteAppended 1 (u\<lparr>m_out := m_out u @ e y\<rparr>)"
    and "ys \<noteq> []" "length (pre @ concat (map e ys)) < max_rlp"
  shows "append_all w ys \<lparr>m_out = o1 @ pre, m_listStack = (length ys, length o1) # st\<rparr> =
    noteAppended_loop 1 (o1 @ rlp_header 0xc0 (length (pre @ concat (map e ys))) @ pre @ concat (map e ys)) st"
  using assms
proof (induction ys arbitrary: pre)
  case Nil
  then show ?case by simp
next
  case (Cons y ys)
  have w: "w y \<lparr>m_out = o1 @ pre, m_listStack = (length (y # ys), length o1) # st\<rparr> =
      noteAppended 1 \<lparr>m_out = o1 @ (pre @ e y), m_listStack = (length (y # ys), length o1) # st\<rparr>"
    using Cons.prems(1) by simp
  show ?case
  proof (cases "ys = []")
    case True
    then show ?thesis
      using w closeList_header [of "pre @ e y" o1] Cons.prems(3) by (simp add: noteAppended_def)
  next
    case False
    then show ?thesis
      using w Cons.IH [of "pre @ e y"] Cons.prems by (simp add: noteAppended_def)
  qed
qed

lemma appendVector_enc:
  assumes "\<And>y u. y \<in> set ys \<Longrightarrow> w y u = noteAppended 1 (u\<lparr>m_out := m_out u @ e y\<rparr>)"
    and "length (concat (map e ys)) < max_rlp"
  shows "appendVector w ys s =
    noteAppended 1 (s\<lparr>m_out := m_out s @ rlp_header 0xc0 (length (concat (map e ys))) @ concat (map e ys)\<rparr>)"
proof (cases "ys = []")
  case True
  then show ?thesis by (simp add: appendVector_def write_Nil_list)
next
  case False
  have s: "s\<lparr>m_listStack := (length ys, length (m_out s)) # m_listStack s\<rparr> =
      \<lparr>m_out = m_out s @ [], m_listStack = (length ys, length (m_out s)) # m_listStack s\<rparr>"
    by (cases s) simp
  have "append_all w ys \<lparr>m_out = m_out s @ [], m_listStack = (length ys, length (m_out s)) # m_listStack s\<rparr> =
    noteAppended_loop 1 (m_out s @ rlp_header 0xc0 (length ([] @ concat (map e ys))) @ [] @ concat (map e ys))
      (m_listStack s)"
    by (rule append_all_closes) (use assms False in auto)
  from this [folded s] show ?thesis
    using False by (simp add: appendVector_def appendList_def noteAppended_def)
qed

lemma write_enc: "small it \<Longrightarrow> write_item it s = noteAppended 1 (s\<lparr>m_out := m_out s @ enc it\<rparr>)"
proof (induction it arbitrary: s)
  case (Data bs)
  then show ?case by (simp add: append_bytes_enc del: enc.simps)
next
  case (List xs)
  have "appendVector write_item xs s = noteAppended 1
      (s\<lparr>m_out := m_out s @ rlp_header 0xc0 (length (concat (map enc xs))) @ concat (map enc xs)\<rparr>)"
    by (rule appendVector_enc) (use List in \<open>auto simp: list_all_iff\<close>)
  then show ?case by (simp add: Let_def)
qed

lemma append_bigint_enc:
  assumes "bytesRequired i < max_rlp"
  shows "append_bigint i s = noteAppended 1 (s\<lparr>m_out := m_out s @ enc (Data (toCompactBigEndian i 0))\<rparr>)"
proof (cases "i < 0x80")
  case True
  then show ?thesis
    by (cases "i = 0") (auto simp: append_bigint_def toCompactBigEndian_def rlp_header_def rlp_consts push_back_def
        bytesRequired_pos unat_of_nat_byte)
next
  case False
  let ?br = "bytesRequired i"
  have "0 < ?br" "bytesRequired ?br \<le> 8"
    using False assms by (simp_all add: max_rlp_bytes)
  moreover have "\<not> (?br = 1 \<and> unat (toBigEndian i ?br ! 0) < 0x80)"
    using False less_pow_bytesRequired [of i] by (auto simp: unat_of_nat_byte)
  ultimately show ?thesis
    using False
    by (auto simp: append_bigint_def toCompactBigEndian_def rlp_header_def rlp_consts push_back_def pushInt_def
        Let_def add.commute)
qed

section \<open>Indexed access through the cache\<close>

text \<open>
  The cache of a list object with items \<open>xs\<close>: either the initial \<open>(size_t)-1\<close>, or the position of the
  last item that was read, or the position just past the end with an empty item.
\<close>

definition cache_ok :: "bytes list \<Rightarrow> rlp \<Rightarrow> bool" where
  "cache_ok xs r \<longleftrightarrow>
     length xs < 2 ^ 64 - 1 \<and>
     (m_lastIndex r = 2 ^ 64 - 1 \<and> m_lastItem r = [] \<or>
      m_lastIndex r < length xs \<and> m_lastItem r = xs ! m_lastIndex r \<and>
        m_lastEnd r = length (concat (take (Suc (m_lastIndex r)) xs)) \<or>
      m_lastIndex r = length xs \<and> m_lastItem r = [])"

definition item_at :: "bytes list \<Rightarrow> nat \<Rightarrow> bytes" where
  "item_at xs i = (if i < length xs then xs ! i else [])"

lemma actualSize_Nil [simp]: "actualSize [] = Inr 0"
  by (simp add: actualSize_def isNull_def)

lemma sizeAsEncoded_Nil [simp]: "sizeAsEncoded [] = Inr 0"
  by (simp add: sizeAsEncoded_eq)

lemma cropped_0 [simp]: "n \<le> length d \<Longrightarrow> cropped 0 n d = take n d"
  by (simp add: cropped_def slice_def)

lemma nth_advance_spec:
  assumes p: "payload (m_data r) = Inr p" "split_items p = Inr xs" "cache_ok xs r"
    and i: "i < 2 ^ 64 - 1" "m_lastIndex r \<le> i"
  shows "\<exists>r'. nth_advance i r = (Inr (), r') \<and> m_data r' = m_data r \<and> cache_ok xs r' \<and> m_lastItem r' = item_at xs i"
  using p i
proof (induction i r rule: nth_advance.induct)
  case (1 i r)
  let ?k = "m_lastIndex r"
  show ?case
  proof (cases "?k < i \<and> m_lastItem r \<noteq> []")
    case False
    then show ?thesis
      using "1.prems" split_items_nth(4) [OF "1.prems"(2)]
      by (auto simp: nth_advance.simps [of i r] cache_ok_def item_at_def)
  next
    case True
    then have k: "?k < length xs" "m_lastEnd r = length (concat (take (Suc ?k) xs))"
      using "1.prems" by (auto simp: cache_ok_def)
    let ?q = "drop (m_lastEnd r) p"
    have le: "m_lastEnd r \<le> length p"
      using split_items_concat [OF "1.prems"(2)] k(2) by (metis append_take_drop_id concat_append le_add1 length_append)
    then have q: "cropped_from (m_lastEnd r) p = ?q"
      by (simp add: cropped_from_def)
    show ?thesis
    proof (cases "Suc ?k < length xs")
      case next_item: True
      note s = split_items_nth [OF "1.prems"(2) next_item, folded k(2)]
      let ?r = "r\<lparr>m_lastItem := xs ! Suc ?k, m_lastEnd := m_lastEnd r + length (xs ! Suc ?k), m_lastIndex := Suc ?k\<rparr>"
      have len: "length (xs ! Suc ?k) \<le> length ?q" using s(3) by simp
      have c: "cache_ok xs ?r"
        using next_item "1.prems"(3) k by (auto simp: cache_ok_def take_Suc_conv_app_nth)
      have step: "nth_advance i r = nth_advance i ?r"
        using True "1.prems"(1) q s(1,2) len by (subst nth_advance.simps) (simp add: Let_def)
      show ?thesis
        using "1.IH" [OF True "1.prems"(1) refl, of "length (xs ! Suc ?k)" "xs ! Suc ?k"] True "1.prems" q s len c step
        by (simp add: Let_def)
    next
      case past_end: False
      then have all: "Suc ?k = length xs" using k by simp
      then have "?q = []" using k(2) split_items_concat [OF "1.prems"(2)] by simp
      let ?r = "r\<lparr>m_lastItem := [], m_lastEnd := m_lastEnd r, m_lastIndex := Suc ?k\<rparr>"
      have step: "nth_advance i r = nth_advance i ?r"
        using True "1.prems"(1) q \<open>?q = []\<close> by (subst nth_advance.simps) (simp add: Let_def)
      have "nth_advance i ?r = (Inr (), ?r)"
        by (subst nth_advance.simps) simp
      moreover have "cache_ok xs ?r" using all "1.prems"(3) by (auto simp: cache_ok_def)
      ultimately show ?thesis
        using step True all by (auto simp: item_at_def)
    qed
  qed
qed

lemma nth_rewind_spec:
  assumes p: "payload (m_data r) = Inr p" "split_items p = Inr xs" "cache_ok xs r"
  shows "\<exists>r'. nth_rewind r = (Inr (), r') \<and> m_data r' = m_data r \<and> cache_ok xs r' \<and> m_lastIndex r' = 0"
proof (cases xs)
  case Nil
  then have "p = []" using p(2) by simp
  then show ?thesis
    using p(1,3) Nil by (auto simp: nth_rewind_def cache_ok_def)
next
  case (Cons x ys)
  then have "split_items p = Inr (x # ys)" using p(2) by simp
  note s = split_items_Cons [OF this]
  have "length x \<le> length p" using arg_cong [OF s(4), of length] by simp
  moreover have "take (length x) p = x" using s(4) by (metis append_eq_conv_conj)
  ultimately show ?thesis
    using p(1,3) s(2) Cons by (auto simp: nth_rewind_def cache_ok_def)
qed

lemma ctor_item_at:
  assumes "split_items p = Inr xs"
  shows "RLP_ctor (item_at xs i) ThrowTooSmall = Inr (item_at xs i)"
proof -
  have "sizeAsEncoded (item_at xs i) = Inr (length (item_at xs i))"
    using split_items_nth(5) [OF assms, of i] by (simp add: item_at_def)
  then have "actualSize (item_at xs i) = Inr (length (item_at xs i))"
    by (auto simp: sizeAsEncoded_eq result_simps split: if_splits)
  then show ?thesis by (simp add: RLP_ctor_ThrowTooSmall)
qed

lemma rlp_nth_spec:
  assumes p: "payload (m_data r) = Inr p" "split_items p = Inr xs" "cache_ok xs r" and i: "i < 2 ^ 64 - 1"
  shows "\<exists>r'. rlp_nth i r = (Inr (item_at xs i), r') \<and> m_data r' = m_data r \<and> cache_ok xs r'"
proof -
  obtain r1 where r1: "(if i < m_lastIndex r then nth_rewind r else (Inr (), r)) = (Inr (), r1)"
    "m_data r1 = m_data r" "cache_ok xs r1" "m_lastIndex r1 \<le> i"
    using nth_rewind_spec [OF p] p(3) by (cases "i < m_lastIndex r") auto
  obtain r2 where "nth_advance i r1 = (Inr (), r2)" "m_data r2 = m_data r1" "cache_ok xs r2" "m_lastItem r2 = item_at xs i"
    using nth_advance_spec [of r1 p xs i] p r1 i by auto
  then show ?thesis
    using r1 ctor_item_at [OF p(2)] by (simp add: rlp_nth_def)
qed

lemma cache_ok_rlp_of: "length xs < 2 ^ 64 - 1 \<Longrightarrow> cache_ok xs (rlp_of d)"
  by (simp add: cache_ok_def rlp_of_def)

lemma items_loop_split: "items_loop p k = ebind (split_items p) (\<lambda>xs. Inr (k + length xs))"
proof (induction p k rule: items_loop.induct)
  case (1 d i)
  show ?case
  proof (cases "d = []")
    case True
    then show ?thesis by (simp add: items_loop.simps)
  next
    case ne: False
    show ?thesis
    proof (cases "sizeAsEncoded d")
      case (Inl e)
      then show ?thesis using ne by (simp add: items_loop.simps [of d] split_items.simps [of d])
    next
      case (Inr n)
      then have "cropped_from n d = drop n d"
        using sizeAsEncoded_bounds [OF Inr ne] by (simp add: cropped_from_def)
      with 1 [OF ne Inr] Inr ne show ?thesis
        by (cases "split_items (drop n d)") (simp_all add: items_loop.simps [of d] split_items.simps [of d])
    qed
  qed
qed

text \<open>A run of indexed reads, in any order.\<close>

fun read_all :: "nat list \<Rightarrow> rlp \<Rightarrow> (rlp_error + bytes) list" where
  "read_all [] r = []"
| "read_all (i # is) r = (case rlp_nth i r of (x, r') \<Rightarrow> x # read_all is r')"

lemma read_all_spec:
  "payload (m_data r) = Inr p \<Longrightarrow> split_items p = Inr xs \<Longrightarrow> cache_ok xs r \<Longrightarrow> list_all (\<lambda>i. i < 2 ^ 64 - 1) is
   \<Longrightarrow> read_all is r = map (\<lambda>i. Inr (item_at xs i)) is"
proof (induction "is" arbitrary: r)
  case Nil
  then show ?case by simp
next
  case (Cons i ks)
  then obtain r' where "rlp_nth i r = (Inr (item_at xs i), r')" "m_data r' = m_data r" "cache_ok xs r'"
    using rlp_nth_spec [of r p xs i] by auto
  with Cons show ?case by simp
qed

section \<open>Iteration\<close>

text \<open>The iterator that stands at item \<open>k\<close> of a list with items \<open>xs\<close> whose payload starts at \<open>off\<close>.\<close>

definition iter_at :: "nat \<Rightarrow> bytes list \<Rightarrow> nat \<Rightarrow> rlp_iter" where
  "iter_at off xs k =
     \<lparr>it_ptr = Some (off + length (concat (take k xs))), it_count = length (item_at xs k),
      it_remaining = length (concat (drop (Suc k) xs))\<rparr>"

text \<open>An object whose list item ends at or before the end of its bytes.\<close>

definition list_view :: "bytes \<Rightarrow> nat \<Rightarrow> bytes \<Rightarrow> bool" where
  "list_view d off p \<longleftrightarrow>
     isList d \<and> payloadOffset d = off \<and> rlp_length d = Inr (length p) \<and> (\<exists>h r. d = h @ p @ r \<and> length h = off)"

lemma list_view_payload:
  assumes "list_view d off p"
  shows "payload d = Inr p"
proof -
  obtain h r where "payloadOffset d = off" "rlp_length d = Inr (length p)" "d = h @ p @ r" "length h = off"
    using assms by (auto simp: list_view_def)
  then show ?thesis by (auto simp: payload_def cropped_def slice_def)
qed

lemma iter_begin_at:
  assumes "list_view d off p" "split_items p = Inr xs"
  shows "iter_begin d = Inr (iter_at off xs 0)"
proof -
  obtain h r where d: "isList d" "payloadOffset d = off" "rlp_length d = Inr (length p)" "d = h @ p @ r" "length h = off"
    using assms(1) by (auto simp: list_view_def)
  have s: "slice off (length p) d = p" using d by (simp add: slice_append_prefix)
  have n: "sizeAsEncoded p = Inr (length (item_at xs 0))"
    using split_items_nth(1) [OF assms(2), of 0] assms(2) by (cases xs) (auto simp: item_at_def)
  have "length p = length (concat xs)" using split_items_concat [OF assms(2)] by simp
  then have "length p - length (item_at xs 0) = length (concat (drop 1 xs))"
    by (cases xs) (auto simp: item_at_def)
  with n s d(1-3) show ?thesis
    using d(4,5) by (simp add: iter_begin_def iter_at_def)
qed

lemma it_view_iter_at:
  assumes "list_view d off p" "split_items p = Inr xs" "k < length xs"
  shows "it_view d (iter_at off xs k) = xs ! k"
proof -
  obtain h r where d: "d = h @ p @ r" "length h = off"
    using assms(1) by (auto simp: list_view_def)
  have "slice (off + length (concat (take k xs))) (length (xs ! k)) d =
      take (length (xs ! k)) (drop (length (concat (take k xs))) p)"
    using d split_items_nth(3) [OF assms(2,3)] by (simp add: slice_def)
  then show ?thesis
    using split_items_nth(2) [OF assms(2,3)] assms(3) by (simp add: it_view_def iter_at_def item_at_def)
qed

lemma iter_next_at:
  assumes "list_view d off p" "split_items p = Inr xs" "k < length xs"
  shows "iter_next d (iter_at off xs k) = Inr (iter_at off xs (Suc k))"
proof -
  obtain h r where d: "d = h @ p @ r" "length h = off"
    using assms(1) by (auto simp: list_view_def)
  let ?o = "length (concat (take (Suc k) xs))" and ?rem = "length (concat (drop (Suc k) xs))"
  have o: "length (concat (take k xs)) + length (xs ! k) = ?o"
    using assms(3) by (simp add: take_Suc_conv_app_nth)
  have p: "p = concat (take (Suc k) xs) @ concat (drop (Suc k) xs)"
    using split_items_concat [OF assms(2)] by (metis append_take_drop_id concat_append)
  show ?thesis
  proof (cases "Suc k < length xs")
    case True
    note s = split_items_nth [OF assms(2) True]
    have rem: "?rem = length (xs ! Suc k) + length (concat (drop (Suc (Suc k)) xs))"
      using True by (simp add: Cons_nth_drop_Suc [symmetric])
    moreover have "slice (off + ?o) ?rem d = drop ?o p"
      using d p by (simp add: slice_def)
    moreover have "?rem \<noteq> 0"
      using rem s(4) by simp
    ultimately show ?thesis
      using assms(3) True o s(1)
      by (simp add: iter_next_def iter_at_def item_at_def it_view_def Let_def add.assoc)
  next
    case False
    then show ?thesis
      using assms(3) o by (simp add: iter_next_def iter_at_def item_at_def Let_def)
  qed
qed

lemma iter_loop_at:
  assumes v: "list_view d off p" "split_items p = Inr xs" and exact: "length d = off + length p" and k: "k \<le> length xs"
  shows "iter_loop conv d (iter_at off xs k) ret = Some (ebind (emap conv (drop k xs)) (\<lambda>ys. Inr (ret @ ys)))"
  using k
proof (induction "length xs - k" arbitrary: k ret)
  case 0
  then have "k = length xs" by simp
  moreover have "d \<noteq> []" using v(1) by (auto simp: list_view_def isList_def isNull_def)
  ultimately show ?case
    using exact split_items_concat [OF v(2)]
    by (subst iter_loop.simps) (simp add: iter_eq_def iter_end_def iter_at_def item_at_def isNull_def)
next
  case (Suc n)
  then have k: "k < length xs" "n = length xs - Suc k" by auto
  note s = split_items_nth [OF v(2) k(1)]
  have ne: "\<not> iter_eq (iter_at off xs k) (iter_end d)"
    using s(4) k(1) by (simp add: iter_eq_def iter_end_def iter_at_def item_at_def)
  have c: "RLP_ctor (it_view d (iter_at off xs k)) VeryStrict = Inr (xs ! k)"
    using s(5) by (simp add: it_view_iter_at [OF v k(1)] RLP_ctor_VeryStrict_Inr)
  have dr: "drop k xs = xs ! k # drop (Suc k) xs" using k by (simp add: Cons_nth_drop_Suc)
  show ?case
  proof (cases "conv (xs ! k)")
    case (Inl e)
    then show ?thesis using ne c dr by (subst iter_loop.simps) simp
  next
    case (Inr x)
    then have "iter_loop conv d (iter_at off xs k) ret = iter_loop conv d (iter_at off xs (Suc k)) (ret @ [x])"
      using ne c iter_next_at [OF v k(1)] by (subst iter_loop.simps) simp
    also have "\<dots> = Some (ebind (emap conv (drop (Suc k) xs)) (\<lambda>ys. Inr ((ret @ [x]) @ ys)))"
      using Suc.hyps(1) [OF k(2)] k(1) by simp
    finally show ?thesis
      using Inr dr by (simp add: ebind_assoc)
  qed
qed

text \<open>Past the last item of a list that ends before the bytes do, the iterator never meets \<open>end()\<close>.\<close>

lemma iter_loop_stuck:
  assumes "iter_loop conv d it ret = Some r"
  shows "conv [] = Inr x \<Longrightarrow> it_count it = 0 \<Longrightarrow> it_remaining it = 0 \<Longrightarrow> iter_eq it (iter_end d)"
  using assms
proof (induction rule: iter_loop.raw_induct [rotated, consumes 1])
  case (1 f c d it ret r)
  show ?case
  proof (rule ccontr)
    assume ne: "\<not> iter_eq it (iter_end d)"
    let ?it = "\<lparr>it_ptr = it_ptr it, it_count = 0, it_remaining = 0\<rparr>"
    have v: "it_view d it = []" using "1.prems" by (cases "it_ptr it") (auto simp: it_view_def)
    have n: "iter_next d it = Inr ?it"
      using "1.prems"(2,3) by (cases "it_ptr it") (auto simp: iter_next_def)
    have "f c d ?it (ret @ [x]) = Some r"
      using 1(2) "1.prems"(1) ne v n by (simp add: RLP_ctor_VeryStrict)
    from 1(1) [OF this "1.prems"(1)] have "iter_eq ?it (iter_end d)" by simp
    with ne "1.prems"(2) show False by (simp add: iter_eq_def)
  qed
qed

section \<open>Integers\<close>

lemma enc_Data_short:
  "length bs < 56 \<Longrightarrow>
   enc (Data bs) = (if length bs = 1 \<and> unat (bs ! 0) < 0x80 then bs else of_nat (0x80 + length bs) # bs)"
  by (simp add: rlp_header_def)

lemma toInt_enc_canonical:
  assumes "length bs < 56" "length bs \<le> LENGTH('a) div 8" "bs = [] \<or> hd bs \<noteq> 0"
  shows "toInt Strict (enc (Data bs)) = Inr (fromBigEndian bs :: 'a::len word)"
proof -
  let ?d = "enc (Data bs)"
  have p: "payload ?d = Inr bs" "isData ?d"
    using payload_enc [of bs] toBytes_enc [of bs VeryStrict] assms(1) by (auto simp: max_rlp_def simp del: enc.simps)
  have nl: "\<not> isList ?d" "\<not> isNull ?d" using p(2) by (auto simp: isData_def isList_def)
  have "requireGood ?d = Inr () \<and> isInt ?d = Inr True"
  proof (cases bs)
    case Nil
    then show ?thesis
      by (simp add: enc_Data_short requireGood_def isInt_def isNull_def rlp_consts del: enc.simps)
  next
    case (Cons b cs)
    then show ?thesis
      using assms(1,3)
      by (auto simp: enc_Data_short requireGood_def isInt_def isNull_def rlp_consts Let_def unat_gt_0 simp del: enc.simps)
  qed
  then show ?thesis
    using p nl assms(2) by (simp add: toInt_def Strict_def del: enc.simps)
qed

text \<open>A 256-bit number is written in its compact form and read back.\<close>

lemma u256_bytes: "bytesRequired (unat (w :: u256)) \<le> 32"
  using unsigned_less [of w] by (simp add: bytesRequired_le_iff)

lemma append_u256: "append_bigint (unat (w :: u256)) s = noteAppended 1 (s\<lparr>m_out := m_out s @ enc (Data (toCompactBigEndian (unat w) 0))\<rparr>)"
  using u256_bytes [of w] by (intro append_bigint_enc) (simp add: max_rlp_def)

lemma toInt_u256: "toInt Strict (enc (Data (toCompactBigEndian (unat (w :: u256)) 0))) = Inr w"
proof -
  let ?bs = "toCompactBigEndian (unat w) 0"
  have "toInt Strict (enc (Data ?bs)) = Inr (fromBigEndian ?bs :: u256)"
  proof (rule toInt_enc_canonical)
    show "?bs = [] \<or> hd ?bs \<noteq> 0"
      using hd_toBigEndian_bytesRequired [of "unat w"]
      by (cases "unat w = 0") (simp_all add: toCompactBigEndian_def bytesRequired.simps [of 0])
  qed (use u256_bytes [of w] in \<open>simp_all add: toCompactBigEndian_def\<close>)
  moreover have "(fromBigEndian ?bs :: u256) = w"
    by (simp add: toCompactBigEndian_def fromBigEndian_of_nat be_nat_toBigEndian less_pow_bytesRequired)
  ultimately show ?thesis by simp
qed

section \<open>RLP as a prefix code\<close>

text \<open>
  What a client that concatenates encodings relies on: the size of an encoding can be read off any
  bytes that start with it, and encodings determine their values. Two sequences of values then never
  have the same concatenation.
\<close>

locale prefix_code =
  fixes encode :: "'a \<Rightarrow> bytes" and item_size :: "bytes \<Rightarrow> 'e + nat" and ok :: "'a \<Rightarrow> bool"
  assumes size_encode: "ok x \<Longrightarrow> item_size (encode x @ r) = Inr (length (encode x))"
    and encode_inj: "ok x \<Longrightarrow> ok y \<Longrightarrow> encode x = encode y \<Longrightarrow> x = y"
    and encode_nonempty: "encode x \<noteq> []"
begin

lemma prefix_free:
  assumes "ok x" "ok y" "encode x @ r = encode y @ s"
  shows "x = y \<and> r = s"
proof -
  have "length (encode x) = length (encode y)"
    using size_encode [OF assms(1), of r] size_encode [OF assms(2), of s] assms(3) by simp
  then have "encode x = encode y" "r = s" using assms(3) by simp_all
  then show ?thesis using encode_inj [OF assms(1,2)] by simp
qed

lemma concat_inj:
  "list_all ok xs \<Longrightarrow> list_all ok ys \<Longrightarrow> concat (map encode xs) = concat (map encode ys) \<Longrightarrow> xs = ys"
proof (induction xs arbitrary: ys)
  case Nil
  then show ?case by (cases ys) (auto simp: encode_nonempty)
next
  case (Cons x xs)
  have "ys \<noteq> []" using Cons.prems(3) by (auto simp: encode_nonempty)
  then obtain y zs where ys: "ys = y # zs" by (cases ys) auto
  have "x = y \<and> concat (map encode xs) = concat (map encode zs)"
    using Cons.prems ys by (intro prefix_free) auto
  then show ?case using Cons ys by simp
qed

end

lemma enc_inj: "small x \<Longrightarrow> small y \<Longrightarrow> enc x = enc y \<Longrightarrow> x = y"
  by (metis decode_enc sum.inject(2))

interpretation rlp: prefix_code enc sizeAsEncoded small
  by unfold_locales (simp_all add: sizeAsEncoded_enc enc_inj)

section \<open>The properties of the codec\<close>

text \<open>(C17) The strict RLP reader inverts the RLP encoding and accepts nothing else: walking the bytes
  \<open>d\<close> with the strict constructor, \<open>toBytes\<close> and the splitting of list payloads gives the tree \<open>it\<close> exactly when
  \<open>d\<close> is the one canonical encoding of \<open>it\<close> and no string or list in it reaches the \<open>2 ^ 64 - 257\<close> bytes the
  reader refuses. In particular every accepted byte string is canonical.\<close>

theorem rlp_decode_iff: "decode d = Inr it \<longleftrightarrow> small it \<and> d = enc it"
  using decode_enc decode_canonical by blast

text \<open>(C18) \<open>RLPStream\<close> writes the canonical encoding. Appending a whole tree, with lists opened by
  \<open>appendList\<close> before their items and closed by \<open>noteAppended\<close> after the last one, leaves exactly the
  bytes of the encoding after whatever was written before, and no open list when none was open.\<close>

theorem rlp_stream_writes_encoding:
  assumes "small it" "m_listStack s = []"
  shows "write_item it s = Inr \<lparr>m_out = m_out s @ enc it, m_listStack = []\<rparr>"
  using assms write_enc [of it s] by (simp add: noteAppended_def)

theorem rlp_stream_writes_encoding_witness:
  "write_item (List [Data [1], List [], Data [2, 200]]) RLPStream_new =
     Inr \<lparr>m_out = [0xc5, 1, 0xc0, 0x82, 2, 200], m_listStack = []\<rparr>"
  using rlp_stream_writes_encoding [of "List [Data [1], List [], Data [2, 200]]" RLPStream_new]
  by (simp add: RLPStream_new_def max_rlp_def rlp_header_def Let_def)

text \<open>RLP streams are uniquely decodable: two sequences of values appended to fresh streams give the same
  bytes only when the sequences are the same.\<close>

theorem rlp_stream_injective:
  assumes "list_all small xs" "list_all small ys"
  shows "append_all write_item xs RLPStream_new = append_all write_item ys RLPStream_new \<longleftrightarrow> xs = ys"
proof -
  have "append_all write_item zs \<lparr>m_out = bs, m_listStack = []\<rparr> =
      Inr \<lparr>m_out = bs @ concat (map enc zs), m_listStack = []\<rparr>" if "list_all small zs" for zs bs
    using that by (induction zs arbitrary: bs) (auto simp: write_enc noteAppended_def)
  from this [OF assms(1), of "[]"] this [OF assms(2), of "[]"]
  have "append_all write_item xs RLPStream_new = append_all write_item ys RLPStream_new \<longleftrightarrow>
      concat (map enc xs) = concat (map enc ys)"
    by (simp add: RLPStream_new_def del: enc.simps)
  then show ?thesis
    using rlp.concat_inj [OF assms] by metis
qed

theorem rlp_stream_injective_witness:
  "append_all write_item [Data [5], Data []] RLPStream_new \<noteq> append_all write_item [Data [5, 0]] RLPStream_new"
proof -
  have "list_all small [Data [5], Data []]" "list_all small [Data [5, 0]]" by (simp_all add: max_rlp_def)
  from rlp_stream_injective [OF this] show ?thesis by blast
qed

text \<open>(C19) The cache of \<open>operator[]\<close> is invisible. On a list object, a run of indexed reads in any order, forwards
  or backwards, inside the list or past its end, returns for every index the item that a fresh scan
  of the payload finds there, and the null item past the end.\<close>

theorem rlp_index_cache_transparent:
  assumes "payload d = Inr p" "split_items p = Inr xs" "length xs < 2 ^ 64 - 1" "list_all (\<lambda>i. i < 2 ^ 64 - 1) is"
  shows "read_all is (rlp_of d) = map (\<lambda>i. Inr (if i < length xs then xs ! i else [])) is"
proof -
  have "m_data (rlp_of d) = d" by (simp add: rlp_of_def)
  then show ?thesis
    using read_all_spec [of "rlp_of d" p xs "is"] cache_ok_rlp_of [OF assms(3), of d] assms by (simp add: item_at_def)
qed

theorem rlp_index_cache_transparent_witness:
  "read_all [2, 0, 7, 1] (rlp_of [0xc4, 5, 0x81, 200, 6]) = [Inr [6], Inr [5], Inr [], Inr [0x81, 200]]"
  using rlp_index_cache_transparent [of "[0xc4, 5, 0x81, 200, 6]" "[5, 0x81, 200, 6]" "[[5], [0x81, 200], [6]]" "[2, 0, 7, 1]"]
  by (simp add: payload_def rlp_length_def requireGood_def isNull_def rlp_consts cropped_def slice_def payloadOffset_def
      isSingleByte_def lengthSize_def isData_def isList_def split_items.simps sizeAsEncoded_eq actualSize_def)

lemma list_view_exact:
  assumes "isList d" "RLP_ctor d VeryStrict = Inr d"
  obtains p where "payload d = Inr p" "list_view d (length d - length p) p" "length p \<le> length d" "length p < max_rlp"
proof -
  have ns: "d \<noteq> []" "\<not> isSingleByte d"
    using assms(1) by (auto simp: isList_def isSingleByte_def isNull_def rlp_consts)
  have ex: "sizeAsEncoded d = Inr (length d)" using assms(2) by (simp add: RLP_ctor_VeryStrict_Inr)
  obtain p where p: "d = rlp_header (if isList d then 0xc0 else 0x80) (length p) @ p" "length p < max_rlp"
    "payload d = Inr p" "rlp_length d = Inr (length p)"
    by (rule exact_item [OF ns(1) ex ns(2)])
  let ?h = "rlp_header 0xc0 (length p)"
  have d: "d = ?h @ p" using p(1) assms(1) by simp
  have "payloadOffset d = length ?h" using list_header(2) [OF p(2), of p] d by simp
  then have "list_view d (length d - length p) p"
    using assms(1) p(4) d unfolding list_view_def by (metis append_Nil2 diff_add_inverse2 length_append)
  moreover have "length p \<le> length d" using arg_cong [OF d, of length] by simp
  ultimately show ?thesis using that [of p] p(2,3) by simp
qed

lemma iterate_exact:
  assumes "isList d" "RLP_ctor d VeryStrict = Inr d" "payload d = Inr p" "split_items p = Inr xs"
  shows "iterate conv d = Some (emap conv xs)"
proof -
  obtain p' where v: "payload d = Inr p'" "list_view d (length d - length p') p'" "length p' \<le> length d"
    by (rule list_view_exact [OF assms(1,2)])
  then have "p' = p" using assms(3) by simp
  with v have lv: "list_view d (length d - length p) p" "length d = length d - length p + length p" by auto
  show ?thesis
    using iter_begin_at [OF lv(1) assms(4)] iter_loop_at [OF lv(1) assms(4) lv(2), of 0 conv "[]"]
    by (simp add: iterate_def)
qed

text \<open>(C20) Counting, iterating and indexing agree on an exactly sized list: \<open>itemCount\<close> is the number of items,
  the range-for loop over the list ends and visits exactly the items in order, \<open>toVector\<close> converts each
  of them, the first failing conversion being the exception thrown.\<close>

theorem rlp_iteration_visits_items:
  assumes "isList d" "RLP_ctor d VeryStrict = Inr d" "payload d = Inr p" "split_items p = Inr xs"
  shows "itemCount d = Inr (length xs) \<and> toList fl d = Some (Inr xs) \<and>
    toVector conv fl d = Some (emap (\<lambda>i. conv i fl) xs)"
proof -
  have "emap Inr ys = (Inr ys :: rlp_error + bytes list)" for ys
    by (induction ys) auto
  moreover have "itemCount d = Inr (length xs)"
    using assms by (simp add: itemCount_def items_def items_loop_split)
  ultimately show ?thesis
    using assms(1) by (simp add: toList_def toVector_def iterate_exact [OF assms])
qed

theorem rlp_iteration_visits_items_witness:
  "itemCount [0xc4, 5, 0x81, 200, 6] = Inr 3 \<and>
   toList Strict [0xc4, 5, 0x81, 200, 6] = Some (Inr [[5], [0x81, 200], [6]]) \<and>
   toVector (\<lambda>i fl. toBytes fl i) Strict [0xc4, 5, 0x81, 200, 6] = Some (emap (toBytes Strict) [[5], [0x81, 200], [6]])"
  using rlp_iteration_visits_items [of "[0xc4, 5, 0x81, 200, 6]" "[5, 0x81, 200, 6]" "[[5], [0x81, 200], [6]]" Strict
      "\<lambda>i fl. toBytes fl i"]
  by (simp add: payload_def rlp_length_def requireGood_def isNull_def rlp_consts cropped_def slice_def payloadOffset_def
      isSingleByte_def lengthSize_def isData_def isList_def split_items.simps sizeAsEncoded_eq actualSize_def
      RLP_ctor_VeryStrict)

lemma list_view_trailing:
  assumes "small (List its)"
  shows "list_view (enc (List its) @ r) (length (enc (List its)) - length (concat (map enc its))) (concat (map enc its))"
proof -
  let ?p = "concat (map enc its)"
  have "length ?p < max_rlp" using assms by simp
  note h = list_header [OF this, of "?p @ r"]
  show ?thesis
    using h(1-3) by (auto simp: list_view_def Let_def)
qed

lemma iter_loop_walk:
  assumes v: "list_view d off p" "split_items p = Inr xs" and k: "k \<le> length xs"
  shows "iter_loop Inr d (iter_at off xs k) ret = iter_loop Inr d (iter_at off xs (length xs)) (ret @ drop k xs)"
  using k
proof (induction "length xs - k" arbitrary: k ret)
  case 0
  then show ?case by simp
next
  case (Suc n)
  then have k: "k < length xs" "n = length xs - Suc k" by auto
  note s = split_items_nth [OF v(2) k(1)]
  have "\<not> iter_eq (iter_at off xs k) (iter_end d)"
    using s(4) k(1) by (simp add: iter_eq_def iter_end_def iter_at_def item_at_def)
  moreover have "RLP_ctor (it_view d (iter_at off xs k)) VeryStrict = Inr (xs ! k)"
    using s(5) by (simp add: it_view_iter_at [OF v k(1)] RLP_ctor_VeryStrict_Inr)
  ultimately have "iter_loop Inr d (iter_at off xs k) ret = iter_loop Inr d (iter_at off xs (Suc k)) (ret @ [xs ! k])"
    using iter_next_at [OF v k(1)] by (subst iter_loop.simps) simp
  also have "\<dots> = iter_loop Inr d (iter_at off xs (length xs)) ((ret @ [xs ! k]) @ drop (Suc k) xs)"
    using Suc.hyps(1) [OF k(2)] k(1) by simp
  finally show ?case using k by (simp add: Cons_nth_drop_Suc)
qed

text \<open>(C21) Iteration over a list object with trailing bytes does not end. Flags without \<open>FailIfTooBig\<close> allow an object
  whose bytes go on after its list item, but \<open>end()\<close> stands at the end of the bytes while the iterator
  stops moving at the end of the items: \<open>toList\<close> runs forever, though \<open>itemCount\<close> of the same object returns.\<close>

theorem rlp_iteration_diverges:
  assumes "small (List its)" "r \<noteq> []"
  shows "toList fl (enc (List its) @ r) = None \<and> itemCount (enc (List its) @ r) = Inr (length its)"
proof -
  let ?d = "enc (List its) @ r" and ?p = "concat (map enc its)" and ?xs = "map enc its"
  let ?off = "length (enc (List its)) - length ?p"
  have v: "list_view ?d ?off ?p" by (rule list_view_trailing [OF assms(1)])
  have sp: "split_items ?p = Inr ?xs" using assms(1) by (simp add: split_items_enc)
  let ?it = "iter_at ?off ?xs (length ?xs)"
  have "length ?p \<le> length (enc (List its))" by (simp add: Let_def)
  then have "\<not> iter_eq ?it (iter_end ?d)"
    using assms(2) by (auto simp: iter_eq_def iter_end_def iter_at_def isNull_def simp del: enc.simps)
  then have "iter_loop Inr ?d ?it ret = None" for ret
    using iter_loop_stuck [of Inr ?d ?it ret _ "[]"] by (cases "iter_loop Inr ?d ?it ret") (auto simp: iter_at_def item_at_def)
  then have "iterate Inr ?d = None"
    using iter_begin_at [OF v sp] iter_loop_walk [OF v sp, of 0 "[]"] by (simp add: iterate_def del: enc.simps)
  moreover have l: "isList ?d" using v by (simp add: list_view_def)
  moreover have "payload ?d = Inr ?p"
    by (rule list_view_payload [OF v])
  ultimately show ?thesis
    using sp by (simp add: toList_def itemCount_def items_def items_loop_split del: enc.simps)
qed

theorem rlp_iteration_diverges_witness:
  "toList LaissezFaire [0xc1, 5, 7] = None \<and> itemCount [0xc1, 5, 7] = Inr 1"
  using rlp_iteration_diverges [of "[Data [5]]" "[7]" LaissezFaire] by (simp add: max_rlp_def rlp_header_def)

text \<open>Integers round-trip: reading back, with the strict flags, what \<open>RLPStream::append\<close> wrote for a \<open>u256\<close>
  gives the same number.\<close>

theorem rlp_int_roundtrip:
  "ebind (ebind (append_bigint (unat (w :: u256)) RLPStream_new) out) (toInt Strict) = Inr w"
  by (simp add: append_u256 toInt_u256 RLPStream_new_def noteAppended_def out_def del: enc.simps)

text \<open>Sizes never wrap: an item size the reader accepts is below \<open>2 ^ 64\<close>, so adding the header length
  to a payload length cannot overflow \<open>size_t\<close>.\<close>

theorem rlp_size_no_overflow:
  assumes "actualSize d = Inr n"
  shows "n < 2 ^ 64"
proof (cases "d = [] \<or> isSingleByte d")
  case True
  then show ?thesis using assms by (auto simp: actualSize_def isNull_def split: if_splits)
next
  case False
  then obtain l where l: "rlp_length d = Inr l" "n = payloadOffset d + l"
    using assms by (auto simp: actualSize_def isNull_def isData_def isList_def result_simps split: if_splits)
  have "payloadOffset d \<le> 9"
    using unat_byte_lt [of "d ! 0"]
    by (auto simp: payloadOffset_def lengthSize_def isData_def isList_def rlp_consts simp del: unat_byte_lt)
  moreover have "l < max_rlp" using rlp_length_inv [OF _ l(1)] False by auto
  ultimately show ?thesis using l(2) by (simp add: max_rlp_def)
qed

end
