(* ===== verification/TrieCommon.thy ===== *)
theory TrieCommon
  imports RlpCodec
begin

text \<open>
  Nibble views and the hex-prefix notation of trie keys: \<open>libdevcore/TrieCommon.h\<close> and \<open>TrieCommon.cpp\<close>.
  A \<open>NibbleSlice\<close> is a view of bytes from a nibble offset on; \<open>unsigned\<close> is 32 bits wide and
  the size of a slice and the sums of offsets are computed in it. The lemmas read every operation on a slice as one on its list of nibbles.
\<close>

unbundle bit_operations_syntax

section \<open>Nibbles of a byte view\<close>

definition nibble :: "bytes \<Rightarrow> nat \<Rightarrow> byte" where
  "nibble d i = (if odd i then d ! (i div 2) AND 15 else drop_bit 4 (d ! (i div 2)))"

function sharedNibbles :: "bytes \<Rightarrow> nat \<Rightarrow> nat \<Rightarrow> bytes \<Rightarrow> nat \<Rightarrow> nat \<Rightarrow> nat \<Rightarrow> nat" where
  "sharedNibbles d1 b1 e1 d2 b2 e2 ret =
     (if b1 < e1 \<and> b2 < e2 \<and> nibble d1 b1 = nibble d2 b2
      then sharedNibbles d1 (Suc b1) e1 d2 (Suc b2) e2 (Suc ret)
      else ret)"
  by pat_completeness auto
termination
  by (relation "measure (\<lambda>(d1, b1, e1, d2, b2, e2, ret). e1 - b1)") auto

declare sharedNibbles.simps [simp del]

record nibble_slice =
  ns_data :: bytes
  ns_offset :: nat

definition ns_at :: "nibble_slice \<Rightarrow> nat \<Rightarrow> byte" where
  "ns_at s i = nibble (ns_data s) ((ns_offset s + i) mod 2 ^ 32)"

definition ns_size :: "nibble_slice \<Rightarrow> nat" where
  "ns_size s = unat (of_nat (length (ns_data s) * 2) - of_nat (ns_offset s) :: 32 word)"

definition ns_empty :: "nibble_slice \<Rightarrow> bool" where
  "ns_empty s = (ns_size s = 0)"

definition ns_mid :: "nibble_slice \<Rightarrow> nat \<Rightarrow> nibble_slice" where
  "ns_mid s i = \<lparr>ns_data = ns_data s, ns_offset = (ns_offset s + i) mod 2 ^ 32\<rparr>"

definition ns_clear :: "nibble_slice \<Rightarrow> nibble_slice" where
  "ns_clear s = s\<lparr>ns_data := [], ns_offset := 0\<rparr>"

definition shared :: "nibble_slice \<Rightarrow> nibble_slice \<Rightarrow> nat" where
  "shared s k =
     sharedNibbles (ns_data s) (ns_offset s) ((ns_offset s + ns_size s) mod 2 ^ 32)
       (ns_data k) (ns_offset k) ((ns_offset k + ns_size k) mod 2 ^ 32) 0"

definition contains :: "nibble_slice \<Rightarrow> nibble_slice \<Rightarrow> bool" where
  "contains s k = (shared s k = ns_size k)"

function earlier_loop :: "nibble_slice \<Rightarrow> nibble_slice \<Rightarrow> nat \<Rightarrow> bool" where
  "earlier_loop s k i =
     (if i < ns_size k \<and> i < ns_size s then
        (if ns_at s i < ns_at k i then True
         else if ns_at s i > ns_at k i then False
         else earlier_loop s k (Suc i))
      else \<not> ns_size k \<le> i)"
  by pat_completeness auto
termination
  by (relation "measure (\<lambda>(s, k, i). ns_size s - i)") auto

declare earlier_loop.simps [simp del]

definition isEarlierThan :: "nibble_slice \<Rightarrow> nibble_slice \<Rightarrow> bool" where
  "isEarlierThan s k = earlier_loop s k 0"

definition ns_eq :: "nibble_slice \<Rightarrow> nibble_slice \<Rightarrow> bool" where
  "ns_eq s k = (ns_size k = ns_size s \<and> shared s k = ns_size k)"

section \<open>Hex-prefix notation\<close>

text \<open>The first byte: the flags of oddness and termination in the high nibble.\<close>

definition hp_flags :: "bool \<Rightarrow> bool \<Rightarrow> byte" where
  "hp_flags leaf odd_len = ((if leaf then 2 else 0) OR (if odd_len then 1 else 0)) * 16"

fun hp_pairs :: "bytes \<Rightarrow> nat list \<Rightarrow> bytes" where
  "hp_pairs hv [] = []"
| "hp_pairs hv [i] = [hv ! i * 16 + hv ! (i + 1)]"
| "hp_pairs hv (i # _ # is) = (hv ! i * 16 + hv ! (i + 1)) # hp_pairs hv is"

text \<open>The overload on a vector of nibbles. A negative end counts from the end of the vector.\<close>

definition hexPrefixEncode :: "bytes \<Rightarrow> bool \<Rightarrow> nat \<Rightarrow> int \<Rightarrow> bytes" where
  "hexPrefixEncode hv leaf begn en =
     (let e = (if en < 0 then nat (int (length hv) + 1 + en) else nat en);
          od = odd (e + begn);
          first = hp_flags leaf od in
      if od then (first OR hv ! begn) # hp_pairs hv [Suc begn ..< e]
      else first # hp_pairs hv [begn ..< e])"

text \<open>
  The overloads on views push nibbles one at a time, onto the low half of the last byte or as the high
  half of a new one, according to the parity of the running counter \<open>d\<close>.
\<close>

definition hp_push :: "bytes \<times> nat \<Rightarrow> byte \<Rightarrow> bytes \<times> nat" where
  "hp_push rd n = (case rd of (ret, d) \<Rightarrow>
     (if odd d then butlast ret @ [last ret OR n] else ret @ [push_bit 4 n], Suc d))"

definition hexPrefixEncode_view :: "bytes \<Rightarrow> bool \<Rightarrow> nat \<Rightarrow> int \<Rightarrow> nat \<Rightarrow> bytes" where
  "hexPrefixEncode_view d leaf begn en offset =
     (let b = begn + offset;
          e = nat ((if en < 0 then int (length d) * 2 - int offset + 1 + en else en) + int offset);
          od = odd (e + b) in
      fst (foldl hp_push ([hp_flags leaf od], if od then 1 else 2) (map (nibble d) [b ..< e])))"

definition hexPrefixEncode_join :: "bytes \<Rightarrow> nat \<Rightarrow> bytes \<Rightarrow> nat \<Rightarrow> bool \<Rightarrow> bytes" where
  "hexPrefixEncode_join d1 o1 d2 o2 leaf =
     (let e1 = length d1 * 2;
          e2 = length d2 * 2;
          od = odd (e1 + o1 + e2 + o2);
          r1 = foldl hp_push ([hp_flags leaf od], if od then 1 else 2) (map (nibble d1) [o1 ..< e1]) in
      fst (foldl hp_push r1 (map (nibble d2) [o2 ..< e2])))"

definition hexPrefixEncode_slice :: "nibble_slice \<Rightarrow> bool \<Rightarrow> nat \<Rightarrow> int \<Rightarrow> bytes" where
  "hexPrefixEncode_slice s leaf begn en = hexPrefixEncode_view (ns_data s) leaf begn en (ns_offset s)"

definition hexPrefixEncode_slices :: "nibble_slice \<Rightarrow> nibble_slice \<Rightarrow> bool \<Rightarrow> bytes" where
  "hexPrefixEncode_slices s1 s2 leaf = hexPrefixEncode_join (ns_data s1) (ns_offset s1) (ns_data s2) (ns_offset s2) leaf"

definition keyOf :: "bytes \<Rightarrow> nibble_slice" where
  "keyOf hpe =
     (if length hpe = 0 then \<lparr>ns_data = hpe, ns_offset = 0\<rparr>
      else if hpe ! 0 AND 0x10 \<noteq> 0 then \<lparr>ns_data = hpe, ns_offset = 1\<rparr>
      else \<lparr>ns_data = hpe, ns_offset = 2\<rparr>)"

section \<open>Trie nodes\<close>

text \<open>
  \<open>isLeaf\<close> and \<open>keyOf\<close> read the first item of a two-item node through the indexing cache of the node;
  reading byte 0 of an empty payload goes through the null pointer.
\<close>

definition first_payload :: "rlp \<Rightarrow> (rlp_error + bytes) \<times> rlp" where
  "first_payload r = (case rlp_nth 0 r of (x, r1) \<Rightarrow> (ebind x payload, r1))"

definition isLeaf :: "rlp \<Rightarrow> (rlp_error + bool) \<times> rlp" where
  "isLeaf r = (case first_payload r of (x, r1) \<Rightarrow>
     (ebind x (\<lambda>pl. if pl = [] then Inl NullRead else Inr (pl ! 0 AND 0x20 \<noteq> 0)), r1))"

definition keyOf_node :: "rlp \<Rightarrow> (rlp_error + nibble_slice) \<times> rlp" where
  "keyOf_node r = (case first_payload r of (x, r1) \<Rightarrow> (ebind x (\<lambda>pl. Inr (keyOf pl)), r1))"

fun unique_loop :: "nat \<Rightarrow> nat list \<Rightarrow> nat \<Rightarrow> rlp \<Rightarrow> (rlp_error + nat) \<times> rlp" where
  "unique_loop except [] used r = (Inr used, r)"
| "unique_loop except (i # is) used r =
     (if i = except then unique_loop except is used r
      else case rlp_nth i r of
        (Inl e, r1) \<Rightarrow> (Inl e, r1)
      | (Inr x, r1) \<Rightarrow>
          if isEmpty x then unique_loop except is used r1
          else if used = 255 then unique_loop except is i r1
          else (Inr 255, r1))"

definition uniqueInUse :: "rlp \<Rightarrow> byte \<Rightarrow> (rlp_error + nat) \<times> rlp" where
  "uniqueInUse r except = unique_loop (unat except) [0 ..< 17] 255 r"

section \<open>Slices as lists of nibbles\<close>

definition ns_wf :: "nibble_slice \<Rightarrow> bool" where
  "ns_wf s \<longleftrightarrow> ns_offset s \<le> length (ns_data s) * 2 \<and> length (ns_data s) * 2 < 2 ^ 32"

definition nibs :: "nibble_slice \<Rightarrow> bytes" where
  "nibs s = map (nibble (ns_data s)) [ns_offset s ..< length (ns_data s) * 2]"

abbreviation is_nibble :: "byte \<Rightarrow> bool" where
  "is_nibble n \<equiv> unat n < 16"

lemma is_nibble_take_bit: "is_nibble n \<longleftrightarrow> take_bit 4 n = n"
proof
  assume "is_nibble n"
  then have "unat (take_bit 4 n) = unat n" by (simp only: unsigned_take_bit_eq) (simp add: take_bit_eq_mod)
  then show "take_bit 4 n = n" by (simp add: word_unat_eq_iff)
next
  assume "take_bit 4 n = n"
  then have "unat n = unat (take_bit 4 n)" by simp
  also have "\<dots> < 16" by (simp only: unsigned_take_bit_eq) (simp add: take_bit_eq_mod)
  finally show "is_nibble n" .
qed

lemma unat_nibble: "unat (nibble d i) = (if odd i then unat (d ! (i div 2)) mod 16 else unat (d ! (i div 2)) div 16)"
proof -
  have "unat (d ! (i div 2)) div 16 < 16" using unat_byte_lt [of "d ! (i div 2)"] by linarith
  then show ?thesis
    using low_nibble [of "d ! (i div 2)"] by (simp add: nibble_def unat_drop_bit_eq) (simp add: drop_bit_eq_div)
qed

lemma is_nibble_nibble [simp]: "is_nibble (nibble d i)"
proof -
  have "unat (d ! (i div 2)) div 16 < 16" using unat_byte_lt [of "d ! (i div 2)"] by linarith
  then show ?thesis by (simp add: unat_nibble)
qed

lemma ns_size_wf: "ns_wf s \<Longrightarrow> ns_size s = length (nibs s)"
proof -
  assume wf: "ns_wf s"
  have "(of_nat (length (ns_data s) * 2) - of_nat (ns_offset s) :: 32 word) =
      of_nat (length (ns_data s) * 2 - ns_offset s)"
    using wf by (simp add: ns_wf_def of_nat_diff)
  moreover have "length (ns_data s) * 2 - ns_offset s < 2 ^ LENGTH(32)"
    using wf by (auto simp: ns_wf_def)
  ultimately show ?thesis
    unfolding ns_size_def by (simp only: unat_of_nat mod_less nibs_def length_map length_upt)
qed

lemma ns_at_nibs: "ns_wf s \<Longrightarrow> i < ns_size s \<Longrightarrow> ns_at s i = nibs s ! i"
  by (auto simp: ns_size_wf ns_at_def nibs_def ns_wf_def)

lemma ns_wf_mid: "ns_wf s \<Longrightarrow> i \<le> ns_size s \<Longrightarrow> ns_wf (ns_mid s i)"
  by (auto simp: ns_size_wf nibs_def ns_mid_def ns_wf_def)

lemma nibs_mid: "ns_wf s \<Longrightarrow> i \<le> ns_size s \<Longrightarrow> nibs (ns_mid s i) = drop i (nibs s)"
  by (auto simp: ns_size_wf nibs_def ns_mid_def ns_wf_def drop_map)

lemma sharedNibbles_commonPrefix:
  "sharedNibbles d1 b1 e1 d2 b2 e2 ret =
     ret + commonPrefix (map (nibble d1) [b1 ..< e1]) (map (nibble d2) [b2 ..< e2])"
proof (induction d1 b1 e1 d2 b2 e2 ret rule: sharedNibbles.induct)
  case (1 d1 b1 e1 d2 b2 e2 ret)
  show ?case
  proof (cases "b1 < e1 \<and> b2 < e2")
    case True
    then show ?thesis
      using 1 by (simp add: sharedNibbles.simps [of d1 b1] upt_conv_Cons del: upt_Suc)
  next
    case False
    then have "commonPrefix (map (nibble d1) [b1 ..< e1]) (map (nibble d2) [b2 ..< e2]) = 0"
      by (cases "b1 < e1") auto
    then show ?thesis using False by (subst sharedNibbles.simps) auto
  qed
qed

lemma nibs_upto: "ns_wf s \<Longrightarrow> map (nibble (ns_data s)) [ns_offset s ..< ns_offset s + ns_size s] = nibs s"
  by (simp add: ns_size_wf) (simp add: nibs_def ns_wf_def)

lemma ns_end_wf: "ns_wf s \<Longrightarrow> (ns_offset s + ns_size s) mod 2 ^ 32 = ns_offset s + ns_size s"
  by (auto simp: ns_size_wf nibs_def ns_wf_def)

lemma shared_nibs: "ns_wf s \<Longrightarrow> ns_wf k \<Longrightarrow> shared s k = commonPrefix (nibs s) (nibs k)"
  by (simp only: shared_def ns_end_wf sharedNibbles_commonPrefix nibs_upto add_0)

lemma commonPrefix_take: "take (commonPrefix xs ys) xs = take (commonPrefix xs ys) ys"
  by (induction xs ys rule: commonPrefix.induct) auto

lemma commonPrefix_le: "commonPrefix xs ys \<le> length xs \<and> commonPrefix xs ys \<le> length ys"
  by (induction xs ys rule: commonPrefix.induct) auto

lemma commonPrefix_maximal:
  "n \<le> length xs \<Longrightarrow> n \<le> length ys \<Longrightarrow> take n xs = take n ys \<Longrightarrow> n \<le> commonPrefix xs ys"
proof (induction xs ys arbitrary: n rule: commonPrefix.induct)
  case (1 t ts u us)
  then show ?case by (cases n) auto
qed auto

lemma commonPrefix_eq_length: "commonPrefix xs ys = length ys \<longleftrightarrow> take (length ys) xs = ys"
proof
  assume "commonPrefix xs ys = length ys"
  then show "take (length ys) xs = ys" using commonPrefix_take [of xs ys] by simp
next
  assume p: "take (length ys) xs = ys"
  then have "length ys \<le> length xs" by (metis length_take min.cobounded1)
  then show "commonPrefix xs ys = length ys"
    using commonPrefix_maximal [of "length ys" xs ys] commonPrefix_le [of xs ys] p by simp
qed

lemma drop_nibs: "ns_wf s \<Longrightarrow> i < ns_size s \<Longrightarrow> drop i (nibs s) = ns_at s i # drop (Suc i) (nibs s)"
  by (simp add: Cons_nth_drop_Suc ns_at_nibs ns_size_wf)

lemma earlier_loop_lex:
  "ns_wf s \<Longrightarrow> ns_wf k \<Longrightarrow> i \<le> ns_size s \<Longrightarrow> i \<le> ns_size k \<Longrightarrow>
   earlier_loop s k i \<longleftrightarrow> ord_class.lexordp (drop i (nibs s)) (drop i (nibs k))"
proof (induction s k i rule: earlier_loop.induct)
  case (1 s k i)
  show ?case
  proof (cases "i < ns_size k \<and> i < ns_size s")
    case True
    then show ?thesis
      using 1 by (simp add: earlier_loop.simps [of s k i] drop_nibs)
  next
    case False
    then consider "i = ns_size k" | "i = ns_size s" "i < ns_size k" using "1.prems" by linarith
    then show ?thesis
      using "1.prems" False by cases (subst earlier_loop.simps, simp add: ns_size_wf)+
  qed
qed

section \<open>Reference form of the hex-prefix notation\<close>

fun pack :: "bytes \<Rightarrow> bytes" where
  "pack (h # l # r) = (h * 16 + l) # pack r"
| "pack _ = []"

definition hp :: "bytes \<Rightarrow> bool \<Rightarrow> bytes" where
  "hp ns leaf =
     (if odd (length ns) then (hp_flags leaf True + hd ns) # pack (tl ns) else hp_flags leaf False # pack ns)"

lemma nibble_or_add:
  assumes "is_nibble n"
  shows "push_bit 4 h OR n = h * 16 + n"
proof -
  have n: "take_bit 4 n = n" using assms by (simp add: is_nibble_take_bit)
  have "push_bit 4 h AND n = push_bit 4 h AND take_bit 4 n" by (simp only: n)
  also have "\<dots> = 0" by (rule bit_word_eqI) (auto simp: bit_simps)
  finally have "push_bit 4 h OR n = push_bit 4 h + n" by (simp add: disjunctive_add_eq_or)
  then show ?thesis by (simp add: push_bit_eq_mult)
qed

lemma flags_or_add: "is_nibble n \<Longrightarrow> hp_flags leaf od OR n = hp_flags leaf od + n"
  using nibble_or_add [of n "(if leaf then 2 else 0) OR (if od then 1 else 0)"]
  by (simp add: hp_flags_def push_bit_eq_mult)

lemma hp_pairs_pack:
  "even (e - b) \<Longrightarrow> b \<le> e \<Longrightarrow> e \<le> length hv \<Longrightarrow> hp_pairs hv [b ..< e] = pack (take (e - b) (drop b hv))"
proof (induction "e - b" arbitrary: b rule: less_induct)
  case less
  show ?case
  proof (cases "b = e")
    case True
    then show ?thesis by simp
  next
    case False
    then have b: "Suc b < e" using less.prems by presburger
    then have u: "[b ..< e] = b # Suc b # [Suc (Suc b) ..< e]" by (simp add: upt_conv_Cons del: upt_Suc)
    have "take (e - b) (drop b hv) = hv ! b # hv ! Suc b # take (e - Suc (Suc b)) (drop (Suc (Suc b)) hv)"
      using b less.prems by (simp add: Cons_nth_drop_Suc [symmetric] take_Cons' )
    then show ?thesis
      using less.hyps [of "Suc (Suc b)"] less.prems b by (simp add: u del: upt_Suc)
  qed
qed

lemma hexPrefixEncode_hp:
  assumes "b \<le> e" "e \<le> length hv" "list_all is_nibble hv"
  shows "hexPrefixEncode hv leaf b (int e) = hp (take (e - b) (drop b hv)) leaf"
proof -
  let ?ns = "take (e - b) (drop b hv)"
  have len: "length ?ns = e - b" using assms by simp
  show ?thesis
  proof (cases "odd (e - b)")
    case True
    then have "b < e" by (cases "b = e") (use assms in auto)
    then have ns: "?ns = hv ! b # take (e - Suc b) (drop (Suc b) hv)"
      using assms by (simp add: Cons_nth_drop_Suc [symmetric] take_Cons')
    have "is_nibble (hv ! b)" using assms \<open>b < e\<close> by (simp add: list_all_length)
    then show ?thesis
      using True \<open>b < e\<close> assms len hp_pairs_pack [of e "Suc b" hv] ns
      by (auto simp: hexPrefixEncode_def hp_def flags_or_add Let_def)
  next
    case False
    then show ?thesis
      using assms len hp_pairs_pack [of e b hv] by (auto simp: hexPrefixEncode_def hp_def Let_def)
  qed
qed

lemma hp_push_even:
  "even d \<Longrightarrow> even (length ns) \<Longrightarrow> list_all is_nibble ns \<Longrightarrow>
   foldl hp_push (ret, d) ns = (ret @ pack ns, d + length ns)"
proof (induction ns arbitrary: ret d rule: pack.induct)
  case (1 h l r)
  have "foldl hp_push (ret, d) (h # l # r) = foldl hp_push (ret @ [h * 16 + l], d + 2) r"
    using 1 by (simp add: hp_push_def nibble_or_add)
  also have "\<dots> = ((ret @ [h * 16 + l]) @ pack r, d + 2 + length r)"
    using 1 by (intro "1.IH") auto
  finally show ?case by simp
qed auto

lemma hp_push_all:
  assumes "list_all is_nibble ns"
  shows "fst (foldl hp_push ([hp_flags leaf (odd (length ns))], if odd (length ns) then 1 else 2) ns) = hp ns leaf"
proof (cases "odd (length ns)")
  case True
  then obtain n ms where ns: "ns = n # ms" by (cases ns) auto
  with True assms have "foldl hp_push ([hp_flags leaf True], 1) ns = foldl hp_push ([hp_flags leaf True + n], 2) ms"
    by (simp add: hp_push_def flags_or_add numeral_2_eq_2)
  then show ?thesis
    using True assms ns hp_push_even [of 2 ms "[hp_flags leaf True + n]"] by (simp add: hp_def)
next
  case False
  then show ?thesis using assms hp_push_even [of 2 ns "[hp_flags leaf False]"] by (simp add: hp_def)
qed

lemma hexPrefixEncode_view_hp:
  assumes "off + b \<le> e" "e \<le> length d * 2"
  shows "hexPrefixEncode_view d leaf b (int e - int off) off = hp (map (nibble d) [b + off ..< e]) leaf"
proof -
  have "odd (e + (b + off)) \<longleftrightarrow> odd (length (map (nibble d) [b + off ..< e]))" using assms by simp
  then show ?thesis
    using hp_push_all [of "map (nibble d) [b + off ..< e]" leaf] assms
    by (auto simp: hexPrefixEncode_view_def Let_def list_all_iff)
qed

lemma hexPrefixEncode_join_hp:
  assumes "o1 \<le> length d1 * 2" "o2 \<le> length d2 * 2"
  shows "hexPrefixEncode_join d1 o1 d2 o2 leaf =
    hp (map (nibble d1) [o1 ..< length d1 * 2] @ map (nibble d2) [o2 ..< length d2 * 2]) leaf"
proof -
  let ?ns = "map (nibble d1) [o1 ..< length d1 * 2] @ map (nibble d2) [o2 ..< length d2 * 2]"
  have "odd (length d1 * 2 + o1 + length d2 * 2 + o2) \<longleftrightarrow> odd (length ?ns)" using assms by simp
  moreover have "list_all is_nibble ?ns" by (auto simp: list_all_iff)
  ultimately show ?thesis
    using hp_push_all [of ?ns leaf] by (simp only: hexPrefixEncode_join_def Let_def foldl_append)
qed

section \<open>Reading a hex-prefix key back\<close>

lemma nibble_Cons: "nibble (b # bs) (Suc (Suc i)) = nibble bs i"
  by (simp add: nibble_def)

lemma nibble_Cons_0: "unat (nibble (b # bs) 0) = unat b div 16" "unat (nibble (b # bs) (Suc 0)) = unat b mod 16"
  by (simp_all add: unat_nibble)

lemma map_nibble_Cons:
  "map (nibble (b # bs)) [2 ..< Suc (length bs) * 2] = map (nibble bs) [0 ..< length bs * 2]"
proof -
  have "[2 ..< Suc (length bs) * 2] = map (\<lambda>i. i + 2) [0 ..< length bs * 2]"
    using map_add_upt [of 2 "length bs * 2"] by (simp add: add.commute del: upt_Suc)
  then show ?thesis by (simp add: nibble_Cons del: upt_Suc)
qed

lemma unat_pair: "is_nibble h \<Longrightarrow> is_nibble l \<Longrightarrow> unat (h * 16 + l) = unat h * 16 + unat l"
  by (simp add: unat_word_ariths)

lemma nibbles_pack:
  "even (length ns) \<Longrightarrow> list_all is_nibble ns \<Longrightarrow> map (nibble (pack ns)) [0 ..< length (pack ns) * 2] = ns"
proof (induction ns rule: pack.induct)
  case (1 h l r)
  let ?d = "(h * 16 + l) # pack r"
  have u: "[0 ..< length ?d * 2] = 0 # 1 # [2 ..< Suc (length (pack r)) * 2]"
    by (simp add: upt_conv_Cons numeral_2_eq_2 del: upt_Suc)
  have "nibble ?d 0 = h" "nibble ?d 1 = l"
    using "1.prems" by (auto simp: word_unat_eq_iff nibble_Cons_0 unat_pair)
  moreover have "map (nibble ?d) [2 ..< Suc (length (pack r)) * 2] = r"
    using map_nibble_Cons [of "h * 16 + l" "pack r"] "1.IH" "1.prems" by simp
  ultimately show ?case by (simp only: pack.simps u list.map)
qed auto

lemma length_pack: "length (pack ns) = length ns div 2"
  by (induction ns rule: pack.induct) auto

lemma flags_bits:
  assumes "is_nibble n"
  shows "(hp_flags leaf od + n) AND 0x10 \<noteq> 0 \<longleftrightarrow> od" "(hp_flags leaf od + n) AND 0x20 \<noteq> 0 \<longleftrightarrow> leaf"
    "unat (hp_flags leaf od + n) mod 16 = unat n"
proof -
  have n: "take_bit 4 n = n" using assms by (simp add: is_nibble_take_bit)
  have "n AND 0x10 = take_bit 4 n AND 0x10" "n AND 0x20 = take_bit 4 n AND 0x20" by (simp_all only: n)
  then have "n AND 0x10 = 0" "n AND 0x20 = 0"
    by (simp_all add: take_bit_eq_mask and.assoc mask_eq_exp_minus_1)
  then show "(hp_flags leaf od + n) AND 0x10 \<noteq> 0 \<longleftrightarrow> od" "(hp_flags leaf od + n) AND 0x20 \<noteq> 0 \<longleftrightarrow> leaf"
    using flags_or_add [OF assms, of leaf od, symmetric] by (auto simp: bit.conj_disj_distrib2 hp_flags_def)
  show "unat (hp_flags leaf od + n) mod 16 = unat n"
    using assms by (auto simp: hp_flags_def unat_word_ariths)
qed

lemma keyOf_hp:
  assumes "list_all is_nibble ns" "length ns < 2 ^ 31"
  shows "nibs (keyOf (hp ns leaf)) = ns" "ns_wf (keyOf (hp ns leaf))" "hp ns leaf ! 0 AND 0x20 \<noteq> 0 \<longleftrightarrow> leaf"
proof -
  show "nibs (keyOf (hp ns leaf)) = ns"
  proof (cases "odd (length ns)")
    case True
    then obtain n ms where ns: "ns = n # ms" by (cases ns) auto
    let ?d = "(hp_flags leaf True + n) # pack ms"
    have n: "is_nibble n" using assms ns by simp
    have u: "[1 ..< length ?d * 2] = 1 # [2 ..< Suc (length (pack ms)) * 2]"
      by (simp add: upt_conv_Cons numeral_2_eq_2 del: upt_Suc)
    have "nibble ?d 1 = n"
      using flags_bits(3) [OF n, of leaf True] by (simp add: word_unat_eq_iff nibble_Cons_0)
    moreover have "map (nibble ?d) [2 ..< Suc (length (pack ms)) * 2] = ms"
      unfolding map_nibble_Cons using True assms ns by (intro nibbles_pack) auto
    ultimately have "map (nibble ?d) [1 ..< length ?d * 2] = ns" unfolding u list.map ns by simp
    then show ?thesis
      using True ns flags_bits(1) [OF n, of leaf True] by (simp add: hp_def keyOf_def nibs_def del: upt_Suc)
  next
    case False
    have "map (nibble (hp_flags leaf False # pack ns)) [2 ..< Suc (length (pack ns)) * 2] = ns"
      unfolding map_nibble_Cons using False assms by (intro nibbles_pack) auto
    then show ?thesis
      using False flags_bits(1) [of 0 leaf False] by (simp add: hp_def keyOf_def nibs_def del: upt_Suc)
  qed
  show "ns_wf (keyOf (hp ns leaf))"
    using assms(2) by (auto simp: ns_wf_def keyOf_def hp_def length_pack Suc_le_eq dest: odd_pos)
  show "hp ns leaf ! 0 AND 0x20 \<noteq> 0 \<longleftrightarrow> leaf"
    using flags_bits(2) [of "hd ns" leaf True] flags_bits(2) [of 0 leaf False] assms(1)
    by (cases ns) (auto simp: hp_def)
qed

lemma hexPrefixEncode_neg: "hexPrefixEncode hv leaf b (- 1) = hexPrefixEncode hv leaf b (int (length hv))"
  by (simp add: hexPrefixEncode_def)

lemma list_all_nibs [simp]: "list_all is_nibble (nibs s)"
  by (simp add: nibs_def list_all_iff)

lemma unique_loop_spec:
  assumes "payload (m_data r) = Inr p" "split_items p = Inr xs" "cache_ok xs r" "list_all (\<lambda>i. i < 17) is" "used \<le> 255"
  shows "\<exists>r'. unique_loop except is used r =
    (Inr (case filter (\<lambda>i. i \<noteq> except \<and> \<not> isEmpty (item_at xs i)) is of
            [] \<Rightarrow> used
          | [i] \<Rightarrow> (if used = 255 then i else 255)
          | _ \<Rightarrow> 255), r')"
  using assms
proof (induction "is" arbitrary: used r)
  case Nil
  then show ?case by simp
next
  case (Cons i ks)
  obtain r1 where r1: "rlp_nth i r = (Inr (item_at xs i), r1)" "m_data r1 = m_data r" "cache_ok xs r1"
    using rlp_nth_spec [OF Cons.prems(1-3), of i] Cons.prems(4) by auto
  consider "i = except" | "i \<noteq> except" "isEmpty (item_at xs i)" | "i \<noteq> except" "\<not> isEmpty (item_at xs i)" "used = 255"
    | "i \<noteq> except" "\<not> isEmpty (item_at xs i)" "used \<noteq> 255" by blast
  then show ?case
  proof cases
    case 1
    then show ?thesis using Cons.IH [of r used] Cons.prems by simp
  next
    case 2
    then show ?thesis using Cons.IH [of r1 used] Cons.prems r1 by simp
  next
    case 3
    then show ?thesis
      using Cons.IH [of r1 i] Cons.prems r1 by (auto split: list.splits)
  next
    case 4
    then show ?thesis using r1 by (auto split: list.splits)
  qed
qed

section \<open>The properties of trie keys\<close>

text \<open>(C32) A hex-prefix encoded key reads back: for any run of nibbles of a nibble vector, \<open>keyOf\<close> of the encoding
  is a well-formed slice with exactly these nibbles, and bit \<open>0x20\<close> of the first byte, which \<open>isLeaf\<close> tests, is the
  leaf flag that was encoded.\<close>

theorem hexPrefix_roundtrip:
  assumes "b \<le> e" "e \<le> length hv" "list_all is_nibble hv" "length hv < 2 ^ 31"
  shows "let k = hexPrefixEncode hv leaf b (int e) in
    ns_wf (keyOf k) \<and> nibs (keyOf k) = take (e - b) (drop b hv) \<and> (k ! 0 AND 0x20 \<noteq> 0 \<longleftrightarrow> leaf)"
proof -
  let ?ns = "take (e - b) (drop b hv)"
  have ns: "list_all is_nibble ?ns" "length ?ns < 2 ^ 31"
    using assms by (auto simp: list_all_iff dest!: in_set_takeD in_set_dropD)
  show ?thesis
    using keyOf_hp [OF ns, of leaf] by (simp only: hexPrefixEncode_hp [OF assms(1-3)] Let_def simp_thms)
qed

theorem hexPrefix_roundtrip_witness:
  "hexPrefixEncode [1, 2, 3, 4, 5] True 1 4 = [0x32, 0x34] \<and> nibs (keyOf [0x32, 0x34]) = [2, 3, 4]"
  using hexPrefix_roundtrip [of 1 4 "[1, 2, 3, 4, 5]" True]
  by (simp add: hexPrefixEncode_def hp_flags_def upt_conv_Cons Let_def)

text \<open>The overloads of \<open>hexPrefixEncode\<close> agree: encoding a byte view from a nibble offset, or two views
  one after the other, gives the bytes that the overload on nibble vectors gives for the nibbles of the views.\<close>

theorem hexPrefix_overloads_agree:
  assumes "ns_wf s" "ns_wf k"
  shows "hexPrefixEncode_slice s leaf 0 (- 1) = hexPrefixEncode (nibs s) leaf 0 (- 1) \<and>
    hexPrefixEncode_slices s k leaf = hexPrefixEncode (nibs s @ nibs k) leaf 0 (- 1)"
proof -
  have "hexPrefixEncode_slice s leaf 0 (- 1) = hexPrefixEncode_view (ns_data s) leaf 0 (int (length (ns_data s) * 2) - int (ns_offset s)) (ns_offset s)"
    using assms(1) by (simp add: hexPrefixEncode_slice_def hexPrefixEncode_view_def ns_wf_def)
  also have "\<dots> = hp (nibs s) leaf"
    using assms(1) by (subst hexPrefixEncode_view_hp) (auto simp: ns_wf_def nibs_def)
  finally show ?thesis
    using assms hexPrefixEncode_hp [of 0 "length (nibs s)" "nibs s" leaf]
      hexPrefixEncode_hp [of 0 "length (nibs s @ nibs k)" "nibs s @ nibs k" leaf]
      hexPrefixEncode_join_hp [of "ns_offset s" "ns_data s" "ns_offset k" "ns_data k" leaf]
    by (simp add: hexPrefixEncode_neg hexPrefixEncode_slices_def ns_wf_def nibs_def [symmetric])
qed

text \<open>(C33) The operations of \<open>NibbleSlice\<close> are those of nibble lists: \<open>shared\<close> is the length of the longest common prefix,
  \<open>contains\<close> says that the argument is a prefix, \<open>operator==\<close> is equality of the nibbles,
  \<open>isEarlierThan\<close> is the strict lexicographic order, and \<open>mid\<close>, up to the end of the slice, gives a well-formed slice of the
  nibbles from the index on. Slices are well-formed when the offset is inside the data and the number of nibbles fits
  into 32 bits.\<close>

theorem nibble_slice_refines_lists:
  assumes "ns_wf s" "ns_wf k"
  shows "shared s k = commonPrefix (nibs s) (nibs k) \<and>
    (contains s k \<longleftrightarrow> take (length (nibs k)) (nibs s) = nibs k) \<and>
    (ns_eq s k \<longleftrightarrow> nibs s = nibs k) \<and>
    (isEarlierThan s k \<longleftrightarrow> ord_class.lexordp (nibs s) (nibs k)) \<and>
    (i \<le> ns_size s \<longrightarrow> ns_wf (ns_mid s i) \<and> nibs (ns_mid s i) = drop i (nibs s))"
  using assms earlier_loop_lex [of s k 0]
  by (auto simp: shared_nibs contains_def ns_eq_def isEarlierThan_def ns_size_wf commonPrefix_eq_length nibs_mid ns_wf_mid)

theorem nibble_slice_refines_lists_witness:
  "isEarlierThan \<lparr>ns_data = [0x12], ns_offset = 0\<rparr> \<lparr>ns_data = [0x13], ns_offset = 0\<rparr> \<and>
   nibs (ns_mid \<lparr>ns_data = [0x12], ns_offset = 0\<rparr> 1) = [2]"
proof -
  have "ns_wf \<lparr>ns_data = [0x12], ns_offset = 0\<rparr>" "ns_wf \<lparr>ns_data = [0x13], ns_offset = 0\<rparr>" by (simp_all add: ns_wf_def)
  from nibble_slice_refines_lists [OF this, of 1] show ?thesis
    by (simp add: nibs_def nibble_def upt_conv_Cons ns_size_def)
qed

text \<open>\<open>uniqueInUse\<close> finds the only used child of a branch node: with the items \<open>xs\<close> of the node, the index \<open>i < 17\<close>
  different from \<open>except\<close> whose item is not empty when there is exactly one, and \<open>255\<close> when there are none or several.\<close>

theorem uniqueInUse_finds_only_child:
  assumes "payload d = Inr p" "split_items p = Inr xs" "length xs < 2 ^ 64 - 1"
  shows "fst (uniqueInUse (rlp_of d) except) =
    Inr (case filter (\<lambda>i. i \<noteq> unat except \<and> \<not> isEmpty (item_at xs i)) [0 ..< 17] of [i] \<Rightarrow> i | _ \<Rightarrow> 255)"
proof -
  have "m_data (rlp_of d) = d" by (simp add: rlp_of_def)
  then show ?thesis
    using unique_loop_spec [of "rlp_of d" p xs "[0 ..< 17]" 255 "unat except"] assms cache_ok_rlp_of [OF assms(3), of d]
    by (auto simp: uniqueInUse_def list_all_iff split: list.splits)
qed

theorem uniqueInUse_finds_only_child_witness:
  "fst (uniqueInUse (rlp_of (enc (List (replicate 3 (Data []) @ [Data [5]] @ replicate 13 (Data []))))) 16) = Inr 3"
proof -
  let ?its = "replicate 3 (Data []) @ [Data [5]] @ replicate 13 (Data [])"
  let ?p = "concat (map enc ?its)"
  have sm: "small (List ?its)"
    by (simp add: rlp_header_def max_rlp_def length_concat map_replicate_const sum_list_replicate list_all_iff)
  then have "payload (enc (List ?its)) = Inr ?p" using payload_list [of ?p] by (simp add: Let_def)
  moreover have "split_items ?p = Inr (map enc ?its)" using sm by (intro split_items_enc) simp
  ultimately have "fst (uniqueInUse (rlp_of (enc (List ?its))) 16) =
      Inr (case filter (\<lambda>i. i \<noteq> 16 \<and> \<not> isEmpty (item_at (map enc ?its) i)) [0 ..< 17] of [i] \<Rightarrow> i | _ \<Rightarrow> 255)"
    using uniqueInUse_finds_only_child [of "enc (List ?its)" ?p "map enc ?its" 16] by simp
  also have "filter (\<lambda>i. i \<noteq> 16 \<and> \<not> isEmpty (item_at (map enc ?its) i)) [0 ..< 17] = [3]"
    by (simp add: upt_conv_Cons item_at_def isEmpty_def isNull_def rlp_consts rlp_header_def nth_append nth_Cons')
  finally show ?thesis by simp
qed

end
