(* ===== verification/TrieHash.thy ===== *)
theory TrieHash
  imports TrieCommon
begin

text \<open>
  The root hash of a Merkle-Patricia trie computed from a whole map: \<open>libdevcore/TrieHash.cpp\<close>. A \<open>std::map\<close> is
  its list of entries in iteration order, which is ascending in the lexicographic order of the keys; a pair of iterators is the run of
  entries between them. The hash function \<open>sha3\<close> (Keccak-256, \<open>libdevcore/SHA3.cpp\<close>) is a parameter
  of which only the length of its results is used. The reference definition \<open>node\<close> follows the
  definition of the trie as a function of a set of key-value pairs.
\<close>

section \<open>Ordered maps\<close>

type_synonym entries = "(bytes \<times> bytes) list"

text \<open>\<open>m[k] = v\<close>.\<close>

fun map_put :: "bytes \<Rightarrow> bytes \<Rightarrow> entries \<Rightarrow> entries" where
  "map_put k v [] = [(k, v)]"
| "map_put k v ((k', v') # m) =
     (if k = k' then (k, v) # m
      else if ord_class.lexordp k k' then (k, v) # (k', v') # m
      else (k', v') # map_put k v m)"

section \<open>The trie\<close>

function shared_from :: "nat \<Rightarrow> bytes \<Rightarrow> bytes \<Rightarrow> nat \<Rightarrow> nat" where
  "shared_from x k0 k sh = (if sh < x \<and> k0 ! sh = k ! sh then shared_from x k0 k (Suc sh) else sh)"
  by pat_completeness auto
termination
  by (relation "measure (\<lambda>(x, k0, k, sh). x - sh)") auto

declare shared_from.simps [simp del]

fun sharedPre_loop :: "bytes \<Rightarrow> nat \<Rightarrow> nat \<Rightarrow> bytes list \<Rightarrow> nat" where
  "sharedPre_loop k0 preLen sp [] = sp"
| "sharedPre_loop k0 preLen sp (k # ks) =
     (if sp = 0 then sp
      else
        (let x = min sp (min (length k0) (length k)) in
         sharedPre_loop k0 preLen (min (shared_from x k0 k preLen) sp) ks))"

text \<open>The sixteen runs of entries that the branch case hands to its children, in order.\<close>

fun branch_runs :: "nat \<Rightarrow> nat list \<Rightarrow> entries \<Rightarrow> entries list" where
  "branch_runs preLen [] b = []"
| "branch_runs preLen (i # is) b =
     (let q = (\<lambda>(k, v). preLen < length k \<and> unat (k ! preLen) = i) in
      takeWhile q b # branch_runs preLen is (dropWhile q b))"

definition longest_key :: "entries \<Rightarrow> nat" where
  "longest_key s = foldr (\<lambda>(k, v) m. max (length k) m) s 0"

lemma longest_key_mono: "set s \<subseteq> set t \<Longrightarrow> longest_key s \<le> longest_key t"
proof -
  have ge: "length (fst e) \<le> longest_key u" if "e \<in> set u" for e u
    using that by (induction u) (auto simp: longest_key_def)
  show "set s \<subseteq> set t \<Longrightarrow> longest_key s \<le> longest_key t"
  proof (induction s)
    case Nil
    then show ?case by (simp add: longest_key_def)
  next
    case (Cons a s)
    then show ?case using ge [of a t] by (auto simp: longest_key_def split: prod.splits)
  qed
qed

lemma longest_key_ge: "e \<in> set u \<Longrightarrow> length (fst e) \<le> longest_key u"
  by (induction u) (auto simp: longest_key_def)

lemma branch_runs_sub:
  "g \<in> set (branch_runs preLen is b) \<Longrightarrow> set g \<subseteq> set b \<and> (\<forall>e \<in> set g. preLen < length (fst e))"
proof (induction preLen "is" b rule: branch_runs.induct)
  case (1 preLen b)
  then show ?case by simp
next
  case (2 preLen i ks b)
  then show ?case by (auto dest!: set_takeWhileD set_dropWhileD simp: Let_def)
qed

lemma shared_from_le: "sh \<le> x \<Longrightarrow> shared_from x k0 k sh \<le> x"
proof (induction x k0 k sh rule: shared_from.induct)
  case (1 x k0 k sh)
  then show ?case by (subst shared_from.simps) auto
qed

lemma sharedPre_loop_le: "sharedPre_loop k0 preLen sp ks \<le> sp"
proof (induction k0 preLen sp ks rule: sharedPre_loop.induct)
  case (2 k0 preLen sp k ks)
  show ?case
  proof (cases "sp = 0")
    case False
    then show ?thesis using 2 [OF False refl] by (auto simp: Let_def)
  qed simp
qed simp

lemma shared_from_bound: "preLen < shared_from x k0 k preLen \<Longrightarrow> shared_from x k0 k preLen \<le> x"
  by (metis linorder_not_le shared_from.simps shared_from_le less_imp_le nat_less_le)

lemma sharedPre_loop_bound:
  assumes "preLen < sharedPre_loop k0 preLen sp (k # ks)"
  shows "sharedPre_loop k0 preLen sp (k # ks) \<le> length k0"
proof -
  let ?x = "min sp (min (length k0) (length k))"
  let ?sh = "shared_from ?x k0 k preLen"
  have "sp \<noteq> 0" using assms by (auto split: if_splits)
  then have "sharedPre_loop k0 preLen sp (k # ks) \<le> ?sh"
    using sharedPre_loop_le [of k0 preLen "min ?sh sp" ks] by (simp add: Let_def)
  moreover have "?sh \<le> ?x" using assms calculation by (intro shared_from_bound) linarith
  ultimately show ?thesis by linarith
qed

text \<open>
  \<open>hash256rlp\<close> and, inlined at its two call sites, \<open>hash256aux\<close>: the child is written to a stream of its
  own and then appended, raw when it is shorter than 32 bytes and as its hash otherwise.
\<close>

definition append_embedded :: "(bytes \<Rightarrow> bytes) \<Rightarrow> rlp_error + rlp_stream \<Rightarrow> rlp_stream \<Rightarrow> rlp_error + rlp_stream" where
  "append_embedded sha3 child st =
     ebind (ebind child out) (\<lambda>o1. if length o1 < 32 then appendRaw o1 1 st else append_bytes (sha3 o1) False st)"

function hash256rlp :: "(bytes \<Rightarrow> bytes) \<Rightarrow> entries \<Rightarrow> nat \<Rightarrow> rlp_stream \<Rightarrow> rlp_error + rlp_stream" where
  "hash256rlp sha3 [] preLen st = append_bytes [] False st"
| "hash256rlp sha3 [(k, v)] preLen st =
     ebind (appendList 2 st) (\<lambda>st1.
     ebind (append_bytes (hexPrefixEncode k True preLen (- 1)) False st1) (append_bytes v False))"
| "hash256rlp sha3 ((k0, v0) # e1 # es) preLen st =
     (let s = (k0, v0) # e1 # es;
          sharedPre = sharedPre_loop k0 preLen (2 ^ 32 - 1) (map fst (e1 # es)) in
      if preLen < sharedPre then
        ebind (appendList 2 st) (\<lambda>st1.
        ebind (append_bytes (hexPrefixEncode k0 False preLen (int sharedPre)) False st1)
          (append_embedded sha3 (hash256rlp sha3 s sharedPre RLPStream_new)))
      else
        ebind (appendList 17 st) (\<lambda>st1.
        ebind (append_all (\<lambda>g. if g = [] then append_bytes [] False
                               else append_embedded sha3 (hash256rlp sha3 g (Suc preLen) RLPStream_new))
                 (branch_runs preLen [0 ..< 16] (if preLen = length k0 then e1 # es else s)) st1)
          (append_bytes (if preLen = length k0 then v0 else []) False)))"
  by pat_completeness auto
termination
proof (relation "measure (\<lambda>(sha3, s, preLen, st). Suc (longest_key s) - preLen)", goal_cases)
  case 1
  then show ?case by simp
next
  case (2 sha3 k0 v0 e1 es preLen st s sp)
  then have "sp \<le> length k0" using sharedPre_loop_bound [of preLen k0 _ "fst e1" "map fst es"] by (simp del: sharedPre_loop.simps)
  also have "length k0 \<le> longest_key s" using longest_key_ge [of "(k0, v0)" s] 2 by simp
  finally have "Suc (longest_key s) - sp < Suc (longest_key s) - preLen" using 2(3) by linarith
  then show ?case using 2 by (simp del: sharedPre_loop.simps)
next
  case (3 sha3 k0 v0 e1 es preLen st s sp x g)
  then have g: "set g \<subseteq> set s" "\<forall>e \<in> set g. preLen < length (fst e)" "g \<noteq> []"
    using branch_runs_sub [OF 3(4)] by (auto split: if_splits)
  then obtain e where "e \<in> set g" "preLen < length (fst e)" by (cases g) auto
  then have "preLen < longest_key g" using longest_key_ge [of e g] by simp
  moreover have "longest_key g \<le> longest_key s" by (rule longest_key_mono [OF g(1)])
  ultimately show ?case using 3 by simp
qed

declare hash256rlp.simps [simp del]

text \<open>\<open>rlp(j)\<close> of an \<open>unsigned\<close>.\<close>

definition rlp_unsigned :: "nat \<Rightarrow> rlp_error + bytes" where
  "rlp_unsigned j = ebind (append_bigint j RLPStream_new) out"

definition rlp256 :: "(bytes \<Rightarrow> bytes) \<Rightarrow> entries \<Rightarrow> rlp_error + bytes" where
  "rlp256 sha3 s =
     (if s = [] then ebind (append_bytes [] False RLPStream_new) out
      else
        (let hexMap = foldl (\<lambda>m (k, v). map_put (asNibbles k) v m) [] (rev s) in
         ebind (hash256rlp sha3 hexMap 0 RLPStream_new) out))"

definition hash256 :: "(bytes \<Rightarrow> bytes) \<Rightarrow> entries \<Rightarrow> rlp_error + bytes" where
  "hash256 sha3 s = ebind (rlp256 sha3 s) (\<lambda>b. Inr (sha3 b))"

fun ordered_entries :: "nat \<Rightarrow> bytes list \<Rightarrow> entries \<Rightarrow> rlp_error + entries" where
  "ordered_entries j [] m = Inr m"
| "ordered_entries j (i # is) m = ebind (rlp_unsigned j) (\<lambda>k. ordered_entries (Suc j) is (map_put k i m))"

definition orderedTrieRoot :: "(bytes \<Rightarrow> bytes) \<Rightarrow> bytes list \<Rightarrow> rlp_error + bytes" where
  "orderedTrieRoot sha3 data = ebind (ordered_entries 0 data []) (hash256 sha3)"

definition trieRootOver :: "(bytes \<Rightarrow> bytes) \<Rightarrow> nat \<Rightarrow> (nat \<Rightarrow> bytes) \<Rightarrow> (nat \<Rightarrow> bytes) \<Rightarrow> rlp_error + bytes" where
  "trieRootOver sha3 itemCnt getKey getValue =
     hash256 sha3 (foldl (\<lambda>m i. map_put (getKey i) (getValue i) m) [] [0 ..< itemCnt])"

section \<open>Reference trie\<close>

definition embed :: "(bytes \<Rightarrow> bytes) \<Rightarrow> item \<Rightarrow> item" where
  "embed sha3 it = (if length (enc it) < 32 then it else Data (sha3 (enc it)))"

text \<open>The length of the longest prefix that all keys share.\<close>

definition lcp :: "entries \<Rightarrow> nat" where
  "lcp s = foldr (\<lambda>e m. min (commonPrefix (fst (hd s)) (fst e)) m) s (length (fst (hd s)))"

definition child :: "entries \<Rightarrow> nat \<Rightarrow> nat \<Rightarrow> entries" where
  "child s i n = filter (\<lambda>(k, v). i < length k \<and> unat (k ! i) = n) s"

definition value_at :: "entries \<Rightarrow> nat \<Rightarrow> bytes" where
  "value_at s i = (case filter (\<lambda>(k, v). length k = i) s of [] \<Rightarrow> [] | e # _ \<Rightarrow> snd e)"

lemma le_foldr_min: "n \<le> foldr (\<lambda>e m. min (f e) m) t x \<longleftrightarrow> n \<le> x \<and> (\<forall>e \<in> set t. n \<le> f e)"
  for n :: nat
  by (induction t) auto

lemma le_lcp_iff: "n \<le> lcp s \<longleftrightarrow> n \<le> length (fst (hd s)) \<and> (\<forall>e \<in> set s. n \<le> commonPrefix (fst (hd s)) (fst e))"
  by (simp add: lcp_def le_foldr_min)

lemma lcp_le: "s \<noteq> [] \<Longrightarrow> lcp s \<le> longest_key s"
proof -
  assume "s \<noteq> []"
  have "lcp s \<le> length (fst (hd s))" using le_lcp_iff [of "lcp s" s] by simp
  also have "\<dots> \<le> longest_key s" using \<open>s \<noteq> []\<close> by (intro longest_key_ge) simp
  finally show ?thesis .
qed

function node :: "(bytes \<Rightarrow> bytes) \<Rightarrow> entries \<Rightarrow> nat \<Rightarrow> item" where
  "node sha3 s i =
     (if s = [] then Data []
      else if length s = 1 then List [Data (hp (drop i (fst (hd s))) True), Data (snd (hd s))]
      else if i < lcp s then
        List [Data (hp (take (lcp s - i) (drop i (fst (hd s)))) False), embed sha3 (node sha3 s (lcp s))]
      else
        List (map (\<lambda>n. if child s i n = [] then Data [] else embed sha3 (node sha3 (child s i n) (Suc i))) [0 ..< 16] @
              [Data (value_at s i)]))"
  by pat_completeness auto
termination
proof (relation "measure (\<lambda>(sha3, s, i). Suc (longest_key s) - i)", goal_cases)
  case (2 sha3 s i)
  then show ?case using lcp_le [of s] by auto
next
  case (3 sha3 s i n)
  then obtain e where e: "e \<in> set (child s i n)" by (cases "child s i n") auto
  then have "i < longest_key (child s i n)" using longest_key_ge [OF e] by (auto simp: child_def)
  moreover have "longest_key (child s i n) \<le> longest_key s" by (rule longest_key_mono) (auto simp: child_def)
  ultimately show ?case by simp
qed simp

declare node.simps [simp del]

definition wf_entries :: "entries \<Rightarrow> nat \<Rightarrow> bool" where
  "wf_entries s i \<longleftrightarrow>
     sorted_wrt (\<lambda>a b. ord_class.lexordp (fst a) (fst b)) s \<and>
     (\<forall>(k, v) \<in> set s. list_all is_nibble k \<and> length k < 2 ^ 31 \<and> length v < 2 ^ 63 \<and>
        i \<le> length k \<and> take i k = take i (fst (hd s)))"

section \<open>The code computes the reference trie\<close>

lemma commonPrefix_ge_iff:
  "n \<le> commonPrefix xs ys \<longleftrightarrow> n \<le> length xs \<and> n \<le> length ys \<and> take n xs = take n ys"
  (is "?l \<longleftrightarrow> ?r")
proof
  assume ?l
  then show ?r
    using commonPrefix_le [of xs ys] arg_cong [OF commonPrefix_take [of xs ys], of "take n"] by (auto simp: min_absorb1)
qed (auto intro: commonPrefix_maximal)

lemma shared_from_commonPrefix:
  "sh \<le> x \<Longrightarrow> x \<le> length k0 \<Longrightarrow> x \<le> length k \<Longrightarrow> take sh k0 = take sh k \<Longrightarrow>
   shared_from x k0 k sh = min x (commonPrefix k0 k)"
proof (induction x k0 k sh rule: shared_from.induct)
  case (1 x k0 k sh)
  show ?case
  proof (cases "sh < x \<and> k0 ! sh = k ! sh")
    case True
    then show ?thesis
      using 1 by (simp add: shared_from.simps [of x k0 k sh] take_Suc_conv_app_nth)
  next
    case False
    have "sh \<le> commonPrefix k0 k" using "1.prems" by (simp add: commonPrefix_ge_iff)
    moreover have "commonPrefix k0 k \<le> sh" if "sh < x"
    proof (rule ccontr)
      assume "\<not> ?thesis"
      then have "Suc sh \<le> commonPrefix k0 k" by simp
      then have "take (Suc sh) k0 = take (Suc sh) k" by (simp add: commonPrefix_ge_iff)
      then have "k0 ! sh = k ! sh" by (metis lessI nth_take)
      then show False using False that by simp
    qed
    ultimately have "sh = min x (commonPrefix k0 k)"
      using "1.prems"(1) by (cases "sh < x") auto
    then show ?thesis
      using False by (subst shared_from.simps) auto
  qed
qed

lemma sharedPre_loop_min:
  "i \<le> sp \<Longrightarrow> i \<le> length k0 \<Longrightarrow> (\<And>k. k \<in> set ks \<Longrightarrow> i \<le> length k \<and> take i k = take i k0) \<Longrightarrow>
   sharedPre_loop k0 i sp ks = foldr (\<lambda>k m. min (commonPrefix k0 k) m) ks sp"
proof (induction ks arbitrary: sp)
  case Nil
  then show ?case by simp
next
  case (Cons k ks)
  have assoc: "foldr (\<lambda>k m. min (commonPrefix k0 k) m) ks (min a b) = min a (foldr (\<lambda>k m. min (commonPrefix k0 k) m) ks b)" for a b
    by (induction ks) (auto simp: min.left_commute)
  show ?case
  proof (cases "sp = 0")
    case True
    have "foldr (\<lambda>k m. min (commonPrefix k0 k) m) (k # ks) 0 = 0"
      using le_foldr_min [of 1 "commonPrefix k0" "k # ks" 0] by linarith
    then show ?thesis using True by simp
  next
    case False
    let ?x = "min sp (min (length k0) (length k))"
    have "shared_from ?x k0 k i = min ?x (commonPrefix k0 k)"
      using Cons.prems by (intro shared_from_commonPrefix) auto
    then have m: "min (shared_from ?x k0 k i) sp = min (commonPrefix k0 k) sp"
      using commonPrefix_le [of k0 k] by auto
    have "i \<le> commonPrefix k0 k"
      using Cons.prems by (simp add: commonPrefix_ge_iff)
    then show ?thesis
      using Cons.IH [of "min (commonPrefix k0 k) sp"] Cons.prems False m assoc by (simp add: Let_def)
  qed
qed

lemma sharedPre_lcp:
  assumes "wf_entries ((k0, v0) # e1 # es) i"
  shows "sharedPre_loop k0 i (2 ^ 32 - 1) (map fst (e1 # es)) = lcp ((k0, v0) # e1 # es)" (is "?l = ?r")
proof -
  have k: "i \<le> length k \<and> take i k = take i k0" if "k \<in> set (map fst (e1 # es))" for k
    using assms that by (auto simp: wf_entries_def)
  have k0: "i \<le> length k0" "length k0 < 2 ^ 31"
    using assms by (auto simp: wf_entries_def)
  then have "i \<le> 2 ^ 32 - 1" by simp
  from sharedPre_loop_min [OF this k0(1) k]
  have l: "?l = foldr (\<lambda>k m. min (commonPrefix k0 k) m) (map fst (e1 # es)) (2 ^ 32 - 1)" .
  have "n \<le> ?l \<longleftrightarrow> n \<le> ?r" for n
    using k0(2) unfolding l le_foldr_min le_lcp_iff by (auto simp: commonPrefix_ge_iff)
  then show ?thesis by (meson order_antisym order_refl)
qed

lemma lexordp_drop:
  fixes a b :: bytes
  shows "take i a = take i b \<Longrightarrow> i \<le> length a \<Longrightarrow> i \<le> length b \<Longrightarrow>
    ord_class.lexordp a b \<longleftrightarrow> ord_class.lexordp (drop i a) (drop i b)"
proof (induction i arbitrary: a b)
  case 0
  then show ?case by simp
next
  case (Suc i)
  then obtain x a' y b' where ab: "a = x # a'" "b = y # b'" by (cases a; cases b) auto
  then show ?case using Suc.IH [of a' b'] Suc.prems by simp
qed

lemma run_of_sorted:
  fixes f :: "'a \<Rightarrow> nat"
  shows "sorted (map f b) \<Longrightarrow> (\<And>e. e \<in> set b \<Longrightarrow> a \<le> f e) \<Longrightarrow>
    takeWhile (\<lambda>e. f e = a) b = filter (\<lambda>e. f e = a) b \<and> dropWhile (\<lambda>e. f e = a) b = filter (\<lambda>e. a < f e) b"
proof (induction b)
  case Nil
  then show ?case by simp
next
  case (Cons e b)
  show ?case
  proof (cases "f e = a")
    case True
    then show ?thesis using Cons by simp
  next
    case False
    then have "a < f e" using Cons.prems(2) [of e] by simp
    then have gt: "a < f x" if "x \<in> set b" for x using Cons.prems(1) that by fastforce
    then have "filter (\<lambda>e. f e = a) b = []" "filter (\<lambda>e. a < f e) b = b"
      by (auto simp: filter_empty_conv filter_id_conv)
    then show ?thesis using False \<open>a < f e\<close> by simp
  qed
qed

lemma branch_runs_children:
  assumes "sorted (map (\<lambda>e. unat (fst e ! i)) b)" "\<And>e. e \<in> set b \<Longrightarrow> i < length (fst e) \<and> a \<le> unat (fst e ! i)"
  shows "branch_runs i [a ..< m] b = map (child b i) [a ..< m]"
  using assms
proof (induction "m - a" arbitrary: a b)
  case 0
  then show ?case by simp
next
  case (Suc d)
  let ?f = "\<lambda>e :: bytes \<times> bytes. unat (fst e ! i)"
  let ?q = "\<lambda>(k :: bytes, v :: bytes). i < length k \<and> unat (k ! i) = a"
  let ?b = "filter (\<lambda>e. a < ?f e) b"
  have u: "[a ..< m] = a # [Suc a ..< m]" using Suc.hyps(2) by (simp add: upt_conv_Cons)
  have q: "takeWhile ?q b = takeWhile (\<lambda>e. ?f e = a) b" "dropWhile ?q b = dropWhile (\<lambda>e. ?f e = a) b"
    using Suc.prems(2) by (auto intro!: takeWhile_cong dropWhile_cong)
  have r: "takeWhile (\<lambda>e. ?f e = a) b = filter (\<lambda>e. ?f e = a) b \<and> dropWhile (\<lambda>e. ?f e = a) b = ?b"
    using Suc.prems by (intro run_of_sorted) auto
  have "branch_runs i [Suc a ..< m] ?b = map (child ?b i) [Suc a ..< m]"
    using Suc.hyps Suc.prems by (intro Suc.hyps(1)) (auto simp: sorted_filter)
  also have "\<dots> = map (child b i) [Suc a ..< m]"
    by (auto simp: child_def intro!: filter_cong)
  moreover have "filter (\<lambda>e. ?f e = a) b = child b i a"
    using Suc.prems(2) by (auto simp: child_def intro!: filter_cong)
  ultimately show ?case unfolding u using q r by (simp del: upt_Suc)
qed

lemma wf_branch:
  assumes wf: "wf_entries ((k0, v0) # es) i"
  defines "b \<equiv> (if i = length k0 then es else (k0, v0) # es)"
  shows "\<And>e. e \<in> set b \<Longrightarrow> i < length (fst e)" "sorted (map (\<lambda>e. unat (fst e ! i)) b)"
    "child b i n = child ((k0, v0) # es) i n" "value_at ((k0, v0) # es) i = (if i = length k0 then v0 else [])"
proof -
  let ?s = "(k0, v0) # es"
  have lex: "sorted_wrt (\<lambda>x y. ord_class.lexordp (fst x) (fst y)) ?s"
    and pre: "\<And>e. e \<in> set ?s \<Longrightarrow> i \<le> length (fst e) \<and> take i (fst e) = take i k0"
    using wf by (auto simp: wf_entries_def)
  have dlex: "sorted_wrt (\<lambda>x y. ord_class.lexordp (drop i (fst x)) (drop i (fst y))) ?s"
    using lex by (rule sorted_wrt_mono_rel [rotated]) (use pre in \<open>metis lexordp_drop\<close>)
  have tl: "i < length (fst e)" if "e \<in> set es" for e
  proof -
    have "ord_class.lexordp (drop i k0) (drop i (fst e))" using dlex that by simp
    then have "drop i (fst e) \<noteq> []" by auto
    then show ?thesis by simp
  qed
  show len: "i < length (fst e)" if "e \<in> set b" for e
    using that tl [of e] pre [of "(k0, v0)"] by (auto simp: b_def split: if_splits)
  have "sorted_wrt (\<lambda>x y. ord_class.lexordp (drop i (fst x)) (drop i (fst y))) b"
    using dlex by (auto simp: b_def)
  then have "sorted_wrt (\<lambda>x y. unat (fst x ! i) \<le> unat (fst y ! i)) b"
  proof (rule sorted_wrt_mono_rel [rotated])
    fix x y assume xy: "x \<in> set b" "y \<in> set b" "ord_class.lexordp (drop i (fst x)) (drop i (fst y))"
    then have "drop i (fst x) = fst x ! i # drop (Suc i) (fst x)" "drop i (fst y) = fst y ! i # drop (Suc i) (fst y)"
      using len by (auto simp: Cons_nth_drop_Suc)
    with xy(3) show "unat (fst x ! i) \<le> unat (fst y ! i)" by (auto simp: word_le_nat_alt [symmetric])
  qed
  then show "sorted (map (\<lambda>e. unat (fst e ! i)) b)" by (simp add: sorted_wrt_map)
  show "child b i n = child ?s i n" by (simp add: child_def b_def)
  have "filter (\<lambda>(k, v). length k = i) es = []" using tl by (fastforce simp: filter_empty_conv)
  then show "value_at ?s i = (if i = length k0 then v0 else [])" by (simp add: value_at_def)
qed

text \<open>An operation that appends one item, and lists whose parts are written by such operations.\<close>

definition writes :: "(rlp_stream \<Rightarrow> rlp_error + rlp_stream) \<Rightarrow> item \<Rightarrow> bool" where
  "writes f it \<longleftrightarrow> (\<forall>u. f u = noteAppended 1 (u\<lparr>m_out := m_out u @ enc it\<rparr>))"

lemma append_parts:
  assumes "\<And>f it. (f, it) \<in> set ys \<Longrightarrow> writes f it" "small (List (map snd ys))"
  shows "writes (\<lambda>st. ebind (appendList (length ys) st) (append_all fst ys)) (List (map snd ys))"
proof -
  have m: "map (\<lambda>y. enc (snd y)) ys = map enc (map snd ys)" by simp
  have "appendVector fst ys st = noteAppended 1 (st\<lparr>m_out := m_out st @
      rlp_header 0xc0 (length (concat (map (\<lambda>y. enc (snd y)) ys))) @ concat (map (\<lambda>y. enc (snd y)) ys)\<rparr>)" for st
    by (rule appendVector_enc) (use assms in \<open>auto simp: m writes_def simp del: map_map\<close>)
  then show ?thesis by (simp add: writes_def appendVector_def Let_def o_def)
qed

lemma append_all_single: "append_all f [x] = f x"
  by (rule ext) simp

lemma append_all_map: "append_all f (map g xs) s = append_all (\<lambda>x. f (g x)) xs s"
proof (induction xs arbitrary: s)
  case (Cons x xs)
  then show ?case by (cases "f (g x) s") auto
qed simp

lemma write_branch:
  assumes "\<And>x. x \<in> set gs \<Longrightarrow> writes (f x) (e x)" "writes g b" "small (List (map e gs @ [b]))"
  shows "writes (\<lambda>st. ebind (appendList (Suc (length gs)) st) (\<lambda>st1. ebind (append_all f gs st1) g)) (List (map e gs @ [b]))"
proof -
  let ?ys = "map (\<lambda>x. (f x, e x)) gs @ [(g, b)]"
  have a: "append_all fst ?ys = (\<lambda>st1. ebind (append_all f gs st1) g)"
    by (rule ext) (simp only: append_all_append append_all_map append_all_single fst_conv)
  have m: "map snd ?ys = map e gs @ [b]" and l: "length ?ys = Suc (length gs)" by simp_all
  have "writes (\<lambda>st. ebind (appendList (length ?ys) st) (append_all fst ?ys)) (List (map snd ?ys))"
  proof (rule append_parts)
    show "small (List (map snd ?ys))" unfolding m by (rule assms(3))
  qed (use assms(1,2) in auto)
  then show ?thesis unfolding a m l .
qed

lemma write_pair:
  assumes "writes f a" "writes g b" "small (List [a, b])"
  shows "writes (\<lambda>st. ebind (appendList 2 st) (\<lambda>st1. ebind (f st1) g)) (List [a, b])"
  using write_branch [of "[()]" "\<lambda>_. f" "\<lambda>_. a" g b] assms by (simp add: append_all_single numeral_2_eq_2)

lemma writes_bytes: "length bs < max_rlp \<Longrightarrow> writes (append_bytes bs False) (Data bs)"
  by (simp add: writes_def append_bytes_enc del: enc.simps)

lemma writes_embedded:
  assumes "writes f it" "length (sha3 (enc it)) = 32"
  shows "writes (append_embedded sha3 (f RLPStream_new)) (embed sha3 it)"
proof -
  have "f RLPStream_new = Inr \<lparr>m_out = enc it, m_listStack = []\<rparr>"
    using assms(1) by (simp add: writes_def noteAppended_def RLPStream_new_def)
  then show ?thesis
    using assms(2) writes_bytes [of "sha3 (enc it)"]
    by (auto simp: writes_def append_embedded_def out_def appendRaw_def embed_def max_rlp_def simp del: enc.simps)
qed

lemma length_enc_embed: "length (sha3 (enc it)) = 32 \<Longrightarrow> length (enc (embed sha3 it)) \<le> 33"
  by (auto simp: embed_def enc_Data_short simp del: enc.simps)

lemma small_embed: "length (sha3 (enc it)) = 32 \<Longrightarrow> small it \<Longrightarrow> small (embed sha3 it)"
  by (simp add: embed_def max_rlp_def del: enc.simps)

lemma length_enc_Data: "length bs < max_rlp \<Longrightarrow> length (enc (Data bs)) \<le> 9 + length bs"
  using max_rlp_bytes [of "length bs"] by (simp add: rlp_header_def)

lemma length_hp: "length (hp ns leaf) \<le> Suc (length ns)"
  by (auto simp: hp_def length_pack intro: order_trans [OF div_le_dividend])

lemma small_pair:
  assumes "length bs < 2 ^ 32" "small it" "length (enc it) \<le> 9 + 2 ^ 63"
  shows "small (List [Data bs, it])"
  using assms length_enc_Data [of bs] by (simp add: max_rlp_def del: enc.simps)

lemma small_branch:
  assumes "\<And>it. it \<in> set its \<Longrightarrow> small it \<and> length (enc it) \<le> 33" "length its = 16" "length v < 2 ^ 63"
  shows "small (List (its @ [Data v]))"
proof -
  have "length (concat (map enc its)) \<le> 33 * length its"
    using assms(1)
  proof (induction its)
    case (Cons a its)
    then have "length (enc a) \<le> 33" "length (concat (map enc its)) \<le> 33 * length its" by auto
    then show ?case by simp
  qed simp
  then show ?thesis
    using assms length_enc_Data [of v] by (auto simp: max_rlp_def list_all_iff simp del: enc.simps)
qed

lemma wf_entriesD:
  assumes "wf_entries s i" "e \<in> set s"
  shows "list_all is_nibble (fst e)" "length (fst e) < 2 ^ 31" "length (snd e) < 2 ^ 63" "i \<le> length (fst e)"
    "take i (fst e) = take i (fst (hd s))"
  using assms by (cases e; auto simp: wf_entries_def)+

lemma wf_child: "wf_entries s i \<Longrightarrow> wf_entries (child s i n) (Suc i)"
proof -
  assume wf: "wf_entries s i"
  let ?c = "child s i n"
  have mem: "e \<in> set s \<and> i < length (fst e) \<and> unat (fst e ! i) = n" if "e \<in> set ?c" for e
    using that by (auto simp: child_def)
  have "take (Suc i) (fst e) = take (Suc i) (fst (hd ?c))" if e: "e \<in> set ?c" for e
  proof -
    have h: "hd ?c \<in> set ?c" using e by (cases ?c) auto
    then have "take i (fst e) = take i (fst (hd ?c))" 
      using wf_entriesD(5) [OF wf] mem [OF e] mem [OF h] by metis
    moreover have "fst e ! i = fst (hd ?c) ! i" using mem [OF e] mem [OF h] by (simp add: word_unat_eq_iff)
    ultimately show ?thesis using mem [OF e] mem [OF h] by (simp add: take_Suc_conv_app_nth)
  qed
  moreover have "sorted_wrt (\<lambda>a b. ord_class.lexordp (fst a) (fst b)) ?c"
    using wf by (simp add: wf_entries_def child_def sorted_wrt_filter)
  ultimately show ?thesis
    using wf mem by (fastforce simp: wf_entries_def)
qed

lemma wf_lcp: "wf_entries s i \<Longrightarrow> s \<noteq> [] \<Longrightarrow> wf_entries s (lcp s)"
  using le_lcp_iff [of "lcp s" s] by (fastforce simp: wf_entries_def commonPrefix_ge_iff)

lemma hexPrefixEncode_rest: "list_all is_nibble k \<Longrightarrow> i \<le> length k \<Longrightarrow> hexPrefixEncode k leaf i (- 1) = hp (drop i k) leaf"
  using hexPrefixEncode_hp [of i "length k" k leaf] by (simp add: hexPrefixEncode_neg)

lemma hash256rlp_leaf:
  assumes "wf_entries [(k, v)] i"
  shows "small (node sha3 [(k, v)] i) \<and> writes (hash256rlp sha3 [(k, v)] i) (node sha3 [(k, v)] i)"
proof -
  let ?h = "hp (drop i k) True"
  have k: "list_all is_nibble k" "i \<le> length k" "length k < 2 ^ 31" "length v < 2 ^ 63"
    using assms by (auto simp: wf_entries_def)
  have h: "length ?h < 2 ^ 32" using length_hp [of "drop i k" True] k by simp
  have sm: "small (List [Data ?h, Data v])"
    using k h length_enc_Data [of v] by (intro small_pair) (auto simp: max_rlp_def simp del: enc.simps)
  have "writes (hash256rlp sha3 [(k, v)] i) (List [Data ?h, Data v])"
    using write_pair [OF writes_bytes writes_bytes sm] h k
    by (simp add: writes_def hash256rlp.simps hexPrefixEncode_rest max_rlp_def del: enc.simps)
  then show ?thesis using sm by (simp add: node.simps del: enc.simps)
qed

lemma hash256rlp_extension:
  assumes sha: "\<And>x. length (sha3 x) = 32" and s: "s = (k0, v0) # e1 # es" and wf: "wf_entries s i" and i: "i < lcp s"
    and IH: "small (node sha3 s (lcp s)) \<and> writes (hash256rlp sha3 s (lcp s)) (node sha3 s (lcp s))"
  shows "small (node sha3 s i) \<and> writes (hash256rlp sha3 s i) (node sha3 s i)"
proof -
  let ?nd = "node sha3 s (lcp s)" and ?h = "hp (take (lcp s - i) (drop i k0)) False"
  note k0 = wf_entriesD [OF wf, of "(k0, v0)"]
  have k: "length ?h < 2 ^ 32"
    using length_hp [of "take (lcp s - i) (drop i k0)" False] k0(2) s by simp
  have le: "i \<le> lcp s" "lcp s \<le> length k0" using i le_lcp_iff [of "lcp s" s] s by auto
  have sm: "small (List [Data ?h, embed sha3 ?nd])"
    using k IH small_embed [of sha3 ?nd] length_enc_embed [of sha3 ?nd] sha by (intro small_pair) auto
  have "writes (\<lambda>st. ebind (appendList 2 st) (\<lambda>st1. ebind (append_bytes ?h False st1)
      (append_embedded sha3 (hash256rlp sha3 s (lcp s) RLPStream_new)))) (List [Data ?h, embed sha3 ?nd])"
    using k IH sha sm by (intro write_pair writes_bytes writes_embedded) (auto simp: max_rlp_def)
  moreover have "hexPrefixEncode k0 False i (int (lcp s)) = ?h"
    using hexPrefixEncode_hp [OF le, of False] k0(1) s by simp
  moreover have "hash256rlp sha3 s i st = ebind (appendList 2 st) (\<lambda>st1. ebind
      (append_bytes (hexPrefixEncode k0 False i (int (lcp s))) False st1)
      (append_embedded sha3 (hash256rlp sha3 s (lcp s) RLPStream_new)))" for st
    using i sharedPre_lcp [of k0 v0 e1 es i] wf s by (simp add: hash256rlp.simps(3) Let_def del: sharedPre_loop.simps)
  moreover have "node sha3 s i = List [Data ?h, embed sha3 ?nd]"
    using s i by (subst node.simps) simp
  ultimately show ?thesis using sm by (simp add: writes_def del: enc.simps)
qed

lemma hash256rlp_branch:
  assumes sha: "\<And>x. length (sha3 x) = 32" and s: "s = (k0, v0) # e1 # es" and wf: "wf_entries s i" and i: "\<not> i < lcp s"
    and IH: "\<And>n. n \<in> set [0 ..< 16] \<Longrightarrow> child s i n \<noteq> [] \<Longrightarrow> small (node sha3 (child s i n) (Suc i)) \<and>
      writes (hash256rlp sha3 (child s i n) (Suc i)) (node sha3 (child s i n) (Suc i))"
  shows "small (node sha3 s i) \<and> writes (hash256rlp sha3 s i) (node sha3 s i)"
proof -
  let ?b = "if i = length k0 then e1 # es else s" and ?v = "if i = length k0 then v0 else []"
  let ?gs = "map (child s i) [0 ..< 16]"
  let ?f = "\<lambda>g. if g = [] then append_bytes [] False
                else append_embedded sha3 (hash256rlp sha3 g (Suc i) RLPStream_new)"
  let ?e = "\<lambda>g. if g = [] then Data [] else embed sha3 (node sha3 g (Suc i))"
  note b = wf_branch [OF wf [unfolded s], folded s]
  have runs: "branch_runs i [0 ..< 16] ?b = ?gs"
    using branch_runs_children [of i ?b 0 16] b(1-3) by simp
  have g: "small (?e g) \<and> length (enc (?e g)) \<le> 33 \<and> writes (?f g) (?e g)" if mem: "g \<in> set ?gs" for g
  proof (cases "g = []")
    case True
    then show ?thesis using writes_bytes [of "[]"] by (simp add: max_rlp_def rlp_header_def)
  next
    case False
    obtain n where "n \<in> set [0 ..< 16]" "g = child s i n" using mem unfolding set_map by blast
    then show ?thesis
      using IH [of n] False sha by (simp add: small_embed length_enc_embed writes_embedded del: enc.simps)
  qed
  have v: "length ?v < 2 ^ 63" using wf_entriesD(3) [OF wf, of "(k0, v0)"] s by simp
  have sm: "small (List (map ?e ?gs @ [Data ?v]))"
  proof (rule small_branch)
    fix it assume "it \<in> set (map ?e ?gs)"
    then obtain g where "g \<in> set ?gs" "it = ?e g" unfolding set_map by blast
    then show "small it \<and> length (enc it) \<le> 33" using g by blast
  qed (use v in simp_all)
  have "writes (\<lambda>st. ebind (appendList (Suc (length ?gs)) st)
      (\<lambda>st1. ebind (append_all ?f ?gs st1) (append_bytes ?v False))) (List (map ?e ?gs @ [Data ?v]))"
    by (rule write_branch [OF _ writes_bytes sm]) (use g v in \<open>auto simp: max_rlp_def\<close>)
  moreover have "hash256rlp sha3 s i st = ebind (appendList (Suc (length ?gs)) st)
      (\<lambda>st1. ebind (append_all ?f ?gs st1) (append_bytes ?v False))" for st
    using i sharedPre_lcp [of k0 v0 e1 es i] wf s runs [unfolded s]
    by (simp add: hash256rlp.simps(3) Let_def del: sharedPre_loop.simps upt_Suc split del: if_split)
  moreover have "node sha3 s i = List (map ?e ?gs @ [Data ?v])"
    using s i b(4) by (subst node.simps) (simp add: o_def)
  ultimately show ?thesis using sm by (simp add: writes_def del: enc.simps)
qed

lemma hash256rlp_node:
  "(\<And>x. length (sha3 x) = 32) \<Longrightarrow> wf_entries s i \<Longrightarrow>
   small (node sha3 s i) \<and> writes (hash256rlp sha3 s i) (node sha3 s i)"
proof (induction sha3 s i rule: node.induct)
  case (1 sha3 s i)
  consider "s = []" | k v where "s = [(k, v)]" | k0 v0 e1 es where "s = (k0, v0) # e1 # es"
    by (metis list.exhaust prod.exhaust)
  then show ?case
  proof cases
    case 1
    then show ?thesis
      using writes_bytes [of "[]"] by (simp add: node.simps hash256rlp.simps max_rlp_def writes_def del: enc.simps)
  next
    case 2
    then show ?thesis using hash256rlp_leaf "1.prems"(2) by blast
  next
    case 3
    then have ne: "s \<noteq> []" "length s \<noteq> 1" by simp_all
    show ?thesis
    proof (cases "i < lcp s")
      case True
      show ?thesis
        by (rule hash256rlp_extension [OF "1.prems"(1) 3 "1.prems"(2) True
            "1.IH"(1) [OF ne True "1.prems"(1) wf_lcp [OF "1.prems"(2) ne(1)]]])
    next
      case False
      show ?thesis
        by (rule hash256rlp_branch [OF "1.prems"(1) 3 "1.prems"(2) False "1.IH"(2) [OF ne False _ _ "1.prems"(1) wf_child [OF "1.prems"(2)]]])
    qed
  qed
qed

section \<open>Roots of maps and of ordered lists\<close>

definition key_sorted :: "entries \<Rightarrow> bool" where
  "key_sorted s \<longleftrightarrow> sorted_wrt (\<lambda>a b. ord_class.lexordp (fst a) (fst b)) s"

lemma asNibbles_Cons: "asNibbles (b # bs) = (b div 16) # (b mod 16) # asNibbles bs"
  by (simp add: asNibbles_def)

lemma less_by_digits: "(m :: nat) < n \<longleftrightarrow> m div 16 < n div 16 \<or> m div 16 = n div 16 \<and> m mod 16 < n mod 16"
proof -
  have "m = m div 16 * 16 + m mod 16" "n = n div 16 * 16 + n mod 16" "m mod 16 < 16" "n mod 16 < 16" by simp_all
  then show ?thesis by linarith
qed

lemma byte_less_by_nibbles: "x < y \<longleftrightarrow> x div 16 < y div 16 \<or> x div 16 = y div 16 \<and> x mod 16 < y mod 16" for x y :: byte
  using less_by_digits [of "unat x" "unat y"] by (simp add: word_less_nat_alt word_unat_eq_iff unat_div unat_mod)

lemma lex_two_digits:
  fixes a b c d :: byte
  shows "(a < b \<or> \<not> b < a \<and> (c < d \<or> \<not> d < c \<and> P)) \<longleftrightarrow>
    ((a < b \<or> a = b \<and> c < d) \<or> \<not> (b < a \<or> b = a \<and> d < c) \<and> P)"
  by (cases a b rule: linorder_cases; cases c d rule: linorder_cases) auto

lemma asNibbles_lexordp: "ord_class.lexordp (asNibbles a) (asNibbles b) \<longleftrightarrow> ord_class.lexordp a b"
proof (induction a arbitrary: b)
  case Nil
  then show ?case by (cases b) (auto simp: asNibbles_def)
next
  case (Cons x a)
  show ?case
  proof (cases b)
    case Nil
    then show ?thesis by (simp add: asNibbles_def)
  next
    case b: (Cons y b')
    show ?thesis
      unfolding b asNibbles_Cons lexordp_simps Cons.IH byte_less_by_nibbles [of x y] byte_less_by_nibbles [of y x]
      by (rule lex_two_digits)
  qed
qed

lemma is_nibble_asNibbles: "list_all is_nibble (asNibbles k)"
proof (induction k)
  case (Cons b bs)
  have "unat b div 16 < 16" using unat_byte_lt [of b] by linarith
  with Cons show ?case by (simp add: asNibbles_Cons unat_div unat_mod)
qed (simp add: asNibbles_def)

lemma length_asNibbles [simp]: "length (asNibbles k) = 2 * length k"
  by (induction k) (auto simp: asNibbles_def)

lemma map_put_front: "(\<And>e. e \<in> set m \<Longrightarrow> ord_class.lexordp k (fst e)) \<Longrightarrow> map_put k v m = (k, v) # m"
proof (cases m)
  case (Cons e m')
  assume "\<And>e. e \<in> set m \<Longrightarrow> ord_class.lexordp k (fst e)"
  then have "ord_class.lexordp k (fst e)" using Cons by simp
  moreover have "k \<noteq> fst e" using calculation lexordp_irreflexive' by metis
  ultimately show ?thesis using Cons by (cases e) simp
qed simp

lemma map_put_sorted:
  "key_sorted m \<Longrightarrow> key_sorted (map_put k v m) \<and> set (map_put k v m) = insert (k, v) {e \<in> set m. fst e \<noteq> k}"
proof (induction k v m rule: map_put.induct)
  case (1 k v)
  then show ?case by (simp add: key_sorted_def)
next
  case (2 k v k' v' m)
  have irr: "\<not> ord_class.lexordp k k" for k :: bytes by (rule lexordp_irreflexive')
  have m: "\<And>e. e \<in> set m \<Longrightarrow> ord_class.lexordp k' (fst e)" "key_sorted m"
    using "2.prems" by (auto simp: key_sorted_def)
  consider "k = k'" | "k \<noteq> k'" "ord_class.lexordp k k'" | "k \<noteq> k'" "\<not> ord_class.lexordp k k'" by blast
  then show ?case
  proof cases
    case 1
    then show ?thesis using "2.prems" m(1) irr by (fastforce simp: key_sorted_def)
  next
    case 2
    then have "ord_class.lexordp k (fst e)" if "e \<in> set m" for e
      using m(1) [OF that] lexordp_trans by blast
    then show ?thesis using 2 "2.prems" irr by (fastforce simp: key_sorted_def)
  next
    case 3
    then have "ord_class.lexordp k' k" using lexordp_linear [of k k'] by blast
    then show ?thesis using 3 "2.IH" [OF 3] m by (auto simp: key_sorted_def)
  qed
qed

lemma hexMap_entries:
  "key_sorted s \<Longrightarrow> foldl (\<lambda>m (k, v). map_put (asNibbles k) v m) [] (rev s) = map (\<lambda>(k, v). (asNibbles k, v)) s"
proof (induction s)
  case (Cons e s)
  obtain k v where e: "e = (k, v)" by (cases e)
  have "ord_class.lexordp (asNibbles k) (fst x)" if "x \<in> set (map (\<lambda>(k, v). (asNibbles k, v)) s)" for x
    using that Cons.prems e by (auto simp: key_sorted_def asNibbles_lexordp)
  then show ?case
    using Cons e map_put_front [of "map (\<lambda>(k, v). (asNibbles k, v)) s" "asNibbles k" v] by (simp add: key_sorted_def)
qed simp

definition sizes_ok :: "entries \<Rightarrow> bool" where
  "sizes_ok s \<longleftrightarrow> (\<forall>(k, v) \<in> set s. length k < 2 ^ 30 \<and> length v < 2 ^ 63)"

lemma wf_hexMap: "key_sorted s \<Longrightarrow> sizes_ok s \<Longrightarrow> wf_entries (map (\<lambda>(k, v). (asNibbles k, v)) s) 0"
  by (auto simp: wf_entries_def key_sorted_def sizes_ok_def is_nibble_asNibbles sorted_wrt_map asNibbles_lexordp split_def)

lemma rlp256_node:
  assumes sha: "\<And>x. length (sha3 x) = 32" and s: "key_sorted s" "sizes_ok s"
  shows "rlp256 sha3 s = Inr (enc (node sha3 (map (\<lambda>(k, v). (asNibbles k, v)) s) 0))"
proof -
  let ?h = "map (\<lambda>(k, v). (asNibbles k, v)) s"
  have w: "writes (hash256rlp sha3 ?h 0) (node sha3 ?h 0)"
    using hash256rlp_node [of sha3, OF sha wf_hexMap [OF s]] by blast
  have e: "writes (append_bytes [] False) (Data [])" using writes_bytes [of "[]"] by (simp add: max_rlp_def)
  show ?thesis
  proof (cases "s = []")
    case True
    then show ?thesis
      using e by (simp add: rlp256_def node.simps writes_def noteAppended_def RLPStream_new_def out_def)
  next
    case False
    then show ?thesis
      using w by (simp add: rlp256_def hexMap_entries [OF s(1)] writes_def noteAppended_def RLPStream_new_def out_def)
  qed
qed

definition index_key :: "nat \<Rightarrow> bytes" where
  "index_key j = enc (Data (toCompactBigEndian j 0))"

lemma rlp_unsigned_key:
  assumes "j < 2 ^ 32"
  shows "rlp_unsigned j = Inr (index_key j)"
proof -
  have "bytesRequired j \<le> 4" using assms by (simp add: bytesRequired_le_iff)
  then show ?thesis
    using append_bigint_enc [of j RLPStream_new]
    by (simp add: rlp_unsigned_def index_key_def max_rlp_def noteAppended_def RLPStream_new_def out_def del: enc.simps)
qed

lemma toCompactBigEndian_inj: "toCompactBigEndian i 0 = toCompactBigEndian j 0 \<Longrightarrow> i = j"
  by (metis be_nat_toBigEndian less_pow_bytesRequired max_0L mod_less toCompactBigEndian_def)

lemma index_key_inj:
  assumes "index_key i = index_key j" "i < 2 ^ 32" "j < 2 ^ 32"
  shows "i = j"
proof -
  have "bytesRequired i \<le> 4" "bytesRequired j \<le> 4" using assms by (simp_all add: bytesRequired_le_iff)
  then have "small (Data (toCompactBigEndian i 0))" "small (Data (toCompactBigEndian j 0))"
    by (simp_all add: toCompactBigEndian_def max_rlp_def)
  from rlp.encode_inj [OF this] assms(1) show ?thesis
    by (auto simp: index_key_def dest: toCompactBigEndian_inj simp del: enc.simps)
qed

lemma ordered_entries_spec:
  assumes "j + length data \<le> 2 ^ 32" "key_sorted m" "\<And>e i. e \<in> set m \<Longrightarrow> j \<le> i \<Longrightarrow> i < 2 ^ 32 \<Longrightarrow> fst e \<noteq> index_key i"
  shows "\<exists>m'. ordered_entries j data m = Inr m' \<and> key_sorted m' \<and>
    set m' = set m \<union> (\<lambda>i. (index_key (j + i), data ! i)) ` {..<length data}"
  using assms
proof (induction data arbitrary: j m)
  case Nil
  then show ?case by simp
next
  case (Cons d ds)
  let ?m = "map_put (index_key j) d m"
  have j: "j < 2 ^ 32" using Cons.prems(1) by simp
  have m: "key_sorted ?m" "set ?m = insert (index_key j, d) (set m)"
    using map_put_sorted [OF Cons.prems(2), of "index_key j" d] Cons.prems(3) [of _ j] j by auto
  have "fst e \<noteq> index_key i" if "e \<in> set ?m" "Suc j \<le> i" "i < 2 ^ 32" for e i
    using that m(2) Cons.prems(3) [of e i] index_key_inj [of j i] j by auto
  then obtain m' where m': "ordered_entries (Suc j) ds ?m = Inr m'" "key_sorted m'"
    "set m' = set ?m \<union> (\<lambda>i. (index_key (Suc j + i), ds ! i)) ` {..<length ds}"
    using Cons.IH [of "Suc j" ?m] Cons.prems(1) m(1) by auto
  have "(\<lambda>i. (index_key (j + i), (d # ds) ! i)) ` {..<Suc (length ds)} =
      insert (index_key j, d) ((\<lambda>i. (index_key (Suc j + i), ds ! i)) ` {..<length ds})"
    unfolding lessThan_Suc_eq_insert_0 by (auto simp: image_iff)
  then show ?case
    using m' m(2) rlp_unsigned_key [OF j] by auto
qed

section \<open>The properties of trie roots\<close>

text \<open>(C30) The trie code computes the Merkle-Patricia trie. For a map in key order and a hash function with 32-byte results,
  \<open>rlp256\<close> returns the RLP encoding of the root node that the definition of the trie gives for the map: a
  leaf for one entry, an extension over the longest common prefix, a branch over the next nibble, children embedded
  below 32 bytes and hashed otherwise. In particular the recursion ends and no append throws.\<close>

theorem rlp256_is_patricia_trie:
  assumes "\<And>x. length (sha3 x) = 32" "key_sorted s" "sizes_ok s"
  shows "rlp256 sha3 s = Inr (enc (node sha3 (map (\<lambda>(k, v). (asNibbles k, v)) s) 0)) \<and>
    hash256 sha3 s = Inr (sha3 (enc (node sha3 (map (\<lambda>(k, v). (asNibbles k, v)) s) 0)))"
  using rlp256_node [of sha3, OF assms] by (simp add: hash256_def)

theorem rlp256_is_patricia_trie_witness:
  "rlp256 (\<lambda>x. replicate 32 7) [([0x12], [5]), ([0x13], [6])] =
     Inr (enc (node (\<lambda>x. replicate 32 7) [([1, 2], [5]), ([1, 3], [6])] 0))"
proof -
  have "key_sorted [([0x12], [5]), ([0x13], [6])]" "sizes_ok [([0x12], [5]), ([0x13], [6])]"
    by (simp_all add: key_sorted_def sizes_ok_def)
  from rlp256_is_patricia_trie [of "\<lambda>x. replicate 32 7", OF _ this] show ?thesis
    by (simp add: asNibbles_def)
qed

text \<open>(C31) The root of an ordered list is the root of the map from the RLP-encoded indices to the elements: the keys that \<open>orderedTrieRoot\<close> builds
  are pairwise different, so that no element is lost, and the hash is that of the trie over exactly these entries.\<close>

theorem orderedTrieRoot_indexes_elements:
  assumes "\<And>x. length (sha3 x) = 32" "length data \<le> 2 ^ 32" "list_all (\<lambda>d. length d < 2 ^ 63) data"
  shows "\<exists>m. key_sorted m \<and> set m = (\<lambda>j. (index_key j, data ! j)) ` {..<length data} \<and>
    card (set m) = length data \<and>
    orderedTrieRoot sha3 data = Inr (sha3 (enc (node sha3 (map (\<lambda>(k, v). (asNibbles k, v)) m) 0)))"
proof -
  obtain m where m: "ordered_entries 0 data [] = Inr m" "key_sorted m"
    "set m = (\<lambda>j. (index_key j, data ! j)) ` {..<length data}"
    using ordered_entries_spec [of 0 data "[]"] assms(2) by (auto simp: key_sorted_def)
  have "length (index_key j) < 2 ^ 30" if "j < length data" for j
  proof -
    have "bytesRequired j \<le> 4" using that assms(2) by (simp add: bytesRequired_le_iff)
    then show ?thesis by (simp add: index_key_def toCompactBigEndian_def rlp_header_def)
  qed
  then have "sizes_ok m" using m(3) assms(3) by (auto simp: sizes_ok_def list_all_length)
  moreover have "inj_on (\<lambda>j. (index_key j, data ! j)) {..<length data}"
    using assms(2) by (auto intro!: inj_onI dest: index_key_inj)
  ultimately show ?thesis
    using m rlp256_node [of sha3, OF assms(1) m(2)] by (auto simp: orderedTrieRoot_def hash256_def card_image)
qed

theorem orderedTrieRoot_indexes_elements_witness:
  "\<exists>m. key_sorted m \<and> set m = {(index_key 1, [2]), (index_key 0, [1])} \<and>
    orderedTrieRoot (\<lambda>x. replicate 32 7) [[1], [2]] =
      Inr ((\<lambda>x. replicate 32 7) (enc (node (\<lambda>x. replicate 32 7) (map (\<lambda>(k, v). (asNibbles k, v)) m) 0)))"
  using orderedTrieRoot_indexes_elements [of "\<lambda>x. replicate 32 7" "[[1], [2]]"] by (auto simp: lessThan_Suc)

end
