(* ===== verification/MemoryDB.thy ===== *)
theory MemoryDB
  imports Prelude
begin

text \<open>
  The reference-counted in-memory node store: class \<open>MemoryDB\<close> of \<open>libdevcore/MemoryDB.h\<close> and \<open>MemoryDB.cpp\<close>.
  Hashes and values are byte strings; the reference count is an \<open>unsigned\<close> and wraps at 32 bits. The
  interface that tries use, reading what was inserted, is the locale \<open>node_store\<close>.
\<close>

record mem_db =
  m_main :: "bytes \<rightharpoonup> bytes \<times> 32 word"
  m_aux :: "bytes \<rightharpoonup> bytes \<times> bool"
  m_enforceRefs :: bool

definition mem_empty :: mem_db where
  "mem_empty = \<lparr>m_main = Map.empty, m_aux = Map.empty, m_enforceRefs = False\<rparr>"

text \<open>Entries the current reference mode shows.\<close>

definition visible :: "('z) mem_db_scheme \<Rightarrow> bytes \<times> 32 word \<Rightarrow> bool" where
  "visible s e = (\<not> m_enforceRefs s \<or> snd e > 0)"

definition get :: "('z) mem_db_scheme \<Rightarrow> bytes \<rightharpoonup> bytes" where
  "get s h = (case m_main s h of None \<Rightarrow> None | Some e \<Rightarrow> if visible s e then Some (fst e) else None)"

text \<open>\<open>operator=\<close> copies the tables and leaves the reference mode of the target alone.\<close>

definition assign :: "('z) mem_db_scheme \<Rightarrow> ('y) mem_db_scheme \<Rightarrow> ('z) mem_db_scheme" where
  "assign s c = s\<lparr>m_main := m_main c, m_aux := m_aux c\<rparr>"

definition mem_clear :: "('z) mem_db_scheme \<Rightarrow> ('z) mem_db_scheme" where
  "mem_clear s = s\<lparr>m_main := Map.empty, m_aux := Map.empty\<rparr>"

definition mem_lookup :: "('z) mem_db_scheme \<Rightarrow> bytes \<Rightarrow> bytes" where
  "mem_lookup s h =
     (case m_main s h of
        Some e \<Rightarrow> if visible s e then fst e else []
      | None \<Rightarrow> [])"

definition mem_exists :: "('z) mem_db_scheme \<Rightarrow> bytes \<Rightarrow> bool" where
  "mem_exists s h = (case m_main s h of Some e \<Rightarrow> visible s e | None \<Rightarrow> False)"

definition mem_insert :: "bytes \<Rightarrow> bytes \<Rightarrow> ('z) mem_db_scheme \<Rightarrow> ('z) mem_db_scheme" where
  "mem_insert h v s =
     (case m_main s h of
        Some (v0, r) \<Rightarrow> s\<lparr>m_main := (m_main s)(h \<mapsto> (v, r + 1))\<rparr>
      | None \<Rightarrow> s\<lparr>m_main := (m_main s)(h \<mapsto> (v, 1))\<rparr>)"

definition mem_kill :: "bytes \<Rightarrow> ('z) mem_db_scheme \<Rightarrow> bool \<times> ('z) mem_db_scheme" where
  "mem_kill h s =
     (case m_main s h of
        Some (v, r) \<Rightarrow> if r > 0 then (True, s\<lparr>m_main := (m_main s)(h \<mapsto> (v, r - 1))\<rparr>) else (False, s)
      | None \<Rightarrow> (False, s))"

definition mem_lookupAux :: "('z) mem_db_scheme \<Rightarrow> bytes \<Rightarrow> bytes" where
  "mem_lookupAux s h =
     (case m_aux s h of
        Some (v, live) \<Rightarrow> if \<not> m_enforceRefs s \<or> live then v else []
      | None \<Rightarrow> [])"

text \<open>\<open>m_aux[_h].second = false\<close> creates an empty entry when there was none.\<close>

definition removeAux :: "bytes \<Rightarrow> ('z) mem_db_scheme \<Rightarrow> ('z) mem_db_scheme" where
  "removeAux h s =
     s\<lparr>m_aux := (m_aux s)(h \<mapsto> (case m_aux s h of Some (v, _) \<Rightarrow> (v, False) | None \<Rightarrow> ([], False)))\<rparr>"

definition insertAux :: "bytes \<Rightarrow> bytes \<Rightarrow> ('z) mem_db_scheme \<Rightarrow> ('z) mem_db_scheme" where
  "insertAux h v s = s\<lparr>m_aux := (m_aux s)(h \<mapsto> (v, True))\<rparr>"

definition purge :: "('z) mem_db_scheme \<Rightarrow> ('z) mem_db_scheme" where
  "purge s =
     s\<lparr>m_main := (\<lambda>h. case m_main s h of Some (v, r) \<Rightarrow> if r \<noteq> 0 then Some (v, r) else None | None \<Rightarrow> None),
       m_aux := (\<lambda>h. case m_aux s h of Some (v, live) \<Rightarrow> if live then Some (v, live) else None | None \<Rightarrow> None)\<rparr>"

definition keys :: "('z) mem_db_scheme \<Rightarrow> bytes set" where
  "keys s = {h. case m_main s h of Some (v, r) \<Rightarrow> r \<noteq> 0 | None \<Rightarrow> False}"

text \<open>\<open>EnforceRefs\<close> sets the mode for the life of a guard object: \<open>body\<close> runs in between.\<close>

definition with_enforceRefs :: "bool \<Rightarrow> (('z) mem_db_scheme \<Rightarrow> 'a \<times> ('z) mem_db_scheme) \<Rightarrow> ('z) mem_db_scheme \<Rightarrow> 'a \<times> ('z) mem_db_scheme" where
  "with_enforceRefs r body s =
     (case body (s\<lparr>m_enforceRefs := r\<rparr>) of (x, s') \<Rightarrow> (x, s'\<lparr>m_enforceRefs := m_enforceRefs s\<rparr>))"

section \<open>The store interface\<close>

text \<open>
  What a client of a node store relies on: a value that was inserted is found under its hash, other
  hashes are undisturbed. \<open>ok\<close> is the provider's invariant.
\<close>

locale node_store =
  fixes ok :: "'s \<Rightarrow> bool" and lookup :: "'s \<Rightarrow> bytes \<Rightarrow> 'r" and exists :: "'s \<Rightarrow> bytes \<Rightarrow> 'b"
    and insert :: "bytes \<Rightarrow> bytes \<Rightarrow> 's \<Rightarrow> 's" and found :: "bytes \<Rightarrow> 'r" and yes :: 'b
  assumes ok_insert: "ok s \<Longrightarrow> ok (insert h v s)"
    and lookup_insert: "ok s \<Longrightarrow> v \<noteq> [] \<Longrightarrow> lookup (insert h v s) h = found v"
    and lookup_insert_other: "ok s \<Longrightarrow> h' \<noteq> h \<Longrightarrow> lookup (insert h v s) h' = lookup s h'"
    and exists_insert: "ok s \<Longrightarrow> exists (insert h v s) h = yes"
    and exists_insert_other: "ok s \<Longrightarrow> h' \<noteq> h \<Longrightarrow> exists (insert h v s) h' = exists s h'"
begin

lemma ok_insert_all: "ok s \<Longrightarrow> ok (foldl (\<lambda>s (h, v). insert h v s) s es)"
  by (induction es arbitrary: s) (auto simp: ok_insert)

text \<open>After a run of inserts, the last value written to a hash is read.\<close>

lemma lookup_insert_all:
  assumes "ok s" "list_all (\<lambda>(h, v). v \<noteq> []) es"
  shows "lookup (foldl (\<lambda>s (h, v). insert h v s) s es) h =
    (case map_of (rev es) h of Some v \<Rightarrow> found v | None \<Rightarrow> lookup s h)"
  using assms(2)
proof (induction es rule: rev_induct)
  case (snoc e es)
  obtain k v where e: "e = (k, v)" by (cases e)
  have "ok (foldl (\<lambda>s (h, v). insert h v s) s es)" by (rule ok_insert_all [OF assms(1)])
  then show ?case
    using snoc e by (cases "h = k") (simp_all add: lookup_insert lookup_insert_other)
qed simp

lemma exists_insert_all:
  assumes "ok s"
  shows "exists (foldl (\<lambda>s (h, v). insert h v s) s es) h = (if h \<in> fst ` set es then yes else exists s h)"
proof (induction es rule: rev_induct)
  case (snoc e es)
  obtain k v where e: "e = (k, v)" by (cases e)
  have "ok (foldl (\<lambda>s (h, v). insert h v s) s es)" by (rule ok_insert_all [OF assms])
  then show ?case
    using snoc e by (cases "h = k") (simp_all add: exists_insert exists_insert_other)
qed simp

end

lemma enforceRefs_insert [simp]: "m_enforceRefs (mem_insert h v s) = m_enforceRefs s"
  by (simp add: mem_insert_def split: option.splits prod.splits)

lemma mem_lookup_insert:
  "\<not> m_enforceRefs s \<Longrightarrow> mem_lookup (mem_insert h v s) h' = (if h' = h then v else mem_lookup s h')"
  by (auto simp: mem_lookup_def mem_insert_def visible_def split: option.splits prod.splits)

lemma mem_exists_insert:
  "\<not> m_enforceRefs s \<Longrightarrow> mem_exists (mem_insert h v s) h' \<longleftrightarrow> h' = h \<or> mem_exists s h'"
  by (auto simp: mem_exists_def mem_insert_def visible_def split: option.splits prod.splits)

interpretation mem: node_store "\<lambda>s :: mem_db. \<not> m_enforceRefs s" mem_lookup mem_exists mem_insert "\<lambda>v. v" True
  by unfold_locales (auto simp: mem_lookup_insert mem_exists_insert)

section \<open>Reference counts\<close>

text \<open>A run of insertions and deletions, and the count it should leave on a hash: deletions below zero do nothing.\<close>

datatype store_op = Ins bytes bytes | Del bytes

fun store_step :: "mem_db \<Rightarrow> store_op \<Rightarrow> mem_db" where
  "store_step s (Ins h v) = mem_insert h v s"
| "store_step s (Del h) = snd (mem_kill h s)"

definition store_run :: "store_op list \<Rightarrow> mem_db \<Rightarrow> mem_db" where
  "store_run ops s = foldl store_step s ops"

fun balance_step :: "bytes \<Rightarrow> nat \<Rightarrow> store_op \<Rightarrow> nat" where
  "balance_step h n (Ins h' v) = (if h' = h then Suc n else n)"
| "balance_step h n (Del h') = (if h' = h then n - 1 else n)"

definition balance :: "store_op list \<Rightarrow> bytes \<Rightarrow> nat" where
  "balance ops h = foldl (balance_step h) 0 ops"

definition refs :: "mem_db \<Rightarrow> bytes \<Rightarrow> nat" where
  "refs s h = (case m_main s h of Some (v, r) \<Rightarrow> unat r | None \<Rightarrow> 0)"

lemma balance_le: "balance ops h \<le> length ops"
proof (induction ops rule: rev_induct)
  case (snoc op ops)
  then show ?case by (cases op) (auto simp: balance_def)
qed (simp add: balance_def)

lemma unat_pred_32: "0 < r \<Longrightarrow> unat (r - 1) = unat r - 1" for r :: "32 word"
  by (simp add: unat_sub_if' word_less_nat_alt)

lemma refs_step:
  assumes "refs s h < 2 ^ 32 - 1"
  shows "refs (store_step s op) h = balance_step h (refs s h) op"
proof (cases op)
  case (Ins h' v)
  then show ?thesis
    using assms by (auto simp: refs_def mem_insert_def unat_word_ariths split: option.splits)
next
  case (Del h')
  then show ?thesis
    by (auto simp: refs_def mem_kill_def unat_pred_32 word_gt_0 split: option.splits if_splits)
qed

lemma refs_run: "length ops < 2 ^ 32 - 1 \<Longrightarrow> refs (store_run ops s) h = foldl (balance_step h) (refs s h) ops" if "m_main s = Map.empty"
proof (induction ops rule: rev_induct)
  case Nil
  then show ?case by (simp add: store_run_def)
next
  case (snoc op ops)
  have r: "refs s h = 0" using that by (simp add: refs_def)
  have "refs (store_run ops s) h \<le> length ops" using snoc balance_le [of ops h] r by (simp add: balance_def)
  then have "refs (store_step (store_run ops s) op) h = balance_step h (refs (store_run ops s) h) op"
    using snoc.prems by (intro refs_step) simp
  then show ?case using snoc by (simp add: store_run_def)
qed

lemma enforceRefs_run [simp]: "m_enforceRefs (store_run ops s) = m_enforceRefs s"
proof (induction ops rule: rev_induct)
  case (snoc op ops)
  then show ?case by (cases op) (auto simp: store_run_def mem_kill_def split: option.splits prod.splits)
qed (simp add: store_run_def)

text \<open>(C34) The reference counts are exact. After any run of fewer than \<open>2 ^ 32 - 1\<close> insertions and deletions on a fresh store,
  with references enforced, a hash exists exactly when it has been inserted more often than deleted, deletions without a live
  reference counting for nothing; the keys, and the keys left by \<open>purge\<close>, are these hashes.\<close>

theorem mem_refcount_exact:
  assumes "length ops < 2 ^ 32 - 1"
  shows "(mem_exists (store_run ops (mem_empty\<lparr>m_enforceRefs := True\<rparr>)) h \<longleftrightarrow> 0 < balance ops h) \<and>
    keys (store_run ops mem_empty) = {h. 0 < balance ops h} \<and>
    dom (m_main (purge (store_run ops mem_empty))) = {h. 0 < balance ops h}"
proof -
  have r: "refs (store_run ops s) h = balance ops h" if "m_main s = Map.empty" for s h
    using refs_run [OF that assms] that by (simp add: refs_def balance_def)
  have k: "h \<in> keys s \<longleftrightarrow> 0 < refs s h" "h \<in> dom (m_main (purge s)) \<longleftrightarrow> 0 < refs s h" for s h
    by (auto simp: keys_def refs_def purge_def unat_gt_0 split: option.splits if_splits)
  have "m_enforceRefs s \<Longrightarrow> mem_exists s h \<longleftrightarrow> 0 < refs s h" for s :: mem_db and h
    by (auto simp: mem_exists_def refs_def visible_def unat_gt_0 word_neq_0_conv split: option.splits)
  then show ?thesis
    using r [of mem_empty] r [of "mem_empty\<lparr>m_enforceRefs := True\<rparr>"]
    by (simp add: set_eq_iff k mem_empty_def del: domIff)
qed

theorem mem_refcount_exact_witness:
  "let ops = [Ins [1] [7], Ins [1] [7], Del [1], Del [2], Ins [3] [9], Del [3]] in
   mem_exists (store_run ops (mem_empty\<lparr>m_enforceRefs := True\<rparr>)) [1] \<and>
   \<not> mem_exists (store_run ops (mem_empty\<lparr>m_enforceRefs := True\<rparr>)) [3]"
  using mem_refcount_exact [of "[Ins [1] [7], Ins [1] [7], Del [1], Del [2], Ins [3] [9], Del [3]]" "[1]"]
    mem_refcount_exact [of "[Ins [1] [7], Ins [1] [7], Del [1], Del [2], Ins [3] [9], Del [3]]" "[3]"]
  by (simp add: balance_def)

end
