(* ===== verification/OverlayDB.thy ===== *)
theory OverlayDB
  imports MemoryDB
begin

text \<open>
  The node store over a disk database: class \<open>OverlayDB\<close> of \<open>libdevcore/OverlayDB.cpp\<close> on top of \<open>MemoryDB\<close>, with the
  database wrapper of \<open>libdevcore/LevelDB.cpp\<close>. The LevelDB library itself is a parameter: its \<open>Get\<close>
  on a database state, and its \<open>Write\<close> of a batch, which returns a status and the next state. A batch is the map of its insertions;
  the keys of one commit are pairwise different, so their order in the batch is immaterial.
\<close>

section \<open>The database wrapper\<close>

datatype DatabaseStatus = Ok | NotFound | Corruption | NotSupported | InvalidArgument | IOError | Unknown

datatype db_error = DatabaseError "DatabaseStatus option"

definition checkStatus :: "DatabaseStatus \<Rightarrow> db_error + unit" where
  "checkStatus st = (if st = Ok then Inr () else Inl (DatabaseError (Some st)))"

type_synonym 'db ldb_get = "'db \<Rightarrow> bytes \<Rightarrow> DatabaseStatus \<times> bytes"
type_synonym batch = "bytes \<rightharpoonup> bytes"
type_synonym 'db ldb_write = "'db \<Rightarrow> batch \<Rightarrow> DatabaseStatus \<times> 'db"

definition ldb_lookup :: "'db ldb_get \<Rightarrow> 'db \<Rightarrow> bytes \<Rightarrow> db_error + bytes" where
  "ldb_lookup gt db k =
     (case gt db k of (st, v) \<Rightarrow> if st = NotFound then Inr [] else ebind (checkStatus st) (\<lambda>_. Inr v))"

definition ldb_exists :: "'db ldb_get \<Rightarrow> 'db \<Rightarrow> bytes \<Rightarrow> db_error + bool" where
  "ldb_exists gt db k =
     (case gt db k of (st, v) \<Rightarrow> if st = NotFound then Inr False else ebind (checkStatus st) (\<lambda>_. Inr True))"

definition ldb_commit :: "'db ldb_write \<Rightarrow> batch option \<Rightarrow> 'db \<Rightarrow> (db_error + unit) \<times> 'db" where
  "ldb_commit wr b db =
     (case b of
        None \<Rightarrow> (Inl (DatabaseError None), db)
      | Some b \<Rightarrow> (case wr db b of (st, db') \<Rightarrow> (checkStatus st, db')))"

section \<open>The overlay\<close>

record 'db overlay_db = mem_db +
  m_db :: "'db option"

definition aux_key :: "bytes \<Rightarrow> bytes" where
  "aux_key h = h @ [255]"

text \<open>The batch of a commit: live nodes under their hash, live auxiliary entries under the hash and a byte 255.\<close>

definition commit_batch :: "'db overlay_db \<Rightarrow> batch" where
  "commit_batch s k =
     (case (if k \<noteq> [] \<and> last k = 255 then m_aux s (butlast k) else None) of
        Some (v, True) \<Rightarrow> Some v
      | _ \<Rightarrow> (case m_main s k of Some (v, r) \<Rightarrow> if r \<noteq> 0 then Some v else None | None \<Rightarrow> None))"

text \<open>
  The retry loop. The batch is handed over by \<open>std::move\<close>: after the first attempt the pointer is
  null. \<open>Exit\<close> is the call of \<open>exit(-1)\<close> after the tenth failure.
\<close>

datatype 'a outcome = Done 'a | Exit

fun commit_attempts :: "'db ldb_write \<Rightarrow> nat list \<Rightarrow> batch option \<Rightarrow> 'db \<Rightarrow> 'db outcome" where
  "commit_attempts wr [] b db = Done db"
| "commit_attempts wr (i # is) b db =
     (case ldb_commit wr b db of
        (Inr _, db') \<Rightarrow> Done db'
      | (Inl e, db') \<Rightarrow> if i = 9 then Exit else commit_attempts wr is None db')"

definition commit :: "'db ldb_write \<Rightarrow> 'db overlay_db \<Rightarrow> 'db overlay_db outcome" where
  "commit wr s =
     (case m_db s of
        None \<Rightarrow> Done s
      | Some db \<Rightarrow>
          (case commit_attempts wr [0 ..< 10] (Some (commit_batch s)) db of
             Exit \<Rightarrow> Exit
           | Done db' \<Rightarrow> Done (s\<lparr>m_aux := Map.empty, m_main := Map.empty, m_db := Some db'\<rparr>)))"

definition lookupAux :: "'db ldb_get \<Rightarrow> 'db overlay_db \<Rightarrow> bytes \<Rightarrow> db_error + bytes" where
  "lookupAux gt s h =
     (let ret = mem_lookupAux s h in
      if ret \<noteq> [] then Inr ret
      else case m_db s of None \<Rightarrow> Inr ret | Some db \<Rightarrow> ldb_lookup gt db (aux_key h))"

definition rollback :: "'db overlay_db \<Rightarrow> 'db overlay_db" where
  "rollback s = s\<lparr>m_main := Map.empty\<rparr>"

definition lookup :: "'db ldb_get \<Rightarrow> 'db overlay_db \<Rightarrow> bytes \<Rightarrow> db_error + bytes" where
  "lookup gt s h =
     (let ret = mem_lookup s h in
      if ret \<noteq> [] then Inr ret
      else case m_db s of None \<Rightarrow> Inr ret | Some db \<Rightarrow> ldb_lookup gt db h)"

definition exists :: "'db ldb_get \<Rightarrow> 'db overlay_db \<Rightarrow> bytes \<Rightarrow> db_error + bool" where
  "exists gt s h =
     (if mem_exists s h then Inr True
      else case m_db s of None \<Rightarrow> Inr False | Some db \<Rightarrow> ldb_exists gt db h)"

text \<open>\<open>kill\<close> only logs when the node is in neither store; the log needs a database read, which may throw.\<close>

definition kill :: "'db ldb_get \<Rightarrow> bytes \<Rightarrow> 'db overlay_db \<Rightarrow> (db_error + unit) \<times> 'db overlay_db" where
  "kill gt h s =
     (case mem_kill h s of
        (True, s') \<Rightarrow> (Inr (), s')
      | (False, s') \<Rightarrow>
          (case m_db s' of
             None \<Rightarrow> (Inr (), s')
           | Some db \<Rightarrow> (ebind (ldb_exists gt db h) (\<lambda>_. Inr ()), s')))"

section \<open>The overlay as a node store\<close>

lemma m_db_insert [simp]: "m_db (mem_insert h v s) = m_db s"
  by (simp add: mem_insert_def split: option.splits prod.splits)

interpretation overlay: node_store "\<lambda>s :: 'db overlay_db. \<not> m_enforceRefs s" "lookup gt" "exists gt" mem_insert Inr "Inr True" for gt
  by unfold_locales (auto simp: lookup_def exists_def Let_def mem_lookup_insert mem_exists_insert)

text \<open>What the database of an overlay holds under a hash: nothing when there is no database or the key is not found, an error for every
  other status than \<open>Ok\<close>.\<close>

definition disk :: "'db ldb_get \<Rightarrow> 'db overlay_db \<Rightarrow> bytes \<Rightarrow> db_error + bytes option" where
  "disk gt s h =
     (case m_db s of
        None \<Rightarrow> Inr None
      | Some db \<Rightarrow>
          (case gt db h of
             (Ok, v) \<Rightarrow> Inr (Some v)
           | (NotFound, _) \<Rightarrow> Inr None
           | (st, _) \<Rightarrow> Inl (DatabaseError (Some st))))"

lemma lookup_disk:
  "\<not> m_enforceRefs s \<Longrightarrow> lookup gt s h =
     (case m_main s h of
        Some (v, r) \<Rightarrow> if v \<noteq> [] then Inr v else map_sum id (case_option [] id) (disk gt s h)
      | None \<Rightarrow> map_sum id (case_option [] id) (disk gt s h))"
  by (auto simp: lookup_def mem_lookup_def visible_def disk_def ldb_lookup_def checkStatus_def Let_def
      split: option.splits prod.splits DatabaseStatus.splits)

lemma exists_disk:
  "\<not> m_enforceRefs s \<Longrightarrow> exists gt s h =
     (if m_main s h \<noteq> None then Inr True else map_sum id (\<lambda>d. d \<noteq> None) (disk gt s h))"
  by (auto simp: exists_def mem_exists_def visible_def disk_def ldb_exists_def checkStatus_def
      split: option.splits prod.splits DatabaseStatus.splits)

text \<open>(C35) In the default reference mode the overlay reads its own writes and falls back to the database: after any run of insertions of
  non-empty nodes, looking up a hash returns the value inserted last under it; for every other hash the non-empty value that the
  memory table had before; and else what the database holds, nothing as the empty string, and the errors of the database as
  errors. A hash exists when it was inserted, has an entry in the memory table, or is in the database.\<close>

theorem overlay_reads_own_writes:
  assumes "\<not> m_enforceRefs s" "list_all (\<lambda>(h, v). v \<noteq> []) es"
  shows "lookup gt (foldl (\<lambda>s (h, v). mem_insert h v s) s es) h =
      (case map_of (rev es) h of
         Some v \<Rightarrow> Inr v
       | None \<Rightarrow>
           (case m_main s h of
              Some (v, r) \<Rightarrow> if v \<noteq> [] then Inr v else map_sum id (case_option [] id) (disk gt s h)
            | None \<Rightarrow> map_sum id (case_option [] id) (disk gt s h))) \<and>
    exists gt (foldl (\<lambda>s (h, v). mem_insert h v s) s es) h =
      (if h \<in> fst ` set es \<or> m_main s h \<noteq> None then Inr True
       else map_sum id (\<lambda>d. d \<noteq> None) (disk gt s h))"
  using overlay.lookup_insert_all [OF assms, of gt h] overlay.exists_insert_all [OF assms(1), of gt es h]
  unfolding lookup_disk [OF assms(1), of gt h] exists_disk [OF assms(1), of gt h] by simp

theorem overlay_reads_own_writes_witness:
  "let s = foldl (\<lambda>s (h, v). mem_insert h v s)
        \<lparr>m_main = Map.empty, m_aux = Map.empty, m_enforceRefs = False, m_db = Some ()\<rparr> [([1], [7]), ([2], [8])];
       gt = (\<lambda>_ k. if k = [3] then (Ok, [9]) else (NotFound, [])) in
   lookup gt s [1] = Inr [7] \<and> lookup gt s [3] = Inr [9] \<and> exists gt s [3] = Inr True \<and> exists gt s [4] = Inr False"
  unfolding Let_def
  using overlay_reads_own_writes [of "\<lparr>m_main = Map.empty, m_aux = Map.empty, m_enforceRefs = False, m_db = Some ()\<rparr>"
      "[([1], [7]), ([2], [8])]" "\<lambda>_ k. if k = [3] then (Ok, [9]) else (NotFound, [])"]
  by (simp add: disk_def)

section \<open>Commit\<close>

definition hashes_32 :: "'db overlay_db \<Rightarrow> bool" where
  "hashes_32 s \<longleftrightarrow>
     (\<forall>h e. m_main s h = Some e \<longrightarrow> length h = 32) \<and> (\<forall>h e. m_aux s h = Some e \<longrightarrow> length h = 32)"

definition values_nonempty :: "'db overlay_db \<Rightarrow> bool" where
  "values_nonempty s \<longleftrightarrow>
     (\<forall>h v r. m_main s h = Some (v, r) \<longrightarrow> r \<noteq> 0 \<longrightarrow> v \<noteq> []) \<and> (\<forall>h v. m_aux s h = Some (v, True) \<longrightarrow> v \<noteq> [])"

lemma commit_batch_main:
  assumes "hashes_32 s" "length h = 32"
  shows "commit_batch s h = (case m_main s h of Some (v, r) \<Rightarrow> if r \<noteq> 0 then Some v else None | None \<Rightarrow> None)"
proof -
  have "m_aux s (butlast h) = None"
    using assms by (cases "m_aux s (butlast h)") (force simp: hashes_32_def)+
  then show ?thesis by (simp add: commit_batch_def)
qed

lemma commit_batch_aux:
  assumes "hashes_32 s" "length h = 32"
  shows "commit_batch s (aux_key h) = (case m_aux s h of Some (v, live) \<Rightarrow> if live then Some v else None | None \<Rightarrow> None)"
proof -
  have "m_main s (aux_key h) = None"
    using assms by (cases "m_main s (aux_key h)") (force simp: hashes_32_def aux_key_def)+
  then show ?thesis by (auto simp: commit_batch_def aux_key_def split: option.splits bool.splits)
qed

lemma commit_first_ok:
  assumes "m_db s = Some db" "wr db (commit_batch s) = (Ok, db')"
  shows "commit wr s = Done (s\<lparr>m_aux := Map.empty, m_main := Map.empty, m_db := Some db'\<rparr>)"
  using assms by (simp add: commit_def upt_conv_Cons ldb_commit_def checkStatus_def)

text \<open>(C36) A successful commit moves the live entries to the database: with 32-byte hashes, non-empty live values, and a
  database that returns what was written last, both tables of the overlay are empty afterwards; every node and auxiliary entry
  reads as before, in both reference modes, except for the nodes of reference count zero and the removed auxiliary entries:
  these read afterwards what the database had before the commit. With references enforced that is what they read before, so that no lookup changes; in the
  default mode they read their value in memory until the commit drops it.\<close>

theorem commit_preserves_lookups:
  assumes "m_db s = Some db" "wr db (commit_batch s) = (Ok, db')"
    "\<And>k. gt db' k = (case commit_batch s k of Some v \<Rightarrow> (Ok, v) | None \<Rightarrow> gt db k)"
    "hashes_32 s" "values_nonempty s" "length h = 32"
  shows "\<exists>s'. commit wr s = Done s' \<and> m_main s' = Map.empty \<and> m_aux s' = Map.empty \<and>
    lookup gt s' h =
      (case m_main s h of
         Some (v, r) \<Rightarrow> if r = 0 then ldb_lookup gt db h else lookup gt s h
       | None \<Rightarrow> lookup gt s h) \<and>
    lookupAux gt s' h =
      (case m_aux s h of
         Some (v, live) \<Rightarrow> if live then lookupAux gt s h else ldb_lookup gt db (aux_key h)
       | None \<Rightarrow> lookupAux gt s h) \<and>
    (m_enforceRefs s \<longrightarrow> lookup gt s' h = lookup gt s h \<and> lookupAux gt s' h = lookupAux gt s h) \<and>
    (\<not> m_enforceRefs s \<longrightarrow>
       (\<forall>v. m_main s h = Some (v, 0) \<longrightarrow> v \<noteq> [] \<longrightarrow> lookup gt s h = Inr v) \<and>
       (\<forall>v. m_aux s h = Some (v, False) \<longrightarrow> v \<noteq> [] \<longrightarrow> lookupAux gt s h = Inr v))"
proof -
  let ?s = "s\<lparr>m_aux := Map.empty, m_main := Map.empty, m_db := Some db'\<rparr>"
  have ne: "m_main s h = Some (v, r) \<Longrightarrow> r \<noteq> 0 \<Longrightarrow> v \<noteq> []" "m_aux s h = Some (v, True) \<Longrightarrow> v \<noteq> []" for v r
    using assms(5) unfolding values_nonempty_def by blast+
  have main: "lookup gt ?s h = (case m_main s h of
      Some (v, r) \<Rightarrow> if r = 0 then ldb_lookup gt db h else lookup gt s h | None \<Rightarrow> lookup gt s h)"
    using assms(1-3) commit_batch_main [OF assms(4,6)] ne(1)
    by (auto simp: lookup_def mem_lookup_def visible_def ldb_lookup_def checkStatus_def word_gt_0 Let_def
        split: option.splits prod.splits)
  have aux: "lookupAux gt ?s h = (case m_aux s h of
      Some (v, live) \<Rightarrow> if live then lookupAux gt s h else ldb_lookup gt db (aux_key h) | None \<Rightarrow> lookupAux gt s h)"
    using assms(1-3) commit_batch_aux [OF assms(4,6)] ne(2)
    by (auto simp: lookupAux_def mem_lookupAux_def ldb_lookup_def checkStatus_def Let_def
        split: option.splits prod.splits bool.splits)
  have "m_enforceRefs s \<Longrightarrow> m_main s h = Some (v, 0) \<Longrightarrow> lookup gt s h = ldb_lookup gt db h"
    "m_enforceRefs s \<Longrightarrow> m_aux s h = Some (v, False) \<Longrightarrow> lookupAux gt s h = ldb_lookup gt db (aux_key h)" for v
    using assms(1) by (simp_all add: lookup_def mem_lookup_def visible_def lookupAux_def mem_lookupAux_def)
  moreover have "\<not> m_enforceRefs s \<Longrightarrow> m_main s h = Some (v, r) \<Longrightarrow> v \<noteq> [] \<Longrightarrow> lookup gt s h = Inr v"
    "\<not> m_enforceRefs s \<Longrightarrow> m_aux s h = Some (v, l) \<Longrightarrow> v \<noteq> [] \<Longrightarrow> lookupAux gt s h = Inr v" for v r l
    by (simp_all add: lookup_def mem_lookup_def visible_def lookupAux_def mem_lookupAux_def)
  ultimately show ?thesis
    using commit_first_ok [of s db wr db', OF assms(1,2)] main aux
    by (auto split: option.splits prod.splits if_splits)
qed

theorem commit_preserves_lookups_witness:
  "let s = \<lparr>m_main = [replicate 32 1 \<mapsto> ([7], 0)], m_aux = [replicate 32 1 \<mapsto> ([8], True)], m_enforceRefs = False,
            m_db = Some (\<lambda>k. if k = replicate 32 1 then Some [3] else None)\<rparr>;
       gt = (\<lambda>db k. case db k of Some v \<Rightarrow> (Ok, v) | None \<Rightarrow> (NotFound, []));
       wr = (\<lambda>db b. (Ok, db ++ b)) in
   lookup gt s (replicate 32 1) = Inr [7] \<and>
   (\<exists>s'. commit wr s = Done s' \<and> lookup gt s' (replicate 32 1) = Inr [3] \<and>
      lookupAux gt s' (replicate 32 1) = Inr [8] \<and> m_main s' = Map.empty)"
proof -
  let ?db = "\<lambda>k :: bytes. if k = replicate 32 1 then Some [3 :: byte] else None"
  let ?s = "\<lparr>m_main = [replicate 32 1 \<mapsto> ([7], 0)], m_aux = [replicate 32 1 \<mapsto> ([8], True)], m_enforceRefs = False,
             m_db = Some ?db\<rparr> :: (bytes \<rightharpoonup> bytes) overlay_db"
  let ?gt = "\<lambda>(db :: bytes \<rightharpoonup> bytes) k. case db k of Some v \<Rightarrow> (Ok, v) | None \<Rightarrow> (NotFound, [])"
  let ?wr = "\<lambda>(db :: bytes \<rightharpoonup> bytes) b. (Ok, db ++ b)"
  have "hashes_32 ?s" "values_nonempty ?s"
    by (simp_all add: hashes_32_def values_nonempty_def split: if_splits)
  moreover have "?gt (?db ++ commit_batch ?s) k = (case commit_batch ?s k of Some v \<Rightarrow> (Ok, v) | None \<Rightarrow> ?gt ?db k)" for k
    by (simp add: map_add_def split: option.splits)
  ultimately obtain s' where "commit ?wr ?s = Done s'" "m_main s' = Map.empty"
      "lookup ?gt s' (replicate 32 1) = ldb_lookup ?gt ?db (replicate 32 1)"
      "lookupAux ?gt s' (replicate 32 1) = lookupAux ?gt ?s (replicate 32 1)"
      "lookup ?gt ?s (replicate 32 1) = Inr [7]"
    using commit_preserves_lookups [of ?s ?db ?wr "?db ++ commit_batch ?s" ?gt "replicate 32 1"] by auto
  then show ?thesis
    unfolding Let_def by (auto simp: ldb_lookup_def checkStatus_def lookupAux_def mem_lookupAux_def)
qed

text \<open>(C37) The retry loop of \<open>commit\<close> cannot succeed. When the first write fails, the process exits: the nine later attempts pass the null
  pointer that \<open>std::move\<close> left behind, which the wrapper refuses, whatever the database would answer.\<close>

theorem commit_retry_always_exits:
  assumes "m_db s = Some db" "fst (wr db (commit_batch s)) \<noteq> Ok"
  shows "commit wr s = Exit"
proof -
  have "commit_attempts wr [1 ..< 10] None db' = Exit" for db'
    by (simp add: upt_conv_Cons ldb_commit_def)
  then have "commit_attempts wr (0 # [1 ..< 10]) (Some (commit_batch s)) db = Exit"
    using assms(2) by (cases "wr db (commit_batch s)") (simp add: ldb_commit_def checkStatus_def)
  then show ?thesis
    using assms(1) by (simp add: commit_def upt_conv_Cons)
qed

theorem commit_retry_always_exits_witness:
  "commit (\<lambda>db b. (if db = (0 :: nat) then IOError else Ok, Suc db))
     \<lparr>m_main = Map.empty, m_aux = Map.empty, m_enforceRefs = False, m_db = Some 0\<rparr> = Exit"
  by (rule commit_retry_always_exits [of _ 0]) simp_all

end
