(* ===== verification/RangeMask.thy ===== *)
theory RangeMask
  imports Prelude
begin

text \<open>
  Sets of numbers as unions of ranges: class \<open>RangeMask\<close> of \<open>libdevcore/RangeMask.h\<close>. The \<open>std::map\<close> from the begin to the end of
  a range is its list of entries in key order. Numbers are \<open>unsigned\<close>: additions that the code makes are reduced modulo \<open>2 ^ 32\<close>. The
  lemmas read a mask as the set of its elements.
\<close>

type_synonym ranges = "(nat \<times> nat) list"

record range_mask =
  m_all :: "nat \<times> nat"
  m_ranges :: ranges

datatype range_error = AssertionFailed

definition wrap32 :: "nat \<Rightarrow> nat" where
  "wrap32 n = n mod 2 ^ 32"

definition sub32 :: "nat \<Rightarrow> nat \<Rightarrow> nat" where
  "sub32 a b = (if b \<le> a then a - b else a + 2 ^ 32 - b)"

section \<open>The ordered map\<close>

text \<open>\<open>m[k] = v\<close>, \<open>erase\<close>, and the entries at or below and above a key: \<open>upper_bound\<close> is the first of the latter.\<close>

fun rm_put :: "nat \<Rightarrow> nat \<Rightarrow> ranges \<Rightarrow> ranges" where
  "rm_put k v [] = [(k, v)]"
| "rm_put k v ((k', v') # m) =
     (if k = k' then (k, v) # m else if k < k' then (k, v) # (k', v') # m else (k', v') # rm_put k v m)"

definition rm_erase :: "nat \<Rightarrow> ranges \<Rightarrow> ranges" where
  "rm_erase k m = filter (\<lambda>(a, b). a \<noteq> k) m"

definition below :: "nat \<Rightarrow> ranges \<Rightarrow> ranges" where
  "below i m = takeWhile (\<lambda>(a, b). a \<le> i) m"

definition above :: "nat \<Rightarrow> ranges \<Rightarrow> ranges" where
  "above i m = dropWhile (\<lambda>(a, b). a \<le> i) m"

section \<open>Operations\<close>

definition RangeMask_new :: "nat \<Rightarrow> nat \<Rightarrow> range_mask" where
  "RangeMask_new b e = \<lparr>m_all = (b, e), m_ranges = []\<rparr>"

text \<open>
  \<open>unionWith(Range)\<close>: the loop from \<open>i\<close> to the end \<open>e\<close> of the range. \<open>None\<close> says that it does not end.
\<close>

partial_function (option) union_loop :: "nat \<Rightarrow> nat \<Rightarrow> range_mask \<Rightarrow> (range_error + range_mask) option" where
  "union_loop i e r =
     (if i < e then
        (if i < fst (m_all r) \<or> snd (m_all r) \<le> i then Some (Inl AssertionFailed)
         else
           (let rs = m_ranges r; bl = below i rs; ab = above i rs in
            if bl = [] \<or> snd (last bl) < i then
              (if ab = [] \<or> e < fst (hd ab) then Some (Inr (r\<lparr>m_ranges := rm_put i e rs\<rparr>))
               else if fst (hd ab) = i then union_loop (snd (hd ab)) e r
               else union_loop (snd (hd ab)) e
                      (r\<lparr>m_ranges := rm_erase (fst (hd ab)) (rm_put i (snd (hd ab)) rs)\<rparr>))
            else if snd (last bl) = i then
              (if ab = [] \<or> e < fst (hd ab) then Some (Inr (r\<lparr>m_ranges := rm_put (fst (last bl)) e rs\<rparr>))
               else union_loop (snd (hd ab)) e
                      (r\<lparr>m_ranges := rm_erase (fst (hd ab)) (rm_put (fst (last bl)) (snd (hd ab)) rs)\<rparr>))
            else union_loop (snd (last bl)) e r))
      else Some (Inr r))"

definition unionWith_range :: "nat \<times> nat \<Rightarrow> range_mask \<Rightarrow> (range_error + range_mask) option" where
  "unionWith_range m r = union_loop (fst m) (snd m) r"

definition unionWith_elem :: "nat \<Rightarrow> range_mask \<Rightarrow> (range_error + range_mask) option" where
  "unionWith_elem i r = unionWith_range (i, wrap32 (i + 1)) r"

fun union_all :: "ranges \<Rightarrow> range_mask \<Rightarrow> (range_error + range_mask) option" where
  "union_all [] r = Some (Inr r)"
| "union_all (m # ms) r =
     (case unionWith_range m r of
        None \<Rightarrow> None
      | Some (Inl e) \<Rightarrow> Some (Inl e)
      | Some (Inr r') \<Rightarrow> union_all ms r')"

definition unionWith :: "range_mask \<Rightarrow> range_mask \<Rightarrow> (range_error + range_mask) option" where
  "unionWith m r =
     union_all (m_ranges m)
       (r\<lparr>m_all := (min (fst (m_all m)) (fst (m_all r)), max (snd (m_all m)) (snd (m_all r)))\<rparr>)"

fun lowest_loop :: "nat \<Rightarrow> ranges \<Rightarrow> ranges \<Rightarrow> ranges" where
  "lowest_loop n [] ret = ret"
| "lowest_loop n ((a, b) # rs) ret =
     (if n = 0 then ret
      else
        (let e = min (wrap32 (a + n)) b in
         lowest_loop (sub32 n (sub32 e a)) rs (rm_put a e ret)))"

definition lowest :: "nat \<Rightarrow> range_mask \<Rightarrow> range_mask" where
  "lowest n r = \<lparr>m_all = m_all r, m_ranges = lowest_loop n (m_ranges r) []\<rparr>"

fun invert_loop :: "nat \<Rightarrow> ranges \<Rightarrow> ranges \<Rightarrow> nat \<times> ranges" where
  "invert_loop lst [] ret = (lst, ret)"
| "invert_loop lst ((a, b) # rs) ret = invert_loop b rs (if a \<noteq> lst then rm_put lst a ret else ret)"

definition inverted :: "range_mask \<Rightarrow> range_mask" where
  "inverted r =
     (case invert_loop (fst (m_all r)) (m_ranges r) [] of
        (lst, ret) \<Rightarrow>
          \<lparr>m_all = m_all r, m_ranges = (if lst \<noteq> snd (m_all r) then rm_put lst (snd (m_all r)) ret else ret)\<rparr>)"

definition minus_mask :: "range_mask \<Rightarrow> range_mask \<Rightarrow> (range_error + range_mask) option" where
  "minus_mask m r = map_option (\<lambda>x. ebind x (\<lambda>y. Inr (inverted y))) (unionWith m (inverted r))"

definition contains :: "nat \<Rightarrow> range_mask \<Rightarrow> bool" where
  "contains i r = (below i (m_ranges r) \<noteq> [] \<and> snd (last (below i (m_ranges r))) > i)"

definition rm_empty :: "range_mask \<Rightarrow> bool" where
  "rm_empty r = (m_ranges r = [])"

definition full :: "range_mask \<Rightarrow> bool" where
  "full r = (fst (m_all r) = snd (m_all r) \<or> (length (m_ranges r) = 1 \<and> hd (m_ranges r) = m_all r))"

definition rm_clear :: "range_mask \<Rightarrow> range_mask" where
  "rm_clear r = r\<lparr>m_ranges := []\<rparr>"

definition reset :: "range_mask \<Rightarrow> range_mask" where
  "reset r = r\<lparr>m_ranges := [], m_all := (0, 0)\<rparr>"

definition extendAll :: "nat \<Rightarrow> range_mask \<Rightarrow> range_mask" where
  "extendAll i r = r\<lparr>m_all := (min (fst (m_all r)) i, max (snd (m_all r)) (wrap32 (i + 1)))\<rparr>"

definition next_elem :: "nat \<Rightarrow> range_mask \<Rightarrow> nat" where
  "next_elem t r =
     (let t1 = wrap32 (t + 1);
          bl = below t1 (m_ranges r);
          ab = above t1 (m_ranges r) in
      if bl \<noteq> [] \<and> fst (last bl) \<le> t1 \<and> snd (last bl) > t1 then t1
      else if ab = [] then snd (m_all r) else fst (hd ab))"

text \<open>The iterator: \<open>begin()\<close>, and the values it visits until it stands at \<open>end()\<close>.\<close>

definition rm_begin :: "range_mask \<Rightarrow> nat" where
  "rm_begin r = (if m_ranges r = [] then snd (m_all r) else fst (hd (m_ranges r)))"

partial_function (option) visit :: "nat \<Rightarrow> range_mask \<Rightarrow> nat list \<Rightarrow> nat list option" where
  "visit v r acc = (if v = snd (m_all r) then Some acc else visit (next_elem v r) r (acc @ [v]))"

definition rm_size :: "range_mask \<Rightarrow> nat" where
  "rm_size r = foldl (\<lambda>c (a, b). c + sub32 b a) 0 (m_ranges r)"

definition firstOut :: "range_mask \<Rightarrow> nat" where
  "firstOut r =
     (case map_of (m_ranges r) (fst (m_all r)) of None \<Rightarrow> fst (m_all r) | Some e \<Rightarrow> e)"

definition lastIn :: "range_mask \<Rightarrow> nat" where
  "lastIn r = (if m_ranges r = [] then fst (m_all r) else sub32 (snd (last (m_ranges r))) 1)"

section \<open>Masks as sets\<close>

definition elems :: "ranges \<Rightarrow> nat set" where
  "elems rs = (\<Union>(a, b) \<in> set rs. {a..<b})"

text \<open>Ranges in order, non-empty, with a gap between neighbours, from \<open>lo\<close> on.\<close>

fun chain :: "nat \<Rightarrow> ranges \<Rightarrow> bool" where
  "chain lo [] \<longleftrightarrow> True"
| "chain lo ((a, b) # rs) \<longleftrightarrow> lo \<le> a \<and> a < b \<and> chain (Suc b) rs"

definition chain_end :: "nat \<Rightarrow> ranges \<Rightarrow> nat" where
  "chain_end lo rs = (if rs = [] then lo else Suc (snd (last rs)))"

definition mask_ok :: "range_mask \<Rightarrow> bool" where
  "mask_ok r \<longleftrightarrow>
     chain (fst (m_all r)) (m_ranges r) \<and> list_all (\<lambda>(a, b). b \<le> snd (m_all r)) (m_ranges r) \<and>
     fst (m_all r) \<le> snd (m_all r) \<and> snd (m_all r) < 2 ^ 32"

definition mask_set :: "range_mask \<Rightarrow> nat set" where
  "mask_set r = elems (m_ranges r)"

definition ground :: "range_mask \<Rightarrow> nat set" where
  "ground r = {fst (m_all r)..<snd (m_all r)}"

lemma elems_simps [simp]: "elems [] = {}" "elems ((a, b) # rs) = {a..<b} \<union> elems rs" "elems (xs @ ys) = elems xs \<union> elems ys"
  by (auto simp: elems_def)

lemma elems_memI: "(a, b) \<in> set rs \<Longrightarrow> a \<le> x \<Longrightarrow> x < b \<Longrightarrow> x \<in> elems rs"
  unfolding elems_def by (rule UN_I [of "(a, b)"]) auto

lemma chain_mono: "chain lo rs \<Longrightarrow> lo' \<le> lo \<Longrightarrow> chain lo' rs"
  by (cases rs) auto

lemma chain_append: "chain lo (xs @ ys) \<longleftrightarrow> chain lo xs \<and> chain (chain_end lo xs) ys"
  by (induction lo xs rule: chain.induct) (auto simp: chain_end_def)

lemma chain_ge: "chain lo rs \<Longrightarrow> (a, b) \<in> set rs \<Longrightarrow> lo \<le> a \<and> a < b"
  by (induction lo rs rule: chain.induct) auto

lemma chain_elems_ge: "chain lo rs \<Longrightarrow> x \<in> elems rs \<Longrightarrow> lo \<le> x"
  by (auto simp: elems_def dest: chain_ge)

lemma chain_sorted: "chain lo rs \<Longrightarrow> sorted_wrt (\<lambda>x y. fst x < fst y \<and> snd x < fst y) rs"
proof (induction lo rs rule: chain.induct)
  case (2 lo a b rs)
  then show ?case by (auto dest!: chain_ge)
qed simp

text \<open>At a key, a chain splits into the ranges that start at or below it and those above.\<close>

lemma below_above: "rs = below i rs @ above i rs"
  by (simp add: below_def above_def)

lemma below_le: "(a, b) \<in> set (below i rs) \<Longrightarrow> a \<le> i"
  by (auto simp: below_def dest: set_takeWhileD)

lemma above_gt: "chain lo rs \<Longrightarrow> (a, b) \<in> set (above i rs) \<Longrightarrow> i < a"
proof (induction lo rs rule: chain.induct)
  case (2 lo a' b' rs)
  show ?case
  proof (cases "a' \<le> i")
    case True
    then show ?thesis using 2 by (simp add: above_def)
  next
    case False
    then show ?thesis using 2 chain_ge [of "Suc b'" rs a b] by (auto simp: above_def)
  qed
qed (simp add: above_def)

lemma rm_put_new: "list_all (\<lambda>(a, b). a < k) xs \<Longrightarrow> list_all (\<lambda>(a, b). k < a) ys \<Longrightarrow> rm_put k v (xs @ ys) = xs @ (k, v) # ys"
proof (induction xs)
  case Nil
  then show ?case by (cases ys) auto
next
  case (Cons e xs)
  then show ?case by (cases e) auto
qed

lemma rm_put_old: "list_all (\<lambda>(a, b). a < k) xs \<Longrightarrow> rm_put k v (xs @ (k, w) # ys) = xs @ (k, v) # ys"
  by (induction xs) auto

lemma rm_erase_mid:
  "list_all (\<lambda>(a, b). a \<noteq> k) xs \<Longrightarrow> list_all (\<lambda>(a, b). a \<noteq> k) ys \<Longrightarrow> rm_erase k (xs @ (k, w) # ys) = xs @ ys"
  by (auto simp: rm_erase_def filter_id_conv list_all_iff)

lemma chain_below: "chain lo rs \<Longrightarrow> list_all (\<lambda>(a, b). a \<le> i) (below i rs)"
  by (auto simp: list_all_iff dest: below_le)

lemma chain_above: "chain lo rs \<Longrightarrow> list_all (\<lambda>(a, b). i < a) (above i rs)"
  by (auto simp: list_all_iff dest: above_gt)

text \<open>The value under which a chain is read at \<open>i\<close>: the range that starts last at or below it.\<close>

lemma chain_member:
  assumes "chain lo rs"
  shows "i \<in> elems rs \<longleftrightarrow> below i rs \<noteq> [] \<and> i < snd (last (below i rs))"
proof -
  let ?b = "below i rs"
  have c: "chain lo ?b" "chain (chain_end lo ?b) (above i rs)"
    using assms below_above [of rs i] by (metis chain_append)+
  have "i \<notin> elems (above i rs)" using above_gt [OF assms] by (fastforce simp: elems_def)
  then have "i \<in> elems rs \<longleftrightarrow> i \<in> elems ?b" using below_above [of rs i] by (metis UnCI UnE elems_simps(3))
  also have "\<dots> \<longleftrightarrow> ?b \<noteq> [] \<and> i < snd (last ?b)"
  proof (cases ?b rule: rev_cases)
    case (snoc xs e)
    obtain a b where e: "e = (a, b)" by (cases e)
    have "a \<le> i" using below_le [of a b i rs] snoc e by simp
    moreover have "x < a" if x: "x \<in> elems xs" for x
    proof -
      obtain a' b' where "(a', b') \<in> set xs" "x < b'" using x by (auto simp: elems_def)
      then show ?thesis using chain_sorted [OF c(1)] snoc e by (fastforce simp: sorted_wrt_append)
    qed
    ultimately have "i \<notin> elems xs" by force
    then show ?thesis using snoc e \<open>a \<le> i\<close> by simp
  qed simp
  finally show ?thesis .
qed

section \<open>Adding a range\<close>

lemma chain_hd: "chain lo rs \<Longrightarrow> rs = [] \<or> lo' \<le> fst (hd rs) \<Longrightarrow> chain lo' rs"
  by (cases rs) auto

lemma chain_last: "chain lo rs \<Longrightarrow> (a, b) \<in> set rs \<Longrightarrow> b \<le> snd (last rs)"
proof (induction lo rs rule: chain.induct)
  case (2 lo a' b' rs)
  show ?case
  proof (cases "rs = []")
    case False
    obtain c d where "last rs = (c, d)" by (cases "last rs")
    then have "Suc b' \<le> c" "c < d" using 2 False chain_ge [of "Suc b'" rs c d] last_in_set [OF False] by auto
    then show ?thesis using 2 False \<open>last rs = (c, d)\<close> by auto
  qed (use 2 in auto)
qed simp

lemma chain_all_below:
  assumes "chain lo rs" "rs = [] \<or> snd (last rs) < i"
  shows "list_all (\<lambda>(a, b). a < i) rs"
proof -
  have "a < i" if "(a, b) \<in> set rs" for a b
    using chain_last [OF assms(1) that] chain_ge [OF assms(1) that] assms(2) that by auto
  then show ?thesis by (auto simp: list_all_iff)
qed

text \<open>The three ways in which one turn of the loop changes the ranges, for a split of the ranges at \<open>i\<close>.\<close>

lemma gap_insert:
  assumes c: "chain lo (bl @ ab)" and i: "lo \<le> i" "i < e" and bl: "bl = [] \<or> snd (last bl) < i"
    and ab: "list_all (\<lambda>(a, b). i < a) ab" "ab = [] \<or> e < fst (hd ab)"
  shows "rm_put i e (bl @ ab) = bl @ (i, e) # ab" "chain lo (bl @ (i, e) # ab)"
proof -
  have "list_all (\<lambda>(a, b). a < i) bl"
    using c bl by (auto simp: chain_append intro: chain_all_below)
  then show "rm_put i e (bl @ ab) = bl @ (i, e) # ab" using ab(1) by (rule rm_put_new)
  show "chain lo (bl @ (i, e) # ab)"
    using c i bl ab(2) by (auto simp: chain_append chain_end_def Suc_le_eq intro: chain_hd)
qed

lemma gap_merge:
  assumes c: "chain lo (bl @ (a, b) # ab)" and i: "lo \<le> i" "i < a" and bl: "bl = [] \<or> snd (last bl) < i"
  shows "rm_erase a (rm_put i b (bl @ (a, b) # ab)) = bl @ (i, b) # ab" "chain lo (bl @ (i, b) # ab)"
proof -
  have l: "list_all (\<lambda>(a, b). a < i) bl"
    using c bl by (auto simp: chain_append intro: chain_all_below)
  have g: "list_all (\<lambda>(x, y). a < x) ab"
    using chain_sorted [OF c] by (auto simp: list_all_iff sorted_wrt_append)
  have "rm_put i b (bl @ (a, b) # ab) = (bl @ [(i, b)]) @ (a, b) # ab"
    using rm_put_new [OF l, of "(a, b) # ab" b] g i(2) by (fastforce simp: list_all_iff)
  moreover have "rm_erase a ((bl @ [(i, b)]) @ (a, b) # ab) = (bl @ [(i, b)]) @ ab"
    using l g i(2) by (intro rm_erase_mid) (auto simp: list_all_iff)
  ultimately show "rm_erase a (rm_put i b (bl @ (a, b) # ab)) = bl @ (i, b) # ab" by simp
  show "chain lo (bl @ (i, b) # ab)"
    using c i bl by (auto simp: chain_append chain_end_def)
qed

lemma touch_extend:
  assumes c: "chain lo (bl @ (p, i) # ab)" and i: "i < e" and ab: "ab = [] \<or> e < fst (hd ab)"
  shows "rm_put p e (bl @ (p, i) # ab) = bl @ (p, e) # ab" "chain lo (bl @ (p, e) # ab)"
proof -
  have "list_all (\<lambda>(a, b). a < p) bl"
    using chain_sorted [OF c] by (auto simp: list_all_iff sorted_wrt_append)
  then show "rm_put p e (bl @ (p, i) # ab) = bl @ (p, e) # ab" by (rule rm_put_old)
  show "chain lo (bl @ (p, e) # ab)"
    using c i ab by (auto simp: chain_append Suc_le_eq intro: chain_hd)
qed

lemma touch_merge:
  assumes c: "chain lo (bl @ (p, i) # (a, b) # ab)"
  shows "rm_erase a (rm_put p b (bl @ (p, i) # (a, b) # ab)) = bl @ (p, b) # ab" "chain lo (bl @ (p, b) # ab)"
proof -
  have l: "list_all (\<lambda>(x, y). x < p) bl" and g: "list_all (\<lambda>(x, y). a < x) ab" and p: "p < a"
    using chain_sorted [OF c] by (auto simp: list_all_iff sorted_wrt_append)
  have "rm_put p b (bl @ (p, i) # (a, b) # ab) = (bl @ [(p, b)]) @ (a, b) # ab"
    using rm_put_old [OF l] by simp
  moreover have "rm_erase a ((bl @ [(p, b)]) @ (a, b) # ab) = (bl @ [(p, b)]) @ ab"
    using l g p by (intro rm_erase_mid) (auto simp: list_all_iff)
  ultimately show "rm_erase a (rm_put p b (bl @ (p, i) # (a, b) # ab)) = bl @ (p, b) # ab" by simp
  show "chain lo (bl @ (p, b) # ab)" using c by (auto simp: chain_append)
qed

text \<open>What one call of the loop has to give back.\<close>

definition adds_range :: "range_mask \<Rightarrow> nat \<Rightarrow> nat \<Rightarrow> (range_error + range_mask) option \<Rightarrow> bool" where
  "adds_range r i e res \<longleftrightarrow>
     (\<exists>r'. res = Some (Inr r') \<and> mask_ok r' \<and> m_all r' = m_all r \<and> mask_set r' = mask_set r \<union> {i..<e})"

lemma adds_range_step:
  assumes "adds_range r1 i1 e res" "m_all r1 = m_all r" "mask_set r1 \<union> {i1..<e} = mask_set r \<union> {i..<e}"
  shows "adds_range r i e res"
  using assms by (auto simp: adds_range_def)

lemma mask_ok_ranges:
  "mask_ok r \<Longrightarrow> chain (fst (m_all r)) rs \<Longrightarrow> list_all (\<lambda>(a, b). b \<le> snd (m_all r)) rs \<Longrightarrow> mask_ok (r\<lparr>m_ranges := rs\<rparr>)"
  by (simp add: mask_ok_def)

lemma adds_range_now:
  assumes "mask_ok r" "chain (fst (m_all r)) rs" "list_all (\<lambda>(a, b). b \<le> snd (m_all r)) rs" "elems rs = mask_set r \<union> {i..<e}"
  shows "adds_range r i e (Some (Inr (r\<lparr>m_ranges := rs\<rparr>)))"
  using assms mask_ok_ranges by (auto simp: adds_range_def mask_set_def)

lemma union_loop_gap:
  assumes ok: "mask_ok r" and rs: "m_ranges r = bl @ ab" "below i (m_ranges r) = bl" "above i (m_ranges r) = ab"
    and i: "fst (m_all r) \<le> i" "i < e" "e \<le> snd (m_all r)" and gap: "bl = [] \<or> snd (last bl) < i"
    and IH: "\<And>j r'. i < j \<Longrightarrow> mask_ok r' \<Longrightarrow> m_all r' = m_all r \<Longrightarrow> adds_range r' j e (union_loop j e r')"
  shows "adds_range r i e (union_loop i e r)"
proof -
  have c: "chain (fst (m_all r)) (bl @ ab)" and b: "list_all (\<lambda>(a, b). b \<le> snd (m_all r)) (bl @ ab)"
    using ok rs(1) by (auto simp: mask_ok_def)
  have gt: "list_all (\<lambda>(a, b). i < a) ab" using chain_above [OF c, of i] rs by simp
  show ?thesis
  proof (cases "ab = [] \<or> e < fst (hd ab)")
    case True
    note g = gap_insert [OF c i(1,2) gap gt True]
    have "union_loop i e r = Some (Inr (r\<lparr>m_ranges := bl @ (i, e) # ab\<rparr>))"
      using i gap True rs g(1) by (subst union_loop.simps) (simp add: Let_def)
    then show ?thesis
      using adds_range_now [OF ok g(2)] b i rs(1) by (auto simp: mask_set_def)
  next
    case False
    then obtain a b' ab' where ab: "ab = (a, b') # ab'" "a \<le> e" by (cases ab) auto
    then have a: "i < a" "a < b'" using gt c by (auto simp: chain_append)
    note g = gap_merge [OF c [unfolded ab] i(1) a(1) gap]
    let ?r = "r\<lparr>m_ranges := bl @ (i, b') # ab'\<rparr>"
    have "union_loop i e r = union_loop b' e ?r"
      using i gap False rs g(1) ab a by (subst union_loop.simps) (auto simp: Let_def)
    moreover have "adds_range ?r b' e (union_loop b' e ?r)"
      using a b ab mask_ok_ranges [OF ok g(2)] by (intro IH) auto
    moreover have "mask_set ?r \<union> {b'..<e} = mask_set r \<union> {i..<e}"
      using rs(1) ab a by (auto simp: mask_set_def)
    ultimately show ?thesis
      using adds_range_step [of ?r b' e _ r i] by simp
  qed
qed

lemma union_loop_touch:
  assumes ok: "mask_ok r" and rs: "m_ranges r = bl @ (p, i) # ab" "below i (m_ranges r) = bl @ [(p, i)]" "above i (m_ranges r) = ab"
    and i: "fst (m_all r) \<le> i" "i < e" "e \<le> snd (m_all r)"
    and IH: "\<And>j r'. i < j \<Longrightarrow> mask_ok r' \<Longrightarrow> m_all r' = m_all r \<Longrightarrow> adds_range r' j e (union_loop j e r')"
  shows "adds_range r i e (union_loop i e r)"
proof -
  have c: "chain (fst (m_all r)) (bl @ (p, i) # ab)" and b: "list_all (\<lambda>(a, b). b \<le> snd (m_all r)) (bl @ (p, i) # ab)"
    using ok rs(1) by (auto simp: mask_ok_def)
  have p: "p < i" using c by (auto simp: chain_append)
  show ?thesis
  proof (cases "ab = [] \<or> e < fst (hd ab)")
    case True
    note g = touch_extend [OF c i(2) True]
    have "union_loop i e r = Some (Inr (r\<lparr>m_ranges := bl @ (p, e) # ab\<rparr>))"
      using i True rs g(1) by (subst union_loop.simps) (simp add: Let_def)
    moreover have "elems (bl @ (p, e) # ab) = mask_set r \<union> {i..<e}"
      using i rs(1) p by (auto simp: mask_set_def)
    ultimately show ?thesis
      using adds_range_now [OF ok g(2)] b i(3) by simp
  next
    case False
    then obtain a b' ab' where ab: "ab = (a, b') # ab'" "a \<le> e" by (cases ab) auto
    then have a: "i < a" "a < b'" using c by (auto simp: chain_append)
    note g = touch_merge [OF c [unfolded ab]]
    let ?r = "r\<lparr>m_ranges := bl @ (p, b') # ab'\<rparr>"
    have "union_loop i e r = union_loop b' e ?r"
      using i False rs g(1) ab a by (subst union_loop.simps) (auto simp: Let_def)
    moreover have "adds_range ?r b' e (union_loop b' e ?r)"
      using a b ab mask_ok_ranges [OF ok g(2)] by (intro IH) auto
    moreover have "mask_set ?r \<union> {b'..<e} = mask_set r \<union> {i..<e}"
      using rs(1) ab a p by (auto simp: mask_set_def)
    ultimately show ?thesis
      using adds_range_step [of ?r b' e _ r i] by simp
  qed
qed

lemma union_loop_adds:
  "mask_ok r \<Longrightarrow> fst (m_all r) \<le> i \<Longrightarrow> e \<le> snd (m_all r) \<Longrightarrow> adds_range r i e (union_loop i e r)"
proof (induction "e - i" arbitrary: i r rule: less_induct)
  case less
  let ?bl = "below i (m_ranges r)" and ?ab = "above i (m_ranges r)"
  have rs: "m_ranges r = ?bl @ ?ab" by (rule below_above)
  show ?case
  proof (cases "i < e")
    case False
    then show ?thesis using less.prems by (subst union_loop.simps) (auto simp: adds_range_def)
  next
    case True
    have IH: "adds_range r' j e (union_loop j e r')" if "i < j" "mask_ok r'" "m_all r' = m_all r" for j r'
      using less.hyps [of j r'] that less.prems True by simp
    consider (gap) "?bl = [] \<or> snd (last ?bl) < i" | (touch) "?bl \<noteq> []" "snd (last ?bl) = i"
      | (inside) "?bl \<noteq> []" "i < snd (last ?bl)" by linarith
    then show ?thesis
    proof cases
      case gap
      then show ?thesis using union_loop_gap [OF less.prems(1) rs refl refl less.prems(2) True less.prems(3)] IH by blast
    next
      case touch
      then obtain xs p where "?bl = xs @ [(p, i)]" by (metis append_butlast_last_id prod.collapse)
      then show ?thesis
        using union_loop_touch [OF less.prems(1), of xs p i ?ab e] rs less.prems True IH by simp
    next
      case inside
      let ?j = "snd (last ?bl)"
      have "union_loop i e r = union_loop ?j e r"
        using inside True less.prems by (subst union_loop.simps) (auto simp: Let_def)
      moreover have "adds_range r ?j e (union_loop ?j e r)" using IH inside less.prems by blast
      moreover have "{i..<?j} \<subseteq> mask_set r"
      proof
        fix x assume x: "x \<in> {i..<?j}"
        obtain a b where ab: "last ?bl = (a, b)" by (cases "last ?bl")
        then have m: "(a, b) \<in> set ?bl" using inside last_in_set by metis
        then have "a \<le> i" by (rule below_le)
        moreover have "(a, b) \<in> set (m_ranges r)" using m by (subst rs) simp
        ultimately show "x \<in> mask_set r"
          using x ab unfolding mask_set_def elems_def by (intro UN_I [of "(a, b)"]) auto
      qed
      then have "mask_set r \<union> {?j..<e} = mask_set r \<union> {i..<e}" using inside by fastforce
      ultimately show ?thesis using adds_range_step [of r ?j e _ r i] by simp
    qed
  qed
qed

section \<open>The other operations as set operations\<close>

lemma mask_elem_bounds: "mask_ok r \<Longrightarrow> x \<in> mask_set r \<Longrightarrow> fst (m_all r) \<le> x \<and> x < snd (m_all r)"
  by (fastforce simp: mask_ok_def mask_set_def elems_def list_all_iff dest: chain_ge)

lemma finite_mask_set [simp]: "finite (mask_set r)"
  by (auto simp: mask_set_def elems_def)

lemma contains_iff: "mask_ok r \<Longrightarrow> contains i r \<longleftrightarrow> i \<in> mask_set r"
  using chain_member [of "fst (m_all r)" "m_ranges r" i] by (simp add: mask_ok_def contains_def mask_set_def)

lemma union_all_adds:
  "mask_ok r \<Longrightarrow> list_all (\<lambda>(a, b). fst (m_all r) \<le> a \<and> b \<le> snd (m_all r)) ms \<Longrightarrow>
   \<exists>r'. union_all ms r = Some (Inr r') \<and> mask_ok r' \<and> m_all r' = m_all r \<and> mask_set r' = mask_set r \<union> elems ms"
proof (induction ms arbitrary: r)
  case Nil
  then show ?case by simp
next
  case (Cons m ms)
  obtain a b where m: "m = (a, b)" by (cases m)
  obtain r1 where r1: "unionWith_range m r = Some (Inr r1)" "mask_ok r1" "m_all r1 = m_all r" "mask_set r1 = mask_set r \<union> {a..<b}"
    using union_loop_adds [of r a b] Cons.prems m by (auto simp: adds_range_def unionWith_range_def)
  then obtain r2 where "union_all ms r1 = Some (Inr r2)" "mask_ok r2" "m_all r2 = m_all r1" "mask_set r2 = mask_set r1 \<union> elems ms"
    using Cons.IH [of r1] Cons.prems by auto
  then show ?case using r1 m by auto
qed

definition hull :: "nat \<times> nat \<Rightarrow> nat \<times> nat \<Rightarrow> nat \<times> nat" where
  "hull x y = (min (fst x) (fst y), max (snd x) (snd y))"

lemma unionWith_adds:
  assumes "mask_ok m" "mask_ok r"
  shows "\<exists>r'. unionWith m r = Some (Inr r') \<and> mask_ok r' \<and> m_all r' = hull (m_all m) (m_all r) \<and>
    mask_set r' = mask_set r \<union> mask_set m"
proof -
  let ?r = "r\<lparr>m_all := hull (m_all m) (m_all r)\<rparr>"
  have "mask_ok ?r"
    using assms by (auto simp: mask_ok_def hull_def list_all_iff intro: chain_mono)
  moreover have "list_all (\<lambda>(a, b). fst (m_all ?r) \<le> a \<and> b \<le> snd (m_all ?r)) (m_ranges m)"
    using assms(1) by (fastforce simp: mask_ok_def hull_def list_all_iff dest: chain_ge)
  ultimately show ?thesis
    using union_all_adds [of ?r "m_ranges m"] by (simp add: unionWith_def hull_def mask_set_def)
qed

fun compl :: "nat \<Rightarrow> ranges \<Rightarrow> nat \<Rightarrow> ranges" where
  "compl lst [] hi = (if lst \<noteq> hi then [(lst, hi)] else [])"
| "compl lst ((a, b) # rs) hi = (if a \<noteq> lst then (lst, a) # compl b rs hi else compl b rs hi)"

lemma rm_put_end: "list_all (\<lambda>(a, b). a < k) xs \<Longrightarrow> rm_put k v xs = xs @ [(k, v)]"
  using rm_put_new [of k xs "[]"] by simp

lemma invert_loop_compl:
  "chain lst rs \<Longrightarrow> list_all (\<lambda>(a, b). a < lst) ret \<Longrightarrow>
   (case invert_loop lst rs ret of (l, out) \<Rightarrow> if l \<noteq> hi then rm_put l hi out else out) = ret @ compl lst rs hi"
proof (induction lst rs ret rule: invert_loop.induct)
  case (1 lst ret)
  then show ?case by (simp add: rm_put_end)
next
  case (2 lst a b rs ret)
  have "list_all (\<lambda>(x, y). x < b) ret" "chain b rs"
    using 2 chain_mono [of "Suc b" rs b] by (auto simp: list_all_iff)
  then show ?case using 2 by (auto simp: rm_put_end)
qed

lemma compl_chain:
  "chain lst rs \<Longrightarrow> lst \<le> hi \<Longrightarrow> list_all (\<lambda>(a, b). b \<le> hi) rs \<Longrightarrow>
   chain lst (compl lst rs hi) \<and> list_all (\<lambda>(a, b). b \<le> hi) (compl lst rs hi) \<and> elems (compl lst rs hi) = {lst..<hi} - elems rs"
proof (induction lst rs hi rule: compl.induct)
  case (1 lst hi)
  then show ?case by auto
next
  case (2 lst a b rs hi)
  have c: "lst \<le> a" "a < b" "chain (Suc b) rs" "b \<le> hi" "list_all (\<lambda>(a, b). b \<le> hi) rs" using 2 by auto
  have IH: "chain b (compl b rs hi) \<and> list_all (\<lambda>(a, b). b \<le> hi) (compl b rs hi) \<and> elems (compl b rs hi) = {b..<hi} - elems rs"
    using 2 c chain_mono [OF c(3), of b] by (cases "a \<noteq> lst") simp_all
  have "x > b" if "x \<in> elems rs" for x using chain_elems_ge [OF c(3) that] by simp
  then have "{lst..<hi} - ({a..<b} \<union> elems rs) = {lst..<a} \<union> ({b..<hi} - elems rs)" using c by force
  then show ?case
    using IH c chain_mono [of b "compl b rs hi" "Suc a"] chain_mono [of b "compl b rs hi" lst] by auto
qed

lemma inverted_complement:
  assumes "mask_ok r"
  shows "mask_ok (inverted r) \<and> m_all (inverted r) = m_all r \<and> mask_set (inverted r) = ground r - mask_set r"
proof -
  have "chain (fst (m_all r)) (m_ranges r)" using assms by (simp add: mask_ok_def)
  from invert_loop_compl [OF this, of "[]" "snd (m_all r)"]
  have "inverted r = \<lparr>m_all = m_all r, m_ranges = compl (fst (m_all r)) (m_ranges r) (snd (m_all r))\<rparr>"
    by (cases "invert_loop (fst (m_all r)) (m_ranges r) []") (simp add: inverted_def)
  then show ?thesis
    using compl_chain [of "fst (m_all r)" "m_ranges r" "snd (m_all r)"] assms by (simp add: mask_ok_def mask_set_def ground_def)
qed

lemma minus_mask_elements:
  assumes "mask_ok m" "mask_ok r"
  shows "\<exists>r'. minus_mask m r = Some (Inr r') \<and> mask_ok r' \<and> m_all r' = hull (m_all m) (m_all r) \<and>
    mask_set r' = (ground r' - (ground r - mask_set r)) - mask_set m"
proof -
  obtain u where u: "unionWith m (inverted r) = Some (Inr u)" "mask_ok u" "m_all u = hull (m_all m) (m_all r)"
    "mask_set u = (ground r - mask_set r) \<union> mask_set m"
    using unionWith_adds [OF assms(1), of "inverted r"] inverted_complement [OF assms(2)] by auto
  show ?thesis
    using u inverted_complement [OF u(2)] by (auto simp: minus_mask_def ground_def)
qed

lemma chain_disjoint: "chain lo ((a, b) # rs) \<Longrightarrow> {a..<b} \<inter> elems rs = {}"
  by (auto dest: chain_elems_ge)

lemma size_foldl: "chain lo rs \<Longrightarrow> foldl (\<lambda>c (a, b). c + sub32 b a) n rs = n + card (elems rs)"
proof (induction rs arbitrary: lo n)
  case Nil
  then show ?case by simp
next
  case (Cons e rs)
  obtain a b where e: "e = (a, b)" by (cases e)
  have "finite (elems rs)" by (auto simp: elems_def)
  then have "card (elems (e # rs)) = (b - a) + card (elems rs)"
    using chain_disjoint [of lo a b rs] Cons.prems e by (simp add: card_Un_disjoint)
  then show ?case using Cons.IH [of "Suc b" "n + (b - a)"] Cons.prems e by (simp add: sub32_def)
qed

lemma rm_size_card: "mask_ok r \<Longrightarrow> rm_size r = card (mask_set r)"
  using size_foldl [of "fst (m_all r)" "m_ranges r" 0] by (simp add: rm_size_def mask_ok_def mask_set_def)

text \<open>The smallest element from \<open>t\<close> on, or the end of the ground range.\<close>

definition least_from :: "range_mask \<Rightarrow> nat \<Rightarrow> nat" where
  "least_from r t = (if {x \<in> mask_set r. t \<le> x} = {} then snd (m_all r) else Min {x \<in> mask_set r. t \<le> x})"

lemma least_fromI:
  assumes "x \<in> mask_set r" "t \<le> x" "\<And>y. y \<in> mask_set r \<Longrightarrow> t \<le> y \<Longrightarrow> x \<le> y"
  shows "least_from r t = x"
  using assms by (auto simp: least_from_def intro!: Min_eqI)

lemma next_elem_least:
  assumes ok: "mask_ok r" and t: "t < snd (m_all r)"
  shows "next_elem t r = least_from r (Suc t)"
proof -
  let ?t = "Suc t" and ?rs = "m_ranges r"
  have w: "wrap32 (t + 1) = ?t" using t ok by (simp add: wrap32_def mask_ok_def)
  have c: "chain (fst (m_all r)) ?rs" using ok by (simp add: mask_ok_def)
  show ?thesis
  proof (cases "?t \<in> mask_set r")
    case True
    then have m: "below ?t ?rs \<noteq> []" "?t < snd (last (below ?t ?rs))"
      using chain_member [OF c, of ?t] by (auto simp: mask_set_def)
    have "fst (last (below ?t ?rs)) \<le> ?t" using below_le [of _ _ ?t ?rs] last_in_set [OF m(1)] by (metis prod.collapse)
    then have "next_elem t r = ?t" using m w by (simp add: next_elem_def Let_def)
    moreover have "least_from r ?t = ?t" using True by (intro least_fromI) auto
    ultimately show ?thesis by simp
  next
    case False
    then have "next_elem t r = (if above ?t ?rs = [] then snd (m_all r) else fst (hd (above ?t ?rs)))"
      using chain_member [OF c, of ?t] w by (auto simp: next_elem_def Let_def mask_set_def)
    moreover have in_above: "x \<in> elems (above ?t ?rs)" if x: "x \<in> mask_set r" "?t \<le> x" for x
    proof -
      obtain a b where ab: "(a, b) \<in> set ?rs" "a \<le> x" "x < b" using x(1) by (auto simp: mask_set_def elems_def)
      have "(a, b) \<notin> set (below ?t ?rs)"
      proof
        assume "(a, b) \<in> set (below ?t ?rs)"
        then have "?t \<in> {a..<b}" using below_le [of a b ?t ?rs] ab x(2) by simp
        then show False using False ab(1) by (auto simp: mask_set_def elems_def)
      qed
      then have "(a, b) \<in> set (above ?t ?rs)" using ab(1) below_above [of ?rs ?t] by (metis Un_iff set_append)
      then show ?thesis using ab by (intro elems_memI)
    qed
    moreover have "least_from r ?t = fst (hd (above ?t ?rs))" if ne: "above ?t ?rs \<noteq> []"
    proof -
      obtain a b ab where ab: "above ?t ?rs = (a, b) # ab" using ne by (metis list.exhaust prod.exhaust)
      have "chain (chain_end (fst (m_all r)) (below ?t ?rs)) (above ?t ?rs)"
        using c below_above [of ?rs ?t] by (metis chain_append)
      then have ca: "chain a (above ?t ?rs)" "a < b" using ab by auto
      have "a \<in> elems (below ?t ?rs @ above ?t ?rs)" using ca ab by simp
      then have "a \<in> mask_set r" using below_above [of ?rs ?t] by (simp add: mask_set_def)
      moreover have "?t \<le> a" using above_gt [OF c, of a b ?t] ab by simp
      moreover have "a \<le> y" if "y \<in> mask_set r" "?t \<le> y" for y
        using chain_elems_ge [OF ca(1) in_above [OF that]] .
      ultimately show ?thesis using ab by (simp add: least_fromI)
    qed
    moreover have "least_from r ?t = snd (m_all r)" if "above ?t ?rs = []"
      unfolding least_from_def by (rule if_P) (use in_above that in fastforce)
    ultimately show ?thesis by simp
  qed
qed

lemma least_from_next:
  assumes "mask_ok r" "least_from r t \<noteq> snd (m_all r)"
  shows "least_from r t \<in> mask_set r" "t \<le> least_from r t" "\<And>y. y \<in> mask_set r \<Longrightarrow> t \<le> y \<Longrightarrow> least_from r t \<le> y"
proof -
  let ?S = "{x \<in> mask_set r. t \<le> x}"
  have ne: "?S \<noteq> {}" and l: "least_from r t = Min ?S" using assms(2) by (auto simp: least_from_def split: if_splits)
  have "Min ?S \<in> ?S" using ne by (intro Min_in) auto
  then show "least_from r t \<in> mask_set r" "t \<le> least_from r t" using l by auto
  show "least_from r t \<le> y" if "y \<in> mask_set r" "t \<le> y" for y using that l by simp
qed

lemma visit_from:
  assumes ok: "mask_ok r"
  shows "visit (least_from r t) r acc = Some (acc @ sorted_list_of_set {x \<in> mask_set r. t \<le> x})"
proof (induction "snd (m_all r) - least_from r t" arbitrary: t acc rule: less_induct)
  case less
  let ?v = "least_from r t" and ?S = "{x \<in> mask_set r. t \<le> x}"
  show ?case
  proof (cases "?v = snd (m_all r)")
    case True
    have "?S = {}"
    proof (rule ccontr)
      assume ne: "?S \<noteq> {}"
      then have "Min ?S \<in> ?S" by (intro Min_in) auto
      then have "Min ?S < snd (m_all r)" using mask_elem_bounds [OF ok, of "Min ?S"] by simp
      moreover have "?v = Min ?S" using ne unfolding least_from_def by (rule if_not_P)
      ultimately show False using True by simp
    qed
    then show ?thesis using True by (subst visit.simps) simp
  next
    case False
    note l = least_from_next [OF ok False]
    have v: "?v < snd (m_all r)" using mask_elem_bounds [OF ok l(1)] by simp
    have S: "?S = insert ?v {x \<in> mask_set r. Suc ?v \<le> x}" using l by (fastforce simp: Suc_le_eq)
    have "snd (m_all r) - least_from r (Suc ?v) < snd (m_all r) - ?v"
    proof (cases "least_from r (Suc ?v) = snd (m_all r)")
      case False
      then show ?thesis using least_from_next(2) [OF ok False] v by simp
    qed (use v in simp)
    from less.hyps [OF this]
    have "visit (least_from r (Suc ?v)) r (acc @ [?v]) = Some ((acc @ [?v]) @ sorted_list_of_set {x \<in> mask_set r. Suc ?v \<le> x})" .
    moreover have "sorted_list_of_set ?S = ?v # sorted_list_of_set {x \<in> mask_set r. Suc ?v \<le> x}"
    proof -
      have "Min ?S = ?v" unfolding S by (intro Min_eqI) auto
      moreover have "?S - {?v} = {x \<in> mask_set r. Suc ?v \<le> x}" using S by auto
      ultimately show ?thesis using sorted_list_of_set_nonempty [of ?S] S by auto
    qed
    ultimately show ?thesis
      using False next_elem_least [OF ok v] by (subst visit.simps) simp
  qed
qed

lemma rm_begin_least:
  assumes ok: "mask_ok r"
  shows "rm_begin r = least_from r 0"
proof (cases "m_ranges r")
  case Nil
  then show ?thesis by (simp add: rm_begin_def least_from_def mask_set_def)
next
  case (Cons e rs)
  obtain a b where e: "e = (a, b)" by (cases e)
  have c: "chain (fst (m_all r)) ((a, b) # rs)" using ok Cons e by (simp add: mask_ok_def)
  then have "chain a ((a, b) # rs)" by simp
  then have "a \<le> y" if "y \<in> mask_set r" for y
    using chain_elems_ge [of a "(a, b) # rs" y] that Cons e by (simp add: mask_set_def)
  moreover have "a \<in> mask_set r" using Cons e c by (simp add: mask_set_def)
  ultimately have "least_from r 0 = a" by (intro least_fromI) auto
  then show ?thesis using Cons e by (simp add: rm_begin_def)
qed

lemma elems_full_chain:
  assumes "chain lo rs" "list_all (\<lambda>(a, b). b \<le> hi) rs" "elems rs = {lo..<hi}" "lo < hi"
  shows "rs = [(lo, hi)]"
proof -
  have lo: "lo \<in> elems rs" using assms by simp
  obtain a b rs' where rs: "rs = (a, b) # rs'" using lo by (cases rs) auto
  have c: "lo \<le> a" "a < b" "chain (Suc b) rs'" "b \<le> hi" using assms(1,2) rs by auto
  have "lo \<notin> elems rs'" using chain_elems_ge [OF c(3), of lo] c by auto
  then have a: "a = lo" using lo rs c by auto
  have "b \<notin> elems rs" using chain_elems_ge [OF c(3), of b] rs by auto
  then have b: "b = hi" using assms(3) c by auto
  have "rs' = []"
  proof (cases rs')
    case (Cons e rs'')
    obtain x y where "e = (x, y)" by (cases e)
    then have "x \<in> elems rs" "hi < x" using Cons rs c(3) b by auto
    then show ?thesis using assms(3) by simp
  qed
  then show ?thesis using rs a b by simp
qed

lemma full_iff: "mask_ok r \<Longrightarrow> full r \<longleftrightarrow> mask_set r = ground r"
proof -
  assume ok: "mask_ok r"
  have bnd: "mask_set r \<subseteq> ground r" using mask_elem_bounds [OF ok] by (auto simp: ground_def)
  show ?thesis
  proof (cases "fst (m_all r) < snd (m_all r)")
    case True
    have "m_ranges r = [m_all r]" if "mask_set r = ground r"
      using elems_full_chain [of "fst (m_all r)" "m_ranges r" "snd (m_all r)"] ok that True
      by (simp add: mask_ok_def mask_set_def ground_def)
    then show ?thesis
      using True by (cases "m_all r"; cases "m_ranges r") (auto simp: full_def mask_set_def ground_def)
  next
    case False
    then show ?thesis using ok bnd by (auto simp: full_def mask_ok_def ground_def)
  qed
qed

fun low :: "nat \<Rightarrow> ranges \<Rightarrow> ranges" where
  "low n [] = []"
| "low n ((a, b) # rs) = (if n = 0 then [] else (let e = min (a + n) b in (a, e) # low (n - (e - a)) rs))"

lemma lowest_loop_low:
  "chain lo rs \<Longrightarrow> list_all (\<lambda>(a, b). b \<le> hi) rs \<Longrightarrow> hi + n < 2 ^ 32 \<Longrightarrow> list_all (\<lambda>(a, b). a < lo) ret \<Longrightarrow>
   lowest_loop n rs ret = ret @ low n rs"
proof (induction n rs ret arbitrary: lo rule: lowest_loop.induct)
  case (1 n ret)
  then show ?case by simp
next
  case (2 n a b rs ret)
  show ?case
  proof (cases "n = 0")
    case False
    let ?e = "min (a + n) b"
    have w: "wrap32 (a + n) = a + n" using "2.prems" by (simp add: wrap32_def)
    have "list_all (\<lambda>(x, y). x < a) ret" using "2.prems"(1,4) by (auto simp: list_all_iff)
    then have p: "rm_put a ?e ret = ret @ [(a, ?e)]" by (rule rm_put_end)
    have s: "sub32 n (sub32 ?e a) = n - (?e - a)" using "2.prems"(1) by (auto simp: sub32_def)
    have "list_all (\<lambda>(x, y). x < Suc b) (ret @ [(a, ?e)])" "hi + (n - (?e - a)) < 2 ^ 32"
      using "2.prems" \<open>list_all (\<lambda>(x, y). x < a) ret\<close> by (auto simp: list_all_iff)
    then have "lowest_loop (n - (?e - a)) rs (ret @ [(a, ?e)]) = (ret @ [(a, ?e)]) @ low (n - (?e - a)) rs"
      using "2.prems" "2.IH" [OF False refl, of "Suc b"] w p s by simp
    then show ?thesis using False w p s by (simp add: Let_def)
  qed simp
qed

lemma low_0 [simp]: "low 0 rs = []"
  by (cases rs) auto

definition smallest :: "nat \<Rightarrow> nat set \<Rightarrow> nat set \<Rightarrow> bool" where
  "smallest n S L \<longleftrightarrow> L \<subseteq> S \<and> card L = min n (card S) \<and> (\<forall>x \<in> L. \<forall>y \<in> S - L. x < y)"

lemma finite_elems [simp]: "finite (elems rs)"
  by (auto simp: elems_def)

lemma card_elems_Cons: "chain lo ((a, b) # rs) \<Longrightarrow> card (elems ((a, b) # rs)) = (b - a) + card (elems rs)"
  using chain_disjoint [of lo a b rs] by (simp add: card_Un_disjoint)

lemma low_smallest: "chain lo rs \<Longrightarrow> chain lo (low n rs) \<and> smallest n (elems rs) (elems (low n rs))"
proof (induction rs arbitrary: lo n)
  case Nil
  then show ?case by (simp add: smallest_def)
next
  case (Cons e rs)
  obtain a b where e: "e = (a, b)" by (cases e)
  have c: "lo \<le> a" "a < b" "chain (Suc b) rs" using Cons.prems e by auto
  have gt: "b < y" if "y \<in> elems rs" for y using chain_elems_ge [OF c(3) that] by simp
  note card = card_elems_Cons [OF Cons.prems [unfolded e]]
  consider "n = 0" | "n \<noteq> 0" "a + n \<le> b" | "n \<noteq> 0" "b < a + n" by linarith
  then show ?case
  proof cases
    case 1
    then show ?thesis by (simp add: smallest_def)
  next
    case 2
    then have l: "low n (e # rs) = [(a, a + n)]" using e by (simp add: Let_def min_def)
    show ?thesis using 2 c card e gt unfolding l smallest_def by fastforce
  next
    case 3
    then have l: "low n (e # rs) = (a, b) # low (n - (b - a)) rs" using e by (simp add: Let_def min_def)
    have IH: "chain (Suc b) (low (n - (b - a)) rs)" "smallest (n - (b - a)) (elems rs) (elems (low (n - (b - a)) rs))"
      using Cons.IH [OF c(3)] by auto
    have "card (elems ((a, b) # low (n - (b - a)) rs)) = (b - a) + card (elems (low (n - (b - a)) rs))"
      using IH(1) c by (intro card_elems_Cons [of lo]) auto
    then have "card (elems ((a, b) # low (n - (b - a)) rs)) = min n (card (elems (e # rs)))"
      using card e IH(2) 3 c(2) by (auto simp: smallest_def min_def simp del: elems_simps)
    then show ?thesis
      using IH c e gt unfolding l smallest_def by fastforce
  qed
qed

lemma lowest_smallest:
  assumes "mask_ok r" "snd (m_all r) + n < 2 ^ 32"
  shows "smallest n (mask_set r) (mask_set (lowest n r))"
proof -
  have "lowest_loop n (m_ranges r) [] = low n (m_ranges r)"
    using lowest_loop_low [of "fst (m_all r)" "m_ranges r" "snd (m_all r)" n "[]"] assms by (simp add: mask_ok_def)
  then show ?thesis
    using low_smallest [of "fst (m_all r)" "m_ranges r" n] assms(1) by (simp add: mask_ok_def mask_set_def lowest_def)
qed

section \<open>Masks as a set type\<close>

text \<open>
  What a client that collects numbers in a set relies on: adding an element of the ground set ends and
  adds exactly that element. \<open>abs\<close> reads the representation as a set.
\<close>

locale set_impl =
  fixes ok :: "'s \<Rightarrow> bool" and abs :: "'s \<Rightarrow> nat set" and univ :: "'s \<Rightarrow> nat set"
    and add :: "nat \<Rightarrow> 's \<Rightarrow> ('e + 's) option" and member :: "nat \<Rightarrow> 's \<Rightarrow> bool"
  assumes member_abs: "ok s \<Longrightarrow> member x s \<longleftrightarrow> x \<in> abs s"
    and add_abs: "ok s \<Longrightarrow> x \<in> univ s \<Longrightarrow>
      \<exists>s'. add x s = Some (Inr s') \<and> ok s' \<and> univ s' = univ s \<and> abs s' = insert x (abs s)"
begin

text \<open>Adding elements one after the other, as a loop of the client does.\<close>

fun add_all :: "nat list \<Rightarrow> 's \<Rightarrow> ('e + 's) option" where
  "add_all [] s = Some (Inr s)"
| "add_all (x # xs) s = (case add x s of None \<Rightarrow> None | Some (Inl e) \<Rightarrow> Some (Inl e) | Some (Inr s') \<Rightarrow> add_all xs s')"

lemma add_all_abs:
  "ok s \<Longrightarrow> set xs \<subseteq> univ s \<Longrightarrow>
   \<exists>s'. add_all xs s = Some (Inr s') \<and> ok s' \<and> univ s' = univ s \<and> abs s' = abs s \<union> set xs"
proof (induction xs arbitrary: s)
  case Nil
  then show ?case by simp
next
  case (Cons x xs)
  obtain s1 where s1: "add x s = Some (Inr s1)" "ok s1" "univ s1 = univ s" "abs s1 = insert x (abs s)"
    using add_abs [of s x] Cons.prems by auto
  then show ?case using Cons.IH [of s1] Cons.prems by auto
qed

lemma member_add_all:
  "ok s \<Longrightarrow> set xs \<subseteq> univ s \<Longrightarrow> \<exists>s'. add_all xs s = Some (Inr s') \<and> (\<forall>y. member y s' \<longleftrightarrow> member y s \<or> y \<in> set xs)"
  using add_all_abs [of s xs] member_abs by auto

end

lemma unionWith_elem_adds:
  assumes "mask_ok r" "i \<in> ground r"
  shows "\<exists>r'. unionWith_elem i r = Some (Inr r') \<and> mask_ok r' \<and> m_all r' = m_all r \<and> mask_set r' = insert i (mask_set r)"
proof -
  have i: "fst (m_all r) \<le> i" "i < snd (m_all r)" "wrap32 (i + 1) = Suc i"
    using assms by (auto simp: ground_def mask_ok_def wrap32_def)
  have "{i..<Suc i} = {i}" by auto
  then show ?thesis
    using union_loop_adds [OF assms(1) i(1), of "Suc i"] i by (auto simp: adds_range_def unionWith_elem_def unionWith_range_def)
qed

interpretation mask: set_impl mask_ok mask_set ground unionWith_elem contains
proof unfold_locales
  show "mask_ok r \<Longrightarrow> contains x r \<longleftrightarrow> x \<in> mask_set r" for x r by (rule contains_iff)
  show "\<exists>r'. unionWith_elem x r = Some (Inr r') \<and> mask_ok r' \<and> ground r' = ground r \<and> mask_set r' = insert x (mask_set r)"
    if "mask_ok r" "x \<in> ground r" for x r
    using unionWith_elem_adds [OF that] by (auto simp: ground_def)
qed

section \<open>The properties of masks\<close>

text \<open>(C38) Adding a range or a whole mask is set union. The loop of \<open>unionWith(Range)\<close> ends for every range inside the ground range, no
  assertion fails, neighbouring and overlapping ranges are merged so that the representation stays ordered with gaps, and the
  elements are the old ones and those of the range; \<open>unionWith(RangeMask)\<close> does the same over the hull of the two ground ranges.\<close>

theorem mask_union:
  assumes "mask_ok r" "mask_ok m" "fst (m_all r) \<le> i" "e \<le> snd (m_all r)"
  shows "(\<exists>r'. unionWith_range (i, e) r = Some (Inr r') \<and> mask_ok r' \<and> m_all r' = m_all r \<and>
      mask_set r' = mask_set r \<union> {i..<e}) \<and>
    (\<exists>r'. unionWith m r = Some (Inr r') \<and> mask_ok r' \<and> m_all r' = hull (m_all m) (m_all r) \<and>
      mask_set r' = mask_set r \<union> mask_set m)"
  using union_loop_adds [OF assms(1,3,4)] unionWith_adds [OF assms(2,1)] by (simp add: adds_range_def unionWith_range_def)

theorem mask_union_witness:
  "\<exists>r'. unionWith_range (3, 8) \<lparr>m_all = (0, 20), m_ranges = [(1, 3), (5, 6), (10, 12)]\<rparr> = Some (Inr r') \<and> mask_ok r' \<and>
    mask_set r' = {1..<3} \<union> {5..<6} \<union> {10..<12} \<union> {3..<8}"
proof -
  have "mask_ok \<lparr>m_all = (0, 20), m_ranges = [(1, 3), (5, 6), (10, 12)]\<rparr>" by (simp add: mask_ok_def)
  from mask_union [OF this this, of 3 8] show ?thesis by (auto simp: mask_set_def Un_assoc)
qed

text \<open>(C39) Complement and difference. \<open>inverted\<close> is the complement in the ground range. \<open>operator-=\<close> subtracts the
  elements of a mask whose ground range lies inside; when the ground range of the subtrahend sticks out, every number of the enlarged
  ground range that was outside the old one and is not subtracted is added to the result.\<close>

theorem mask_complement_difference:
  assumes "mask_ok r" "mask_ok m"
  shows "mask_ok (inverted r) \<and> mask_set (inverted r) = ground r - mask_set r \<and>
    (\<exists>r'. minus_mask m r = Some (Inr r') \<and> mask_ok r' \<and> m_all r' = hull (m_all m) (m_all r) \<and>
      mask_set r' = (mask_set r \<union> (ground r' - ground r)) - mask_set m)"
proof -
  obtain r' where r': "minus_mask m r = Some (Inr r')" "mask_ok r'" "m_all r' = hull (m_all m) (m_all r)"
    "mask_set r' = (ground r' - (ground r - mask_set r)) - mask_set m"
    using minus_mask_elements [OF assms(2,1)] by blast
  have "mask_set r \<subseteq> ground r'"
    using mask_elem_bounds [OF assms(1)] r'(3) by (fastforce simp: ground_def hull_def)
  then have "mask_set r' = (mask_set r \<union> (ground r' - ground r)) - mask_set m" using r'(4) by blast
  then show ?thesis using r' inverted_complement [OF assms(1)] by blast
qed

theorem mask_complement_difference_witness:
  "\<exists>r'. minus_mask \<lparr>m_all = (0, 9), m_ranges = []\<rparr> \<lparr>m_all = (0, 5), m_ranges = [(1, 3)]\<rparr> = Some (Inr r') \<and>
    mask_set r' = ({1..<3} \<union> ({0..<9} - {0..<5})) - {}"
proof -
  have "mask_ok \<lparr>m_all = (0, 5), m_ranges = [(1, 3)]\<rparr>" "mask_ok \<lparr>m_all = (0, 9), m_ranges = []\<rparr>"
    by (simp_all add: mask_ok_def)
  from mask_complement_difference [OF this] show ?thesis by (auto simp: mask_set_def ground_def hull_def)
qed

text \<open>(C40) The queries of a mask are those of its set: membership, the number of elements, fullness, the
  next larger element or the end of the ground range, the smallest elements for a count that does not overflow, and iteration from \<open>begin()\<close>
  to \<open>end()\<close>, which ends and visits the elements in ascending order.\<close>

theorem mask_queries:
  assumes "mask_ok r"
  shows "(contains i r \<longleftrightarrow> i \<in> mask_set r) \<and> rm_size r = card (mask_set r) \<and> (full r \<longleftrightarrow> mask_set r = ground r) \<and>
    (i < snd (m_all r) \<longrightarrow> next_elem i r =
       (if {x \<in> mask_set r. i < x} = {} then snd (m_all r) else Min {x \<in> mask_set r. i < x})) \<and>
    (snd (m_all r) + n < 2 ^ 32 \<longrightarrow> smallest n (mask_set r) (mask_set (lowest n r))) \<and>
    visit (rm_begin r) r [] = Some (sorted_list_of_set (mask_set r))"
proof -
  have "next_elem i r = (if {x \<in> mask_set r. i < x} = {} then snd (m_all r) else Min {x \<in> mask_set r. i < x})"
    if "i < snd (m_all r)"
    unfolding next_elem_least [OF assms that] least_from_def Suc_le_eq ..
  moreover have "visit (rm_begin r) r [] = Some (sorted_list_of_set (mask_set r))"
    using visit_from [OF assms, of 0 "[]"] rm_begin_least [OF assms] by simp
  ultimately show ?thesis
    using mask.member_abs [OF assms, of i] rm_size_card [OF assms] full_iff [OF assms] lowest_smallest [OF assms, of n]
    by blast
qed

theorem mask_queries_witness:
  "visit (rm_begin \<lparr>m_all = (0, 9), m_ranges = [(1, 3), (5, 6)]\<rparr>) \<lparr>m_all = (0, 9), m_ranges = [(1, 3), (5, 6)]\<rparr> [] =
     Some (sorted_list_of_set ({1..<3} \<union> {5..<6}))"
proof -
  have "mask_ok \<lparr>m_all = (0, 9), m_ranges = [(1, 3), (5, 6)]\<rparr>" by (simp add: mask_ok_def)
  from mask_queries [OF this] show ?thesis by (simp add: mask_set_def)
qed

end
