(* ===== verification/Account.thy ===== *)
theory Account
  imports RlpCodec "HOL-Library.AList"
begin

text \<open>
  Accounts: class \<open>Account\<close> of \<open>libwing/Account.h\<close> and \<open>libwing/Account.cpp\<close>. An account is cached by the state with the
  storage values read or written so far (\<open>m_storageOverlay\<close>, an association list in the iteration order of the hash map) on top of the storage trie
  whose root it names, and with its code once that has been loaded. The hash function is the argument \<open>sha3\<close>; hashes are 256-bit words.
\<close>

definition EmptySHA3 :: "(bytes \<Rightarrow> h256) \<Rightarrow> h256" where
  "EmptySHA3 sha3 = sha3 []"

definition EmptyTrie :: "(bytes \<Rightarrow> h256) \<Rightarrow> h256" where
  "EmptyTrie sha3 = sha3 [0x80]"

record account =
  m_isAlive :: bool
  m_isUnchanged :: bool
  m_hasNewCode :: bool
  m_nonce :: u256
  m_balance :: u256
  m_storageRoot :: h256
  m_codeHash :: h256
  m_storageOverlay :: "(u256 \<times> u256) list"
  m_codeCache :: bytes

datatype changedness = Changed | Unchanged

section \<open>Construction\<close>

definition Account_dead :: "(bytes \<Rightarrow> h256) \<Rightarrow> account" where
  "Account_dead sha3 = \<lparr>m_isAlive = False, m_isUnchanged = False, m_hasNewCode = False, m_nonce = 0, m_balance = 0,
     m_storageRoot = EmptyTrie sha3, m_codeHash = EmptySHA3 sha3, m_storageOverlay = [], m_codeCache = []\<rparr>"

definition Account_endowed :: "(bytes \<Rightarrow> h256) \<Rightarrow> u256 \<Rightarrow> u256 \<Rightarrow> changedness \<Rightarrow> account" where
  "Account_endowed sha3 nonce bal c = (Account_dead sha3)\<lparr>m_isAlive := True, m_isUnchanged := (c = Unchanged),
     m_nonce := nonce, m_balance := bal\<rparr>"

text \<open>The constructor from stored values asserts a root different from zero; \<open>None\<close> is the failed assertion.\<close>

definition Account_stored :: "(bytes \<Rightarrow> h256) \<Rightarrow> u256 \<Rightarrow> u256 \<Rightarrow> h256 \<Rightarrow> h256 \<Rightarrow> changedness \<Rightarrow> account option" where
  "Account_stored sha3 nonce bal contractRoot hash c =
     (if contractRoot = 0 then None
      else Some ((Account_endowed sha3 nonce bal c)\<lparr>m_storageRoot := contractRoot, m_codeHash := hash\<rparr>))"

section \<open>Operations\<close>

definition changed :: "account \<Rightarrow> account" where
  "changed a = a\<lparr>m_isUnchanged := False\<rparr>"

definition acc_kill :: "(bytes \<Rightarrow> h256) \<Rightarrow> account \<Rightarrow> account" where
  "acc_kill sha3 a = changed (a\<lparr>m_isAlive := False, m_storageOverlay := [], m_codeHash := EmptySHA3 sha3,
     m_storageRoot := EmptyTrie sha3, m_balance := 0, m_nonce := 0\<rparr>)"

definition isDirty :: "account \<Rightarrow> bool" where
  "isDirty a = (\<not> m_isUnchanged a)"

definition untouch :: "account \<Rightarrow> account" where
  "untouch a = a\<lparr>m_isUnchanged := True\<rparr>"

definition acc_isEmpty :: "(bytes \<Rightarrow> h256) \<Rightarrow> account \<Rightarrow> bool" where
  "acc_isEmpty sha3 a = (m_nonce a = 0 \<and> m_balance a = 0 \<and> m_codeHash a = EmptySHA3 sha3)"

definition acc_addBalance :: "u256 \<Rightarrow> account \<Rightarrow> account" where
  "acc_addBalance v a = changed (a\<lparr>m_balance := m_balance a + v\<rparr>)"

definition acc_incNonce :: "account \<Rightarrow> account" where
  "acc_incNonce a = changed (a\<lparr>m_nonce := m_nonce a + 1\<rparr>)"

definition acc_setNonce :: "u256 \<Rightarrow> account \<Rightarrow> account" where
  "acc_setNonce n a = changed (a\<lparr>m_nonce := n\<rparr>)"

definition acc_setStorage :: "u256 \<Rightarrow> u256 \<Rightarrow> account \<Rightarrow> account" where
  "acc_setStorage p v a = changed (a\<lparr>m_storageOverlay := AList.update p v (m_storageOverlay a)\<rparr>)"

definition acc_clearStorage :: "(bytes \<Rightarrow> h256) \<Rightarrow> account \<Rightarrow> account" where
  "acc_clearStorage sha3 a = changed (a\<lparr>m_storageOverlay := [], m_storageRoot := EmptyTrie sha3\<rparr>)"

definition setStorageRoot :: "h256 \<Rightarrow> account \<Rightarrow> account" where
  "setStorageRoot root a = changed (a\<lparr>m_storageOverlay := [], m_storageRoot := root\<rparr>)"

definition setStorageCache :: "u256 \<Rightarrow> u256 \<Rightarrow> account \<Rightarrow> account" where
  "setStorageCache p v a = a\<lparr>m_storageOverlay := AList.update p v (m_storageOverlay a)\<rparr>"

text \<open>\<open>setCode\<close> does not call \<open>changed()\<close>.\<close>

definition acc_setCode :: "(bytes \<Rightarrow> h256) \<Rightarrow> bytes \<Rightarrow> account \<Rightarrow> account" where
  "acc_setCode sha3 cd a = a\<lparr>m_codeCache := cd, m_hasNewCode := True, m_codeHash := sha3 cd\<rparr>"

definition resetCode :: "(bytes \<Rightarrow> h256) \<Rightarrow> account \<Rightarrow> account" where
  "resetCode sha3 a = a\<lparr>m_codeCache := [], m_hasNewCode := False, m_codeHash := EmptySHA3 sha3\<rparr>"

text \<open>\<open>noteCode\<close> asserts that the code has the account's code hash.\<close>

definition noteCode :: "(bytes \<Rightarrow> h256) \<Rightarrow> bytes \<Rightarrow> account \<Rightarrow> account option" where
  "noteCode sha3 cd a = (if sha3 cd = m_codeHash a then Some (a\<lparr>m_codeCache := cd\<rparr>) else None)"

lemmas account_ops = changed_def isDirty_def untouch_def acc_isEmpty_def acc_addBalance_def acc_incNonce_def
  acc_setNonce_def acc_setStorage_def acc_clearStorage_def setStorageRoot_def setStorageCache_def acc_setCode_def

section \<open>The stored form\<close>

text \<open>
  An account in the state trie is the RLP list of nonce, balance, storage root and code hash. \<open>read_account\<close> is the
  second half of \<open>State::account\<close>; \<open>Inl None\<close> is the failed assertion of the constructor.
\<close>

definition hash_bytes :: "h256 \<Rightarrow> bytes" where
  "hash_bytes h = toBigEndian (unat h) 32"

definition address_bytes :: "address \<Rightarrow> bytes" where
  "address_bytes a = toBigEndian (unat a) 20"

definition nth_field :: "(bytes \<Rightarrow> rlp_error + 'a) \<Rightarrow> nat \<Rightarrow> rlp \<Rightarrow> (rlp_error + 'a) \<times> rlp" where
  "nth_field conv i r = (case rlp_nth i r of (x, r') \<Rightarrow> (ebind x conv, r'))"

definition read_account :: "(bytes \<Rightarrow> h256) \<Rightarrow> bytes \<Rightarrow> rlp_error option + account" where
  "read_account sha3 stateBack =
     (case RLP_ctor stateBack VeryStrict of
        Inl e \<Rightarrow> Inl (Some e)
      | Inr d \<Rightarrow>
          (case nth_field (toInt Strict) 0 (rlp_of d) of (nonce, r1) \<Rightarrow>
           case nth_field (toInt Strict) 1 r1 of (bal, r2) \<Rightarrow>
           case nth_field (toHash 32 Strict) 2 r2 of (root, r3) \<Rightarrow>
           case nth_field (toHash 32 Strict) 3 r3 of (hash, r4) \<Rightarrow>
           case ebind nonce (\<lambda>n. ebind bal (\<lambda>b. ebind root (\<lambda>rt. ebind hash (\<lambda>h.
                  Inr (Account_stored sha3 n b (fromBigEndian rt) (fromBigEndian h) Unchanged))))) of
             Inl e \<Rightarrow> Inl (Some e)
           | Inr None \<Rightarrow> Inl None
           | Inr (Some a) \<Rightarrow> Inr a))"

definition write_account :: "u256 \<Rightarrow> u256 \<Rightarrow> h256 \<Rightarrow> h256 \<Rightarrow> rlp_error + bytes" where
  "write_account nonce bal root hash =
     rlpList [append_bigint (unat nonce), append_bigint (unat bal),
       append_hash (hash_bytes root) False False, append_hash (hash_bytes hash) False False]"

end
