(* ===== verification/WorldState.thy ===== *)
theory WorldState
  imports Account
begin

text \<open>
  The world state: class \<open>State\<close> of \<open>libwing/State.h\<close> and \<open>libwing/State.cpp\<close> with the code-size cache of
  \<open>libwing/CodeSizeCache.h\<close>. A \<open>state\<close> has the account trie, a cache of accounts in front of it, the list of cached
  accounts that may be evicted, the addresses known to be absent, and the change log from which \<open>rollback\<close> undoes changes.
  The queries are \<open>const\<close> in C++ and still write the caches, so that every operation passes the state.

  The tries are taken at their contract: the account trie is an association list from addresses to the stored accounts,
  the database maps a storage root to the association list of that storage trie and a hash to a code. The root of a storage trie is
  computed by the argument \<open>root\<close>. The random numbers that choose the evicted entries come from an arbitrary
  sequence, the field \<open>s_fixedHashEngine\<close>.
\<close>

section \<open>Data\<close>

datatype change =
    Balance address u256
  | Storage address u256 u256
  | StorageRoot address h256
  | Nonce address u256
  | Create address
  | Code address bytes
  | Touch address

record state_db =
  db_tries :: "h256 \<rightharpoonup> (u256 \<times> bytes) list"
  db_nodes :: "h256 \<rightharpoonup> bytes"

record state =
  m_db :: state_db
  m_state :: "(address \<times> bytes) list"
  m_cache :: "(address \<times> account) list"
  m_unchangedCacheEntries :: "address list"
  m_nonExistingAccountsCache :: "address set"
  m_touched :: "address set"
  m_accountStartNonce :: u256
  m_changeLog :: "change list"
  code_sizes :: "(h256 \<times> nat) list"
  s_fixedHashEngine :: "nat \<Rightarrow> nat"

text \<open>The exceptions of the state and of the native contracts that work on it.\<close>

datatype state_error =
    RLPError rlp_error
  | NotEnoughCash
  | InvalidAccountStartNonceInState
  | IncorrectAccountStartNonceInState
  | AssertionFailed
  | ValueTooLarge
  | AssetContractCalledDirectly
  | NativeVMNotFound bytes

text \<open>An operation returns its result or exception and the state it leaves behind; \<open>sbind\<close> is sequencing.\<close>

type_synonym 'a op = "state \<Rightarrow> (state_error + 'a) \<times> state"

definition sret :: "'a \<Rightarrow> 'a op" where
  "sret x s = (Inr x, s)"

definition sthrow :: "state_error \<Rightarrow> 'a op" where
  "sthrow e s = (Inl e, s)"

definition sbind :: "'a op \<Rightarrow> ('a \<Rightarrow> 'b op) \<Rightarrow> 'b op" where
  "sbind m f s = (case m s of (Inl e, s') \<Rightarrow> (Inl e, s') | (Inr x, s') \<Rightarrow> f x s')"

definition smodify :: "(state \<Rightarrow> state) \<Rightarrow> unit op" where
  "smodify f s = (Inr (), f s)"

definition sget :: "(state \<Rightarrow> 'a) \<Rightarrow> 'a op" where
  "sget f s = (Inr (f s), s)"

definition Invalid256 :: u256 where
  "Invalid256 = - 1"

text \<open>\<open>at\<close> of a trie: the stored bytes, or the empty string.\<close>

definition trie_at :: "('k \<times> bytes) list \<Rightarrow> 'k \<Rightarrow> bytes" where
  "trie_at t k = (case map_of t k of None \<Rightarrow> [] | Some v \<Rightarrow> v)"

definition db_trie :: "state_db \<Rightarrow> h256 \<Rightarrow> (u256 \<times> bytes) list" where
  "db_trie db r = (case db_tries db r of None \<Rightarrow> [] | Some t \<Rightarrow> t)"

definition db_lookup :: "state_db \<Rightarrow> h256 \<Rightarrow> bytes" where
  "db_lookup db h = (case db_nodes db h of None \<Rightarrow> [] | Some c \<Rightarrow> c)"

text \<open>The state over a fresh database: \<open>init()\<close> stores the empty trie.\<close>

definition State_empty :: "(bytes \<Rightarrow> h256) \<Rightarrow> u256 \<Rightarrow> (nat \<Rightarrow> nat) \<Rightarrow> state" where
  "State_empty sha3 accountStartNonce engine =
     \<lparr>m_db = \<lparr>db_tries = [EmptyTrie sha3 \<mapsto> []], db_nodes = Map.empty\<rparr>, m_state = [], m_cache = [], m_unchangedCacheEntries = [],
      m_nonExistingAccountsCache = {}, m_touched = {}, m_accountStartNonce = accountStartNonce, m_changeLog = [],
      code_sizes = [], s_fixedHashEngine = engine\<rparr>"

text \<open>Copying a state. The change log is not copied: a new copy starts with an empty one, an assigned state keeps its own. The code sizes and the random engine are global.\<close>

definition State_copy :: "state \<Rightarrow> state" where
  "State_copy s = s\<lparr>m_changeLog := []\<rparr>"

definition State_assign :: "state \<Rightarrow> state \<Rightarrow> state" where
  "State_assign src dst = src\<lparr>m_changeLog := m_changeLog dst\<rparr>"

section \<open>The account cache\<close>

text \<open>\<open>uniform_int_distribution(0, n - 1)\<close> on the engine: a number below \<open>n\<close>, and the engine advances.\<close>

definition draw :: "nat \<Rightarrow> state \<Rightarrow> nat \<times> state" where
  "draw n s = (s_fixedHashEngine s 0 mod n, s\<lparr>s_fixedHashEngine := \<lambda>i. s_fixedHashEngine s (Suc i)\<rparr>)"

definition evict :: "nat \<Rightarrow> state \<Rightarrow> state" where
  "evict randomIndex s =
     (let es = m_unchangedCacheEntries s;
          addr = es ! randomIndex;
          s1 = s\<lparr>m_unchangedCacheEntries := butlast (es[randomIndex := last es])\<rparr> in
      case map_of (m_cache s1) addr of
        None \<Rightarrow> s1
      | Some a \<Rightarrow> if isDirty a then s1 else s1\<lparr>m_cache := AList.delete addr (m_cache s1)\<rparr>)"

function clearCacheIfTooLarge :: "state \<Rightarrow> state" where
  "clearCacheIfTooLarge s =
     (if length (m_unchangedCacheEntries s) > 1000
      then (case draw (length (m_unchangedCacheEntries s)) s of (i, s1) \<Rightarrow> clearCacheIfTooLarge (evict i s1))
      else s)"
  by pat_completeness auto
termination
  by (relation "measure (\<lambda>s. length (m_unchangedCacheEntries s))")
    (auto simp: draw_def evict_def Let_def split: option.splits if_splits)

declare clearCacheIfTooLarge.simps [simp del]

definition find_account :: "(bytes \<Rightarrow> h256) \<Rightarrow> address \<Rightarrow> account option op" where
  "find_account sha3 addr s =
     (case map_of (m_cache s) addr of
        Some a \<Rightarrow> (Inr (Some a), s)
      | None \<Rightarrow>
          if addr \<in> m_nonExistingAccountsCache s then (Inr None, s)
          else
            (let stateBack = trie_at (m_state s) addr in
             if stateBack = [] then
               (Inr None, s\<lparr>m_nonExistingAccountsCache := insert addr (m_nonExistingAccountsCache s)\<rparr>)
             else
               (let s1 = clearCacheIfTooLarge s in
                case read_account sha3 stateBack of
                  Inl None \<Rightarrow> (Inl AssertionFailed, s1)
                | Inl (Some e) \<Rightarrow> (Inl (RLPError e), s1)
                | Inr a \<Rightarrow> (Inr (Some a), s1\<lparr>m_cache := AList.update addr a (m_cache s1),
                    m_unchangedCacheEntries := m_unchangedCacheEntries s1 @ [addr]\<rparr>))))"

text \<open>Writing through the pointer that \<open>account\<close> returned, and through \<open>m_cache[addr]\<close>, which inserts a dead account when there is none.\<close>

definition on_cached :: "address \<Rightarrow> (account \<Rightarrow> account) \<Rightarrow> unit op" where
  "on_cached addr f = smodify (\<lambda>s. case map_of (m_cache s) addr of
     None \<Rightarrow> s | Some a \<Rightarrow> s\<lparr>m_cache := AList.update addr (f a) (m_cache s)\<rparr>)"

definition cache_at :: "(bytes \<Rightarrow> h256) \<Rightarrow> address \<Rightarrow> state \<Rightarrow> account" where
  "cache_at sha3 addr s = (case map_of (m_cache s) addr of None \<Rightarrow> Account_dead sha3 | Some a \<Rightarrow> a)"

definition on_entry :: "(bytes \<Rightarrow> h256) \<Rightarrow> address \<Rightarrow> (account \<Rightarrow> account) \<Rightarrow> state \<Rightarrow> state" where
  "on_entry sha3 addr f s = s\<lparr>m_cache := AList.update addr (f (cache_at sha3 addr s)) (m_cache s)\<rparr>"

definition log_change :: "change \<Rightarrow> unit op" where
  "log_change c = smodify (\<lambda>s. s\<lparr>m_changeLog := m_changeLog s @ [c]\<rparr>)"

section \<open>Queries\<close>

definition requireAccountStartNonce :: "u256 op" where
  "requireAccountStartNonce s =
     (if m_accountStartNonce s = Invalid256 then (Inl InvalidAccountStartNonceInState, s) else (Inr (m_accountStartNonce s), s))"

definition noteAccountStartNonce :: "u256 \<Rightarrow> unit op" where
  "noteAccountStartNonce actual s =
     (if m_accountStartNonce s = Invalid256 then (Inr (), s\<lparr>m_accountStartNonce := actual\<rparr>)
      else if m_accountStartNonce s \<noteq> actual then (Inl IncorrectAccountStartNonceInState, s)
      else (Inr (), s))"

definition addressInUse :: "(bytes \<Rightarrow> h256) \<Rightarrow> address \<Rightarrow> bool op" where
  "addressInUse sha3 addr = sbind (find_account sha3 addr) (\<lambda>a. sret (a \<noteq> None))"

definition accountNonemptyAndExisting :: "(bytes \<Rightarrow> h256) \<Rightarrow> address \<Rightarrow> bool op" where
  "accountNonemptyAndExisting sha3 addr = sbind (find_account sha3 addr) (\<lambda>r.
     case r of Some a \<Rightarrow> sret (\<not> acc_isEmpty sha3 a) | None \<Rightarrow> sret False)"

definition addressHasCode :: "(bytes \<Rightarrow> h256) \<Rightarrow> address \<Rightarrow> bool op" where
  "addressHasCode sha3 addr = sbind (find_account sha3 addr) (\<lambda>r.
     case r of Some a \<Rightarrow> sret (m_codeHash a \<noteq> EmptySHA3 sha3) | None \<Rightarrow> sret False)"

definition balance :: "(bytes \<Rightarrow> h256) \<Rightarrow> address \<Rightarrow> u256 op" where
  "balance sha3 addr = sbind (find_account sha3 addr) (\<lambda>r. case r of Some a \<Rightarrow> sret (m_balance a) | None \<Rightarrow> sret 0)"

definition getNonce :: "(bytes \<Rightarrow> h256) \<Rightarrow> address \<Rightarrow> u256 op" where
  "getNonce sha3 addr = sbind (find_account sha3 addr) (\<lambda>r.
     case r of Some a \<Rightarrow> sret (m_nonce a) | None \<Rightarrow> sget m_accountStartNonce)"

definition codeHash :: "(bytes \<Rightarrow> h256) \<Rightarrow> address \<Rightarrow> h256 op" where
  "codeHash sha3 addr = sbind (find_account sha3 addr) (\<lambda>r.
     case r of Some a \<Rightarrow> sret (m_codeHash a) | None \<Rightarrow> sret (EmptySHA3 sha3))"

text \<open>A value of a storage trie; \<open>baseRoot\<close> asserts a root different from zero.\<close>

definition stored_value :: "bytes \<Rightarrow> rlp_error + u256" where
  "stored_value p = (if p \<noteq> [] then ebind (RLP_ctor p VeryStrict) (toInt Strict) else Inr 0)"

definition storage :: "(bytes \<Rightarrow> h256) \<Rightarrow> address \<Rightarrow> u256 \<Rightarrow> u256 op" where
  "storage sha3 addr key = sbind (find_account sha3 addr) (\<lambda>r. case r of
       None \<Rightarrow> sret 0
     | Some a \<Rightarrow>
         (case map_of (m_storageOverlay a) key of
            Some v \<Rightarrow> sret v
          | None \<Rightarrow>
              if m_storageRoot a = 0 then sthrow AssertionFailed
              else sbind (sget (\<lambda>s. stored_value (trie_at (db_trie (m_db s) (m_storageRoot a)) key))) (\<lambda>v. case v of
                  Inl e \<Rightarrow> sthrow (RLPError e)
                | Inr ret \<Rightarrow> sbind (on_cached addr (setStorageCache key ret)) (\<lambda>_. sret ret))))"

definition storageRoot :: "(bytes \<Rightarrow> h256) \<Rightarrow> address \<Rightarrow> h256 op" where
  "storageRoot sha3 addr s =
     (let d = trie_at (m_state s) addr in
      if d = [] then (Inr (EmptyTrie sha3), s)
      else case ebind (RLP_ctor d VeryStrict) (\<lambda>d'. fst (nth_field (toHash 32 Strict) 2 (rlp_of d'))) of
          Inl e \<Rightarrow> (Inl (RLPError e), s)
        | Inr r \<Rightarrow> (Inr (fromBigEndian r), s))"

text \<open>The cache of code sizes, of at most 50000 entries. The evicted key is the first one not below a random hash, or the first one.\<close>

definition removeRandomElement :: "state \<Rightarrow> state" where
  "removeRandomElement s =
     (if code_sizes s = [] then s
      else (case draw (2 ^ 256) s of (r, s1) \<Rightarrow>
        (let ks = sort (map fst (code_sizes s1));
             k = (case filter (\<lambda>k. of_nat r \<le> k) ks of k # _ \<Rightarrow> k | [] \<Rightarrow> hd ks) in
         s1\<lparr>code_sizes := AList.delete k (code_sizes s1)\<rparr>)))"

definition store_code_size :: "h256 \<Rightarrow> nat \<Rightarrow> state \<Rightarrow> state" where
  "store_code_size h n s =
     (let s1 = (if length (code_sizes s) \<ge> 50000 then removeRandomElement s else s) in
      s1\<lparr>code_sizes := AList.update h n (code_sizes s1)\<rparr>)"

definition code :: "(bytes \<Rightarrow> h256) \<Rightarrow> address \<Rightarrow> bytes op" where
  "code sha3 addr = sbind (find_account sha3 addr) (\<lambda>r. case r of
       None \<Rightarrow> sret []
     | Some a \<Rightarrow>
         if m_codeHash a = EmptySHA3 sha3 then sret []
         else if m_codeCache a = [] then
           sbind (sget (\<lambda>s. noteCode sha3 (db_lookup (m_db s) (m_codeHash a)) a)) (\<lambda>r. case r of
               None \<Rightarrow> sthrow AssertionFailed
             | Some a' \<Rightarrow> sbind (on_cached addr (\<lambda>_. a')) (\<lambda>_.
                 sbind (smodify (store_code_size (m_codeHash a') (length (m_codeCache a')))) (\<lambda>_. sret (m_codeCache a'))))
         else sret (m_codeCache a))"

definition codeSize :: "(bytes \<Rightarrow> h256) \<Rightarrow> address \<Rightarrow> nat op" where
  "codeSize sha3 addr = sbind (find_account sha3 addr) (\<lambda>r. case r of
       None \<Rightarrow> sret 0
     | Some a \<Rightarrow>
         if m_hasNewCode a then sret (length (m_codeCache a))
         else sbind (sget (\<lambda>s. map_of (code_sizes s) (m_codeHash a))) (\<lambda>c. case c of
             Some n \<Rightarrow> sret n
           | None \<Rightarrow> sbind (code sha3 addr) (\<lambda>cd.
               sbind (smodify (store_code_size (m_codeHash a) (length cd))) (\<lambda>_. sret (length cd)))))"

section \<open>Updates\<close>

definition createAccount :: "(bytes \<Rightarrow> h256) \<Rightarrow> address \<Rightarrow> account \<Rightarrow> unit op" where
  "createAccount sha3 addr a = sbind (addressInUse sha3 addr) (\<lambda>used.
     if used then sthrow AssertionFailed
     else sbind (smodify (\<lambda>s. s\<lparr>m_cache := AList.update addr a (m_cache s),
            m_nonExistingAccountsCache := m_nonExistingAccountsCache s - {addr}\<rparr>)) (\<lambda>_. log_change (Create addr)))"

definition createContract :: "(bytes \<Rightarrow> h256) \<Rightarrow> address \<Rightarrow> unit op" where
  "createContract sha3 addr = sbind requireAccountStartNonce (\<lambda>n. createAccount sha3 addr (Account_endowed sha3 n 0 Changed))"

definition incNonce :: "(bytes \<Rightarrow> h256) \<Rightarrow> address \<Rightarrow> unit op" where
  "incNonce sha3 addr = sbind (find_account sha3 addr) (\<lambda>r. case r of
       Some a \<Rightarrow> sbind (on_cached addr acc_incNonce) (\<lambda>_. log_change (Nonce addr (m_nonce a)))
     | None \<Rightarrow> sbind requireAccountStartNonce (\<lambda>n. createAccount sha3 addr (Account_endowed sha3 (n + 1) 0 Changed)))"

definition setNonce :: "(bytes \<Rightarrow> h256) \<Rightarrow> address \<Rightarrow> u256 \<Rightarrow> unit op" where
  "setNonce sha3 addr newNonce = sbind (find_account sha3 addr) (\<lambda>r. case r of
       Some a \<Rightarrow> sbind (on_cached addr (acc_setNonce newNonce)) (\<lambda>_. log_change (Nonce addr (m_nonce a)))
     | None \<Rightarrow> createAccount sha3 addr (Account_endowed sha3 newNonce 0 Changed))"

definition addBalance :: "(bytes \<Rightarrow> h256) \<Rightarrow> address \<Rightarrow> u256 \<Rightarrow> unit op" where
  "addBalance sha3 addr amount = sbind (sbind (find_account sha3 addr) (\<lambda>r. case r of
       Some a \<Rightarrow> sbind (if \<not> isDirty a \<and> acc_isEmpty sha3 a then log_change (Touch addr) else sret ()) (\<lambda>_.
           on_cached addr (acc_addBalance amount))
     | None \<Rightarrow> sbind requireAccountStartNonce (\<lambda>n. createAccount sha3 addr (Account_endowed sha3 n amount Changed))))
     (\<lambda>_. if amount \<noteq> 0 then log_change (Balance addr amount) else sret ())"

definition subBalance :: "(bytes \<Rightarrow> h256) \<Rightarrow> address \<Rightarrow> u256 \<Rightarrow> unit op" where
  "subBalance sha3 addr v =
     (if v = 0 then sret ()
      else sbind (find_account sha3 addr) (\<lambda>r. case r of
          None \<Rightarrow> sthrow NotEnoughCash
        | Some a \<Rightarrow> if m_balance a < v then sthrow NotEnoughCash else addBalance sha3 addr (0 - v)))"

definition setBalance :: "(bytes \<Rightarrow> h256) \<Rightarrow> address \<Rightarrow> u256 \<Rightarrow> unit op" where
  "setBalance sha3 addr v = sbind (find_account sha3 addr) (\<lambda>r.
     addBalance sha3 addr (v - (case r of Some a \<Rightarrow> m_balance a | None \<Rightarrow> 0)))"

definition transferBalance :: "(bytes \<Rightarrow> h256) \<Rightarrow> address \<Rightarrow> address \<Rightarrow> u256 \<Rightarrow> unit op" where
  "transferBalance sha3 src dst v = sbind (subBalance sha3 src v) (\<lambda>_. addBalance sha3 dst v)"

definition setStorage :: "(bytes \<Rightarrow> h256) \<Rightarrow> address \<Rightarrow> u256 \<Rightarrow> u256 \<Rightarrow> unit op" where
  "setStorage sha3 addr key v = sbind (storage sha3 addr key) (\<lambda>old. sbind (log_change (Storage addr key old)) (\<lambda>_.
     smodify (on_entry sha3 addr (acc_setStorage key v))))"

definition clearStorage :: "(bytes \<Rightarrow> h256) \<Rightarrow> address \<Rightarrow> unit op" where
  "clearStorage sha3 addr = sbind (smodify (on_entry sha3 addr (\<lambda>a. a))) (\<lambda>_.
     sbind (sget (\<lambda>s. m_storageRoot (cache_at sha3 addr s))) (\<lambda>oldHash.
       if oldHash = 0 then sthrow AssertionFailed
       else if oldHash = EmptyTrie sha3 then sret ()
       else sbind (log_change (StorageRoot addr oldHash)) (\<lambda>_. smodify (on_entry sha3 addr (acc_clearStorage sha3)))))"

definition setCode :: "(bytes \<Rightarrow> h256) \<Rightarrow> address \<Rightarrow> bytes \<Rightarrow> unit op" where
  "setCode sha3 addr cd = sbind (code sha3 addr) (\<lambda>old. sbind (log_change (Code addr old)) (\<lambda>_.
     smodify (on_entry sha3 addr (acc_setCode sha3 cd))))"

definition kill :: "(bytes \<Rightarrow> h256) \<Rightarrow> address \<Rightarrow> unit op" where
  "kill sha3 addr = sbind (find_account sha3 addr) (\<lambda>r.
     case r of Some _ \<Rightarrow> on_cached addr (acc_kill sha3) | None \<Rightarrow> sret ())"

section \<open>Savepoints\<close>

definition savepoint :: "state \<Rightarrow> nat" where
  "savepoint s = length (m_changeLog s)"

fun change_address :: "change \<Rightarrow> address" where
  "change_address (Balance a _) = a"
| "change_address (Storage a _ _) = a"
| "change_address (StorageRoot a _) = a"
| "change_address (Nonce a _) = a"
| "change_address (Create a) = a"
| "change_address (Code a _) = a"
| "change_address (Touch a) = a"

text \<open>One turn of the loop of \<open>rollback\<close> without the \<open>pop_back\<close>: \<open>m_cache[change.address]\<close> comes first for every kind.\<close>

definition undo_change :: "(bytes \<Rightarrow> h256) \<Rightarrow> change \<Rightarrow> state \<Rightarrow> state" where
  "undo_change sha3 c s =
     (let s1 = on_entry sha3 (change_address c) (\<lambda>a. a) s in
      case c of
        Storage addr k v \<Rightarrow> on_entry sha3 addr (acc_setStorage k v) s1
      | StorageRoot addr v \<Rightarrow> on_entry sha3 addr (setStorageRoot v) s1
      | Balance addr v \<Rightarrow> on_entry sha3 addr (acc_addBalance (0 - v)) s1
      | Nonce addr v \<Rightarrow> on_entry sha3 addr (acc_setNonce v) s1
      | Create addr \<Rightarrow> s1\<lparr>m_cache := AList.delete addr (m_cache s1)\<rparr>
      | Code addr old \<Rightarrow> on_entry sha3 addr (acc_setCode sha3 old) s1
      | Touch addr \<Rightarrow> (on_entry sha3 addr untouch s1)\<lparr>m_unchangedCacheEntries := m_unchangedCacheEntries s1 @ [addr]\<rparr>)"

text \<open>The loop runs until the log has the length of the savepoint. \<open>None\<close>: it reads the back of an empty log.\<close>

function rollback :: "(bytes \<Rightarrow> h256) \<Rightarrow> nat \<Rightarrow> state \<Rightarrow> state option" where
  "rollback sha3 sp s =
     (if sp = length (m_changeLog s) then Some s
      else if m_changeLog s = [] then None
      else rollback sha3 sp ((undo_change sha3 (last (m_changeLog s)) s)\<lparr>m_changeLog := butlast (m_changeLog s)\<rparr>))"
  by pat_completeness auto
termination
  by (relation "measure (\<lambda>(sha3, sp, s). length (m_changeLog s))") auto

declare rollback.simps [simp del]

section \<open>Committing to the tries\<close>

definition removeEmptyAccounts :: "(bytes \<Rightarrow> h256) \<Rightarrow> state \<Rightarrow> state" where
  "removeEmptyAccounts sha3 s =
     s\<lparr>m_cache := map (\<lambda>(addr, a). (addr, if isDirty a \<and> acc_isEmpty sha3 a then acc_kill sha3 a else a)) (m_cache s)\<rparr>"

text \<open>The storage trie of an account with its overlay written into it.\<close>

fun write_overlay :: "(u256 \<times> u256) list \<Rightarrow> (u256 \<times> bytes) list \<Rightarrow> rlp_error + (u256 \<times> bytes) list" where
  "write_overlay [] t = Inr t"
| "write_overlay ((k, v) # kvs) t =
     (if v \<noteq> 0 then ebind (ebind (append_bigint (unat v) RLPStream_new) out) (\<lambda>b. write_overlay kvs (AList.update k b t))
      else write_overlay kvs (AList.delete k t))"

definition commit_account ::
  "((u256 \<rightharpoonup> bytes) \<Rightarrow> h256) \<Rightarrow> address \<times> account \<Rightarrow> address set op" where
  "commit_account root aa s =
     (case aa of (addr, a) \<Rightarrow>
      if \<not> isDirty a then (Inr {}, s)
      else if \<not> m_isAlive a then (Inr {addr}, s\<lparr>m_state := AList.delete addr (m_state s)\<rparr>)
      else if m_storageRoot a = 0 then (Inl AssertionFailed, s)
      else case (if m_storageOverlay a = [] then Inr (m_storageRoot a, s)
                 else ebind (write_overlay (m_storageOverlay a) (db_trie (m_db s) (m_storageRoot a))) (\<lambda>t.
                   let r = root (map_of t) in
                   Inr (r, s\<lparr>m_db := (m_db s)\<lparr>db_tries := (db_tries (m_db s))(r \<mapsto> t)\<rparr>\<rparr>))) of
          Inl e \<Rightarrow> (Inl (RLPError e), s)
        | Inr (r, s1) \<Rightarrow>
            if r = 0 then (Inl AssertionFailed, s1)
            else
            (let s2 = (if m_hasNewCode a then
                   (let s' = store_code_size (m_codeHash a) (length (m_codeCache a)) s1 in
                    s'\<lparr>m_db := (m_db s')\<lparr>db_nodes := (db_nodes (m_db s'))(m_codeHash a \<mapsto> m_codeCache a)\<rparr>\<rparr>)
                 else s1) in
             case write_account (m_nonce a) (m_balance a) r (m_codeHash a) of
               Inl e \<Rightarrow> (Inl (RLPError e), s2)
             | Inr b \<Rightarrow> (Inr {addr}, s2\<lparr>m_state := AList.update addr b (m_state s2)\<rparr>)))"

fun commit_accounts :: "((u256 \<rightharpoonup> bytes) \<Rightarrow> h256) \<Rightarrow> (address \<times> account) list \<Rightarrow> address set op" where
  "commit_accounts root [] = sret {}"
| "commit_accounts root (x # xs) = sbind (commit_account root x) (\<lambda>t. sbind (commit_accounts root xs) (\<lambda>ts. sret (t \<union> ts)))"

datatype commit_behaviour = KeepEmptyAccounts | RemoveEmptyAccounts

definition commit :: "(bytes \<Rightarrow> h256) \<Rightarrow> ((u256 \<rightharpoonup> bytes) \<Rightarrow> h256) \<Rightarrow> commit_behaviour \<Rightarrow> unit op" where
  "commit sha3 root b = sbind (smodify (if b = RemoveEmptyAccounts then removeEmptyAccounts sha3 else id)) (\<lambda>_.
     sbind (\<lambda>s. commit_accounts root (m_cache s) s) (\<lambda>ret.
       smodify (\<lambda>s. s\<lparr>m_touched := m_touched s \<union> ret, m_changeLog := [], m_cache := [], m_unchangedCacheEntries := []\<rparr>)))"

definition populateFrom :: "(bytes \<Rightarrow> h256) \<Rightarrow> ((u256 \<rightharpoonup> bytes) \<Rightarrow> h256) \<Rightarrow> (address \<times> account) list \<Rightarrow> unit op" where
  "populateFrom sha3 root accts = sbind (commit_accounts root accts) (\<lambda>_. commit sha3 root KeepEmptyAccounts)"

definition setRoot :: "(h256 \<Rightarrow> (address \<times> bytes) list) \<Rightarrow> h256 \<Rightarrow> state \<Rightarrow> state" where
  "setRoot opened r s = s\<lparr>m_cache := [], m_unchangedCacheEntries := [], m_nonExistingAccountsCache := {}, m_state := opened r\<rparr>"

end
