(* ===== verification/StateViews.thy ===== *)
theory StateViews
  imports WorldState
begin

text \<open>
  What can be observed of a state: for every address the view of its account (nonce, balance, code, storage), read through the cache
  or from the tries. The caches of \<open>State\<close> are transparent: every query returns what the view says, and leaves the view, the change log and the
  set of modified accounts as they were, whatever entries were evicted on the way. Every update acts on the view as intended.
\<close>

section \<open>Views\<close>

record account_view =
  v_alive :: bool
  v_nonce :: u256
  v_balance :: u256
  v_codeHash :: h256
  v_code :: bytes
  v_storage :: "u256 \<Rightarrow> u256"

definition base_storage :: "state_db \<Rightarrow> h256 \<Rightarrow> u256 \<Rightarrow> u256" where
  "base_storage db r k = (case stored_value (trie_at (db_trie db r) k) of Inr v \<Rightarrow> v | Inl _ \<Rightarrow> 0)"

definition account_code :: "(bytes \<Rightarrow> h256) \<Rightarrow> state_db \<Rightarrow> account \<Rightarrow> bytes" where
  "account_code sha3 db a =
     (if m_codeHash a = EmptySHA3 sha3 then []
      else if m_codeCache a = [] then db_lookup db (m_codeHash a) else m_codeCache a)"

definition overlaid :: "('a \<rightharpoonup> 'b) \<Rightarrow> ('a \<Rightarrow> 'b) \<Rightarrow> 'a \<Rightarrow> 'b" where
  "overlaid m f k = (case m k of Some v \<Rightarrow> v | None \<Rightarrow> f k)"

definition view_of :: "(bytes \<Rightarrow> h256) \<Rightarrow> state_db \<Rightarrow> account \<Rightarrow> account_view" where
  "view_of sha3 db a = \<lparr>v_alive = m_isAlive a, v_nonce = m_nonce a, v_balance = m_balance a, v_codeHash = m_codeHash a,
     v_code = account_code sha3 db a,
     v_storage = overlaid (map_of (m_storageOverlay a)) (base_storage db (m_storageRoot a))\<rparr>"

definition base_view :: "(bytes \<Rightarrow> h256) \<Rightarrow> state \<Rightarrow> address \<Rightarrow> account_view option" where
  "base_view sha3 s a =
     (if trie_at (m_state s) a = [] then None
      else case read_account sha3 (trie_at (m_state s) a) of Inl _ \<Rightarrow> None | Inr acc \<Rightarrow> Some (view_of sha3 (m_db s) acc))"

definition view :: "(bytes \<Rightarrow> h256) \<Rightarrow> state \<Rightarrow> address \<Rightarrow> account_view option" where
  "view sha3 s a = (case map_of (m_cache s) a of Some acc \<Rightarrow> Some (view_of sha3 (m_db s) acc) | None \<Rightarrow> base_view sha3 s a)"

definition dirty_set :: "state \<Rightarrow> address set" where
  "dirty_set s = {a. \<exists>acc. map_of (m_cache s) a = Some acc \<and> isDirty acc}"

section \<open>The invariant\<close>

definition account_ok :: "(bytes \<Rightarrow> h256) \<Rightarrow> state_db \<Rightarrow> account \<Rightarrow> bool" where
  "account_ok sha3 db a \<longleftrightarrow>
     distinct (map fst (m_storageOverlay a)) \<and> m_storageRoot a \<noteq> 0 \<and> db_tries db (m_storageRoot a) \<noteq> None \<and>
     (m_codeHash a \<noteq> EmptySHA3 sha3 \<longrightarrow> sha3 (account_code sha3 db a) = m_codeHash a) \<and>
     (m_hasNewCode a \<longrightarrow> m_codeCache a = account_code sha3 db a) \<and>
     (\<not> m_hasNewCode a \<longrightarrow> m_codeHash a \<noteq> EmptySHA3 sha3 \<longrightarrow> account_code sha3 db a = db_lookup db (m_codeHash a))"

definition cache_inv :: "(bytes \<Rightarrow> h256) \<Rightarrow> state \<Rightarrow> bool" where
  "cache_inv sha3 s \<longleftrightarrow> distinct (map fst (m_cache s)) \<and> (\<forall>a acc. map_of (m_cache s) a = Some acc \<longrightarrow>
     account_ok sha3 (m_db s) acc \<and> (\<not> isDirty acc \<longrightarrow> base_view sha3 s a = Some (view_of sha3 (m_db s) acc)))"

definition trie_inv :: "(bytes \<Rightarrow> h256) \<Rightarrow> state \<Rightarrow> bool" where
  "trie_inv sha3 s \<longleftrightarrow>
     (\<forall>a. trie_at (m_state s) a \<noteq> [] \<longrightarrow>
        (\<exists>acc. read_account sha3 (trie_at (m_state s) a) = Inr acc \<and> account_ok sha3 (m_db s) acc)) \<and>
     (\<forall>r k. is_ok (stored_value (trie_at (db_trie (m_db s) r) k))) \<and>
     EmptyTrie sha3 \<noteq> 0 \<and> db_tries (m_db s) (EmptyTrie sha3) = Some []"

definition absent_inv :: "state \<Rightarrow> bool" where
  "absent_inv s \<longleftrightarrow> (\<forall>a \<in> m_nonExistingAccountsCache s. trie_at (m_state s) a = [] \<and> map_of (m_cache s) a = None)"

definition hash_code_size :: "(bytes \<Rightarrow> h256) \<Rightarrow> state_db \<Rightarrow> h256 \<Rightarrow> nat" where
  "hash_code_size sha3 db h = (if h = EmptySHA3 sha3 then 0 else length (db_lookup db h))"

definition sizes_inv :: "(bytes \<Rightarrow> h256) \<Rightarrow> state \<Rightarrow> bool" where
  "sizes_inv sha3 s \<longleftrightarrow> (\<forall>h n. map_of (code_sizes s) h = Some n \<longrightarrow>
     n = hash_code_size sha3 (m_db s) h \<and> (h = EmptySHA3 sha3 \<or> db_nodes (m_db s) h \<noteq> None))"

definition state_ok :: "(bytes \<Rightarrow> h256) \<Rightarrow> state \<Rightarrow> bool" where
  "state_ok sha3 s \<longleftrightarrow> cache_inv sha3 s \<and> trie_inv sha3 s \<and> absent_inv s \<and> sizes_inv sha3 s"

text \<open>The part of the state that queries and cached writes never touch.\<close>

definition same_tries :: "state \<Rightarrow> state \<Rightarrow> bool" where
  "same_tries s s' \<longleftrightarrow> m_db s' = m_db s \<and> m_state s' = m_state s \<and> m_accountStartNonce s' = m_accountStartNonce s \<and>
     m_touched s' = m_touched s"

definition quiet :: "(bytes \<Rightarrow> h256) \<Rightarrow> state \<Rightarrow> state \<Rightarrow> bool" where
  "quiet sha3 s s' \<longleftrightarrow> state_ok sha3 s' \<and> view sha3 s' = view sha3 s \<and> dirty_set s' = dirty_set s \<and>
     same_tries s s' \<and> m_changeLog s' = m_changeLog s"

section \<open>Fields that do not matter\<close>

lemma overlaid_simps [simp]:
  "m k = None \<Longrightarrow> overlaid m f k = f k" "m k = Some v \<Longrightarrow> overlaid m f k = v" "overlaid Map.empty f = f"
  "overlaid (m(k \<mapsto> v)) f = (overlaid m f)(k := v)"
  by (auto simp: overlaid_def fun_eq_iff)

lemma account_code_frame [simp]:
  "account_code sha3 db (a\<lparr>m_storageOverlay := x1\<rparr>) = account_code sha3 db a"
  "account_code sha3 db (a\<lparr>m_isUnchanged := x2\<rparr>) = account_code sha3 db a"
  "account_code sha3 db (a\<lparr>m_nonce := x3\<rparr>) = account_code sha3 db a"
  "account_code sha3 db (a\<lparr>m_balance := x4\<rparr>) = account_code sha3 db a"
  "account_code sha3 db (a\<lparr>m_storageRoot := x5\<rparr>) = account_code sha3 db a"
  by (simp_all add: account_code_def)

lemma account_ok_frame [simp]:
  "account_ok sha3 db a \<Longrightarrow> account_ok sha3 db (a\<lparr>m_storageOverlay := AList.update k x (m_storageOverlay a)\<rparr>)"
  "account_ok sha3 db (a\<lparr>m_isUnchanged := x2\<rparr>) = account_ok sha3 db a"
  "account_ok sha3 db (a\<lparr>m_nonce := x3\<rparr>) = account_ok sha3 db a"
  "account_ok sha3 db (a\<lparr>m_balance := x4\<rparr>) = account_ok sha3 db a"
  by (simp_all add: account_ok_def distinct_update)

section \<open>Sequencing\<close>

lemma sbind_Inr [simp]: "m s = (Inr x, s') \<Longrightarrow> sbind m f s = f x s'"
  by (simp add: sbind_def)

lemma sbind_Inl [simp]: "m s = (Inl e, s') \<Longrightarrow> sbind m f s = (Inl e, s')"
  by (simp add: sbind_def)

lemma sbind_assoc: "sbind (sbind m f) g = sbind m (\<lambda>x. sbind (f x) g)"
  by (rule ext) (simp add: sbind_def split: prod.splits sum.splits)

lemma quiet_refl: "state_ok sha3 s \<Longrightarrow> quiet sha3 s s"
  by (simp add: quiet_def same_tries_def)

lemma quiet_trans: "quiet sha3 s t \<Longrightarrow> quiet sha3 t u \<Longrightarrow> quiet sha3 s u"
  by (simp add: quiet_def same_tries_def)

lemma quiet_ok: "quiet sha3 s s' \<Longrightarrow> state_ok sha3 s'"
  by (simp add: quiet_def)

lemma base_view_cong: "m_state s' = m_state s \<Longrightarrow> m_db s' = m_db s \<Longrightarrow> base_view sha3 s' = base_view sha3 s"
  by (rule ext) (simp add: base_view_def split: sum.splits)

lemma trie_inv_cong: "m_state s' = m_state s \<Longrightarrow> m_db s' = m_db s \<Longrightarrow> trie_inv sha3 s' = trie_inv sha3 s"
  by (simp add: trie_inv_def)

lemma view_cong:
  assumes "m_db s' = m_db s" "m_state s' = m_state s" "m_cache s' = m_cache s"
  shows "view sha3 s' = view sha3 s" "dirty_set s' = dirty_set s" "cache_inv sha3 s' = cache_inv sha3 s"
  using assms base_view_cong [OF assms(2,1), of sha3]
  by (simp_all add: view_def fun_eq_iff dirty_set_def cache_inv_def split: option.splits)

text \<open>The invariant and the view depend on few fields.\<close>

lemma state_ok_cong:
  assumes "m_db s' = m_db s" "m_state s' = m_state s" "m_cache s' = m_cache s"
    "m_nonExistingAccountsCache s' = m_nonExistingAccountsCache s" "code_sizes s' = code_sizes s"
  shows "state_ok sha3 s' = state_ok sha3 s" "view sha3 s' = view sha3 s" "dirty_set s' = dirty_set s"
  using assms view_cong [OF assms(1-3)] trie_inv_cong [OF assms(2,1)]
  by (simp_all add: state_ok_def absent_inv_def sizes_inv_def)

section \<open>Replacing one cached account\<close>

definition put :: "address \<Rightarrow> account \<Rightarrow> state \<Rightarrow> state" where
  "put a acc s = s\<lparr>m_cache := AList.update a acc (m_cache s)\<rparr>"

lemma put_simps [simp]:
  "m_db (put a acc s) = m_db s" "m_state (put a acc s) = m_state s" "m_changeLog (put a acc s) = m_changeLog s"
  "m_nonExistingAccountsCache (put a acc s) = m_nonExistingAccountsCache s" "code_sizes (put a acc s) = code_sizes s"
  "m_accountStartNonce (put a acc s) = m_accountStartNonce s" "m_touched (put a acc s) = m_touched s"
  "m_unchangedCacheEntries (put a acc s) = m_unchangedCacheEntries s"
  "map_of (m_cache (put a acc s)) = (map_of (m_cache s))(a \<mapsto> acc)"
  "distinct (map fst (m_cache s)) \<Longrightarrow> distinct (map fst (m_cache (put a acc s)))"
  by (simp_all add: put_def update_conv' distinct_update)

lemma base_view_put [simp]: "base_view sha3 (put a acc s) = base_view sha3 s"
  by (rule base_view_cong) simp_all

lemma on_cached_put [simp]: "map_of (m_cache s) a = Some acc \<Longrightarrow> on_cached a f s = (Inr (), put a (f acc) s)"
  by (simp add: on_cached_def smodify_def put_def)

lemma on_entry_put: "map_of (m_cache s) a = Some acc \<Longrightarrow> on_entry sha3 a f s = put a (f acc) s"
  by (simp add: on_entry_def cache_at_def put_def)

lemma view_put: "view sha3 (put a acc s) = (view sha3 s)(a \<mapsto> view_of sha3 (m_db s) acc)"
  by (rule ext) (simp add: view_def split: option.splits)

lemma dirty_put: "dirty_set (put a acc s) = (if isDirty acc then insert a (dirty_set s) else dirty_set s - {a})"
  by (auto simp: dirty_set_def)

lemma put_ok:
  assumes "state_ok sha3 s" "account_ok sha3 (m_db s) acc" "a \<notin> m_nonExistingAccountsCache s"
    "\<not> isDirty acc \<Longrightarrow> base_view sha3 s a = Some (view_of sha3 (m_db s) acc)"
  shows "state_ok sha3 (put a acc s)"
proof -
  have "cache_inv sha3 (put a acc s)"
    using assms by (simp add: state_ok_def cache_inv_def)
  moreover have "trie_inv sha3 (put a acc s) = trie_inv sha3 s" by (rule trie_inv_cong) simp_all
  moreover have "absent_inv (put a acc s)" using assms(1,3) by (auto simp: state_ok_def absent_inv_def)
  ultimately show ?thesis using assms(1) by (simp add: state_ok_def sizes_inv_def)
qed

lemma cached_not_absent: "state_ok sha3 s \<Longrightarrow> map_of (m_cache s) a = Some acc \<Longrightarrow> a \<notin> m_nonExistingAccountsCache s"
  by (auto simp: state_ok_def absent_inv_def)

lemma stored_not_absent: "state_ok sha3 s \<Longrightarrow> trie_at (m_state s) a \<noteq> [] \<Longrightarrow> a \<notin> m_nonExistingAccountsCache s"
  by (auto simp: state_ok_def absent_inv_def)

lemma view_cached: "map_of (m_cache s) a = Some acc \<Longrightarrow> view sha3 s a = Some (view_of sha3 (m_db s) acc)"
  by (simp add: view_def)

lemma cached_ok: "state_ok sha3 s \<Longrightarrow> map_of (m_cache s) a = Some acc \<Longrightarrow> account_ok sha3 (m_db s) acc"
  by (simp add: state_ok_def cache_inv_def)

text \<open>Replacing an account by one with the same view and the same flag, as the queries do to remember what they read.\<close>

lemma put_quiet:
  assumes "state_ok sha3 s" "map_of (m_cache s) a = Some acc" "account_ok sha3 (m_db s) acc'"
    "view_of sha3 (m_db s) acc' = view_of sha3 (m_db s) acc" "m_isUnchanged acc' = m_isUnchanged acc"
  shows "quiet sha3 s (put a acc' s)"
proof -
  have "state_ok sha3 (put a acc' s)"
    using assms cached_not_absent [OF assms(1,2)] by (intro put_ok) (auto simp: isDirty_def state_ok_def cache_inv_def)
  moreover have "dirty_set (put a acc' s) = dirty_set s"
    using assms by (auto simp: dirty_put isDirty_def dirty_set_def)
  moreover have "view sha3 (put a acc' s) = view sha3 s"
    using assms by (auto simp: view_put fun_eq_iff view_cached)
  ultimately show ?thesis by (simp add: quiet_def same_tries_def)
qed

section \<open>Eviction and lookup\<close>

lemma uncache_quiet:
  assumes "state_ok sha3 s" "map_of (m_cache s) a = Some acc" "\<not> isDirty acc"
  shows "quiet sha3 s (s\<lparr>m_cache := AList.delete a (m_cache s)\<rparr>)"
proof -
  let ?s = "s\<lparr>m_cache := AList.delete a (m_cache s)\<rparr>"
  have b: "base_view sha3 ?s = base_view sha3 s" by (rule base_view_cong) simp_all
  have base: "base_view sha3 s a = Some (view_of sha3 (m_db s) acc)"
    using assms by (simp add: state_ok_def cache_inv_def)
  then have "view sha3 ?s x = view sha3 s x" for x
    using assms b by (cases "x = a") (simp_all add: view_def delete_conv' split: option.splits)
  moreover have "dirty_set ?s = dirty_set s"
    using assms by (auto simp: dirty_set_def delete_conv')
  ultimately show ?thesis
    using assms b
    by (auto simp: quiet_def same_tries_def state_ok_def cache_inv_def trie_inv_def absent_inv_def sizes_inv_def delete_conv'
        distinct_delete)
qed

lemma entries_quiet:
  assumes "state_ok sha3 s"
  shows "quiet sha3 s (s\<lparr>m_unchangedCacheEntries := es\<rparr>)" "quiet sha3 s (s\<lparr>s_fixedHashEngine := g\<rparr>)"
  using assms state_ok_cong [of "s\<lparr>m_unchangedCacheEntries := es\<rparr>" s] state_ok_cong [of "s\<lparr>s_fixedHashEngine := g\<rparr>" s]
  by (auto simp: quiet_def same_tries_def)

lemma evict_quiet: "state_ok sha3 s \<Longrightarrow> quiet sha3 s (evict i s)"
  using entries_quiet(1) [of sha3 s "butlast ((m_unchangedCacheEntries s)[i := last (m_unchangedCacheEntries s)])"]
    uncache_quiet [of sha3 "s\<lparr>m_unchangedCacheEntries := butlast ((m_unchangedCacheEntries s)[i := last (m_unchangedCacheEntries s)])\<rparr>"]
  by (auto simp: evict_def Let_def split: option.splits intro: quiet_trans dest: quiet_ok)

lemma evict_cache: "map_of (m_cache s) a = None \<Longrightarrow> map_of (m_cache (evict i s)) a = None"
  by (auto simp: evict_def Let_def delete_conv' split: option.splits)

lemma clearCache_quiet:
  "state_ok sha3 s \<Longrightarrow> quiet sha3 s (clearCacheIfTooLarge s) \<and>
     (\<forall>a. map_of (m_cache s) a = None \<longrightarrow> map_of (m_cache (clearCacheIfTooLarge s)) a = None)"
proof (induction s rule: clearCacheIfTooLarge.induct)
  case (1 s)
  show ?case
  proof (cases "length (m_unchangedCacheEntries s) > 1000")
    case True
    obtain i s1 where d: "draw (length (m_unchangedCacheEntries s)) s = (i, s1)" by fastforce
    have q: "quiet sha3 s s1" and c: "m_cache s1 = m_cache s"
      using d entries_quiet(2) [OF "1.prems"] by (auto simp: draw_def)
    have q2: "quiet sha3 s (evict i s1)"
      using q evict_quiet [OF quiet_ok [OF q]] by (rule quiet_trans)
    have "clearCacheIfTooLarge s = clearCacheIfTooLarge (evict i s1)"
      using True d by (simp add: clearCacheIfTooLarge.simps [of s])
    moreover have "quiet sha3 (evict i s1) (clearCacheIfTooLarge (evict i s1)) \<and>
       (\<forall>a. map_of (m_cache (evict i s1)) a = None \<longrightarrow> map_of (m_cache (clearCacheIfTooLarge (evict i s1))) a = None)"
      using "1.IH" [OF True d [symmetric]] quiet_ok [OF q2] by blast
    ultimately show ?thesis using q2 quiet_trans evict_cache [of s1] c by metis
  next
    case False
    then show ?thesis using "1.prems" by (simp add: clearCacheIfTooLarge.simps [of s] quiet_refl)
  qed
qed

lemma load_quiet:
  assumes "state_ok sha3 s" "map_of (m_cache s) a = None" "trie_at (m_state s) a \<noteq> []"
    "read_account sha3 (trie_at (m_state s) a) = Inr acc" "\<not> isDirty acc"
  shows "quiet sha3 s (put a acc s)"
proof -
  have v: "base_view sha3 s a = Some (view_of sha3 (m_db s) acc)" and ok: "account_ok sha3 (m_db s) acc"
    using assms by (auto simp: base_view_def state_ok_def trie_inv_def)
  then have "view sha3 (put a acc s) = view sha3 s"
    using assms(2) by (auto simp: view_put fun_eq_iff view_def)
  moreover have "dirty_set (put a acc s) = dirty_set s"
    using assms by (auto simp: dirty_put dirty_set_def)
  ultimately show ?thesis
    using put_ok [OF assms(1) ok stored_not_absent [OF assms(1,3)]] v by (simp add: quiet_def same_tries_def)
qed

lemma read_account_clean: "read_account sha3 d = Inr acc \<Longrightarrow> \<not> isDirty acc"
  by (auto simp: read_account_def isDirty_def Account_stored_def Account_endowed_def ebind_eq_Inr_iff
      split: sum.splits option.splits prod.splits if_splits)

text \<open>Looking up an account: no exception, nothing observable changes, and afterwards the account is cached if it exists.\<close>

lemma find_account_spec:
  assumes ok: "state_ok sha3 s"
  obtains s' where "find_account sha3 a s = (Inr (map_of (m_cache s') a), s')" "quiet sha3 s s'"
    "view sha3 s a = map_option (view_of sha3 (m_db s)) (map_of (m_cache s') a)"
proof (cases "map_of (m_cache s) a")
  case (Some acc)
  then show ?thesis using that [of s] quiet_refl [OF ok] by (simp add: find_account_def view_def)
next
  case None
  show ?thesis
  proof (cases "trie_at (m_state s) a = []")
    case True
    let ?s = "s\<lparr>m_nonExistingAccountsCache := insert a (m_nonExistingAccountsCache s)\<rparr>"
    have b: "base_view sha3 ?s = base_view sha3 s" by (rule base_view_cong) simp_all
    have "view sha3 ?s = view sha3 s" using b by (simp add: view_def fun_eq_iff split: option.splits)
    then have "quiet sha3 s ?s"
      using ok b True None by (auto simp: quiet_def same_tries_def state_ok_def cache_inv_def trie_inv_def absent_inv_def
          sizes_inv_def dirty_set_def)
    moreover have "view sha3 s a = None" using None True by (simp add: view_def base_view_def)
    ultimately show ?thesis
      using None True that [of s] that [of ?s] quiet_refl [OF ok]
      by (cases "a \<in> m_nonExistingAccountsCache s") (simp_all add: find_account_def)
  next
    case False
    obtain acc where acc: "read_account sha3 (trie_at (m_state s) a) = Inr acc"
      using ok False by (auto simp: state_ok_def trie_inv_def)
    let ?c = "clearCacheIfTooLarge s"
    have q: "quiet sha3 s ?c" and n: "map_of (m_cache ?c) a = None"
      using clearCache_quiet [OF ok] None by auto
    then have e: "m_state ?c = m_state s" "m_db ?c = m_db s" by (simp_all add: quiet_def same_tries_def)
    have q2: "quiet sha3 ?c (put a acc ?c)"
      using load_quiet [OF quiet_ok [OF q] n, of acc] e False acc read_account_clean by auto
    let ?s = "(put a acc ?c)\<lparr>m_unchangedCacheEntries := m_unchangedCacheEntries ?c @ [a]\<rparr>"
    have q3: "quiet sha3 s ?s"
      using quiet_trans [OF q quiet_trans [OF q2 entries_quiet(1) [OF quiet_ok [OF q2]]]] .
    have "a \<notin> m_nonExistingAccountsCache s" using ok False by (auto simp: state_ok_def absent_inv_def)
    then have "find_account sha3 a s = (Inr (Some acc), ?s)"
      using None False acc by (simp add: find_account_def Let_def put_def)
    moreover have "map_of (m_cache ?s) a = Some acc" by simp
    moreover have "view sha3 s a = Some (view_of sha3 (m_db s) acc)"
      using None False acc by (simp add: view_def base_view_def)
    ultimately show ?thesis using that [of ?s] q3 by simp
  qed
qed

section \<open>Queries\<close>

text \<open>\<open>reads\<close>: an operation returns a value and changes nothing that can be observed.\<close>

definition reads :: "(bytes \<Rightarrow> h256) \<Rightarrow> state \<Rightarrow> 'a op \<Rightarrow> 'a \<Rightarrow> bool" where
  "reads sha3 s m x \<longleftrightarrow> (\<exists>s'. m s = (Inr x, s') \<and> quiet sha3 s s')"

lemma readsI: "m s = (Inr x, s') \<Longrightarrow> quiet sha3 s s' \<Longrightarrow> reads sha3 s m x"
  by (auto simp: reads_def)

text \<open>A query that only inspects the account found.\<close>

lemma reads_found:
  assumes "state_ok sha3 s"
    "\<And>s'. quiet sha3 s s' \<Longrightarrow> f None s' = (Inr x0, s')"
    "\<And>acc s'. quiet sha3 s s' \<Longrightarrow> f (Some acc) s' = (Inr (g (view_of sha3 (m_db s) acc)), s')"
  shows "reads sha3 s (sbind (find_account sha3 a) f) (case view sha3 s a of Some v \<Rightarrow> g v | None \<Rightarrow> x0)"
proof -
  obtain s' where s': "find_account sha3 a s = (Inr (map_of (m_cache s') a), s')" "quiet sha3 s s'"
    "view sha3 s a = map_option (view_of sha3 (m_db s)) (map_of (m_cache s') a)"
    by (rule find_account_spec [OF assms(1)])
  show ?thesis
  proof (rule readsI)
    show "sbind (find_account sha3 a) f s = (Inr (case view sha3 s a of Some v \<Rightarrow> g v | None \<Rightarrow> x0), s')"
      using s' assms(2,3) by (cases "map_of (m_cache s') a") simp_all
  qed (rule s'(2))
qed

definition view_empty :: "(bytes \<Rightarrow> h256) \<Rightarrow> account_view \<Rightarrow> bool" where
  "view_empty sha3 v \<longleftrightarrow> v_nonce v = 0 \<and> v_balance v = 0 \<and> v_codeHash v = EmptySHA3 sha3"

lemma view_of_sel [simp]:
  "v_alive (view_of sha3 db a) = m_isAlive a" "v_nonce (view_of sha3 db a) = m_nonce a"
  "v_balance (view_of sha3 db a) = m_balance a" "v_codeHash (view_of sha3 db a) = m_codeHash a"
  "v_code (view_of sha3 db a) = account_code sha3 db a"
  by (simp_all add: view_of_def)

lemma view_empty_of [simp]: "view_empty sha3 (view_of sha3 db a) = acc_isEmpty sha3 a"
  by (simp add: view_empty_def acc_isEmpty_def)

lemma simple_queries_read:
  assumes "state_ok sha3 s"
  shows "reads sha3 s (addressInUse sha3 a) (view sha3 s a \<noteq> None)"
    "reads sha3 s (accountNonemptyAndExisting sha3 a) (case view sha3 s a of Some v \<Rightarrow> \<not> view_empty sha3 v | None \<Rightarrow> False)"
    "reads sha3 s (addressHasCode sha3 a) (case view sha3 s a of Some v \<Rightarrow> v_codeHash v \<noteq> EmptySHA3 sha3 | None \<Rightarrow> False)"
    "reads sha3 s (balance sha3 a) (case view sha3 s a of Some v \<Rightarrow> v_balance v | None \<Rightarrow> 0)"
    "reads sha3 s (getNonce sha3 a) (case view sha3 s a of Some v \<Rightarrow> v_nonce v | None \<Rightarrow> m_accountStartNonce s)"
    "reads sha3 s (codeHash sha3 a) (case view sha3 s a of Some v \<Rightarrow> v_codeHash v | None \<Rightarrow> EmptySHA3 sha3)"
proof -
  have "reads sha3 s (addressInUse sha3 a) (case view sha3 s a of Some v \<Rightarrow> True | None \<Rightarrow> False)"
    unfolding addressInUse_def by (rule reads_found [OF assms]) (simp_all add: sret_def)
  then show "reads sha3 s (addressInUse sha3 a) (view sha3 s a \<noteq> None)"
    by (cases "view sha3 s a") simp_all
qed (unfold accountNonemptyAndExisting_def addressHasCode_def balance_def getNonce_def codeHash_def,
    (rule reads_found [OF assms]; simp add: sret_def sget_def quiet_def same_tries_def)+)

lemma base_storage_stored: "state_ok sha3 s \<Longrightarrow> stored_value (trie_at (db_trie (m_db s) r) k) = Inr (base_storage (m_db s) r k)"
  unfolding state_ok_def trie_inv_def is_ok_iff base_storage_def by (metis sum.simps(6))

lemma view_of_storage: "v_storage (view_of sha3 db a) = overlaid (map_of (m_storageOverlay a)) (base_storage db (m_storageRoot a))"
  by (simp add: view_of_def)

lemma storage_cache_view:
  assumes "map_of (m_storageOverlay a) k = None"
  shows "view_of sha3 db (setStorageCache k (base_storage db (m_storageRoot a) k) a) = view_of sha3 db a"
  using assms by (auto simp: view_of_def setStorageCache_def update_conv' fun_eq_iff)

text \<open>\<open>storage\<close> reads the view, and leaves an existing account in the cache.\<close>

lemma storage_spec:
  assumes ok: "state_ok sha3 s"
  obtains s' where "storage sha3 a k s = (Inr (case view sha3 s a of Some v \<Rightarrow> v_storage v k | None \<Rightarrow> 0), s')"
    "quiet sha3 s s'" "view sha3 s a = map_option (view_of sha3 (m_db s)) (map_of (m_cache s') a)"
proof -
  obtain s' where s': "find_account sha3 a s = (Inr (map_of (m_cache s') a), s')" "quiet sha3 s s'"
    "view sha3 s a = map_option (view_of sha3 (m_db s)) (map_of (m_cache s') a)"
    by (rule find_account_spec [OF ok])
  have ok': "state_ok sha3 s'" and db: "m_db s' = m_db s" using s'(2) by (auto simp: quiet_def same_tries_def)
  show thesis
  proof (cases "map_of (m_cache s') a")
    case None
    then show thesis using s' that [of s'] by (simp add: storage_def sret_def)
  next
    case (Some acc)
    show thesis
    proof (cases "map_of (m_storageOverlay acc) k")
      case None
      let ?v = "base_storage (m_db s) (m_storageRoot acc) k"
      let ?acc = "setStorageCache k ?v acc"
      have aok: "account_ok sha3 (m_db s') acc" using cached_ok [OF ok' Some] .
      have view: "view_of sha3 (m_db s') ?acc = view_of sha3 (m_db s') acc"
        using storage_cache_view [OF None, of sha3 "m_db s'"] db by simp
      have "quiet sha3 s' (put a ?acc s')"
        using aok view by (intro put_quiet [OF ok' Some]) (simp_all add: setStorageCache_def)
      moreover have "storage sha3 a k s = (Inr ?v, put a ?acc s')"
        using s'(1) Some None aok base_storage_stored [OF ok', of "m_storageRoot acc" k] db
        by (simp add: storage_def sget_def sret_def account_ok_def)
      moreover have "?v = (case view sha3 s a of Some v \<Rightarrow> v_storage v k | None \<Rightarrow> 0)"
        using s'(3) Some None by (simp add: view_of_storage)
      ultimately show thesis
        using that [of "put a ?acc s'"] quiet_trans [OF s'(2)] s'(3) Some view db by simp
    next
      case (Some v)
      with \<open>map_of (m_cache s') a = Some acc\<close> show thesis
        using s' that [of s'] by (simp add: storage_def sret_def view_of_storage)
    qed
  qed
qed

lemma remove_random_sizes:
  "map_of (code_sizes (removeRandomElement s)) h = Some n \<Longrightarrow> map_of (code_sizes s) h = Some n"
  by (auto simp: removeRandomElement_def draw_def Let_def delete_conv' split: if_splits)

lemma remove_random_frame:
  "m_db (removeRandomElement s) = m_db s" "m_state (removeRandomElement s) = m_state s"
  "m_cache (removeRandomElement s) = m_cache s" "m_changeLog (removeRandomElement s) = m_changeLog s"
  "m_nonExistingAccountsCache (removeRandomElement s) = m_nonExistingAccountsCache s"
  "m_accountStartNonce (removeRandomElement s) = m_accountStartNonce s" "m_touched (removeRandomElement s) = m_touched s"
  by (simp_all add: removeRandomElement_def draw_def Let_def)

lemma store_size_frame [simp]:
  "m_db (store_code_size h n s) = m_db s" "m_state (store_code_size h n s) = m_state s"
  "m_cache (store_code_size h n s) = m_cache s" "m_changeLog (store_code_size h n s) = m_changeLog s"
  "m_nonExistingAccountsCache (store_code_size h n s) = m_nonExistingAccountsCache s"
  "m_accountStartNonce (store_code_size h n s) = m_accountStartNonce s" "m_touched (store_code_size h n s) = m_touched s"
  by (simp_all add: store_code_size_def Let_def remove_random_frame)

lemma store_size_quiet:
  assumes ok: "state_ok sha3 s" and n: "n = hash_code_size sha3 (m_db s) h" "h = EmptySHA3 sha3 \<or> db_nodes (m_db s) h \<noteq> None"
  shows "quiet sha3 s (store_code_size h n s)"
proof -
  let ?s = "store_code_size h n s"
  have old: "\<And>k m. map_of (code_sizes s) k = Some m \<Longrightarrow> m = hash_code_size sha3 (m_db s) k \<and> (k = EmptySHA3 sha3 \<or> db_nodes (m_db s) k \<noteq> None)"
    using ok by (simp add: state_ok_def sizes_inv_def)
  have "map_of (code_sizes ?s) k = Some m \<Longrightarrow> k = h \<and> m = n \<or> map_of (code_sizes s) k = Some m" for k m
    by (auto simp: store_code_size_def Let_def update_conv' split: if_splits dest: remove_random_sizes)
  then have "sizes_inv sha3 ?s" using old n unfolding sizes_inv_def by (metis store_size_frame(1))
  then show ?thesis
    using ok view_cong [of ?s s] trie_inv_cong [of ?s s sha3]
    by (simp add: quiet_def same_tries_def state_ok_def absent_inv_def)
qed

lemma code_size_hash:
  "account_ok sha3 db a \<Longrightarrow> \<not> m_hasNewCode a \<Longrightarrow> hash_code_size sha3 db (m_codeHash a) = length (account_code sha3 db a)"
  by (auto simp: account_ok_def hash_code_size_def account_code_def)

lemma code_hash_known:
  "account_ok sha3 db a \<Longrightarrow> \<not> m_hasNewCode a \<Longrightarrow> m_codeHash a = EmptySHA3 sha3 \<or> db_nodes db (m_codeHash a) \<noteq> None"
  "account_ok sha3 db a \<Longrightarrow> m_codeCache a = [] \<Longrightarrow> m_codeHash a = EmptySHA3 sha3 \<or> db_nodes db (m_codeHash a) \<noteq> None"
  by (auto simp: account_ok_def db_lookup_def account_code_def EmptySHA3_def split: if_splits option.splits)

text \<open>\<open>code\<close> loads the code on first use.\<close>

lemma code_spec:
  assumes ok: "state_ok sha3 s"
  obtains s' where "code sha3 a s = (Inr (case view sha3 s a of Some v \<Rightarrow> v_code v | None \<Rightarrow> []), s')"
    "quiet sha3 s s'" "view sha3 s a = map_option (view_of sha3 (m_db s)) (map_of (m_cache s') a)"
proof -
  obtain s' where s': "find_account sha3 a s = (Inr (map_of (m_cache s') a), s')" "quiet sha3 s s'"
    "view sha3 s a = map_option (view_of sha3 (m_db s)) (map_of (m_cache s') a)"
    by (rule find_account_spec [OF ok])
  have ok': "state_ok sha3 s'" and db: "m_db s' = m_db s" using s'(2) by (auto simp: quiet_def same_tries_def)
  show thesis
  proof (cases "\<exists>acc. map_of (m_cache s') a = Some acc \<and> m_codeHash acc \<noteq> EmptySHA3 sha3 \<and> m_codeCache acc = []")
    case False
    then show thesis
      using s' that [of s'] by (cases "map_of (m_cache s') a") (auto simp: code_def sret_def account_code_def)
  next
    case True
    then obtain acc where acc: "map_of (m_cache s') a = Some acc" "m_codeHash acc \<noteq> EmptySHA3 sha3" "m_codeCache acc = []"
      by blast
    let ?c = "db_lookup (m_db s) (m_codeHash acc)"
    let ?acc = "acc\<lparr>m_codeCache := ?c\<rparr>"
    let ?s = "store_code_size (m_codeHash acc) (length ?c) (put a ?acc s')"
    have aok: "account_ok sha3 (m_db s') acc" using cached_ok [OF ok' acc(1)] .
    have same: "account_code sha3 (m_db s') ?acc = ?c" "account_code sha3 (m_db s') acc = ?c"
      using acc db by (auto simp: account_code_def)
    then have view: "view_of sha3 (m_db s') ?acc = view_of sha3 (m_db s') acc" by (simp add: view_of_def)
    have "account_ok sha3 (m_db s') ?acc"
      using aok same acc db by (auto simp: account_ok_def)
    then have q: "quiet sha3 s' (put a ?acc s')"
      using view by (intro put_quiet [OF ok' acc(1)]) simp_all
    have "quiet sha3 (put a ?acc s') ?s"
      using acc db code_hash_known(2) [OF aok acc(3)] by (intro store_size_quiet [OF quiet_ok [OF q]]) (simp_all add: hash_code_size_def)
    with q s'(2) have "quiet sha3 s ?s" using quiet_trans by blast
    moreover have "code sha3 a s = (Inr ?c, ?s)"
      using s'(1) acc db aok same
      by (simp add: code_def sget_def sret_def smodify_def noteCode_def account_ok_def)
    moreover have "view sha3 s a = Some (view_of sha3 (m_db s) acc)" "v_code (view_of sha3 (m_db s) acc) = ?c"
      using s'(3) acc(1) same db by simp_all
    ultimately show thesis
      using that [of ?s] view db by simp
  qed
qed

lemma codeSize_reads:
  assumes ok: "state_ok sha3 s"
  shows "reads sha3 s (codeSize sha3 a) (case view sha3 s a of Some v \<Rightarrow> length (v_code v) | None \<Rightarrow> 0)"
proof -
  obtain s' where s': "find_account sha3 a s = (Inr (map_of (m_cache s') a), s')" "quiet sha3 s s'"
    "view sha3 s a = map_option (view_of sha3 (m_db s)) (map_of (m_cache s') a)"
    by (rule find_account_spec [OF ok])
  have ok': "state_ok sha3 s'" and db: "m_db s' = m_db s" and v: "view sha3 s' = view sha3 s"
    using s'(2) by (auto simp: quiet_def same_tries_def)
  show ?thesis
  proof (cases "\<exists>acc. map_of (m_cache s') a = Some acc \<and> \<not> m_hasNewCode acc \<and> map_of (code_sizes s') (m_codeHash acc) = None")
    case True
    then obtain acc where acc: "map_of (m_cache s') a = Some acc" "\<not> m_hasNewCode acc" "map_of (code_sizes s') (m_codeHash acc) = None"
      by blast
    obtain t where t: "code sha3 a s' = (Inr (case view sha3 s' a of Some v \<Rightarrow> v_code v | None \<Rightarrow> []), t)" "quiet sha3 s' t"
      by (rule code_spec [OF ok'])
    let ?c = "account_code sha3 (m_db s) acc"
    have tdb: "m_db t = m_db s" using t(2) db by (simp add: quiet_def same_tries_def)
    have "quiet sha3 t (store_code_size (m_codeHash acc) (length ?c) t)"
      using code_size_hash [OF cached_ok [OF ok' acc(1)] acc(2)] tdb db
        code_hash_known(1) [OF cached_ok [OF ok' acc(1)] acc(2)]
      by (intro store_size_quiet [OF quiet_ok [OF t(2)]]) simp_all
    then have "quiet sha3 s (store_code_size (m_codeHash acc) (length ?c) t)"
      using quiet_trans [OF quiet_trans [OF s'(2) t(2)]] by simp
    moreover have "codeSize sha3 a s = (Inr (length ?c), store_code_size (m_codeHash acc) (length ?c) t)"
      using s'(1,3) t(1) acc v by (simp add: codeSize_def sget_def smodify_def sret_def)
    ultimately show ?thesis using s'(3) acc(1) by (intro readsI) simp_all
  next
    case False
    have "codeSize sha3 a s = (Inr (case view sha3 s a of Some v \<Rightarrow> length (v_code v) | None \<Rightarrow> 0), s')"
    proof (cases "map_of (m_cache s') a")
      case None
      then show ?thesis using s' by (simp add: codeSize_def sret_def)
    next
      case (Some acc)
      have aok: "account_ok sha3 (m_db s) acc" using cached_ok [OF ok' Some] db by simp
      show ?thesis
      proof (cases "m_hasNewCode acc")
        case True
        then show ?thesis using s' Some aok by (simp add: codeSize_def sret_def account_ok_def)
      next
        case new: False
        then obtain n where n: "map_of (code_sizes s') (m_codeHash acc) = Some n" using False Some by auto
        then have "n = hash_code_size sha3 (m_db s) (m_codeHash acc)" using ok' db by (simp add: state_ok_def sizes_inv_def)
        then show ?thesis using s' Some new n code_size_hash [OF aok new] by (simp add: codeSize_def sget_def sret_def)
      qed
    qed
    then show ?thesis using s'(2) by (rule readsI)
  qed
qed

end
