(* ===== verification/StateUndo.thy ===== *)
theory StateUndo
  imports StateViews
begin

text \<open>
  The updates of the state and \<open>rollback\<close>. Every update acts on the view as intended and logs how to undo it; undoing the log
  down to a savepoint restores the view of that savepoint, also when an operation in between threw an exception.
\<close>

section \<open>Updates\<close>

text \<open>
  \<open>step\<close>: from one state to another the view becomes \<open>V\<close>, the modified accounts \<open>D\<close>, the changes \<open>cs\<close> are logged, and nothing else changes.
\<close>

definition step ::
  "(bytes \<Rightarrow> h256) \<Rightarrow> state \<Rightarrow> state \<Rightarrow> (address \<Rightarrow> account_view option) \<Rightarrow> address set \<Rightarrow> change list \<Rightarrow> bool" where
  "step sha3 s s' V D cs \<longleftrightarrow> state_ok sha3 s' \<and> view sha3 s' = V \<and> dirty_set s' = D \<and> same_tries s s' \<and>
     m_changeLog s' = m_changeLog s @ cs"

lemma quiet_step: "quiet sha3 s s' \<longleftrightarrow> step sha3 s s' (view sha3 s) (dirty_set s) []"
  by (auto simp: quiet_def step_def)

lemma step_trans: "step sha3 s t V D cs \<Longrightarrow> step sha3 t u V' D' cs' \<Longrightarrow> step sha3 s u V' D' (cs @ cs')"
  by (simp add: step_def same_tries_def)

lemma step_after_quiet: "quiet sha3 s t \<Longrightarrow> step sha3 t u V D cs \<Longrightarrow> step sha3 s u V D cs"
  using step_trans [of sha3 s t _ _ "[]"] by (simp add: quiet_step)

lemma quietD: "quiet sha3 s s' \<Longrightarrow> view sha3 s' = view sha3 s \<and> dirty_set s' = dirty_set s \<and> m_db s' = m_db s \<and>
    m_state s' = m_state s \<and> m_accountStartNonce s' = m_accountStartNonce s"
  by (simp add: quiet_def same_tries_def)

lemma log_change_step:
  assumes "state_ok sha3 s"
  obtains s' where "log_change c s = (Inr (), s')" "step sha3 s s' (view sha3 s) (dirty_set s) [c]" "m_cache s' = m_cache s"
proof -
  let ?s = "s\<lparr>m_changeLog := m_changeLog s @ [c]\<rparr>"
  have "step sha3 s ?s (view sha3 s) (dirty_set s) [c]"
    using assms state_ok_cong [of ?s s] by (simp add: step_def same_tries_def)
  then show thesis using that [of ?s] by (simp add: log_change_def smodify_def)
qed

lemma put_step:
  assumes "state_ok sha3 s" "a \<notin> m_nonExistingAccountsCache s" "account_ok sha3 (m_db s) acc" "isDirty acc"
  shows "step sha3 s (put a acc s) ((view sha3 s)(a \<mapsto> view_of sha3 (m_db s) acc)) (insert a (dirty_set s)) []"
  using put_ok [OF assms(1,3,2)] assms(4) by (simp add: step_def same_tries_def view_put dirty_put)

lemma absent_base:
  assumes "state_ok sha3 s" "view sha3 s a = None"
  shows "map_of (m_cache s) a = None" "trie_at (m_state s) a = []" "a \<notin> dirty_set s"
  using assms by (auto simp: view_def base_view_def state_ok_def trie_inv_def dirty_set_def split: option.splits if_splits sum.splits)

definition fresh_view :: "(bytes \<Rightarrow> h256) \<Rightarrow> u256 \<Rightarrow> u256 \<Rightarrow> account_view" where
  "fresh_view sha3 n b = \<lparr>v_alive = True, v_nonce = n, v_balance = b, v_codeHash = EmptySHA3 sha3, v_code = [], v_storage = (\<lambda>_. 0)\<rparr>"

lemma endowed_ok:
  assumes "state_ok sha3 s"
  shows "account_ok sha3 (m_db s) (Account_endowed sha3 n b Changed)" "isDirty (Account_endowed sha3 n b Changed)"
    "view_of sha3 (m_db s) (Account_endowed sha3 n b Changed) = fresh_view sha3 n b"
proof -
  have "EmptyTrie sha3 \<noteq> 0" "db_tries (m_db s) (EmptyTrie sha3) = Some []"
    using assms by (auto simp: state_ok_def trie_inv_def)
  then show "account_ok sha3 (m_db s) (Account_endowed sha3 n b Changed)" "isDirty (Account_endowed sha3 n b Changed)"
    "view_of sha3 (m_db s) (Account_endowed sha3 n b Changed) = fresh_view sha3 n b"
    by (auto simp: account_ok_def Account_endowed_def Account_dead_def account_code_def isDirty_def view_of_def fresh_view_def
        base_storage_def trie_at_def stored_value_def fun_eq_iff db_trie_def)
qed

lemma createAccount_absent:
  assumes ok: "state_ok sha3 s" and none: "view sha3 s a = None"
    and acc: "acc = Account_endowed sha3 n b Changed"
  obtains s' where "createAccount sha3 a acc s = (Inr (), s')"
    "step sha3 s s' ((view sha3 s)(a \<mapsto> fresh_view sha3 n b)) (insert a (dirty_set s)) [Create a]"
    "map_of (m_cache s') a = Some acc"
proof -
  obtain t where t: "addressInUse sha3 a s = (Inr False, t)" "quiet sha3 s t"
    using simple_queries_read(1) [OF ok, of a] none by (auto simp: reads_def)
  have okt: "state_ok sha3 t" and e: "m_db t = m_db s" "m_state t = m_state s" using t(2) by (auto simp: quiet_def same_tries_def)
  let ?u = "t\<lparr>m_nonExistingAccountsCache := m_nonExistingAccountsCache t - {a}\<rparr>"
  let ?v = "put a acc ?u"
  have "view sha3 ?u = view sha3 t" "dirty_set ?u = dirty_set t" "cache_inv sha3 ?u = cache_inv sha3 t"
    by (rule view_cong; simp)+
  moreover have "trie_inv sha3 ?u = trie_inv sha3 t" by (rule trie_inv_cong) simp_all
  ultimately have u: "quiet sha3 t ?u"
    using okt by (auto simp: quiet_def same_tries_def state_ok_def absent_inv_def sizes_inv_def)
  have v: "step sha3 t ?v ((view sha3 t)(a \<mapsto> fresh_view sha3 n b)) (insert a (dirty_set t)) []"
    using step_after_quiet [OF u put_step [OF quiet_ok [OF u], of a acc]] endowed_ok [OF quiet_ok [OF u]] acc quietD [OF u] by simp
  then have okv: "state_ok sha3 ?v" by (simp add: step_def)
  obtain w where w: "log_change (Create a) ?v = (Inr (), w)" "step sha3 ?v w (view sha3 ?v) (dirty_set ?v) [Create a]" "m_cache w = m_cache ?v"
    using log_change_step [OF okv] by blast
  have "createAccount sha3 a acc s = (Inr (), w)"
  proof -
    have "t\<lparr>m_cache := AList.update a acc (m_cache t), m_nonExistingAccountsCache := m_nonExistingAccountsCache t - {a}\<rparr> = ?v"
      by (simp add: put_def)
    then show ?thesis
      using w(1) by (simp only: createAccount_def smodify_def sbind_Inr [where m = "addressInUse sha3 a", OF t(1)] sbind_Inr if_False)
  qed
  moreover have "step sha3 s w ((view sha3 s)(a \<mapsto> fresh_view sha3 n b)) (insert a (dirty_set s)) [Create a]"
    using step_after_quiet [OF t(2) step_trans [OF v w(2)]] v quietD [OF t(2)] by (simp add: step_def)
  ultimately show thesis using that [of w] w(3) by simp
qed

text \<open>The updates that look the account up first: found, they write it and log; absent, they create it.\<close>

definition started :: "state \<Rightarrow> bool" where
  "started s \<longleftrightarrow> m_accountStartNonce s \<noteq> Invalid256"

lemma requireNonce: "requireAccountStartNonce s = (if started s then Inr (m_accountStartNonce s) else Inl InvalidAccountStartNonceInState, s)"
  by (simp add: requireAccountStartNonce_def started_def)

lemma quiet_started: "quiet sha3 s s' \<Longrightarrow> started s' = started s"
  by (simp add: quiet_def same_tries_def started_def)

lemma write_and_log:
  assumes "state_ok sha3 s" "map_of (m_cache s) a = Some acc" "account_ok sha3 (m_db s) (f acc)" "isDirty (f acc)"
  obtains s' where "sbind (on_cached a f) (\<lambda>_. log_change c) s = (Inr (), s')"
    "step sha3 s s' ((view sha3 s)(a \<mapsto> view_of sha3 (m_db s) (f acc))) (insert a (dirty_set s)) [c]"
proof -
  have p: "step sha3 s (put a (f acc) s) ((view sha3 s)(a \<mapsto> view_of sha3 (m_db s) (f acc))) (insert a (dirty_set s)) []"
    by (rule put_step [OF assms(1) cached_not_absent [OF assms(1,2)] assms(3,4)])
  then have "state_ok sha3 (put a (f acc) s)" by (simp add: step_def)
  then obtain s' where "log_change c (put a (f acc) s) = (Inr (), s')"
    "step sha3 (put a (f acc) s) s' (view sha3 (put a (f acc) s)) (dirty_set (put a (f acc) s)) [c]"
    using log_change_step by blast
  then show thesis using that [of s'] step_trans [OF p] p assms(2) by (simp add: step_def)
qed

lemma cached_dirty: "map_of (m_cache s) a = Some acc \<Longrightarrow> a \<in> dirty_set s \<longleftrightarrow> isDirty acc"
  by (simp add: dirty_set_def)

lemma nonce_updates:
  assumes ok: "state_ok sha3 s"
  shows "view sha3 s a = Some v \<Longrightarrow> \<exists>s'. incNonce sha3 a s = (Inr (), s') \<and>
      step sha3 s s' ((view sha3 s)(a \<mapsto> v\<lparr>v_nonce := v_nonce v + 1\<rparr>)) (insert a (dirty_set s)) [Nonce a (v_nonce v)]"
    "view sha3 s a = Some v \<Longrightarrow> \<exists>s'. setNonce sha3 a n s = (Inr (), s') \<and>
      step sha3 s s' ((view sha3 s)(a \<mapsto> v\<lparr>v_nonce := n\<rparr>)) (insert a (dirty_set s)) [Nonce a (v_nonce v)]"
    "view sha3 s a = None \<Longrightarrow> started s \<Longrightarrow> \<exists>s'. incNonce sha3 a s = (Inr (), s') \<and>
      step sha3 s s' ((view sha3 s)(a \<mapsto> fresh_view sha3 (m_accountStartNonce s + 1) 0)) (insert a (dirty_set s)) [Create a]"
    "view sha3 s a = None \<Longrightarrow> \<exists>s'. setNonce sha3 a n s = (Inr (), s') \<and>
      step sha3 s s' ((view sha3 s)(a \<mapsto> fresh_view sha3 n 0)) (insert a (dirty_set s)) [Create a]"
    "view sha3 s a = None \<Longrightarrow> \<not> started s \<Longrightarrow> \<exists>s'. incNonce sha3 a s = (Inl InvalidAccountStartNonceInState, s') \<and> quiet sha3 s s'"
proof -
  obtain t where t: "find_account sha3 a s = (Inr (map_of (m_cache t) a), t)" "quiet sha3 s t"
    "view sha3 s a = map_option (view_of sha3 (m_db s)) (map_of (m_cache t) a)"
    by (rule find_account_spec [OF ok])
  have okt: "state_ok sha3 t" using t(2) by (rule quiet_ok)
  note q = quietD [OF t(2)] quiet_started [OF t(2)]
  { assume "view sha3 s a = Some v"
    then obtain acc where acc: "map_of (m_cache t) a = Some acc" "v = view_of sha3 (m_db s) acc" using t(3) by auto
    have aok: "account_ok sha3 (m_db t) acc" by (rule cached_ok [OF okt acc(1)])
    obtain u where "sbind (on_cached a acc_incNonce) (\<lambda>_. log_change (Nonce a (m_nonce acc))) t = (Inr (), u)"
      "step sha3 t u ((view sha3 t)(a \<mapsto> view_of sha3 (m_db t) (acc_incNonce acc))) (insert a (dirty_set t)) [Nonce a (m_nonce acc)]"
      using write_and_log [OF okt acc(1), of acc_incNonce] aok by (auto simp: acc_incNonce_def changed_def isDirty_def)
    then show "\<exists>s'. incNonce sha3 a s = (Inr (), s') \<and>
      step sha3 s s' ((view sha3 s)(a \<mapsto> v\<lparr>v_nonce := v_nonce v + 1\<rparr>)) (insert a (dirty_set s)) [Nonce a (v_nonce v)]"
      using t(1) acc q step_after_quiet [OF t(2)] by (auto simp: incNonce_def acc_incNonce_def changed_def view_of_def)
    obtain u where "sbind (on_cached a (acc_setNonce n)) (\<lambda>_. log_change (Nonce a (m_nonce acc))) t = (Inr (), u)"
      "step sha3 t u ((view sha3 t)(a \<mapsto> view_of sha3 (m_db t) (acc_setNonce n acc))) (insert a (dirty_set t)) [Nonce a (m_nonce acc)]"
      using write_and_log [OF okt acc(1), of "acc_setNonce n"] aok by (auto simp: acc_setNonce_def changed_def isDirty_def)
    then show "\<exists>s'. setNonce sha3 a n s = (Inr (), s') \<and>
      step sha3 s s' ((view sha3 s)(a \<mapsto> v\<lparr>v_nonce := n\<rparr>)) (insert a (dirty_set s)) [Nonce a (v_nonce v)]"
      using t(1) acc q step_after_quiet [OF t(2)] by (auto simp: setNonce_def acc_setNonce_def changed_def view_of_def) }
  { assume none: "view sha3 s a = None"
    then have n: "map_of (m_cache t) a = None" "view sha3 t a = None" using t(3) q by auto
    have create: "\<exists>u. createAccount sha3 a (Account_endowed sha3 n 0 Changed) t = (Inr (), u) \<and>
        step sha3 s u ((view sha3 s)(a \<mapsto> fresh_view sha3 n 0)) (insert a (dirty_set s)) [Create a]" for n
      using createAccount_absent [OF okt n(2) refl, of n 0] step_after_quiet [OF t(2)] q by metis
    show "\<exists>s'. setNonce sha3 a n s = (Inr (), s') \<and>
      step sha3 s s' ((view sha3 s)(a \<mapsto> fresh_view sha3 n 0)) (insert a (dirty_set s)) [Create a]"
      using create [of n] t(1) n by (auto simp: setNonce_def)
    show "started s \<Longrightarrow> \<exists>s'. incNonce sha3 a s = (Inr (), s') \<and>
      step sha3 s s' ((view sha3 s)(a \<mapsto> fresh_view sha3 (m_accountStartNonce s + 1) 0)) (insert a (dirty_set s)) [Create a]"
      using create [of "m_accountStartNonce s + 1"] t(1) n q by (auto simp: incNonce_def requireNonce)
    show "\<not> started s \<Longrightarrow> \<exists>s'. incNonce sha3 a s = (Inl InvalidAccountStartNonceInState, s') \<and> quiet sha3 s s'"
      using t(1,2) n q by (auto simp: incNonce_def requireNonce) }
qed

definition balance_log :: "address \<Rightarrow> u256 \<Rightarrow> change list" where
  "balance_log a amount = (if amount \<noteq> 0 then [Balance a amount] else [])"

lemma log_balance:
  assumes "state_ok sha3 s"
  shows "\<exists>s'. (if amount \<noteq> 0 then log_change (Balance a amount) else sret ()) s = (Inr (), s') \<and>
    step sha3 s s' (view sha3 s) (dirty_set s) (balance_log a amount)"
proof -
  obtain s' where "log_change (Balance a amount) s = (Inr (), s')" "step sha3 s s' (view sha3 s) (dirty_set s) [Balance a amount]"
    by (rule log_change_step [OF assms])
  then show ?thesis using quiet_refl [OF assms] by (auto simp: sret_def balance_log_def quiet_step)
qed

lemma log_touch:
  assumes "state_ok sha3 s"
  shows "\<exists>s'. (if b then log_change c else sret ()) s = (Inr (), s') \<and>
    step sha3 s s' (view sha3 s) (dirty_set s) (if b then [c] else []) \<and> m_cache s' = m_cache s"
proof -
  obtain s' where "log_change c s = (Inr (), s')" "step sha3 s s' (view sha3 s) (dirty_set s) [c]" "m_cache s' = m_cache s"
    by (rule log_change_step [OF assms])
  then show ?thesis using quiet_refl [OF assms] by (auto simp: sret_def quiet_step)
qed

lemma createContract_spec:
  assumes ok: "state_ok sha3 s"
  shows "view sha3 s a = None \<Longrightarrow> started s \<Longrightarrow> \<exists>s'. createContract sha3 a s = (Inr (), s') \<and>
      step sha3 s s' ((view sha3 s)(a \<mapsto> fresh_view sha3 (m_accountStartNonce s) 0)) (insert a (dirty_set s)) [Create a]"
    "view sha3 s a \<noteq> None \<Longrightarrow> started s \<Longrightarrow> \<exists>s'. createContract sha3 a s = (Inl AssertionFailed, s') \<and> quiet sha3 s s'"
    "\<not> started s \<Longrightarrow> \<exists>s'. createContract sha3 a s = (Inl InvalidAccountStartNonceInState, s') \<and> quiet sha3 s s'"
proof -
  { assume "view sha3 s a = None" "started s"
    then show "\<exists>s'. createContract sha3 a s = (Inr (), s') \<and>
      step sha3 s s' ((view sha3 s)(a \<mapsto> fresh_view sha3 (m_accountStartNonce s) 0)) (insert a (dirty_set s)) [Create a]"
      using createAccount_absent [OF ok, of a _ "m_accountStartNonce s" 0] by (auto simp: createContract_def requireNonce sbind_def) metis }
  { assume "view sha3 s a \<noteq> None" "started s"
    then obtain t where t: "addressInUse sha3 a s = (Inr True, t)" "quiet sha3 s t"
      using simple_queries_read(1) [OF ok, of a] by (auto simp: reads_def)
    then show "\<exists>s'. createContract sha3 a s = (Inl AssertionFailed, s') \<and> quiet sha3 s s'"
      using \<open>started s\<close> by (simp add: createContract_def requireNonce createAccount_def sbind_def sthrow_def) }
  show "\<not> started s \<Longrightarrow> \<exists>s'. createContract sha3 a s = (Inl InvalidAccountStartNonceInState, s') \<and> quiet sha3 s s'"
    using quiet_refl [OF ok] by (simp add: createContract_def requireNonce)
qed

lemma addBalance_found:
  assumes ok: "state_ok sha3 s" and v: "view sha3 s a = Some v"
  shows "\<exists>s'. addBalance sha3 a amount s = (Inr (), s') \<and>
      step sha3 s s' ((view sha3 s)(a \<mapsto> v\<lparr>v_balance := v_balance v + amount\<rparr>)) (insert a (dirty_set s))
        ((if a \<notin> dirty_set s \<and> view_empty sha3 v then [Touch a] else []) @ balance_log a amount)"
proof -
  obtain t where t: "find_account sha3 a s = (Inr (map_of (m_cache t) a), t)" "quiet sha3 s t"
    "view sha3 s a = map_option (view_of sha3 (m_db s)) (map_of (m_cache t) a)"
    by (rule find_account_spec [OF ok])
  have okt: "state_ok sha3 t" using t(2) by (rule quiet_ok)
  note q = quietD [OF t(2)]
  obtain acc where acc: "map_of (m_cache t) a = Some acc" "v = view_of sha3 (m_db s) acc"
    using t(3) v by (cases "map_of (m_cache t) a") simp_all
  let ?b = "\<not> isDirty acc \<and> acc_isEmpty sha3 acc"
  have b: "?b \<longleftrightarrow> a \<notin> dirty_set s \<and> view_empty sha3 v" using cached_dirty [OF acc(1)] acc(2) q by simp
  obtain u where u: "(if ?b then log_change (Touch a) else sret ()) t = (Inr (), u)"
    "step sha3 t u (view sha3 t) (dirty_set t) (if ?b then [Touch a] else [])" "m_cache u = m_cache t"
    using log_touch [OF okt] by blast
  have oku: "state_ok sha3 u" "m_db u = m_db t" using u(2) by (auto simp: step_def same_tries_def)
  let ?acc = "acc_addBalance amount acc"
  have aok: "account_ok sha3 (m_db u) ?acc" "isDirty ?acc"
    using cached_ok [OF okt acc(1)] oku by (auto simp: acc_addBalance_def changed_def isDirty_def)
  have w: "step sha3 u (put a ?acc u) ((view sha3 u)(a \<mapsto> view_of sha3 (m_db u) ?acc)) (insert a (dirty_set u)) []"
    using cached_not_absent [OF oku(1), of a acc] acc(1) u(3) by (intro put_step [OF oku(1) _ aok]) simp
  let ?w = "put a ?acc u"
  have okw: "state_ok sha3 ?w" using w by (simp add: step_def)
  obtain x where x: "(if amount \<noteq> 0 then log_change (Balance a amount) else sret ()) ?w = (Inr (), x)"
    "step sha3 ?w x (view sha3 ?w) (dirty_set ?w) (balance_log a amount)"
    using log_balance [OF okw] by blast
  have vw: "view_of sha3 (m_db u) ?acc = v\<lparr>v_balance := v_balance v + amount\<rparr>"
    using oku q acc(2) by (simp add: acc_addBalance_def changed_def view_of_def)
  have "on_cached a (acc_addBalance amount) u = (Inr (), ?w)" using acc(1) u(3) by simp
  moreover have "(case Some acc of Some acc \<Rightarrow> sbind (if \<not> isDirty acc \<and> acc_isEmpty sha3 acc then log_change (Touch a) else sret ())
      (\<lambda>_. on_cached a (acc_addBalance amount)) | None \<Rightarrow> m) t = sbind (\<lambda>s. (if ?b then log_change (Touch a) else sret ()) s)
      (\<lambda>_. on_cached a (acc_addBalance amount)) t" for m
    by simp
  ultimately have "addBalance sha3 a amount s = (Inr (), x)"
    using t(1) acc(1) u(1) x(1) by (simp add: addBalance_def sbind_def)
  moreover have "step sha3 s x ((view sha3 s)(a \<mapsto> v\<lparr>v_balance := v_balance v + amount\<rparr>)) (insert a (dirty_set s))
        ((if ?b then [Touch a] else []) @ balance_log a amount)"
    using step_after_quiet [OF t(2) step_trans [OF u(2) step_trans [OF w x(2)]]] u(2) w vw q by (simp add: step_def)
  ultimately show ?thesis unfolding b by blast
qed

lemma addBalance_absent:
  assumes ok: "state_ok sha3 s" and v: "view sha3 s a = None"
  shows "started s \<Longrightarrow> \<exists>s'. addBalance sha3 a amount s = (Inr (), s') \<and>
      step sha3 s s' ((view sha3 s)(a \<mapsto> fresh_view sha3 (m_accountStartNonce s) amount)) (insert a (dirty_set s))
        (Create a # balance_log a amount)"
    "\<not> started s \<Longrightarrow> \<exists>s'. addBalance sha3 a amount s = (Inl InvalidAccountStartNonceInState, s') \<and> quiet sha3 s s'"
proof -
  obtain t where t: "find_account sha3 a s = (Inr (map_of (m_cache t) a), t)" "quiet sha3 s t"
    "view sha3 s a = map_option (view_of sha3 (m_db s)) (map_of (m_cache t) a)"
    by (rule find_account_spec [OF ok])
  have okt: "state_ok sha3 t" using t(2) by (rule quiet_ok)
  note q = quietD [OF t(2)] quiet_started [OF t(2)]
  have n: "map_of (m_cache t) a = None" "view sha3 t a = None" using t(3) v q by auto
  show "\<not> started s \<Longrightarrow> \<exists>s'. addBalance sha3 a amount s = (Inl InvalidAccountStartNonceInState, s') \<and> quiet sha3 s s'"
    using t(1,2) n q by (simp add: addBalance_def requireNonce)
  assume st: "started s"
  obtain u where u: "createAccount sha3 a (Account_endowed sha3 (m_accountStartNonce s) amount Changed) t = (Inr (), u)"
    "step sha3 t u ((view sha3 t)(a \<mapsto> fresh_view sha3 (m_accountStartNonce s) amount)) (insert a (dirty_set t)) [Create a]"
    using createAccount_absent [OF okt n(2) refl] by metis
  have "state_ok sha3 u" using u(2) by (simp add: step_def)
  then obtain x where x: "(if amount \<noteq> 0 then log_change (Balance a amount) else sret ()) u = (Inr (), x)"
    "step sha3 u x (view sha3 u) (dirty_set u) (balance_log a amount)"
    using log_balance by blast
  have "addBalance sha3 a amount s = (Inr (), x)"
    using t(1) n u(1) x(1) st q by (simp add: addBalance_def requireNonce sbind_def)
  then show "\<exists>s'. addBalance sha3 a amount s = (Inr (), s') \<and>
      step sha3 s s' ((view sha3 s)(a \<mapsto> fresh_view sha3 (m_accountStartNonce s) amount)) (insert a (dirty_set s))
        (Create a # balance_log a amount)"
    using step_after_quiet [OF t(2) step_trans [OF u(2) x(2)]] u(2) q by (auto simp: step_def)
qed

lemma subBalance_spec:
  assumes ok: "state_ok sha3 s"
  shows "amount = 0 \<Longrightarrow> subBalance sha3 a amount s = (Inr (), s)"
    "amount \<noteq> 0 \<Longrightarrow> view sha3 s a = Some v \<Longrightarrow> amount \<le> v_balance v \<Longrightarrow> \<exists>s'. subBalance sha3 a amount s = (Inr (), s') \<and>
      step sha3 s s' ((view sha3 s)(a \<mapsto> v\<lparr>v_balance := v_balance v - amount\<rparr>)) (insert a (dirty_set s))
        ((if a \<notin> dirty_set s \<and> view_empty sha3 v then [Touch a] else []) @ balance_log a (0 - amount))"
    "amount \<noteq> 0 \<Longrightarrow> (case view sha3 s a of None \<Rightarrow> True | Some v \<Rightarrow> v_balance v < amount) \<Longrightarrow>
      \<exists>s'. subBalance sha3 a amount s = (Inl NotEnoughCash, s') \<and> quiet sha3 s s'"
proof -
  show "amount = 0 \<Longrightarrow> subBalance sha3 a amount s = (Inr (), s)" by (simp add: subBalance_def sret_def)
  obtain t where t: "find_account sha3 a s = (Inr (map_of (m_cache t) a), t)" "quiet sha3 s t"
    "view sha3 s a = map_option (view_of sha3 (m_db s)) (map_of (m_cache t) a)"
    by (rule find_account_spec [OF ok])
  note q = quietD [OF t(2)]
  { assume "amount \<noteq> 0" "(case view sha3 s a of None \<Rightarrow> True | Some v \<Rightarrow> v_balance v < amount)"
    then have "subBalance sha3 a amount s = (Inl NotEnoughCash, t)"
      using t by (cases "map_of (m_cache t) a") (simp_all add: subBalance_def sthrow_def)
    then show "\<exists>s'. subBalance sha3 a amount s = (Inl NotEnoughCash, s') \<and> quiet sha3 s s'" using t(2) by blast }
  { assume h: "amount \<noteq> 0" "view sha3 s a = Some v" "amount \<le> v_balance v"
    then have "subBalance sha3 a amount s = addBalance sha3 a (0 - amount) t"
      using t(1,3) by (cases "map_of (m_cache t) a") (auto simp: subBalance_def)
    then show "\<exists>s'. subBalance sha3 a amount s = (Inr (), s') \<and>
      step sha3 s s' ((view sha3 s)(a \<mapsto> v\<lparr>v_balance := v_balance v - amount\<rparr>)) (insert a (dirty_set s))
        ((if a \<notin> dirty_set s \<and> view_empty sha3 v then [Touch a] else []) @ balance_log a (0 - amount))"
      using addBalance_found [OF quiet_ok [OF t(2)], of a v "0 - amount"] h q step_after_quiet [OF t(2)] by auto }
qed

lemma setBalance_spec:
  assumes ok: "state_ok sha3 s"
  shows "\<exists>t. setBalance sha3 a b s = addBalance sha3 a (b - (case view sha3 s a of Some v \<Rightarrow> v_balance v | None \<Rightarrow> 0)) t \<and> quiet sha3 s t"
proof -
  obtain t where t: "find_account sha3 a s = (Inr (map_of (m_cache t) a), t)" "quiet sha3 s t"
    "view sha3 s a = map_option (view_of sha3 (m_db s)) (map_of (m_cache t) a)"
    by (rule find_account_spec [OF ok])
  then show ?thesis by (intro exI [of _ t]) (cases "map_of (m_cache t) a"; simp add: setBalance_def)
qed

lemma setStorage_spec:
  assumes ok: "state_ok sha3 s" and v: "view sha3 s a = Some v"
  shows "\<exists>s'. setStorage sha3 a k x s = (Inr (), s') \<and>
      step sha3 s s' ((view sha3 s)(a \<mapsto> v\<lparr>v_storage := (v_storage v)(k := x)\<rparr>)) (insert a (dirty_set s)) [Storage a k (v_storage v k)]"
proof -
  obtain t where t: "storage sha3 a k s = (Inr (case view sha3 s a of Some v \<Rightarrow> v_storage v k | None \<Rightarrow> 0), t)"
    "quiet sha3 s t" "view sha3 s a = map_option (view_of sha3 (m_db s)) (map_of (m_cache t) a)"
    by (rule storage_spec [OF ok])
  have okt: "state_ok sha3 t" using t(2) by (rule quiet_ok)
  note q = quietD [OF t(2)]
  obtain acc where acc: "map_of (m_cache t) a = Some acc" "v = view_of sha3 (m_db s) acc"
    using t(3) v by (cases "map_of (m_cache t) a") simp_all
  obtain u where u: "log_change (Storage a k (v_storage v k)) t = (Inr (), u)"
    "step sha3 t u (view sha3 t) (dirty_set t) [Storage a k (v_storage v k)]" "m_cache u = m_cache t"
    by (rule log_change_step [OF okt])
  have oku: "state_ok sha3 u" "m_db u = m_db t" using u(2) by (auto simp: step_def same_tries_def)
  let ?acc = "acc_setStorage k x acc"
  have "step sha3 u (put a ?acc u) ((view sha3 u)(a \<mapsto> view_of sha3 (m_db u) ?acc)) (insert a (dirty_set u)) []"
    using cached_ok [OF okt acc(1)] oku cached_not_absent [OF oku(1), of a acc] acc(1) u(3)
    by (intro put_step [OF oku(1)]) (auto simp: acc_setStorage_def changed_def isDirty_def)
  moreover have "view_of sha3 (m_db u) ?acc = v\<lparr>v_storage := (v_storage v)(k := x)\<rparr>"
    using acc(2) oku q by (simp add: view_of_def acc_setStorage_def changed_def update_conv')
  ultimately have "step sha3 s (put a ?acc u) ((view sha3 s)(a \<mapsto> v\<lparr>v_storage := (v_storage v)(k := x)\<rparr>)) (insert a (dirty_set s))
      [Storage a k (v_storage v k)]"
    using step_after_quiet [OF t(2) step_trans [OF u(2)]] u(2) q by (fastforce simp: step_def)
  moreover have "setStorage sha3 a k x s = (Inr (), put a ?acc u)"
    using t(1) v u(1,3) acc(1) by (simp add: setStorage_def smodify_def on_entry_put)
  ultimately show ?thesis by blast
qed

lemma setCode_account_ok:
  assumes "account_ok sha3 db acc" "sha3 cd = EmptySHA3 sha3 \<Longrightarrow> cd = []"
  shows "account_ok sha3 db (acc_setCode sha3 cd acc)" "account_code sha3 db (acc_setCode sha3 cd acc) = cd"
proof -
  show c: "account_code sha3 db (acc_setCode sha3 cd acc) = cd"
    using assms(2) by (auto simp: account_code_def acc_setCode_def EmptySHA3_def)
  show "account_ok sha3 db (acc_setCode sha3 cd acc)"
    using assms(1) c by (auto simp: account_ok_def acc_setCode_def)
qed

text \<open>\<open>setCode\<close> on an account that is already marked as modified; the code must not collide with the empty code.\<close>

lemma setCode_spec:
  assumes ok: "state_ok sha3 s" and v: "view sha3 s a = Some v" and dirty: "a \<in> dirty_set s"
    and cd: "sha3 cd = EmptySHA3 sha3 \<Longrightarrow> cd = []"
  shows "\<exists>s'. setCode sha3 a cd s = (Inr (), s') \<and>
      step sha3 s s' ((view sha3 s)(a \<mapsto> v\<lparr>v_codeHash := sha3 cd, v_code := cd\<rparr>)) (dirty_set s) [Code a (v_code v)]"
proof -
  obtain t where t: "code sha3 a s = (Inr (case view sha3 s a of Some v \<Rightarrow> v_code v | None \<Rightarrow> []), t)"
    "quiet sha3 s t" "view sha3 s a = map_option (view_of sha3 (m_db s)) (map_of (m_cache t) a)"
    by (rule code_spec [OF ok])
  have okt: "state_ok sha3 t" using t(2) by (rule quiet_ok)
  note q = quietD [OF t(2)]
  obtain acc where acc: "map_of (m_cache t) a = Some acc" "v = view_of sha3 (m_db s) acc"
    using t(3) v by (cases "map_of (m_cache t) a") simp_all
  obtain u where u: "log_change (Code a (v_code v)) t = (Inr (), u)"
    "step sha3 t u (view sha3 t) (dirty_set t) [Code a (v_code v)]" "m_cache u = m_cache t"
    by (rule log_change_step [OF okt])
  have oku: "state_ok sha3 u" "m_db u = m_db t" using u(2) by (auto simp: step_def same_tries_def)
  let ?acc = "acc_setCode sha3 cd acc"
  note c = setCode_account_ok [OF cached_ok [OF okt acc(1)] cd]
  have "isDirty acc" using dirty q cached_dirty [OF acc(1)] by simp
  then have "isDirty ?acc" by (simp add: acc_setCode_def isDirty_def)
  then have p: "step sha3 u (put a ?acc u) ((view sha3 u)(a \<mapsto> view_of sha3 (m_db u) ?acc)) (insert a (dirty_set u)) []"
    using c oku cached_not_absent [OF oku(1), of a acc] acc(1) u(3) by (intro put_step [OF oku(1)]) auto
  have "view_of sha3 (m_db u) ?acc = v\<lparr>v_codeHash := sha3 cd, v_code := cd\<rparr>"
    using acc(2) oku q c(2) by (simp add: view_of_def acc_setCode_def)
  moreover have "insert a (dirty_set s) = dirty_set s" using dirty by blast
  ultimately have "step sha3 s (put a ?acc u) ((view sha3 s)(a \<mapsto> v\<lparr>v_codeHash := sha3 cd, v_code := cd\<rparr>)) (dirty_set s)
      [Code a (v_code v)]"
    using step_after_quiet [OF t(2) step_trans [OF u(2) p]] u(2) q by (auto simp: step_def)
  moreover have "setCode sha3 a cd s = (Inr (), put a ?acc u)"
    using t(1) v u(1,3) acc(1) by (simp add: setCode_def smodify_def on_entry_put)
  ultimately show ?thesis by blast
qed

section \<open>Undoing\<close>

text \<open>
  Undoing one change on the level of views, with the set of accounts marked as modified: \<open>rollback\<close> writes through the cache, so that
  the account of an undone change must be marked; undoing a creation needs that the trie has no account there, undoing
  the first touch of an account needs that its view is again that of the trie.
\<close>

fun undo_view :: "(bytes \<Rightarrow> h256) \<Rightarrow> state_db \<Rightarrow> change \<Rightarrow> (address \<Rightarrow> account_view option) \<Rightarrow> address \<Rightarrow> account_view option" where
  "undo_view sha3 db (Balance a x) V = V(a := map_option (\<lambda>v. v\<lparr>v_balance := v_balance v - x\<rparr>) (V a))"
| "undo_view sha3 db (Storage a k x) V = V(a := map_option (\<lambda>v. v\<lparr>v_storage := (v_storage v)(k := x)\<rparr>) (V a))"
| "undo_view sha3 db (StorageRoot a r) V = V(a := map_option (\<lambda>v. v\<lparr>v_storage := base_storage db r\<rparr>) (V a))"
| "undo_view sha3 db (Nonce a n) V = V(a := map_option (\<lambda>v. v\<lparr>v_nonce := n\<rparr>) (V a))"
| "undo_view sha3 db (Create a) V = V(a := None)"
| "undo_view sha3 db (Code a cd) V = V(a := map_option (\<lambda>v. v\<lparr>v_codeHash := sha3 cd, v_code := cd\<rparr>) (V a))"
| "undo_view sha3 db (Touch a) V = V"

definition undo_dirty :: "change \<Rightarrow> address set \<Rightarrow> address set" where
  "undo_dirty c D = (case c of Create a \<Rightarrow> D - {a} | Touch a \<Rightarrow> D - {a} | _ \<Rightarrow> D)"

definition undo_ok :: "(bytes \<Rightarrow> h256) \<Rightarrow> state \<Rightarrow> change \<Rightarrow> (address \<Rightarrow> account_view option) \<Rightarrow> address set \<Rightarrow> bool" where
  "undo_ok sha3 s0 c V D \<longleftrightarrow> change_address c \<in> D \<and> (case c of
       Create a \<Rightarrow> trie_at (m_state s0) a = []
     | Touch a \<Rightarrow> V a = base_view sha3 s0 a
     | Code a cd \<Rightarrow> sha3 cd = EmptySHA3 sha3 \<longrightarrow> cd = []
     | StorageRoot a r \<Rightarrow> r \<noteq> 0 \<and> db_tries (m_db s0) r \<noteq> None
     | _ \<Rightarrow> True)"

fun undo_all :: "(bytes \<Rightarrow> h256) \<Rightarrow> state \<Rightarrow> change list \<Rightarrow> (address \<Rightarrow> account_view option) \<Rightarrow> address set \<Rightarrow>
    ((address \<Rightarrow> account_view option) \<times> address set) option" where
  "undo_all sha3 s0 [] V D = Some (V, D)"
| "undo_all sha3 s0 (c # cs) V D =
     (if undo_ok sha3 s0 c V D then undo_all sha3 s0 cs (undo_view sha3 (m_db s0) c V) (undo_dirty c D) else None)"

lemma update_update: "AList.update k v (AList.update k w al) = AList.update k v al"
  by (induction al) auto

lemma put_put [simp]: "put a x (put a y s) = put a x s"
  by (simp add: put_def update_update)

lemma undo_change_entry:
  assumes "map_of (m_cache s) (change_address c) = Some acc"
  shows "undo_change sha3 c s = (case c of
      Storage a k v \<Rightarrow> put a (acc_setStorage k v acc) s
    | StorageRoot a v \<Rightarrow> put a (setStorageRoot v acc) s
    | Balance a v \<Rightarrow> put a (acc_addBalance (0 - v) acc) s
    | Nonce a v \<Rightarrow> put a (acc_setNonce v acc) s
    | Create a \<Rightarrow> (put a acc s)\<lparr>m_cache := AList.delete a (m_cache (put a acc s))\<rparr>
    | Code a old \<Rightarrow> put a (acc_setCode sha3 old acc) s
    | Touch a \<Rightarrow> (put a (untouch acc) s)\<lparr>m_unchangedCacheEntries := m_unchangedCacheEntries s @ [a]\<rparr>)"
  using assms by (cases c) (simp_all add: undo_change_def on_entry_put Let_def)

lemma undo_create:
  assumes ok: "state_ok sha3 s" and none: "trie_at (m_state s) a = []"
  shows "step sha3 s (s\<lparr>m_cache := AList.delete a (m_cache s)\<rparr>) ((view sha3 s)(a := None)) (dirty_set s - {a}) []"
proof -
  let ?s = "s\<lparr>m_cache := AList.delete a (m_cache s)\<rparr>"
  have b: "base_view sha3 ?s = base_view sha3 s" by (rule base_view_cong) simp_all
  have "view sha3 ?s x = ((view sha3 s)(a := None)) x" for x
    using b none by (cases "x = a") (simp_all add: view_def delete_conv' base_view_def split: option.splits)
  moreover have "cache_inv sha3 ?s" "dirty_set ?s = dirty_set s - {a}"
    using ok b by (auto simp: state_ok_def cache_inv_def dirty_set_def delete_conv' distinct_delete)
  moreover have "trie_inv sha3 ?s = trie_inv sha3 s" by (rule trie_inv_cong) simp_all
  ultimately show ?thesis using ok by (auto simp: step_def same_tries_def state_ok_def absent_inv_def sizes_inv_def delete_conv')
qed

lemma undo_change_step:
  assumes ok: "state_ok sha3 s" and u: "undo_ok sha3 s c (view sha3 s) (dirty_set s)"
  shows "step sha3 s (undo_change sha3 c s) (undo_view sha3 (m_db s) c (view sha3 s)) (undo_dirty c (dirty_set s)) []"
proof -
  let ?a = "change_address c"
  obtain acc where acc: "map_of (m_cache s) ?a = Some acc" "isDirty acc" using u by (auto simp: undo_ok_def dirty_set_def)
  have aok: "account_ok sha3 (m_db s) acc" by (rule cached_ok [OF ok acc(1)])
  have view: "view sha3 s ?a = Some (view_of sha3 (m_db s) acc)" by (rule view_cached [OF acc(1)])
  have ins: "insert ?a (dirty_set s) = dirty_set s" using u by (auto simp: undo_ok_def)
  have rewrite: "step sha3 s (put ?a acc' s) ((view sha3 s)(?a \<mapsto> view_of sha3 (m_db s) acc')) (dirty_set s) []"
    if "account_ok sha3 (m_db s) acc'" "isDirty acc'" for acc'
    using put_step [OF ok cached_not_absent [OF ok acc(1)] that] ins by simp
  show ?thesis
  proof (cases c)
    case (Create a)
    have "step sha3 s (put a acc s) (view sha3 s) (dirty_set s) []"
      using put_quiet [OF ok _ aok refl refl] acc(1) Create by (simp add: quiet_step)
    moreover from this have "state_ok sha3 (put a acc s)" by (simp add: step_def)
    ultimately show ?thesis
      using undo_create [of sha3 "put a acc s" a] u Create undo_change_entry [OF acc(1), of sha3] step_trans
      by (fastforce simp: undo_ok_def undo_dirty_def step_def)
  next
    case (Touch a)
    let ?s = "put a (untouch acc) s"
    have vu: "view_of sha3 (m_db s) (untouch acc) = view_of sha3 (m_db s) acc" by (simp add: view_of_def untouch_def)
    have "state_ok sha3 ?s"
      using aok u view vu Touch cached_not_absent [OF ok acc(1)] by (intro put_ok [OF ok]) (simp_all add: untouch_def undo_ok_def)
    moreover have "view sha3 ?s = view sha3 s" using view vu Touch by (auto simp: view_put fun_eq_iff)
    moreover have "dirty_set ?s = dirty_set s - {a}" by (simp add: dirty_put isDirty_def untouch_def)
    ultimately have "step sha3 s ?s (view sha3 s) (dirty_set s - {a}) []" by (simp add: step_def same_tries_def)
    then show ?thesis
      using entries_quiet(1) [of sha3 ?s] Touch undo_change_entry [OF acc(1), of sha3]
      by (simp add: step_def quiet_def undo_dirty_def same_tries_def)
  next
    case (Code a cd)
    have "step sha3 s (put a (acc_setCode sha3 cd acc) s)
        ((view sha3 s)(a \<mapsto> view_of sha3 (m_db s) (acc_setCode sha3 cd acc))) (dirty_set s) []"
      using rewrite [of "acc_setCode sha3 cd acc"] setCode_account_ok [OF aok, of cd] u acc(2) Code
      by (simp add: undo_ok_def isDirty_def acc_setCode_def)
    moreover have "view_of sha3 (m_db s) (acc_setCode sha3 cd acc) =
        (view_of sha3 (m_db s) acc)\<lparr>v_codeHash := sha3 cd, v_code := cd\<rparr>"
      using setCode_account_ok [OF aok, of cd] u Code by (simp add: undo_ok_def view_of_def acc_setCode_def)
    ultimately show ?thesis using Code view undo_change_entry [OF acc(1), of sha3] by (simp add: undo_dirty_def)
  next
    case (StorageRoot a r)
    then show ?thesis
      using rewrite [of "setStorageRoot r acc"] aok u view undo_change_entry [OF acc(1), of sha3]
      by (simp add: undo_ok_def undo_dirty_def account_ops account_ok_def view_of_def)
  qed (use rewrite [of "acc_addBalance (0 - _) acc"] rewrite [of "acc_setStorage _ _ acc"] rewrite [of "acc_setNonce _ acc"]
      aok view undo_change_entry [OF acc(1), of sha3] in
      \<open>simp add: undo_dirty_def account_ops view_of_def update_conv'\<close>)+
qed

lemma undo_ok_cong: "m_state s' = m_state s \<Longrightarrow> m_db s' = m_db s \<Longrightarrow> undo_ok sha3 s' = undo_ok sha3 s"
  by (intro ext) (simp add: undo_ok_def base_view_cong [of s' s] split: change.split)

lemma undo_all_cong: "m_state s' = m_state s \<Longrightarrow> m_db s' = m_db s \<Longrightarrow> undo_all sha3 s' cs V D = undo_all sha3 s cs V D"
  by (induction cs arbitrary: V D) (simp_all add: undo_ok_cong [of s' s])

lemma undo_all_append:
  "undo_all sha3 s (cs @ ds) V D = (case undo_all sha3 s cs V D of None \<Rightarrow> None | Some (V', D') \<Rightarrow> undo_all sha3 s ds V' D')"
  by (induction cs arbitrary: V D) auto

text \<open>More accounts marked as modified do not hinder.\<close>

lemma undo_all_mono:
  "undo_all sha3 s cs V D = Some (V', D') \<Longrightarrow> D \<subseteq> E \<Longrightarrow> \<exists>E'. undo_all sha3 s cs V E = Some (V', E') \<and> D' \<subseteq> E'"
proof (induction cs arbitrary: V D E)
  case Nil
  then show ?case by simp
next
  case (Cons c cs)
  then have "undo_ok sha3 s c V E" by (auto simp: undo_ok_def split: if_splits)
  moreover have "undo_dirty c D \<subseteq> undo_dirty c E" using Cons.prems(2) by (auto simp: undo_dirty_def split: change.split)
  ultimately show ?case using Cons by (auto split: if_splits)
qed

lemma rollback_undoes:
  "state_ok sha3 s \<Longrightarrow> m_changeLog s = pre @ rev cs \<Longrightarrow> undo_all sha3 s cs (view sha3 s) (dirty_set s) = Some (V, D) \<Longrightarrow>
   \<exists>s'. rollback sha3 (length pre) s = Some s' \<and> state_ok sha3 s' \<and> view sha3 s' = V \<and> dirty_set s' = D \<and> same_tries s s' \<and>
     m_changeLog s' = pre"
proof (induction cs arbitrary: s)
  case Nil
  then show ?case by (simp add: rollback.simps [of sha3 "length pre" s] same_tries_def)
next
  case (Cons c cs)
  have uok: "undo_ok sha3 s c (view sha3 s) (dirty_set s)" using Cons.prems(3) by (auto split: if_splits)
  let ?t = "undo_change sha3 c s"
  let ?s = "?t\<lparr>m_changeLog := butlast (m_changeLog s)\<rparr>"
  have st: "step sha3 s ?t (undo_view sha3 (m_db s) c (view sha3 s)) (undo_dirty c (dirty_set s)) []"
    by (rule undo_change_step [OF Cons.prems(1) uok])
  have cong: "state_ok sha3 ?s = state_ok sha3 ?t" "view sha3 ?s = view sha3 ?t" "dirty_set ?s = dirty_set ?t"
    using state_ok_cong [of ?s ?t] by simp_all
  have e: "m_state ?s = m_state s" "m_db ?s = m_db s" using st by (auto simp: step_def same_tries_def)
  have "undo_all sha3 ?s cs (view sha3 ?s) (dirty_set ?s) = Some (V, D)"
    using Cons.prems(3) uok st cong undo_all_cong [OF e] by (simp add: step_def)
  moreover have "state_ok sha3 ?s" using st cong by (simp add: step_def)
  moreover have "m_changeLog ?s = pre @ rev cs" using Cons.prems(2) by (simp add: butlast_append)
  ultimately obtain s' where "rollback sha3 (length pre) ?s = Some s'" "state_ok sha3 s'" "view sha3 s' = V" "dirty_set s' = D"
    "same_tries ?s s'" "m_changeLog s' = pre"
    using Cons.IH [of ?s] by blast
  moreover have "rollback sha3 (length pre) s = rollback sha3 (length pre) ?s"
    using Cons.prems(2) by (subst rollback.simps) simp
  ultimately show ?case using st by (auto simp: step_def same_tries_def)
qed

text \<open>A transition whose log undoes it.\<close>

definition undoable :: "(bytes \<Rightarrow> h256) \<Rightarrow> state \<Rightarrow> state \<Rightarrow> bool" where
  "undoable sha3 s s' \<longleftrightarrow> state_ok sha3 s' \<and> same_tries s s' \<and>
     (\<exists>cs D. m_changeLog s' = m_changeLog s @ rev cs \<and> undo_all sha3 s cs (view sha3 s') (dirty_set s') = Some (view sha3 s, D) \<and>
        dirty_set s \<subseteq> D)"

lemma undoable_trans:
  assumes "undoable sha3 s t" "undoable sha3 t u"
  shows "undoable sha3 s u"
proof -
  obtain cs D where t: "m_changeLog t = m_changeLog s @ rev cs"
    "undo_all sha3 s cs (view sha3 t) (dirty_set t) = Some (view sha3 s, D)" "dirty_set s \<subseteq> D" "same_tries s t"
    using assms(1) by (auto simp: undoable_def)
  obtain ds E where u: "m_changeLog u = m_changeLog t @ rev ds" "same_tries t u" "state_ok sha3 u"
    "undo_all sha3 t ds (view sha3 u) (dirty_set u) = Some (view sha3 t, E)" "dirty_set t \<subseteq> E"
    using assms(2) by (auto simp: undoable_def)
  obtain F where F: "undo_all sha3 s cs (view sha3 t) E = Some (view sha3 s, F)" "D \<subseteq> F"
    using undo_all_mono [OF t(2) u(5)] by blast
  have "undo_all sha3 s (ds @ cs) (view sha3 u) (dirty_set u) = Some (view sha3 s, F)"
    using u(4) F(1) undo_all_cong [of t s sha3 ds] t(4) by (simp add: undo_all_append same_tries_def)
  moreover have "m_changeLog u = m_changeLog s @ rev (ds @ cs)" "same_tries s u" "dirty_set s \<subseteq> F"
    using t u F(2) by (auto simp: same_tries_def)
  ultimately show ?thesis using u(3) unfolding undoable_def by blast
qed

lemma quiet_undoable: "quiet sha3 s s' \<Longrightarrow> undoable sha3 s s'"
  unfolding undoable_def quiet_def by (intro conjI exI [of _ "[]"] exI [of _ "dirty_set s"]) auto

lemma step_undoable:
  assumes "step sha3 s s' V D (rev cs)" "undo_all sha3 s cs V D = Some (view sha3 s, E)" "dirty_set s \<subseteq> E"
  shows "undoable sha3 s s'"
  using assms unfolding undoable_def step_def by auto

theorem undoable_rollback:
  assumes "undoable sha3 s s'"
  shows "\<exists>s''. rollback sha3 (savepoint s) s' = Some s'' \<and> state_ok sha3 s'' \<and> view sha3 s'' = view sha3 s \<and>
    same_tries s s'' \<and> m_changeLog s'' = m_changeLog s \<and> dirty_set s \<subseteq> dirty_set s''"
proof -
  obtain cs D where u: "m_changeLog s' = m_changeLog s @ rev cs" "state_ok sha3 s'" "same_tries s s'"
    "undo_all sha3 s cs (view sha3 s') (dirty_set s') = Some (view sha3 s, D)" "dirty_set s \<subseteq> D"
    using assms by (auto simp: undoable_def)
  have "undo_all sha3 s' cs (view sha3 s') (dirty_set s') = Some (view sha3 s, D)"
    using u(4) undo_all_cong [of s' s sha3 cs] u(3) by (simp add: same_tries_def)
  then show ?thesis
    using rollback_undoes [OF u(2) u(1)] u(3,5) by (auto simp: savepoint_def same_tries_def)
qed

section \<open>Every update can be undone\<close>

lemma clean_base: "state_ok sha3 s \<Longrightarrow> a \<notin> dirty_set s \<Longrightarrow> view sha3 s a = base_view sha3 s a"
  by (auto simp: view_def state_ok_def cache_inv_def dirty_set_def split: option.splits)

lemma create_undo:
  assumes "state_ok sha3 s" "view sha3 s a = None"
  shows "undo_all sha3 s [Create a] ((view sha3 s)(a \<mapsto> v)) (insert a (dirty_set s)) = Some (view sha3 s, dirty_set s)"
  using absent_base [OF assms] assms(2) by (auto simp: undo_ok_def undo_dirty_def)

lemma create_undoable:
  "state_ok sha3 s \<Longrightarrow> view sha3 s a = None \<Longrightarrow> step sha3 s s' ((view sha3 s)(a \<mapsto> v)) (insert a (dirty_set s)) [Create a] \<Longrightarrow> undoable sha3 s s'"
  using create_undo [of sha3 s a v] by (intro step_undoable [where cs = "[Create a]"]) auto

lemma nonce_undoable:
  assumes "view sha3 s a = Some v" "step sha3 s s' ((view sha3 s)(a \<mapsto> v\<lparr>v_nonce := n\<rparr>)) (insert a (dirty_set s)) [Nonce a (v_nonce v)]"
  shows "undoable sha3 s s'"
proof (rule step_undoable [where cs = "[Nonce a (v_nonce v)]"])
  show "undo_all sha3 s [Nonce a (v_nonce v)] ((view sha3 s)(a \<mapsto> v\<lparr>v_nonce := n\<rparr>)) (insert a (dirty_set s)) =
      Some (view sha3 s, insert a (dirty_set s))"
    using assms(1) by (auto simp: undo_ok_def undo_dirty_def)
qed (use assms(2) in auto)

lemma nonce_ops_undoable:
  assumes "state_ok sha3 s"
  shows "undoable sha3 s (snd (incNonce sha3 a s))" "undoable sha3 s (snd (setNonce sha3 a n s))"
    "undoable sha3 s (snd (createContract sha3 a s))"
proof -
  note n = nonce_updates [OF assms, of a] and c = createContract_spec [OF assms, of a]
  have "\<exists>s'. incNonce sha3 a s = (fst (incNonce sha3 a s), s') \<and> undoable sha3 s s'"
    using n(1,3,5) nonce_undoable [of sha3 s a] create_undoable [OF assms, of a] quiet_undoable [of sha3 s]
    by (cases "view sha3 s a"; cases "started s") (metis fst_conv)+
  then show "undoable sha3 s (snd (incNonce sha3 a s))" by (metis snd_conv)
  have "\<exists>s'. setNonce sha3 a n s = (Inr (), s') \<and> undoable sha3 s s'"
    using n(2,4) nonce_undoable [of sha3 s a] create_undoable [OF assms, of a] by (cases "view sha3 s a") metis+
  then show "undoable sha3 s (snd (setNonce sha3 a n s))" by (metis snd_conv)
  have "\<exists>s'. createContract sha3 a s = (fst (createContract sha3 a s), s') \<and> undoable sha3 s s'"
    using c create_undoable [OF assms, of a] quiet_undoable [of sha3 s]
    by (cases "view sha3 s a = None"; cases "started s") (metis fst_conv)+
  then show "undoable sha3 s (snd (createContract sha3 a s))" by (metis snd_conv)
qed

lemma balance_undo:
  assumes "V a = Some v" "a \<in> D"
  shows "undo_all sha3 s (balance_log a x) (V(a \<mapsto> v\<lparr>v_balance := v_balance v + x\<rparr>)) D = Some (V, D)"
  using assms by (auto simp: balance_log_def undo_ok_def undo_dirty_def)

lemma addBalance_undoable:
  assumes ok: "state_ok sha3 s"
  shows "undoable sha3 s (snd (addBalance sha3 a x s))"
proof (cases "view sha3 s a")
  case None
  show ?thesis
  proof (cases "started s")
    case True
    let ?V = "(view sha3 s)(a \<mapsto> fresh_view sha3 (m_accountStartNonce s) x)"
    obtain s' where s': "addBalance sha3 a x s = (Inr (), s')" "step sha3 s s' ?V (insert a (dirty_set s)) (Create a # balance_log a x)"
      using addBalance_absent(1) [OF ok None True] by blast
    have "undo_all sha3 s (balance_log a x) ?V (insert a (dirty_set s)) =
        Some ((view sha3 s)(a \<mapsto> fresh_view sha3 (m_accountStartNonce s) 0), insert a (dirty_set s))"
      using balance_undo [of "(view sha3 s)(a \<mapsto> fresh_view sha3 (m_accountStartNonce s) 0)" a
          "fresh_view sha3 (m_accountStartNonce s) 0" "insert a (dirty_set s)" sha3 s x] by (simp add: fresh_view_def)
    then have "undo_all sha3 s (balance_log a x @ [Create a]) ?V (insert a (dirty_set s)) = Some (view sha3 s, dirty_set s)"
      using create_undo [OF ok None] by (simp add: undo_all_append)
    then have "undoable sha3 s s'"
      using s'(2) by (intro step_undoable [where cs = "balance_log a x @ [Create a]"]) (auto simp: balance_log_def split: if_splits)
    then show ?thesis using s'(1) by simp
  next
    case False
    then obtain s' where "addBalance sha3 a x s = (Inl InvalidAccountStartNonceInState, s')" "quiet sha3 s s'"
      using addBalance_absent(2) [OF ok None] by blast
    then show ?thesis using quiet_undoable [of sha3 s s'] by simp
  qed
next
  case (Some v)
  let ?t = "if a \<notin> dirty_set s \<and> view_empty sha3 v then [Touch a] else []"
  let ?V = "(view sha3 s)(a \<mapsto> v\<lparr>v_balance := v_balance v + x\<rparr>)"
  obtain s' where s': "addBalance sha3 a x s = (Inr (), s')" "step sha3 s s' ?V (insert a (dirty_set s)) (?t @ balance_log a x)"
    using addBalance_found [OF ok Some] by blast
  have "undo_all sha3 s (balance_log a x) ?V (insert a (dirty_set s)) = Some (view sha3 s, insert a (dirty_set s))"
    using balance_undo [of "view sha3 s" a v "insert a (dirty_set s)" sha3 s x] Some by simp
  then have "\<exists>E. undo_all sha3 s (balance_log a x @ ?t) ?V (insert a (dirty_set s)) = Some (view sha3 s, E) \<and> dirty_set s \<subseteq> E"
    using clean_base [OF ok, of a] by (auto simp: undo_all_append undo_ok_def undo_dirty_def)
  then obtain E where "undo_all sha3 s (balance_log a x @ ?t) ?V (insert a (dirty_set s)) = Some (view sha3 s, E)" "dirty_set s \<subseteq> E"
    by blast
  then have "undoable sha3 s s'"
    using s'(2) by (intro step_undoable [where cs = "balance_log a x @ ?t"]) (auto simp: balance_log_def split: if_splits)
  then show ?thesis using s'(1) by simp
qed

lemma balance_ops_undoable:
  assumes ok: "state_ok sha3 s"
  shows "undoable sha3 s (snd (subBalance sha3 a x s))" "undoable sha3 s (snd (setBalance sha3 a x s))"
proof -
  obtain t where t: "find_account sha3 a s = (Inr (map_of (m_cache t) a), t)" "quiet sha3 s t"
    by (rule find_account_spec [OF ok])
  have "subBalance sha3 a x s \<in> {(Inr (), s), (Inl NotEnoughCash, t), addBalance sha3 a (0 - x) t}"
    using t(1) by (auto simp: subBalance_def sret_def sthrow_def split: option.splits)
  then show "undoable sha3 s (snd (subBalance sha3 a x s))"
    using quiet_undoable [OF quiet_refl [OF ok]] quiet_undoable [OF t(2)]
      undoable_trans [OF quiet_undoable [OF t(2)] addBalance_undoable [OF quiet_ok [OF t(2)]]] by auto
  obtain u y where "setBalance sha3 a x s = addBalance sha3 a y u" "quiet sha3 s u"
    using setBalance_spec [OF ok] by blast
  then show "undoable sha3 s (snd (setBalance sha3 a x s))"
    using undoable_trans [OF quiet_undoable addBalance_undoable [OF quiet_ok]] by metis
qed

lemma setStorage_undoable:
  assumes "state_ok sha3 s" "view sha3 s a \<noteq> None"
  shows "undoable sha3 s (snd (setStorage sha3 a k x s))"
proof -
  obtain v s' where v: "view sha3 s a = Some v" and s': "setStorage sha3 a k x s = (Inr (), s')"
      "step sha3 s s' ((view sha3 s)(a \<mapsto> v\<lparr>v_storage := (v_storage v)(k := x)\<rparr>)) (insert a (dirty_set s)) [Storage a k (v_storage v k)]"
    using assms setStorage_spec [OF assms(1)] by blast
  have "undo_all sha3 s [Storage a k (v_storage v k)] ((view sha3 s)(a \<mapsto> v\<lparr>v_storage := (v_storage v)(k := x)\<rparr>)) (insert a (dirty_set s))
      = Some (view sha3 s, insert a (dirty_set s))"
    using v by (auto simp: undo_ok_def undo_dirty_def)
  then have "undoable sha3 s s'"
    using s'(2) by (intro step_undoable [where cs = "[Storage a k (v_storage v k)]"]) auto
  then show ?thesis using s'(1) by simp
qed

lemma view_code_hash:
  assumes "state_ok sha3 s" "view sha3 s a = Some v"
  shows "sha3 (v_code v) = v_codeHash v" "sha3 (v_code v) = EmptySHA3 sha3 \<longrightarrow> v_code v = []"
proof -
  obtain acc where acc: "v = view_of sha3 (m_db s) acc" "account_ok sha3 (m_db s) acc"
  proof (cases "map_of (m_cache s) a")
    case None
    then show thesis using assms that
      by (auto simp: view_def base_view_def state_ok_def trie_inv_def split: if_splits sum.splits)
  next
    case (Some acc)
    then show thesis using assms that [of acc] cached_ok [OF assms(1) Some] view_cached [OF Some, of sha3] by simp
  qed
  then show "sha3 (v_code v) = v_codeHash v" "sha3 (v_code v) = EmptySHA3 sha3 \<longrightarrow> v_code v = []"
    by (auto simp: account_ok_def account_code_def EmptySHA3_def)
qed

lemma setCode_undoable:
  assumes "state_ok sha3 s" "a \<in> dirty_set s" "sha3 cd = EmptySHA3 sha3 \<longrightarrow> cd = []"
  shows "undoable sha3 s (snd (setCode sha3 a cd s))"
proof -
  obtain v where v: "view sha3 s a = Some v" using assms(2) by (auto simp: dirty_set_def view_def)
  obtain s' where s': "setCode sha3 a cd s = (Inr (), s')"
      "step sha3 s s' ((view sha3 s)(a \<mapsto> v\<lparr>v_codeHash := sha3 cd, v_code := cd\<rparr>)) (dirty_set s) [Code a (v_code v)]"
    using setCode_spec [OF assms(1) v assms(2)] assms(3) by blast
  have "undo_all sha3 s [Code a (v_code v)] ((view sha3 s)(a \<mapsto> v\<lparr>v_codeHash := sha3 cd, v_code := cd\<rparr>)) (dirty_set s)
      = Some (view sha3 s, dirty_set s)"
    using v view_code_hash [OF assms(1) v] assms(2) by (auto simp: undo_ok_def undo_dirty_def)
  then have "undoable sha3 s s'"
    using s'(2) by (intro step_undoable [where cs = "[Code a (v_code v)]"]) auto
  then show ?thesis using s'(1) by simp
qed

lemma clearStorage_undoable:
  assumes ok: "state_ok sha3 s" and acc: "map_of (m_cache s) a = Some acc" "m_storageRoot acc = EmptyTrie sha3 \<or> m_storageOverlay acc = []"
  shows "undoable sha3 s (snd (clearStorage sha3 a s))"
proof -
  have aok: "account_ok sha3 (m_db s) acc" by (rule cached_ok [OF ok acc(1)])
  have q: "quiet sha3 s (put a acc s)" by (rule put_quiet [OF ok acc(1) aok refl refl])
  let ?t = "put a acc s"
  show ?thesis
  proof (cases "m_storageRoot acc = EmptyTrie sha3")
    case True
    then have "clearStorage sha3 a s = (Inr (), ?t)"
      using acc(1) aok by (simp add: clearStorage_def smodify_def sget_def sret_def on_entry_put cache_at_def account_ok_def)
    then show ?thesis using quiet_undoable [OF q] by simp
  next
    case False
    let ?r = "m_storageRoot acc" and ?acc = "acc_clearStorage sha3 acc" and ?v = "view_of sha3 (m_db s) acc"
    obtain u where u: "log_change (StorageRoot a ?r) ?t = (Inr (), u)"
      "step sha3 ?t u (view sha3 ?t) (dirty_set ?t) [StorageRoot a ?r]" "m_cache u = m_cache ?t"
      by (rule log_change_step [OF quiet_ok [OF q]])
    have oku: "state_ok sha3 u" "m_db u = m_db s" using u(2) by (auto simp: step_def same_tries_def)
    have "account_ok sha3 (m_db u) ?acc" "isDirty ?acc"
      using aok ok oku by (auto simp: account_ops account_ok_def state_ok_def trie_inv_def)
    then have w: "step sha3 u (put a ?acc u) ((view sha3 u)(a \<mapsto> view_of sha3 (m_db u) ?acc)) (insert a (dirty_set u)) []"
      using cached_not_absent [OF oku(1), of a acc] u(3) by (intro put_step [OF oku(1)]) simp_all
    have "clearStorage sha3 a s = (Inr (), put a ?acc u)"
      using acc(1) aok False u(1,3) by (simp add: clearStorage_def smodify_def sget_def sret_def on_entry_put cache_at_def account_ok_def)
    moreover have "step sha3 s (put a ?acc u) ((view sha3 s)(a \<mapsto> view_of sha3 (m_db u) ?acc)) (insert a (dirty_set s)) [StorageRoot a ?r]"
      using step_after_quiet [OF q step_trans [OF u(2) w]] quietD [OF q] u(2) by (simp add: step_def)
    moreover have "(view_of sha3 (m_db u) ?acc)\<lparr>v_storage := base_storage (m_db s) ?r\<rparr> = ?v"
      using acc(2) False oku by (simp add: view_of_def account_ops)
    then have "undo_all sha3 s [StorageRoot a ?r] ((view sha3 s)(a \<mapsto> view_of sha3 (m_db u) ?acc)) (insert a (dirty_set s)) =
        Some (view sha3 s, insert a (dirty_set s))"
      using aok view_cached [OF acc(1), of sha3] by (auto simp: undo_ok_def undo_dirty_def account_ok_def fun_eq_iff)
    ultimately show ?thesis
      using step_undoable [where cs = "[StorageRoot a ?r]"] by fastforce
  qed
qed

section \<open>Sequences of operations\<close>

text \<open>
  The operations that execution performs between a savepoint and a rollback. \<open>Attempt\<close> is a nested frame: it takes its own
  savepoint and rolls back to it when one of its operations throws.
\<close>

datatype state_op =
    IncNonce address
  | SetNonce address u256
  | AddBalance address u256
  | SubBalance address u256
  | SetBalance address u256
  | CreateContract address
  | SetStorage address u256 u256
  | ClearStorage address
  | SetCode address bytes
  | ReadStorage address u256
  | ReadCode address
  | Attempt "state_op list"

fun run_op :: "(bytes \<Rightarrow> h256) \<Rightarrow> state_op \<Rightarrow> unit op"
and run_ops :: "(bytes \<Rightarrow> h256) \<Rightarrow> state_op list \<Rightarrow> unit op" where
  "run_op sha3 (IncNonce a) s = incNonce sha3 a s"
| "run_op sha3 (SetNonce a n) s = setNonce sha3 a n s"
| "run_op sha3 (AddBalance a x) s = addBalance sha3 a x s"
| "run_op sha3 (SubBalance a x) s = subBalance sha3 a x s"
| "run_op sha3 (SetBalance a x) s = setBalance sha3 a x s"
| "run_op sha3 (CreateContract a) s = createContract sha3 a s"
| "run_op sha3 (SetStorage a k x) s = setStorage sha3 a k x s"
| "run_op sha3 (ClearStorage a) s = clearStorage sha3 a s"
| "run_op sha3 (SetCode a cd) s = setCode sha3 a cd s"
| "run_op sha3 (ReadStorage a k) s = sbind (storage sha3 a k) (\<lambda>_. sret ()) s"
| "run_op sha3 (ReadCode a) s = sbind (code sha3 a) (\<lambda>_. sret ()) s"
| "run_op sha3 (Attempt ops) s =
     (case run_ops sha3 ops s of
        (Inr _, s') \<Rightarrow> (Inr (), s')
      | (Inl _, s') \<Rightarrow> (case rollback sha3 (savepoint s) s' of Some s'' \<Rightarrow> (Inr (), s'') | None \<Rightarrow> (Inl AssertionFailed, s')))"
| "run_ops sha3 [] s = (Inr (), s)"
| "run_ops sha3 (op # ops) s = (case run_op sha3 op s of (Inl e, s') \<Rightarrow> (Inl e, s') | (Inr _, s') \<Rightarrow> run_ops sha3 ops s')"

text \<open>
  Where the code relies on its caller: storage is written only for accounts that exist, code is set only on accounts that have been modified
  and does not collide with the empty code, storage is cleared only for a cached account without uncommitted values.
\<close>

fun op_ok :: "(bytes \<Rightarrow> h256) \<Rightarrow> state \<Rightarrow> state_op \<Rightarrow> bool"
and ops_ok :: "(bytes \<Rightarrow> h256) \<Rightarrow> state \<Rightarrow> state_op list \<Rightarrow> bool" where
  "op_ok sha3 s (SetStorage a k x) = (view sha3 s a \<noteq> None)"
| "op_ok sha3 s (SetCode a cd) =
     ((case map_of (m_cache s) a of None \<Rightarrow> False | Some acc \<Rightarrow> isDirty acc) \<and> (sha3 cd = EmptySHA3 sha3 \<longrightarrow> cd = []))"
| "op_ok sha3 s (ClearStorage a) =
     (case map_of (m_cache s) a of None \<Rightarrow> False | Some acc \<Rightarrow> m_storageRoot acc = EmptyTrie sha3 \<or> m_storageOverlay acc = [])"
| "op_ok sha3 s (Attempt ops) = ops_ok sha3 s ops"
| "op_ok sha3 s _ = True"
| "ops_ok sha3 s [] = True"
| "ops_ok sha3 s (op # ops) =
     (op_ok sha3 s op \<and> (case run_op sha3 op s of (Inl _, _) \<Rightarrow> True | (Inr _, s') \<Rightarrow> ops_ok sha3 s' ops))"

lemma undoable_ok: "undoable sha3 s s' \<Longrightarrow> state_ok sha3 s'"
  by (simp add: undoable_def)

lemma run_undoable:
  "state_ok sha3 s \<Longrightarrow> op_ok sha3 s op \<Longrightarrow> undoable sha3 s (snd (run_op sha3 op s))"
  "state_ok sha3 s \<Longrightarrow> ops_ok sha3 s ops \<Longrightarrow> undoable sha3 s (snd (run_ops sha3 ops s))"
proof (induction sha3 op s and sha3 ops s rule: run_op_run_ops.induct)
  case (10 sha3 a k s)
  then show ?case using storage_spec [OF "10.prems"(1), of a k] quiet_undoable by (fastforce simp: sret_def)
next
  case (11 sha3 a s)
  then show ?case using code_spec [OF "11.prems"(1), of a] quiet_undoable by (fastforce simp: sret_def)
next
  case (12 sha3 ops s)
  then have u: "undoable sha3 s (snd (run_ops sha3 ops s))" by simp
  then obtain s'' where s'': "rollback sha3 (savepoint s) (snd (run_ops sha3 ops s)) = Some s''" "state_ok sha3 s''"
    "view sha3 s'' = view sha3 s" "same_tries s s''" "m_changeLog s'' = m_changeLog s" "dirty_set s \<subseteq> dirty_set s''"
    using undoable_rollback by blast
  then have "undoable sha3 s s''" unfolding undoable_def by (intro conjI exI [of _ "[]"] exI [of _ "dirty_set s''"]) auto
  then show ?case using u s'' by (cases "run_ops sha3 ops s") (auto split: sum.splits)
next
  case (14 sha3 op ops s)
  then have u: "undoable sha3 s (snd (run_op sha3 op s))" by simp
  show ?case
  proof (cases "run_op sha3 op s")
    case (Pair r t)
    then show ?thesis using u 14 undoable_trans [OF u] undoable_ok [OF u] by (cases r) auto
  qed
qed (auto simp: nonce_ops_undoable balance_ops_undoable addBalance_undoable setStorage_undoable setCode_undoable clearStorage_undoable
    dirty_set_def quiet_undoable quiet_refl split: option.splits)

section \<open>Properties\<close>

lemma State_empty_ok: "EmptyTrie sha3 \<noteq> 0 \<Longrightarrow> state_ok sha3 (State_empty sha3 n g)"
  by (auto simp: State_empty_def state_ok_def cache_inv_def trie_inv_def absent_inv_def sizes_inv_def trie_at_def db_trie_def
      stored_value_def)




lemmas state_eval = run_op.simps run_ops.simps addBalance_def subBalance_def setStorage_def storage_def createAccount_def addressInUse_def
  find_account_def requireAccountStartNonce_def sbind_def sret_def sget_def smodify_def sthrow_def log_change_def on_cached_def on_entry_def
  cache_at_def trie_at_def State_empty_def Account_endowed_def Account_dead_def EmptySHA3_def EmptyTrie_def Invalid256_def
  account_ops db_trie_def stored_value_def


text \<open>\<open>writes\<close>: an update succeeds, keeps the state well-formed, changes the view of one account, and marks this account as modified, so that it is neither evicted nor left out by
  \<open>commit\<close>.\<close>

definition writes :: "(bytes \<Rightarrow> h256) \<Rightarrow> state \<Rightarrow> unit op \<Rightarrow> address \<Rightarrow> account_view \<Rightarrow> bool" where
  "writes sha3 s m a v \<longleftrightarrow> (\<exists>s'. m s = (Inr (), s') \<and> state_ok sha3 s' \<and> view sha3 s' = (view sha3 s)(a \<mapsto> v) \<and>
     dirty_set s' = insert a (dirty_set s) \<and> same_tries s s')"

lemma writesI: "m s = (Inr (), s') \<Longrightarrow> step sha3 s s' ((view sha3 s)(a \<mapsto> v)) (insert a (dirty_set s)) cs \<Longrightarrow> writes sha3 s m a v"
  by (auto simp: writes_def step_def)

lemma setBalance_writes:
  assumes ok: "state_ok sha3 s" and v: "view sha3 s a = Some v"
  shows "writes sha3 s (setBalance sha3 a x) a (v\<lparr>v_balance := x\<rparr>)"
proof -
  obtain t where t: "setBalance sha3 a x s = addBalance sha3 a (x - v_balance v) t" "quiet sha3 s t"
    using setBalance_spec [OF ok, of a x] v by auto
  obtain s' where s': "addBalance sha3 a (x - v_balance v) t = (Inr (), s')"
    "step sha3 t s' ((view sha3 t)(a \<mapsto> v\<lparr>v_balance := x\<rparr>)) (insert a (dirty_set t))
      ((if a \<notin> dirty_set t \<and> view_empty sha3 v then [Touch a] else []) @ balance_log a (x - v_balance v))"
    using addBalance_found [OF quiet_ok [OF t(2)], of a v "x - v_balance v"] quietD [OF t(2)] v by auto
  show ?thesis
    using step_after_quiet [OF t(2) s'(2)] quietD [OF t(2)] t(1) s'(1) by (intro writesI [where s' = s']) simp_all
qed

text \<open>(C27) Every update does what it says and nothing else: on a well-formed state, for an existing account, whether it is modified or not, cached or not, \<open>incNonce\<close>, \<open>setNonce\<close>, \<open>addBalance\<close>,
  \<open>setBalance\<close> and \<open>setStorage\<close> succeed, change that one component of that one account (modulo \<open>2 ^ 256\<close>), mark it as modified, leave every other account and the tries alone and keep the
  state well-formed. So does \<open>setCode\<close> for an account that is already marked as modified; on another one it would leave the mark out.\<close>

theorem state_updates_refine:
  assumes ok: "state_ok sha3 s" and v: "view sha3 s a = Some v"
  shows "writes sha3 s (incNonce sha3 a) a (v\<lparr>v_nonce := v_nonce v + 1\<rparr>) \<and>
    writes sha3 s (setNonce sha3 a n) a (v\<lparr>v_nonce := n\<rparr>) \<and>
    writes sha3 s (addBalance sha3 a x) a (v\<lparr>v_balance := v_balance v + x\<rparr>) \<and>
    writes sha3 s (setBalance sha3 a x) a (v\<lparr>v_balance := x\<rparr>) \<and>
    writes sha3 s (setStorage sha3 a k x) a (v\<lparr>v_storage := (v_storage v)(k := x)\<rparr>) \<and>
    (a \<in> dirty_set s \<and> (sha3 cd = EmptySHA3 sha3 \<longrightarrow> cd = []) \<longrightarrow> writes sha3 s (setCode sha3 a cd) a (v\<lparr>v_codeHash := sha3 cd, v_code := cd\<rparr>))"
proof (intro conjI impI; (elim conjE)?)
  assume "a \<in> dirty_set s" "sha3 cd = EmptySHA3 sha3 \<longrightarrow> cd = []"
  then show "writes sha3 s (setCode sha3 a cd) a (v\<lparr>v_codeHash := sha3 cd, v_code := cd\<rparr>)"
    using setCode_spec [OF ok v, of cd] by (metis insert_absorb writesI)
qed (use nonce_updates(1,2) [OF ok v] addBalance_found [OF ok v, of x] setBalance_writes [OF ok v, of x] setStorage_spec [OF ok v, of k x] in \<open>blast intro: writesI\<close>)+

theorem state_updates_refine_witness:
  "let sha3 = (\<lambda>b. 1 + of_nat (length b)); s = snd (addBalance sha3 7 5 (State_empty sha3 0 (\<lambda>i. i))) in
   writes sha3 s (setStorage sha3 7 2 9) 7 ((fresh_view sha3 0 5)\<lparr>v_storage := (\<lambda>_. 0)(2 := 9)\<rparr>)"
proof -
  define sha3 :: "bytes \<Rightarrow> h256" where "sha3 = (\<lambda>b. 1 + of_nat (length b))"
  let ?s0 = "State_empty sha3 0 (\<lambda>i. i)"
  have ok0: "state_ok sha3 ?s0" by (rule State_empty_ok) (simp add: EmptyTrie_def sha3_def)
  have none: "view sha3 ?s0 7 = None" by (simp add: State_empty_def view_def base_view_def trie_at_def)
  have "started ?s0" by (simp add: started_def State_empty_def Invalid256_def)
  then obtain s' where s': "addBalance sha3 7 5 ?s0 = (Inr (), s')"
    "step sha3 ?s0 s' ((view sha3 ?s0)(7 \<mapsto> fresh_view sha3 0 5)) (insert 7 (dirty_set ?s0)) (Create 7 # balance_log 7 5)"
    using addBalance_absent(1) [OF ok0 none, of 5] by (auto simp: State_empty_def)
  then have "state_ok sha3 s'" "view sha3 s' 7 = Some (fresh_view sha3 0 5)" by (auto simp: step_def)
  from state_updates_refine [OF this, where cd = "[]" and k = 2 and x = 9] show ?thesis
    using s'(1) by (simp add: Let_def sha3_def [symmetric] fresh_view_def)
qed

definition balance_of :: "(bytes \<Rightarrow> h256) \<Rightarrow> state \<Rightarrow> address \<Rightarrow> u256" where
  "balance_of sha3 s a = (case view sha3 s a of Some v \<Rightarrow> v_balance v | None \<Rightarrow> 0)"

lemma subBalance_moves:
  assumes ok: "state_ok sha3 s" and "amount = 0 \<or> view sha3 s a \<noteq> None \<and> amount \<le> balance_of sha3 s a"
  shows "\<exists>s'. subBalance sha3 a amount s = (Inr (), s') \<and> state_ok sha3 s' \<and> same_tries s s' \<and>
    balance_of sha3 s' = (balance_of sha3 s)(a := balance_of sha3 s a - amount) \<and> (\<forall>b. b \<noteq> a \<longrightarrow> view sha3 s' b = view sha3 s b)"
proof (cases "amount = 0")
  case True
  then show ?thesis using subBalance_spec(1) [OF ok True] ok by (auto simp: same_tries_def balance_of_def)
next
  case False
  then obtain v where v: "view sha3 s a = Some v" "amount \<le> v_balance v" using assms(2) by (auto simp: balance_of_def)
  then show ?thesis
    using subBalance_spec(2) [OF ok False v] by (auto simp: step_def balance_of_def fun_eq_iff)
qed

lemma addBalance_moves:
  assumes ok: "state_ok sha3 s" and "started s"
  shows "\<exists>s'. addBalance sha3 a amount s = (Inr (), s') \<and> state_ok sha3 s' \<and> same_tries s s' \<and>
    balance_of sha3 s' = (balance_of sha3 s)(a := balance_of sha3 s a + amount) \<and> (\<forall>b. b \<noteq> a \<longrightarrow> view sha3 s' b = view sha3 s b)"
proof (cases "view sha3 s a")
  case None
  then show ?thesis
    using addBalance_absent(1) [OF ok None assms(2), of amount] by (auto simp: step_def balance_of_def fun_eq_iff fresh_view_def)
next
  case (Some v)
  then show ?thesis
    using addBalance_found [OF ok Some, of amount] by (auto simp: step_def balance_of_def fun_eq_iff)
qed

text \<open>(C26) A transfer moves value and creates none. On a well-formed state \<open>transferBalance\<close> either throws \<open>NotEnoughCash\<close>, exactly when the amount is positive and the
  sender is absent or has less, and then nothing observable has changed; or it succeeds, the balance of the sender has decreased and that of the receiver has increased by the amount,
  a transfer to oneself changes no balance, and no other account is affected.\<close>

theorem transfer_conserves:
  assumes ok: "state_ok sha3 s" and "started s"
  shows "if amount = 0 \<or> view sha3 s src \<noteq> None \<and> amount \<le> balance_of sha3 s src
    then \<exists>s'. transferBalance sha3 src dst amount s = (Inr (), s') \<and> state_ok sha3 s' \<and>
      balance_of sha3 s' = (if src = dst then balance_of sha3 s
        else (balance_of sha3 s)(src := balance_of sha3 s src - amount, dst := balance_of sha3 s dst + amount)) \<and>
      (\<forall>b. b \<noteq> src \<and> b \<noteq> dst \<longrightarrow> view sha3 s' b = view sha3 s b)
    else \<exists>s'. transferBalance sha3 src dst amount s = (Inl NotEnoughCash, s') \<and> quiet sha3 s s'"
proof (cases "amount = 0 \<or> view sha3 s src \<noteq> None \<and> amount \<le> balance_of sha3 s src")
  case True
  then obtain t where t: "subBalance sha3 src amount s = (Inr (), t)" "state_ok sha3 t" "same_tries s t"
    "balance_of sha3 t = (balance_of sha3 s)(src := balance_of sha3 s src - amount)" "\<forall>b. b \<noteq> src \<longrightarrow> view sha3 t b = view sha3 s b"
    using subBalance_moves [OF ok] by blast
  have "started t" using t(3) assms(2) by (simp add: same_tries_def started_def)
  then obtain u where u: "addBalance sha3 dst amount t = (Inr (), u)" "state_ok sha3 u"
    "balance_of sha3 u = (balance_of sha3 t)(dst := balance_of sha3 t dst + amount)" "\<forall>b. b \<noteq> dst \<longrightarrow> view sha3 u b = view sha3 t b"
    using addBalance_moves [OF t(2)] by blast
  have "transferBalance sha3 src dst amount s = (Inr (), u)" using t(1) u(1) by (simp add: transferBalance_def)
  moreover have "balance_of sha3 u = (if src = dst then balance_of sha3 s
      else (balance_of sha3 s)(src := balance_of sha3 s src - amount, dst := balance_of sha3 s dst + amount))"
    using u(3) t(4) by (auto simp: fun_eq_iff)
  ultimately show ?thesis using True u(2,4) t(5) by simp
next
  case False
  have "\<exists>s'. subBalance sha3 src amount s = (Inl NotEnoughCash, s') \<and> quiet sha3 s s'"
    using False by (intro subBalance_spec(3) [OF ok]) (auto simp: balance_of_def split: option.splits)
  then show ?thesis using False by (auto simp: transferBalance_def)
qed

theorem transfer_conserves_witness:
  "let sha3 = (\<lambda>_. 1); s = State_empty sha3 0 (\<lambda>i. i) in \<exists>s'. transferBalance sha3 7 8 5 s = (Inl NotEnoughCash, s') \<and> quiet sha3 s s'"
proof -
  have "state_ok (\<lambda>_. 1) (State_empty (\<lambda>_. 1) 0 (\<lambda>i. i))" by (rule State_empty_ok) (simp add: EmptyTrie_def)
  from transfer_conserves [OF this, of 5 7 8] show ?thesis
    by (simp add: Let_def view_def base_view_def State_empty_def trie_at_def started_def Invalid256_def)
qed

end
