(* ===== verification/StateCommit.thy ===== *)
theory StateCommit
  imports StateUndo
begin

text \<open>
  Committing the state: the stored form of an account reads back, the storage overlay is written into the storage trie, and after
  \<open>commit\<close> the tries alone say about every account what cache and tries said before.
\<close>

section \<open>The stored form of an account\<close>

definition account_item :: "u256 \<Rightarrow> u256 \<Rightarrow> h256 \<Rightarrow> h256 \<Rightarrow> item list" where
  "account_item n b r h = [Data (toCompactBigEndian (unat n) 0), Data (toCompactBigEndian (unat b) 0),
     Data (hash_bytes r), Data (hash_bytes h)]"

lemma length_hash_bytes [simp]: "length (hash_bytes h) = 32"
  by (simp add: hash_bytes_def)

lemma length_enc_short: "length bs \<le> 32 \<Longrightarrow> length (enc (Data bs)) \<le> 33"
  by (simp add: enc_Data_short del: enc.simps)

lemma account_item_small: "list_all small (account_item n b r h)" "length (concat (map enc (account_item n b r h))) < max_rlp"
proof -
  have c: "length (toCompactBigEndian (unat w) 0) \<le> 32" for w :: u256
    using u256_bytes [of w] by (simp add: toCompactBigEndian_def)
  show "list_all small (account_item n b r h)"
    using le_less_trans [OF c [of n], of max_rlp] le_less_trans [OF c [of b], of max_rlp]
    by (simp add: account_item_def max_rlp_def)
  show "length (concat (map enc (account_item n b r h))) < max_rlp"
    using length_enc_short [OF c [of n]] length_enc_short [OF c [of b]] length_enc_short [of "hash_bytes r"]
      length_enc_short [of "hash_bytes h"]
    by (simp add: account_item_def max_rlp_def del: enc.simps)
qed

lemma append_hash_enc: "append_hash (hash_bytes h) False False s = noteAppended 1 (s\<lparr>m_out := m_out s @ enc (Data (hash_bytes h))\<rparr>)"
  by (simp add: append_hash_def append_bytes_enc max_rlp_def del: enc.simps)

lemma write_account_enc: "write_account n b r h = Inr (enc (List (account_item n b r h)))"
proof -
  let ?ws = "[append_bigint (unat n), append_bigint (unat b), append_hash (hash_bytes r) False False, append_hash (hash_bytes h) False False]"
  let ?e = "\<lambda>f. case f RLPStream_new of Inl _ \<Rightarrow> [] | Inr t \<Rightarrow> m_out t"
  have e: "map ?e ?ws = map enc (account_item n b r h)"
    by (simp add: append_u256 append_hash_enc RLPStream_new_def noteAppended_def account_item_def del: enc.simps)
  have "appendVector (\<lambda>f. f) ?ws RLPStream_new =
      noteAppended 1 (RLPStream_new\<lparr>m_out := m_out RLPStream_new @ rlp_header 0xc0 (length (concat (map ?e ?ws))) @ concat (map ?e ?ws)\<rparr>)"
  proof (rule appendVector_enc)
    show "\<And>y u. y \<in> set ?ws \<Longrightarrow> y u = noteAppended 1 (u\<lparr>m_out := m_out u @ ?e y\<rparr>)"
      by (auto simp: append_u256 append_hash_enc RLPStream_new_def noteAppended_def simp del: enc.simps)
    show "length (concat (map ?e ?ws)) < max_rlp" unfolding e by (rule account_item_small)
  qed
  then show ?thesis
    unfolding e by (simp add: write_account_def rlpList_def appendVector_def RLPStream_new_def noteAppended_def out_def Let_def)
qed

lemma toHash_enc: "toHash 32 Strict (enc (Data (hash_bytes h))) = Inr (hash_bytes h)"
proof -
  let ?d = "enc (Data (hash_bytes h))"
  have p: "payload ?d = Inr (hash_bytes h)" "isData ?d"
    using payload_enc [of "hash_bytes h"] toBytes_enc [of "hash_bytes h" VeryStrict] by (auto simp: max_rlp_def simp del: enc.simps)
  moreover have "requireGood ?d = Inr ()"
    by (simp add: enc_Data_short requireGood_def isNull_def rlp_consts del: enc.simps)
  ultimately show ?thesis by (simp add: toHash_def Strict_def del: enc.simps)
qed

lemma nth_field_enc:
  assumes "payload (m_data r) = Inr p" "split_items p = Inr xs" "cache_ok xs r" "i < length xs" "conv (xs ! i) = Inr y"
  obtains r' where "nth_field conv i r = (Inr y, r')" "payload (m_data r') = Inr p" "cache_ok xs r'"
proof -
  have "i < 2 ^ 64 - 1" using assms(3,4) by (simp add: cache_ok_def)
  then show thesis
    using rlp_nth_spec [OF assms(1-3), of i] assms(1,4,5) that by (auto simp: nth_field_def item_at_def)
qed

lemma read_account_fields:
  assumes "RLP_ctor d VeryStrict = Inr d" "payload d = Inr p" and s: "split_items p = Inr xs" "length xs = 4"
    and f: "toInt Strict (xs ! 0) = Inr n" "toInt Strict (xs ! 1) = Inr b"
      "toHash 32 Strict (xs ! 2) = Inr rb" "toHash 32 Strict (xs ! 3) = Inr hb"
    and "fromBigEndian rb \<noteq> (0 :: h256)"
  shows "read_account sha3 d = Inr ((Account_endowed sha3 n b Unchanged)\<lparr>m_storageRoot := fromBigEndian rb, m_codeHash := fromBigEndian hb\<rparr>)"
proof -
  have c0: "cache_ok xs (rlp_of d)" "payload (m_data (rlp_of d)) = Inr p"
    using cache_ok_rlp_of [of xs d] s(2) assms(2) by (simp_all add: rlp_of_def)
  obtain r1 where r1: "nth_field (toInt Strict) 0 (rlp_of d) = (Inr n, r1)" "payload (m_data r1) = Inr p" "cache_ok xs r1"
    by (rule nth_field_enc [where conv = "toInt Strict" and i = 0, OF c0(2) s(1) c0(1) _ f(1)]) (simp_all add: s(2))
  obtain r2 where r2: "nth_field (toInt Strict) 1 r1 = (Inr b, r2)" "payload (m_data r2) = Inr p" "cache_ok xs r2"
    by (rule nth_field_enc [where conv = "toInt Strict" and i = 1, OF r1(2) s(1) r1(3) _ f(2)]) (simp_all add: s(2))
  obtain r3 where r3: "nth_field (toHash 32 Strict) 2 r2 = (Inr rb, r3)" "payload (m_data r3) = Inr p" "cache_ok xs r3"
    by (rule nth_field_enc [where conv = "toHash 32 Strict" and i = 2, OF r2(2) s(1) r2(3) _ f(3)]) (simp_all add: s(2))
  obtain r4 where r4: "nth_field (toHash 32 Strict) 3 r3 = (Inr hb, r4)"
    by (rule nth_field_enc [where conv = "toHash 32 Strict" and i = 3, OF r3(2) s(1) r3(3) _ f(4)]) (simp_all add: s(2))
  show ?thesis
    using assms(1,9) by (simp add: read_account_def r1(1) r2(1) [simplified] r3(1) r4 Account_stored_def)
qed

lemma hash_bytes_read [simp]: "fromBigEndian (hash_bytes h) = h"
  by (simp add: hash_bytes_def u256_roundtrip)

lemma read_account_enc:
  assumes "r \<noteq> 0"
  shows "read_account sha3 (enc (List (account_item n b r h))) = Inr ((Account_endowed sha3 n b Unchanged)\<lparr>m_storageRoot := r, m_codeHash := h\<rparr>)"
proof -
  let ?its = "account_item n b r h"
  have "small (List ?its)" using account_item_small [of n b r h] by simp
  then have ctor: "RLP_ctor (enc (List ?its)) VeryStrict = Inr (enc (List ?its))" by (rule ctor_enc)
  have p: "payload (enc (List ?its)) = Inr (concat (map enc ?its))"
    using payload_list [OF account_item_small(2)] by (simp add: Let_def)
  have s: "split_items (concat (map enc ?its)) = Inr (map enc ?its)" by (rule split_items_enc [OF account_item_small(1)])
  have "read_account sha3 (enc (List ?its)) =
      Inr ((Account_endowed sha3 n b Unchanged)\<lparr>m_storageRoot := fromBigEndian (hash_bytes r), m_codeHash := fromBigEndian (hash_bytes h)\<rparr>)"
    by (rule read_account_fields [OF ctor p s])
      (simp_all add: assms account_item_def toInt_u256 toHash_enc del: enc.simps)
  then show ?thesis by simp
qed

lemma stored_value_enc: "stored_value (enc (Data (toCompactBigEndian (unat (v :: u256)) 0))) = Inr v"
proof -
  have "small (Data (toCompactBigEndian (unat v) 0))"
    using u256_bytes [of v] by (simp add: toCompactBigEndian_def max_rlp_def)
  then show ?thesis by (simp add: stored_value_def toInt_u256 ctor_enc del: enc.simps)
qed

section \<open>Growing databases\<close>

text \<open>
  A commit adds storage tries and codes under their hashes. \<open>db_le\<close>: nothing readable before is lost. \<open>db_inv\<close>: every entry stands under the hash of
  its contents, among the maps \<open>U\<close> and codes \<open>C\<close> on which the hash functions have no collisions.
\<close>

definition db_le :: "state_db \<Rightarrow> state_db \<Rightarrow> bool" where
  "db_le db db' \<longleftrightarrow> (\<forall>r t. db_tries db r = Some t \<longrightarrow> (\<exists>t'. db_tries db' r = Some t' \<and> map_of t' = map_of t)) \<and>
     (\<forall>h c. db_nodes db h = Some c \<longrightarrow> db_nodes db' h = Some c)"

definition db_inv :: "(bytes \<Rightarrow> h256) \<Rightarrow> ((u256 \<rightharpoonup> bytes) \<Rightarrow> h256) \<Rightarrow> (u256 \<rightharpoonup> bytes) set \<Rightarrow> bytes set \<Rightarrow> state_db \<Rightarrow> bool" where
  "db_inv sha3 root U C db \<longleftrightarrow>
     (\<forall>r t. db_tries db r = Some t \<longrightarrow> map_of t \<in> U \<and> root (map_of t) = r) \<and>
     (\<forall>h c. db_nodes db h = Some c \<longrightarrow> c \<in> C \<and> sha3 c = h) \<and>
     (\<forall>r k. is_ok (stored_value (trie_at (db_trie db r) k)))"

lemma db_le_refl [simp]: "db_le db db"
  by (simp add: db_le_def)

lemma db_leD:
  "db_le db db' \<Longrightarrow> db_tries db r = Some t \<Longrightarrow> \<exists>t'. db_tries db' r = Some t' \<and> map_of t' = map_of t"
  "db_le db db' \<Longrightarrow> db_nodes db h = Some c \<Longrightarrow> db_nodes db' h = Some c"
  by (simp_all add: db_le_def)

lemma db_leI:
  "(\<And>r t. db_tries db r = Some t \<Longrightarrow> \<exists>t'. db_tries db' r = Some t' \<and> map_of t' = map_of t) \<Longrightarrow>
   (\<And>h c. db_nodes db h = Some c \<Longrightarrow> db_nodes db' h = Some c) \<Longrightarrow> db_le db db'"
  by (simp add: db_le_def)

lemma db_le_trans:
  assumes "db_le a b" "db_le b c"
  shows "db_le a c"
proof (rule db_leI)
  fix r t assume "db_tries a r = Some t"
  then obtain t' where "db_tries b r = Some t'" "map_of t' = map_of t" using db_leD(1) [OF assms(1)] by blast
  then show "\<exists>t'. db_tries c r = Some t' \<and> map_of t' = map_of t" using db_leD(1) [OF assms(2)] by fastforce
qed (use db_leD(2) assms in blast)

lemma trie_at_map: "map_of t = map_of t' \<Longrightarrow> trie_at t = trie_at t'"
  by (simp add: trie_at_def fun_eq_iff)

lemma base_storage_mono: "db_le db db' \<Longrightarrow> db_tries db r \<noteq> None \<Longrightarrow> base_storage db' r = base_storage db r"
proof -
  assume "db_le db db'" "db_tries db r \<noteq> None"
  then obtain t t' where "db_tries db r = Some t" "db_tries db' r = Some t'" "map_of t' = map_of t"
    using db_leD(1) by blast
  then show ?thesis using trie_at_map [of t' t] by (simp add: base_storage_def db_trie_def fun_eq_iff)
qed

lemma db_lookup_mono: "db_le db db' \<Longrightarrow> db_nodes db h \<noteq> None \<Longrightarrow> db_lookup db' h = db_lookup db h"
  by (auto simp: db_le_def db_lookup_def split: option.splits)

lemma account_code_mono:
  assumes "db_le db db'" "account_ok sha3 db a"
  shows "account_code sha3 db' a = account_code sha3 db a"
  using assms code_hash_known(2) [OF assms(2)] db_lookup_mono [OF assms(1)] by (auto simp: account_code_def)

lemma account_mono:
  assumes le: "db_le db db'" and ok: "account_ok sha3 db a"
  shows "account_ok sha3 db' a" "view_of sha3 db' a = view_of sha3 db a"
proof -
  note c = account_code_mono [OF le ok]
  have "db_tries db' (m_storageRoot a) \<noteq> None" using db_leD(1) [OF le] ok by (fastforce simp: account_ok_def)
  then show "account_ok sha3 db' a"
    using ok c code_hash_known(1) [OF ok] db_lookup_mono [OF le, of "m_codeHash a"] by (auto simp: account_ok_def)
  show "view_of sha3 db' a = view_of sha3 db a"
    using c base_storage_mono [OF le, of "m_storageRoot a"] ok by (simp add: view_of_def account_ok_def)
qed

text \<open>Bytes in the account trie that hold a view.\<close>

definition holds :: "(bytes \<Rightarrow> h256) \<Rightarrow> state_db \<Rightarrow> account_view \<Rightarrow> bytes \<Rightarrow> bool" where
  "holds sha3 db v b \<longleftrightarrow> b \<noteq> [] \<and> (\<exists>acc. read_account sha3 b = Inr acc \<and> account_ok sha3 db acc \<and> view_of sha3 db acc = v)"

lemma holds_mono: "db_le db db' \<Longrightarrow> holds sha3 db v b \<Longrightarrow> holds sha3 db' v b"
  unfolding holds_def using account_mono by metis

lemma store_trie:
  assumes inv: "db_inv sha3 root U C db" and t: "map_of t \<in> U" "inj_on root U" "\<And>k. is_ok (stored_value (trie_at t k))"
  shows "db_inv sha3 root U C (db\<lparr>db_tries := (db_tries db)(root (map_of t) \<mapsto> t)\<rparr>)"
    "db_le db (db\<lparr>db_tries := (db_tries db)(root (map_of t) \<mapsto> t)\<rparr>)"
proof -
  show "db_inv sha3 root U C (db\<lparr>db_tries := (db_tries db)(root (map_of t) \<mapsto> t)\<rparr>)"
    using inv t by (auto simp: db_inv_def db_trie_def split: if_splits)
  have "map_of t = map_of t'" if "db_tries db (root (map_of t)) = Some t'" for t'
    using inv that inj_onD [OF t(2) _ t(1), of "map_of t'"] by (auto simp: db_inv_def)
  then show "db_le db (db\<lparr>db_tries := (db_tries db)(root (map_of t) \<mapsto> t)\<rparr>)"
    by (auto simp: db_le_def)
qed

lemma store_node:
  assumes inv: "db_inv sha3 root U C db" and c: "c \<in> C" "inj_on sha3 C"
  shows "db_inv sha3 root U C (db\<lparr>db_nodes := (db_nodes db)(sha3 c \<mapsto> c)\<rparr>)"
    "db_le db (db\<lparr>db_nodes := (db_nodes db)(sha3 c \<mapsto> c)\<rparr>)"
proof -
  show "db_inv sha3 root U C (db\<lparr>db_nodes := (db_nodes db)(sha3 c \<mapsto> c)\<rparr>)"
    using inv c by (auto simp: db_inv_def db_trie_def split: if_splits)
  have "c' = c" if "db_nodes db (sha3 c) = Some c'" for c'
    using inv that inj_onD [OF c(2) _ _ c(1), of c'] by (auto simp: db_inv_def)
  then show "db_le db (db\<lparr>db_nodes := (db_nodes db)(sha3 c \<mapsto> c)\<rparr>)"
    by (auto simp: db_le_def)
qed

section \<open>Writing the storage overlay\<close>

definition overlay_map :: "(u256 \<times> u256) list \<Rightarrow> (u256 \<rightharpoonup> bytes) \<Rightarrow> u256 \<rightharpoonup> bytes" where
  "overlay_map ov m = (\<lambda>k. case map_of ov k of
     Some v \<Rightarrow> if v = 0 then None else Some (enc (Data (toCompactBigEndian (unat v) 0))) | None \<Rightarrow> m k)"

lemma rlp_u256: "ebind (append_bigint (unat (v :: u256)) RLPStream_new) out = Inr (enc (Data (toCompactBigEndian (unat v) 0)))"
  by (simp add: append_u256 RLPStream_new_def noteAppended_def out_def del: enc.simps)

lemma write_overlay_spec:
  "distinct (map fst ov) \<Longrightarrow> \<exists>t'. write_overlay ov t = Inr t' \<and> map_of t' = overlay_map ov (map_of t)"
proof (induction ov arbitrary: t)
  case Nil
  then show ?case by (simp add: overlay_map_def)
next
  case (Cons kv ov)
  obtain k v where kv: "kv = (k, v)" by (cases kv)
  have k: "map_of ov k = None" using Cons.prems kv by (auto simp: map_of_eq_None_iff)
  let ?t = "if v = 0 then AList.delete k t else AList.update k (enc (Data (toCompactBigEndian (unat v) 0))) t"
  obtain t' where t': "write_overlay ov ?t = Inr t'" "map_of t' = overlay_map ov (map_of ?t)"
    using Cons.IH [of ?t] Cons.prems kv by auto
  have "write_overlay (kv # ov) t = Inr t'" using t'(1) kv by (cases "v = 0") (simp_all add: rlp_u256 del: enc.simps)
  moreover have "map_of t' = overlay_map (kv # ov) (map_of t)"
    unfolding t'(2)
  proof (rule ext)
    fix x
    show "overlay_map ov (map_of ?t) x = overlay_map (kv # ov) (map_of t) x"
      using kv k by (cases "x = k"; cases "map_of ov x") (simp_all add: overlay_map_def update_conv' delete_conv' del: enc.simps)
  qed
  ultimately show ?case by (intro exI [of _ t'] conjI)
qed

lemma overlay_map_values:
  assumes "map_of t' = overlay_map ov (map_of t)"
  shows "stored_value (trie_at t' k) = (case map_of ov k of Some v \<Rightarrow> Inr v | None \<Rightarrow> stored_value (trie_at t k))"
  using assms by (auto simp: trie_at_def overlay_map_def stored_value_enc stored_value_def [of "[]"] simp del: enc.simps split: option.splits)

section \<open>Committing one account\<close>

lemma sizes_mono:
  assumes "sizes_inv sha3 s" "db_le (m_db s) (m_db s')" "code_sizes s' = code_sizes s"
  shows "sizes_inv sha3 s'"
  unfolding sizes_inv_def
proof (intro allI impI)
  fix h n assume "map_of (code_sizes s') h = Some n"
  then have n: "n = hash_code_size sha3 (m_db s) h" "h = EmptySHA3 sha3 \<or> db_nodes (m_db s) h \<noteq> None"
    using assms(1,3) by (auto simp: sizes_inv_def)
  then show "n = hash_code_size sha3 (m_db s') h \<and> (h = EmptySHA3 sha3 \<or> db_nodes (m_db s') h \<noteq> None)"
    using db_lookup_mono [OF assms(2), of h] db_leD(2) [OF assms(2), of h] by (auto simp: hash_code_size_def)
qed

lemma new_code_sizes:
  assumes inv: "sizes_inv sha3 s" and a: "m_codeCache a = account_code sha3 db a" "m_codeHash a = sha3 (m_codeCache a)"
    and le: "db_le (m_db s) (m_db s')" and n: "db_nodes (m_db s') = (db_nodes (m_db s))(m_codeHash a \<mapsto> m_codeCache a)"
    and c: "code_sizes s' = code_sizes (store_code_size (m_codeHash a) (length (m_codeCache a)) s)"
  shows "sizes_inv sha3 s'"
  unfolding sizes_inv_def
proof (intro allI impI)
  fix h m assume m: "map_of (code_sizes s') h = Some m"
  have h: "length (m_codeCache a) = hash_code_size sha3 (m_db s') (m_codeHash a)"
    using a n by (auto simp: hash_code_size_def db_lookup_def account_code_def)
  show "m = hash_code_size sha3 (m_db s') h \<and> (h = EmptySHA3 sha3 \<or> db_nodes (m_db s') h \<noteq> None)"
  proof (cases "h = m_codeHash a \<and> m = length (m_codeCache a)")
    case True
    then show ?thesis using h n by auto
  next
    case False
    then have "map_of (code_sizes s) h = Some m"
      using m c by (auto simp: store_code_size_def Let_def update_conv' split: if_splits dest: remove_random_sizes)
    then show ?thesis
      using sizes_mono [OF inv, of "s'\<lparr>code_sizes := code_sizes s\<rparr>"] le by (auto simp: sizes_inv_def)
  qed
qed

text \<open>What committing an account leaves alone.\<close>

definition commit_frame :: "state \<Rightarrow> state \<Rightarrow> bool" where
  "commit_frame s s' \<longleftrightarrow> m_cache s' = m_cache s \<and> m_nonExistingAccountsCache s' = m_nonExistingAccountsCache s \<and>
     m_touched s' = m_touched s \<and> m_accountStartNonce s' = m_accountStartNonce s \<and> m_changeLog s' = m_changeLog s"

lemma commit_frame_trans: "commit_frame s t \<Longrightarrow> commit_frame t u \<Longrightarrow> commit_frame s u"
  by (simp add: commit_frame_def)

text \<open>The storage root that is stored: the old one without an overlay, otherwise that of the updated trie.\<close>

lemma commit_storage:
  assumes inv: "db_inv sha3 root U C db" "inj_on root U" and le: "db_le db0 db" and a: "account_ok sha3 db0 a"
    and new: "m_storageOverlay a \<noteq> [] \<Longrightarrow> overlay_map (m_storageOverlay a) (map_of (db_trie db0 (m_storageRoot a))) \<in> U"
  obtains r db' where "(if m_storageOverlay a = [] then Inr (m_storageRoot a, db)
       else ebind (write_overlay (m_storageOverlay a) (db_trie db (m_storageRoot a))) (\<lambda>t.
         Inr (root (map_of t), db\<lparr>db_tries := (db_tries db)(root (map_of t) \<mapsto> t)\<rparr>))) = Inr (r, db')"
    "db_inv sha3 root U C db'" "db_le db db'" "db_nodes db' = db_nodes db" "db_tries db' r \<noteq> None"
    "base_storage db' r = v_storage (view_of sha3 db0 a)" "r = m_storageRoot a \<or> r \<in> root ` U"
proof (cases "m_storageOverlay a = []")
  case True
  have "db_tries db0 (m_storageRoot a) \<noteq> None" using a by (simp add: account_ok_def)
  then show thesis
    using that [of "m_storageRoot a" db] True inv base_storage_mono [OF le] db_leD(1) [OF le] by (fastforce simp: view_of_def)
next
  case False
  let ?ov = "m_storageOverlay a" and ?t = "db_trie db (m_storageRoot a)"
  obtain t' where t': "write_overlay ?ov ?t = Inr t'" "map_of t' = overlay_map ?ov (map_of ?t)"
    using write_overlay_spec [of ?ov ?t] a by (auto simp: account_ok_def)
  obtain t0 where t0: "db_tries db0 (m_storageRoot a) = Some t0" using a by (auto simp: account_ok_def)
  have same: "map_of ?t = map_of (db_trie db0 (m_storageRoot a))"
    using db_leD(1) [OF le t0] t0 by (auto simp: db_trie_def)
  have vals: "stored_value (trie_at t' k) = (case map_of ?ov k of Some v \<Rightarrow> Inr v | None \<Rightarrow> stored_value (trie_at ?t k))" for k
    by (rule overlay_map_values [OF t'(2)])
  have okv: "is_ok (stored_value (trie_at t' k))" for k
    using inv(1) by (auto simp: vals db_inv_def split: option.splits)
  have U: "map_of t' \<in> U" using t'(2) same new [OF False] by simp
  let ?r = "root (map_of t')"
  let ?db = "db\<lparr>db_tries := (db_tries db)(?r \<mapsto> t')\<rparr>"
  note s = store_trie [OF inv(1) U inv(2) okv]
  have "base_storage ?db ?r k = v_storage (view_of sha3 db0 a) k" for k
    using vals [of k] trie_at_map [OF same] by (cases "map_of ?ov k") (simp_all add: base_storage_def db_trie_def view_of_def)
  then have "base_storage ?db ?r = v_storage (view_of sha3 db0 a)" by (rule ext)
  then show thesis
    using that [of ?r ?db] False t'(1) s U by simp
qed

lemma holds_written:
  assumes a: "account_ok sha3 db0 a" "m_isAlive a" and le: "db_le db0 db"
    and r: "r \<noteq> 0" "db_tries db r \<noteq> None" "base_storage db r = v_storage (view_of sha3 db0 a)"
    and h: "m_codeHash a \<noteq> EmptySHA3 sha3 \<Longrightarrow> db_lookup db (m_codeHash a) = account_code sha3 db0 a"
  shows "holds sha3 db (view_of sha3 db0 a) (enc (List (account_item (m_nonce a) (m_balance a) r (m_codeHash a))))"
proof -
  let ?acc = "(Account_endowed sha3 (m_nonce a) (m_balance a) Unchanged)\<lparr>m_storageRoot := r, m_codeHash := m_codeHash a\<rparr>"
  have c: "account_code sha3 db ?acc = account_code sha3 db0 a"
    using h by (auto simp: account_code_def Account_endowed_def Account_dead_def)
  have "account_ok sha3 db ?acc"
    using a(1) r c h by (auto simp: account_ok_def Account_endowed_def Account_dead_def)
  moreover have "view_of sha3 db ?acc = view_of sha3 db0 a"
    using a(2) r(3) c by (simp add: view_of_def Account_endowed_def Account_dead_def)
  ultimately show ?thesis
    using read_account_enc [OF r(1)] by (auto simp: holds_def simp del: enc.simps)
qed

lemma new_code_hash: "account_ok sha3 db a \<Longrightarrow> m_hasNewCode a \<Longrightarrow> m_codeHash a = sha3 (m_codeCache a)"
  by (auto simp: account_ok_def account_code_def EmptySHA3_def split: if_splits)

text \<open>The code of the account is stored: as new code now, or it was already there.\<close>

lemma commit_code:
  assumes inv: "db_inv sha3 root U C db" "inj_on sha3 C" and le: "db_le db0 db" and a: "account_ok sha3 db0 a"
    and new: "m_hasNewCode a \<Longrightarrow> m_codeCache a \<in> C"
  obtains db' where "db' = (if m_hasNewCode a then db\<lparr>db_nodes := (db_nodes db)(m_codeHash a \<mapsto> m_codeCache a)\<rparr> else db)"
    "db_inv sha3 root U C db'" "db_le db db'" "m_codeHash a \<noteq> EmptySHA3 sha3 \<longrightarrow> db_lookup db' (m_codeHash a) = account_code sha3 db0 a"
proof (cases "m_hasNewCode a")
  case True
  let ?db = "db\<lparr>db_nodes := (db_nodes db)(sha3 (m_codeCache a) \<mapsto> m_codeCache a)\<rparr>"
  have "m_codeCache a = account_code sha3 db0 a" using a True by (simp add: account_ok_def)
  then show thesis
    using that [of ?db] store_node [OF inv(1) new [OF True] inv(2)] True new_code_hash [OF a True] by (simp add: db_lookup_def)
next
  case False
  have "m_codeHash a \<noteq> EmptySHA3 sha3 \<Longrightarrow> db_lookup db (m_codeHash a) = account_code sha3 db0 a"
    using a False code_hash_known(1) [OF a False] db_lookup_mono [OF le] by (simp add: account_ok_def)
  then show thesis using that [of db] inv False by simp
qed

lemma commit_account_alive:
  assumes inv: "db_inv sha3 root U C (m_db t)" "inj_on root U" "inj_on sha3 C" "0 \<notin> root ` U"
    and le: "db_le db0 (m_db t)" and a: "account_ok sha3 db0 a" "isDirty a" "m_isAlive a" and sz: "sizes_inv sha3 t"
    and new: "m_storageOverlay a \<noteq> [] \<Longrightarrow> overlay_map (m_storageOverlay a) (map_of (db_trie db0 (m_storageRoot a))) \<in> U"
      "m_hasNewCode a \<Longrightarrow> m_codeCache a \<in> C"
  obtains t' b where "commit_account root (addr, a) t = (Inr {addr}, t')" "m_state t' = AList.update addr b (m_state t)"
    "holds sha3 (m_db t') (view_of sha3 db0 a) b" "db_inv sha3 root U C (m_db t')" "db_le (m_db t) (m_db t')"
    "commit_frame t t'" "sizes_inv sha3 t'"
proof -
  obtain r db1 where r: "(if m_storageOverlay a = [] then Inr (m_storageRoot a, m_db t)
       else ebind (write_overlay (m_storageOverlay a) (db_trie (m_db t) (m_storageRoot a))) (\<lambda>x.
         Inr (root (map_of x), (m_db t)\<lparr>db_tries := (db_tries (m_db t))(root (map_of x) \<mapsto> x)\<rparr>))) = Inr (r, db1)"
    "db_inv sha3 root U C db1" "db_le (m_db t) db1" "db_nodes db1 = db_nodes (m_db t)" "db_tries db1 r \<noteq> None"
    "base_storage db1 r = v_storage (view_of sha3 db0 a)" "r = m_storageRoot a \<or> r \<in> root ` U"
    by (rule commit_storage [OF inv(1,2) le a(1) new(1)])
  have r0: "r \<noteq> 0" "m_storageRoot a \<noteq> 0" using r(7) inv(4) a(1) by (auto simp: account_ok_def)
  obtain db2 where db2: "db2 = (if m_hasNewCode a then db1\<lparr>db_nodes := (db_nodes db1)(m_codeHash a \<mapsto> m_codeCache a)\<rparr> else db1)"
    "db_inv sha3 root U C db2" "db_le db1 db2"
    "m_codeHash a \<noteq> EmptySHA3 sha3 \<longrightarrow> db_lookup db2 (m_codeHash a) = account_code sha3 db0 a"
    by (rule commit_code [OF r(2) inv(3) db_le_trans [OF le r(3)] a(1) new(2)])
  let ?s = "if m_hasNewCode a then store_code_size (m_codeHash a) (length (m_codeCache a)) t else t"
  let ?b = "enc (List (account_item (m_nonce a) (m_balance a) r (m_codeHash a)))"
  let ?t = "?s\<lparr>m_db := db2, m_state := AList.update addr ?b (m_state t)\<rparr>"
  have "(if m_storageOverlay a = [] then Inr (m_storageRoot a, t)
       else ebind (write_overlay (m_storageOverlay a) (db_trie (m_db t) (m_storageRoot a))) (\<lambda>x.
         let r = root (map_of x) in Inr (r, t\<lparr>m_db := (m_db t)\<lparr>db_tries := (db_tries (m_db t))(r \<mapsto> x)\<rparr>\<rparr>))) = Inr (r, t\<lparr>m_db := db1\<rparr>)"
    using r(1) by (auto simp: ebind_eq_Inr_iff Let_def split: if_splits)
  moreover have "store_code_size h n (t\<lparr>m_db := db1\<rparr>) = (store_code_size h n t)\<lparr>m_db := db1\<rparr>" for h n
    by (simp add: store_code_size_def removeRandomElement_def draw_def Let_def split: list.split)
  ultimately have eq: "commit_account root (addr, a) t = (Inr {addr}, ?t)"
    using a(2,3) r0 db2(1) by (simp add: commit_account_def write_account_enc Let_def del: enc.simps)
  have le2: "db_le (m_db t) db2" by (rule db_le_trans [OF r(3) db2(3)])
  have "holds sha3 db2 (view_of sha3 db0 a) ?b"
  proof (rule holds_written [OF a(1,3) db_le_trans [OF le le2] r0(1)])
    show "db_tries db2 r \<noteq> None" using db_leD(1) [OF db2(3)] r(5) by fastforce
    show "base_storage db2 r = v_storage (view_of sha3 db0 a)" using base_storage_mono [OF db2(3) r(5)] r(6) by simp
  qed (use db2(4) in blast)
  moreover have "sizes_inv sha3 ?t"
  proof (cases "m_hasNewCode a")
    case True
    show ?thesis
      using a(1) True db2(1) r(4) le2 new_code_hash [OF a(1) True]
      by (intro new_code_sizes [OF sz, of a db0]) (simp_all add: account_ok_def)
  next
    case False
    then show ?thesis using sizes_mono [OF sz, of ?t] le2 by simp
  qed
  ultimately show thesis
    using that [of ?t ?b] eq db2(2) le2 by (simp add: commit_frame_def del: enc.simps)
qed

section \<open>Committing the cache\<close>

text \<open>
  What the code relies on: the hash functions have no collisions among the tries and codes that are in the database or written by this commit, and no
  written storage trie has the root zero.
\<close>

definition written_maps :: "state \<Rightarrow> (u256 \<rightharpoonup> bytes) set" where
  "written_maps s = {overlay_map (m_storageOverlay acc) (map_of (db_trie (m_db s) (m_storageRoot acc))) | a acc.
     map_of (m_cache s) a = Some acc \<and> m_storageOverlay acc \<noteq> []}"

definition known_maps :: "state \<Rightarrow> (u256 \<rightharpoonup> bytes) set" where
  "known_maps s = {map_of t | r t. db_tries (m_db s) r = Some t}"

definition codes :: "state \<Rightarrow> bytes set" where
  "codes s = ran (db_nodes (m_db s)) \<union> {m_codeCache acc | a acc. map_of (m_cache s) a = Some acc \<and> m_hasNewCode acc}"

definition collision_free :: "(bytes \<Rightarrow> h256) \<Rightarrow> ((u256 \<rightharpoonup> bytes) \<Rightarrow> h256) \<Rightarrow> state \<Rightarrow> bool" where
  "collision_free sha3 root s \<longleftrightarrow> inj_on root (known_maps s \<union> written_maps s) \<and> 0 \<notin> root ` (known_maps s \<union> written_maps s) \<and>
     inj_on sha3 (codes s) \<and> (\<forall>r t. db_tries (m_db s) r = Some t \<longrightarrow> root (map_of t) = r) \<and>
     (\<forall>h c. db_nodes (m_db s) h = Some c \<longrightarrow> sha3 c = h)"

lemma collision_free_inv:
  assumes "collision_free sha3 root s" "state_ok sha3 s"
  shows "db_inv sha3 root (known_maps s \<union> written_maps s) (codes s) (m_db s)"
  using assms by (auto simp: db_inv_def collision_free_def known_maps_def codes_def state_ok_def trie_inv_def ran_def)

text \<open>The account trie after the accounts \<open>xs\<close> have been written.\<close>

definition entry_written :: "(bytes \<Rightarrow> h256) \<Rightarrow> state \<Rightarrow> state_db \<Rightarrow> address \<Rightarrow> account option \<Rightarrow> bytes \<Rightarrow> bool" where
  "entry_written sha3 s db a x b \<longleftrightarrow> (case x of
       None \<Rightarrow> b = trie_at (m_state s) a
     | Some acc \<Rightarrow> if \<not> isDirty acc then b = trie_at (m_state s) a
         else if m_isAlive acc then holds sha3 db (view_of sha3 (m_db s) acc) b
         else b = [])"

definition trie_written :: "(bytes \<Rightarrow> h256) \<Rightarrow> state \<Rightarrow> (address \<times> account) list \<Rightarrow> state \<Rightarrow> bool" where
  "trie_written sha3 s xs s' \<longleftrightarrow> (\<forall>a. entry_written sha3 s (m_db s') a (map_of xs a) (trie_at (m_state s') a))"

lemma trie_written_snoc:
  assumes "trie_written sha3 s xs t" "map_of xs a = None" "db_le (m_db t) (m_db t')"
    "\<And>x. x \<noteq> a \<Longrightarrow> trie_at (m_state t') x = trie_at (m_state t) x"
    "entry_written sha3 s (m_db t') a (Some acc) (trie_at (m_state t') a)"
  shows "trie_written sha3 s (xs @ [(a, acc)]) t'"
  unfolding trie_written_def
proof
  fix x
  have "entry_written sha3 s (m_db t') x (map_of xs x) (trie_at (m_state t) x)"
    using assms(1) holds_mono [OF assms(3)] by (fastforce simp: trie_written_def entry_written_def split: option.splits if_splits)
  then show "entry_written sha3 s (m_db t') x (map_of (xs @ [(a, acc)]) x) (trie_at (m_state t') x)"
    using assms(2,4,5) by (cases "x = a"; cases "map_of xs x") (simp_all add: map_add_def)
qed

definition committing :: "(bytes \<Rightarrow> h256) \<Rightarrow> ((u256 \<rightharpoonup> bytes) \<Rightarrow> h256) \<Rightarrow> state \<Rightarrow> (address \<times> account) list \<Rightarrow> state \<Rightarrow> bool" where
  "committing sha3 root s xs t \<longleftrightarrow> db_inv sha3 root (known_maps s \<union> written_maps s) (codes s) (m_db t) \<and> db_le (m_db s) (m_db t) \<and>
     sizes_inv sha3 t \<and> commit_frame s t \<and> trie_written sha3 s xs t"

lemma trie_at_simps:
  "trie_at (AList.update a b t) = (trie_at t)(a := b)" "trie_at (AList.delete a t) = (trie_at t)(a := [])"
  by (simp_all add: trie_at_def update_conv' delete_conv' fun_eq_iff)

lemma committing_snoc:
  assumes c: "committing sha3 root s xs t" and cf: "collision_free sha3 root s" and ok: "state_ok sha3 s"
    and x: "map_of (m_cache s) a = Some acc" "map_of xs a = None"
  shows "\<exists>t'. commit_account root (a, acc) t = (Inr (if isDirty acc then {a} else {}), t') \<and> committing sha3 root s (xs @ [(a, acc)]) t'"
proof (cases "isDirty acc \<and> m_isAlive acc")
  case True
  let ?U = "known_maps s \<union> written_maps s"
  have inv: "db_inv sha3 root ?U (codes s) (m_db t)" "inj_on root ?U" "inj_on sha3 (codes s)" "0 \<notin> root ` ?U" "db_le (m_db s) (m_db t)"
    "sizes_inv sha3 t" using c cf by (auto simp: committing_def collision_free_def)
  have new: "m_storageOverlay acc \<noteq> [] \<Longrightarrow> overlay_map (m_storageOverlay acc) (map_of (db_trie (m_db s) (m_storageRoot acc))) \<in> ?U"
    "m_hasNewCode acc \<Longrightarrow> m_codeCache acc \<in> codes s"
    using x(1) by (auto simp: written_maps_def codes_def)
  obtain t' b where t': "commit_account root (a, acc) t = (Inr {a}, t')" "m_state t' = AList.update a b (m_state t)"
    "holds sha3 (m_db t') (view_of sha3 (m_db s) acc) b" "db_inv sha3 root ?U (codes s) (m_db t')" "db_le (m_db t) (m_db t')"
    "commit_frame t t'" "sizes_inv sha3 t'"
    using commit_account_alive [OF inv(1-5) cached_ok [OF ok x(1)] _ _ inv(6) new] True by blast
  have "trie_written sha3 s (xs @ [(a, acc)]) t'"
    using c t'(2,3) True by (intro trie_written_snoc [OF _ x(2) t'(5)]) (simp_all add: committing_def trie_at_simps entry_written_def)
  then show ?thesis
    using t' True db_le_trans [OF inv(5) t'(5)] c commit_frame_trans by (auto simp: committing_def)
next
  case False
  let ?t = "if isDirty acc then t\<lparr>m_state := AList.delete a (m_state t)\<rparr> else t"
  have "commit_account root (a, acc) t = (Inr (if isDirty acc then {a} else {}), ?t)"
    using False by (simp add: commit_account_def)
  moreover have "trie_written sha3 s (xs @ [(a, acc)]) ?t"
  proof (rule trie_written_snoc [OF _ x(2)])
    show w: "trie_written sha3 s xs t" using c by (simp add: committing_def)
    then have "entry_written sha3 s (m_db t) a (map_of xs a) (trie_at (m_state t) a)" by (simp add: trie_written_def)
    then have "trie_at (m_state t) a = trie_at (m_state s) a" using x(2) by (simp add: entry_written_def)
    then show "entry_written sha3 s (m_db ?t) a (Some acc) (trie_at (m_state ?t) a)"
      using False by (simp add: entry_written_def trie_at_simps)
  qed (simp_all add: trie_at_simps)
  moreover have "sizes_inv sha3 ?t = sizes_inv sha3 t" by (simp add: sizes_inv_def)
  ultimately show ?thesis using c by (auto simp: committing_def commit_frame_def)
qed

lemma commit_accounts_committing:
  "committing sha3 root s xs t \<Longrightarrow> collision_free sha3 root s \<Longrightarrow> state_ok sha3 s \<Longrightarrow> distinct (map fst (xs @ ys)) \<Longrightarrow>
   (\<And>a acc. (a, acc) \<in> set ys \<Longrightarrow> map_of (m_cache s) a = Some acc) \<Longrightarrow>
   \<exists>t'. commit_accounts root ys t = (Inr {a. \<exists>acc. (a, acc) \<in> set ys \<and> isDirty acc}, t') \<and> committing sha3 root s (xs @ ys) t'"
proof (induction ys arbitrary: xs t)
  case Nil
  then show ?case by (simp add: sret_def)
next
  case (Cons y ys)
  obtain a acc where y: "y = (a, acc)" by (cases y)
  have a: "map_of (m_cache s) a = Some acc" "map_of xs a = None"
    using Cons.prems(4,5) y by (auto simp: map_of_eq_None_iff)
  obtain u where u: "commit_account root y t = (Inr (if isDirty acc then {a} else {}), u)" "committing sha3 root s (xs @ [y]) u"
    using committing_snoc [OF Cons.prems(1-3) a] y by blast
  obtain t' where t': "commit_accounts root ys u = (Inr {a. \<exists>acc. (a, acc) \<in> set ys \<and> isDirty acc}, t')"
    "committing sha3 root s ((xs @ [y]) @ ys) t'"
    using Cons.IH [OF u(2) Cons.prems(2,3)] Cons.prems(4,5) by auto
  moreover have "(if isDirty acc then {a} else {}) \<union> {a. \<exists>acc. (a, acc) \<in> set ys \<and> isDirty acc} =
      {a. \<exists>acc. (a, acc) \<in> set (y # ys) \<and> isDirty acc}" using y by auto
  ultimately show ?case using u(1) by (simp add: sbind_def sret_def)
qed

lemma holds_base_view: "holds sha3 (m_db s) v (trie_at (m_state s) a) \<Longrightarrow> base_view sha3 s a = Some v"
  by (auto simp: holds_def base_view_def)

lemma stored_holds:
  assumes "state_ok sha3 s" "trie_at (m_state s) a \<noteq> []"
  shows "\<exists>v. base_view sha3 s a = Some v \<and> v_alive v \<and> holds sha3 (m_db s) v (trie_at (m_state s) a)"
proof -
  obtain acc where acc: "read_account sha3 (trie_at (m_state s) a) = Inr acc" "account_ok sha3 (m_db s) acc"
    using assms by (auto simp: state_ok_def trie_inv_def)
  have "m_isAlive acc"
    using acc(1) by (auto simp: read_account_def Account_stored_def Account_endowed_def ebind_eq_Inr_iff
        split: sum.splits option.splits prod.splits if_splits)
  then show ?thesis using acc assms(2) by (intro exI [of _ "view_of sha3 (m_db s) acc"]) (auto simp: base_view_def holds_def)
qed

text \<open>The state after the cache has been written and emptied.\<close>

lemma committed_state:
  assumes c: "committing sha3 root s (m_cache s) t" and ok: "state_ok sha3 s"
    and s': "s' = t\<lparr>m_touched := T, m_changeLog := [], m_cache := [], m_unchangedCacheEntries := []\<rparr>"
  shows "state_ok sha3 s'" "view sha3 s' a = (case view sha3 s a of None \<Rightarrow> None | Some v \<Rightarrow> if v_alive v then Some v else None)"
proof -
  have le: "db_le (m_db s) (m_db t)" and inv: "\<And>r k. is_ok (stored_value (trie_at (db_trie (m_db t) r) k))" and sz: "sizes_inv sha3 t"
    and fr: "commit_frame s t" using c by (auto simp: committing_def db_inv_def)
  have w: "entry_written sha3 s (m_db s') a (map_of (m_cache s) a) (trie_at (m_state s') a)" for a
    using c s' by (simp add: committing_def trie_written_def)
  have keep: "base_view sha3 s' a = view sha3 s a \<and> (trie_at (m_state s') a \<noteq> [] \<longrightarrow>
      (\<exists>v. v_alive v \<and> view sha3 s a = Some v \<and> holds sha3 (m_db s') v (trie_at (m_state s') a)))"
    if same: "trie_at (m_state s') a = trie_at (m_state s) a" and v: "view sha3 s a = base_view sha3 s a" for a
  proof (cases "trie_at (m_state s) a = []")
    case True
    then show ?thesis using same v by (simp add: base_view_def)
  next
    case False
    then obtain v where "base_view sha3 s a = Some v" "v_alive v" "holds sha3 (m_db s) v (trie_at (m_state s) a)"
      using stored_holds [OF ok] by blast
    then show ?thesis using holds_mono [OF le] same v holds_base_view [of sha3 s' v a] s' by auto
  qed
  have main: "base_view sha3 s' a = (case view sha3 s a of None \<Rightarrow> None | Some v \<Rightarrow> if v_alive v then Some v else None) \<and>
      (trie_at (m_state s') a \<noteq> [] \<longrightarrow> (\<exists>v. holds sha3 (m_db s') v (trie_at (m_state s') a)))" for a
  proof (cases "map_of (m_cache s) a = None \<or> (\<exists>acc. map_of (m_cache s) a = Some acc \<and> \<not> isDirty acc)")
    case True
    have v: "view sha3 s a = base_view sha3 s a" using True ok by (auto simp: view_def state_ok_def cache_inv_def)
    have "trie_at (m_state s') a = trie_at (m_state s) a" using w [of a] True by (auto simp: entry_written_def)
    moreover have "v_alive v'" if "view sha3 s a = Some v'" for v'
      using that v stored_holds [OF ok, of a] by (auto simp: base_view_def split: if_splits)
    ultimately show ?thesis using keep [OF _ v] by (auto split: option.splits)
  next
    case False
    then obtain acc where acc: "map_of (m_cache s) a = Some acc" "isDirty acc"
      by (cases "map_of (m_cache s) a") auto
    have "view sha3 s a = Some (view_of sha3 (m_db s) acc)" by (rule view_cached [OF acc(1)])
    then show ?thesis
      using w [of a] acc holds_base_view [of sha3 s' "view_of sha3 (m_db s) acc" a]
      by (auto simp: entry_written_def base_view_def split: if_splits)
  qed
  show "view sha3 s' a = (case view sha3 s a of None \<Rightarrow> None | Some v \<Rightarrow> if v_alive v then Some v else None)"
    using main [of a] s' by (simp add: view_def)
  have "db_tries (m_db t) (EmptyTrie sha3) = Some []"
    using ok db_leD(1) [OF le, of "EmptyTrie sha3" "[]"] by (auto simp: state_ok_def trie_inv_def)
  then have "trie_inv sha3 s'"
    using ok inv main s' by (fastforce simp: state_ok_def trie_inv_def holds_def)
  moreover have "absent_inv s'"
    unfolding absent_inv_def
  proof
    fix a assume "a \<in> m_nonExistingAccountsCache s'"
    then have "trie_at (m_state s) a = []" "map_of (m_cache s) a = None"
      using ok fr s' by (auto simp: state_ok_def absent_inv_def commit_frame_def)
    then show "trie_at (m_state s') a = [] \<and> map_of (m_cache s') a = None" using w [of a] s' by (simp add: entry_written_def)
  qed
  moreover have "sizes_inv sha3 s'" using sz s' by (simp add: sizes_inv_def)
  ultimately show "state_ok sha3 s'" using s' by (simp add: state_ok_def cache_inv_def)
qed

lemma commit_keep:
  assumes ok: "state_ok sha3 s" and cf: "collision_free sha3 root s"
  shows "\<exists>s'. commit sha3 root KeepEmptyAccounts s = (Inr (), s') \<and> state_ok sha3 s' \<and> m_cache s' = [] \<and> m_changeLog s' = [] \<and>
    m_touched s' = m_touched s \<union> dirty_set s \<and>
    (\<forall>a. view sha3 s' a = (case view sha3 s a of None \<Rightarrow> None | Some v \<Rightarrow> if v_alive v then Some v else None))"
proof -
  have d: "distinct (map fst (m_cache s))" using ok by (simp add: state_ok_def cache_inv_def)
  have "committing sha3 root s [] s"
    using collision_free_inv [OF cf ok] ok by (simp add: committing_def commit_frame_def trie_written_def entry_written_def state_ok_def)
  then obtain t where t: "commit_accounts root (m_cache s) s = (Inr {a. \<exists>acc. (a, acc) \<in> set (m_cache s) \<and> isDirty acc}, t)"
    "committing sha3 root s (m_cache s) t"
    using commit_accounts_committing [of sha3 root s "[]" s "m_cache s"] cf ok d by (auto simp: map_of_eq_Some_iff)
  let ?D = "{a. \<exists>acc. (a, acc) \<in> set (m_cache s) \<and> isDirty acc}"
  let ?s = "t\<lparr>m_touched := m_touched t \<union> ?D, m_changeLog := [], m_cache := [], m_unchangedCacheEntries := []\<rparr>"
  have "commit sha3 root KeepEmptyAccounts s = (Inr (), ?s)"
    using t(1) by (simp add: commit_def smodify_def sbind_def)
  moreover have "?D = dirty_set s" using d by (simp add: dirty_set_def map_of_eq_Some_iff)
  moreover have "m_touched t = m_touched s" using t(2) by (simp add: committing_def commit_frame_def)
  ultimately show ?thesis
    using committed_state [OF t(2) ok refl] by (intro exI [of _ ?s]) simp
qed

lemma remove_empty_cache:
  "map_of (m_cache (removeEmptyAccounts sha3 s)) a =
     map_option (\<lambda>acc. if isDirty acc \<and> acc_isEmpty sha3 acc then acc_kill sha3 acc else acc) (map_of (m_cache s) a)"
  by (simp add: removeEmptyAccounts_def map_of_map)

lemma killed_ok:
  assumes "state_ok sha3 s" "account_ok sha3 (m_db s) acc" "acc_isEmpty sha3 acc"
  shows "account_ok sha3 (m_db s) (acc_kill sha3 acc)"
  using assms by (auto simp: account_ok_def acc_kill_def changed_def account_code_def acc_isEmpty_def state_ok_def trie_inv_def)

lemma remove_empty_ok:
  assumes ok: "state_ok sha3 s" and cf: "collision_free sha3 root s"
  shows "state_ok sha3 (removeEmptyAccounts sha3 s)" "collision_free sha3 root (removeEmptyAccounts sha3 s)"
    "dirty_set (removeEmptyAccounts sha3 s) = dirty_set s"
proof -
  let ?s = "removeEmptyAccounts sha3 s"
  have e: "m_db ?s = m_db s" "m_state ?s = m_state s" "m_nonExistingAccountsCache ?s = m_nonExistingAccountsCache s" "code_sizes ?s = code_sizes s"
    by (simp_all add: removeEmptyAccounts_def)
  have b: "base_view sha3 ?s = base_view sha3 s" by (rule base_view_cong [OF e(2,1)])
  have "map fst (m_cache ?s) = map fst (m_cache s)" by (simp add: removeEmptyAccounts_def case_prod_beta)
  moreover have "account_ok sha3 (m_db s) acc' \<and> (\<not> isDirty acc' \<longrightarrow> base_view sha3 s a = Some (view_of sha3 (m_db s) acc'))"
    if found: "map_of (m_cache ?s) a = Some acc'" for a acc'
  proof -
    obtain acc where acc: "map_of (m_cache s) a = Some acc"
      "acc' = (if isDirty acc \<and> acc_isEmpty sha3 acc then acc_kill sha3 acc else acc)"
      using found by (auto simp: remove_empty_cache)
    show ?thesis
    proof (cases "isDirty acc \<and> acc_isEmpty sha3 acc")
      case True
      then have "isDirty acc'" using acc(2) by (simp add: acc_kill_def changed_def isDirty_def)
      then show ?thesis using killed_ok [OF ok cached_ok [OF ok acc(1)]] True acc(2) by simp
    next
      case False
      then show ?thesis using acc ok by (auto simp: state_ok_def cache_inv_def)
    qed
  qed
  ultimately have "cache_inv sha3 ?s"
    using ok by (simp add: cache_inv_def b e(1) state_ok_def)
  then show "state_ok sha3 ?s"
    using ok e trie_inv_cong [OF e(2,1), of sha3] by (simp add: state_ok_def absent_inv_def sizes_inv_def remove_empty_cache)
  have "written_maps ?s \<subseteq> written_maps s"
  proof
    fix m assume "m \<in> written_maps ?s"
    then obtain a acc where "m = overlay_map (m_storageOverlay acc) (map_of (db_trie (m_db s) (m_storageRoot acc)))"
      "map_of (m_cache ?s) a = Some acc" "m_storageOverlay acc \<noteq> []" by (auto simp: written_maps_def e)
    moreover from this have "map_of (m_cache s) a = Some acc"
      by (auto simp: remove_empty_cache acc_kill_def changed_def split: if_splits)
    ultimately show "m \<in> written_maps s" unfolding written_maps_def by blast
  qed
  moreover have "(\<exists>a acc. c = m_codeCache acc \<and> map_of (m_cache ?s) a = Some acc \<and> m_hasNewCode acc) \<longleftrightarrow>
      (\<exists>a acc. c = m_codeCache acc \<and> map_of (m_cache s) a = Some acc \<and> m_hasNewCode acc)" for c
  proof -
    define f where "f acc = (if isDirty acc \<and> acc_isEmpty sha3 acc then acc_kill sha3 acc else acc)" for acc
    have f: "m_codeCache (f acc) = m_codeCache acc" "m_hasNewCode (f acc) = m_hasNewCode acc" for acc
      by (simp_all add: f_def acc_kill_def changed_def)
    have m: "map_of (m_cache ?s) a = map_option f (map_of (m_cache s) a)" for a unfolding f_def by (rule remove_empty_cache)
    show ?thesis
    proof
      assume "\<exists>a acc. c = m_codeCache acc \<and> map_of (m_cache ?s) a = Some acc \<and> m_hasNewCode acc"
      then obtain a acc where "map_of (m_cache s) a = Some acc" "c = m_codeCache (f acc)" "m_hasNewCode (f acc)"
        by (auto simp: m)
      then show "\<exists>a acc. c = m_codeCache acc \<and> map_of (m_cache s) a = Some acc \<and> m_hasNewCode acc" using f by metis
    next
      assume "\<exists>a acc. c = m_codeCache acc \<and> map_of (m_cache s) a = Some acc \<and> m_hasNewCode acc"
      then obtain a acc where "map_of (m_cache ?s) a = Some (f acc)" "c = m_codeCache (f acc)" "m_hasNewCode (f acc)"
        by (auto simp: m f)
      then show "\<exists>a acc. c = m_codeCache acc \<and> map_of (m_cache ?s) a = Some acc \<and> m_hasNewCode acc" by blast
    qed
  qed
  then have "codes ?s = codes s" "known_maps ?s = known_maps s"
    by (simp_all add: codes_def known_maps_def e)
  ultimately show "collision_free sha3 root ?s"
    using cf e inj_on_subset [of root "known_maps s \<union> written_maps s" "known_maps s \<union> written_maps ?s"]
    by (auto simp: collision_free_def)
  show "dirty_set ?s = dirty_set s"
  proof -
    define f where "f acc = (if isDirty acc \<and> acc_isEmpty sha3 acc then acc_kill sha3 acc else acc)" for acc
    have "isDirty (f acc) = isDirty acc" for acc by (simp add: f_def acc_kill_def changed_def isDirty_def)
    moreover have "map_of (m_cache ?s) a = map_option f (map_of (m_cache s) a)" for a unfolding f_def by (rule remove_empty_cache)
    ultimately show ?thesis by (auto simp: dirty_set_def)
  qed
qed

lemma remove_empty_view:
  "view sha3 (removeEmptyAccounts sha3 s) a =
     (case view sha3 s a of None \<Rightarrow> None
      | Some v \<Rightarrow> if a \<in> dirty_set s \<and> view_empty sha3 v then Some (view_of sha3 (m_db s) (acc_kill sha3 (the (map_of (m_cache s) a)))) else Some v)"
proof -
  have b: "base_view sha3 (removeEmptyAccounts sha3 s) = base_view sha3 s" by (rule base_view_cong) (simp_all add: removeEmptyAccounts_def)
  have db: "m_db (removeEmptyAccounts sha3 s) = m_db s" by (simp add: removeEmptyAccounts_def)
  show ?thesis
    using b db by (cases "map_of (m_cache s) a") (auto simp: view_def remove_empty_cache dirty_set_def split: option.splits)
qed

text \<open>(C24) A commit makes the state persistent. On a well-formed state, when the hash functions have no collisions among the tries and codes involved, \<open>commit\<close> succeeds, empties the
  cache and the change log, and afterwards the tries alone give every account the nonce, balance, code and storage it had; accounts killed before are gone and, when asked for, also the
  empty accounts among the modified ones. The modified addresses are noted as touched and the state is well-formed again.\<close>

theorem commit_persists_view:
  assumes ok: "state_ok sha3 s" and cf: "collision_free sha3 root s"
  shows "\<exists>s'. commit sha3 root b s = (Inr (), s') \<and> state_ok sha3 s' \<and> m_cache s' = [] \<and> m_changeLog s' = [] \<and>
    m_touched s' = m_touched s \<union> dirty_set s \<and>
    (\<forall>a. view sha3 s' a = (case view sha3 s a of None \<Rightarrow> None | Some v \<Rightarrow>
       if v_alive v \<and> \<not> (b = RemoveEmptyAccounts \<and> a \<in> dirty_set s \<and> view_empty sha3 v) then Some v else None))"
proof (cases b)
  case KeepEmptyAccounts
  then have "(case view sha3 s a of None \<Rightarrow> None | Some v \<Rightarrow>
       if v_alive v \<and> \<not> (b = RemoveEmptyAccounts \<and> a \<in> dirty_set s \<and> view_empty sha3 v) then Some v else None) =
     (case view sha3 s a of None \<Rightarrow> None | Some v \<Rightarrow> if v_alive v then Some v else None)" for a
    by (simp split: option.split)
  then show ?thesis using commit_keep [OF ok cf] KeepEmptyAccounts by simp
next
  case RemoveEmptyAccounts
  let ?s = "removeEmptyAccounts sha3 s"
  note r = remove_empty_ok [OF ok cf]
  have "commit sha3 root RemoveEmptyAccounts s = commit sha3 root KeepEmptyAccounts ?s"
    by (simp add: commit_def sbind_def smodify_def)
  moreover obtain s' where s': "commit sha3 root KeepEmptyAccounts ?s = (Inr (), s')" "state_ok sha3 s'" "m_cache s' = []"
    "m_changeLog s' = []" "m_touched s' = m_touched ?s \<union> dirty_set ?s"
    "\<And>a. view sha3 s' a = (case view sha3 ?s a of None \<Rightarrow> None | Some v \<Rightarrow> if v_alive v then Some v else None)"
    using commit_keep [OF r(1,2)] by blast
  moreover have "\<not> v_alive (view_of sha3 (m_db s) (acc_kill sha3 acc))" for acc by (simp add: acc_kill_def changed_def)
  moreover have "m_touched ?s = m_touched s" by (simp add: removeEmptyAccounts_def)
  ultimately show ?thesis
    using RemoveEmptyAccounts r(3) by (intro exI [of _ s']) (auto simp: remove_empty_view split: option.splits)
qed

text \<open>The witness commits a state with one funded account over an empty database.\<close>

theorem commit_persists_view_witness:
  "let sha3 = (\<lambda>b. 1 + of_nat (length b)); root = (\<lambda>m. if m = Map.empty then EmptyTrie sha3 else 9);
       s = snd (addBalance sha3 7 5 (State_empty sha3 0 (\<lambda>i. i))) in
   \<exists>s'. commit sha3 root RemoveEmptyAccounts s = (Inr (), s') \<and> m_cache s' = [] \<and> view sha3 s' 7 = Some (fresh_view sha3 0 5)"
proof -
  define sha3 :: "bytes \<Rightarrow> h256" where "sha3 = (\<lambda>b. 1 + of_nat (length b))"
  define root :: "(u256 \<rightharpoonup> bytes) \<Rightarrow> h256" where "root = (\<lambda>m. if m = Map.empty then EmptyTrie sha3 else 9)"
  let ?s0 = "State_empty sha3 0 (\<lambda>i. i)"
  have ok0: "state_ok sha3 ?s0" by (rule State_empty_ok) (simp add: EmptyTrie_def sha3_def)
  have none: "view sha3 ?s0 7 = None" by (simp add: State_empty_def view_def base_view_def trie_at_def)
  have "started ?s0" by (simp add: started_def State_empty_def Invalid256_def)
  then obtain s where s: "addBalance sha3 7 5 ?s0 = (Inr (), s)"
    "step sha3 ?s0 s ((view sha3 ?s0)(7 \<mapsto> fresh_view sha3 0 5)) (insert 7 (dirty_set ?s0)) (Create 7 # balance_log 7 5)"
    using addBalance_absent(1) [OF ok0 none, of 5] by (auto simp: State_empty_def)
  have ok: "state_ok sha3 s" and v: "view sha3 s 7 = Some (fresh_view sha3 0 5)" using s(2) by (auto simp: step_def)
  have db: "m_db s = m_db ?s0" using s(2) by (simp add: step_def same_tries_def)
  have cache: "m_cache s = [(7, Account_endowed sha3 0 5 Changed)]"
    using arg_cong [OF s(1), of "\<lambda>x. m_cache (snd x)"] by (simp add: state_eval)
  have "collision_free sha3 root s"
    using db cache by (auto simp: collision_free_def known_maps_def written_maps_def codes_def State_empty_def root_def EmptyTrie_def
        sha3_def Account_endowed_def Account_dead_def split: if_splits)
  from commit_persists_view [OF ok this, of RemoveEmptyAccounts]
  obtain s' where "commit sha3 root RemoveEmptyAccounts s = (Inr (), s')" "m_cache s' = []" "view sha3 s' 7 = Some (fresh_view sha3 0 5)"
    using v by (auto simp: fresh_view_def view_empty_def)
  then show ?thesis using s(1) by (simp add: Let_def sha3_def [symmetric] root_def [symmetric])
qed

end
