(* ===== verification/NativeStorage.thy ===== *)
theory NativeStorage
  imports StateUndo
begin

text \<open>
  Native contracts: \<open>libwingvm/NativeStorage.cpp\<close>, \<open>Native.h\<close>, \<open>Native.cpp\<close>, \<open>Asset.h\<close> and \<open>Asset.cpp\<close>. A native contract keeps byte strings in the storage words of an account: the
  first word has the length in its two highest bytes and the first 30 bytes of data, the following keys hold 32 bytes each.
  The registry of native contracts is such a storage under the root contract's address.
\<close>

section \<open>Strings in one word\<close>

definition as256 :: "bytes \<Rightarrow> state_error + u256" where
  "as256 s = (if length s > 32 then Inl ValueTooLarge else Inr (fromBigEndian (s @ replicate (32 - length s) 0)))"

definition from256 :: "u256 \<Rightarrow> bytes" where
  "from256 h = takeWhile (\<lambda>b. b \<noteq> 0) (toBigEndian (unat h) 32)"

section \<open>Byte strings in storage\<close>

definition keyOn :: "(bytes \<Rightarrow> h256) \<Rightarrow> nat \<Rightarrow> (rlp_stream \<Rightarrow> rlp_error + rlp_stream) \<Rightarrow> rlp_error + u256" where
  "keyOn sha3 prt key = ebind (rlpList [append_bigint prt, key]) (\<lambda>b. Inr (sha3 b))"

definition getWord :: "(bytes \<Rightarrow> h256) \<Rightarrow> address \<Rightarrow> u256 \<Rightarrow> u256 op" where
  "getWord sha3 addr key = storage sha3 addr key"

definition putWord :: "(bytes \<Rightarrow> h256) \<Rightarrow> address \<Rightarrow> u256 \<Rightarrow> u256 \<Rightarrow> unit op" where
  "putWord sha3 addr key v = setStorage sha3 addr key v"

text \<open>The loop of \<open>getData\<close>, \<open>read\<close> being the number of bytes in \<open>buf\<close>.\<close>

function getData_loop :: "(bytes \<Rightarrow> h256) \<Rightarrow> address \<Rightarrow> u256 \<Rightarrow> nat \<Rightarrow> bytes \<Rightarrow> bytes op" where
  "getData_loop sha3 addr key len buf =
     (if length buf < len then sbind (getWord sha3 addr (key + 1)) (\<lambda>w.
        getData_loop sha3 addr (key + 1) len (buf @ take (min (len - length buf) 32) (hash_bytes w)))
      else sret buf)"
  by pat_completeness auto
termination
  by (relation "measure (\<lambda>(sha3, addr, key, len, buf). len - length buf)") (auto simp: hash_bytes_def)

declare getData_loop.simps [simp del]

text \<open>\<open>getData\<close> returns the length and the output buffer; an empty entry leaves the buffer as it was.\<close>

definition getData :: "(bytes \<Rightarrow> h256) \<Rightarrow> address \<Rightarrow> u256 \<Rightarrow> bytes \<Rightarrow> (nat \<times> bytes) op" where
  "getData sha3 addr key buf = sbind (getWord sha3 addr key) (\<lambda>frst.
     let len = unat (drop_bit 240 frst) in
     if len = 0 then sret (0, buf)
     else sbind (getData_loop sha3 addr key len (take (min len 30) (drop 2 (hash_bytes frst)))) (\<lambda>buf'. sret (len, buf')))"

function putData_loop :: "(bytes \<Rightarrow> h256) \<Rightarrow> address \<Rightarrow> u256 \<Rightarrow> bytes \<Rightarrow> nat \<Rightarrow> unit op" where
  "putData_loop sha3 addr key data written =
     (if written < length data then
        (let chunk = slice written (min (length data - written) 32) data in
         sbind (putWord sha3 addr (key + 1) (fromBigEndian (splice 0 chunk (replicate 32 0)))) (\<lambda>_.
           putData_loop sha3 addr (key + 1) data (written + length chunk)))
      else sret ())"
  by pat_completeness auto
termination
  by (relation "measure (\<lambda>(sha3, addr, key, data, written). length data - written)") auto

declare putData_loop.simps [simp del]

definition putData :: "(bytes \<Rightarrow> h256) \<Rightarrow> address \<Rightarrow> u256 \<Rightarrow> bytes \<Rightarrow> unit op" where
  "putData sha3 addr key data =
     (let len = length data in
      if len > 8190 then sthrow ValueTooLarge
      else
        (let h = hash_bytes (push_bit 240 (of_nat len));
             written = min len 30 in
         sbind (putWord sha3 addr key (fromBigEndian (splice 2 (take written data) h))) (\<lambda>_.
           putData_loop sha3 addr key data written)))"

section \<open>The registry\<close>

definition RootContractAddress :: address where
  "RootContractAddress = 0x0300000000000000000000000000000000000000"

definition PartitionNativeContracts :: nat where
  "PartitionNativeContracts = 1"

definition lift_rlp :: "rlp_error + 'a \<Rightarrow> 'a op" where
  "lift_rlp r = (case r of Inl e \<Rightarrow> sthrow (RLPError e) | Inr x \<Rightarrow> sret x)"

definition keyOn_address :: "(bytes \<Rightarrow> h256) \<Rightarrow> nat \<Rightarrow> address \<Rightarrow> u256 op" where
  "keyOn_address sha3 prt addr = lift_rlp (keyOn sha3 prt (append_hash (address_bytes addr) False False))"

definition isNativeContract :: "(bytes \<Rightarrow> h256) \<Rightarrow> address \<Rightarrow> bool op" where
  "isNativeContract sha3 addr = sbind (keyOn_address sha3 PartitionNativeContracts addr) (\<lambda>key.
     sbind (getData sha3 RootContractAddress key []) (\<lambda>(len, vmName). sret (len \<noteq> 0)))"

text \<open>\<open>AssetVM::exec\<close>: the asset contract runs only at depth one, and returns its empty output.\<close>

definition AssetVM_exec :: "nat \<Rightarrow> bytes op" where
  "AssetVM_exec depth = (if depth \<noteq> 1 then sthrow AssetContractCalledDirectly else sret [])"

definition asset_name :: bytes where
  "asset_name = [0x61, 0x73, 0x73, 0x65, 0x74]"

definition callVM :: "(bytes \<Rightarrow> h256) \<Rightarrow> address \<Rightarrow> nat \<Rightarrow> bytes op" where
  "callVM sha3 addr depth = sbind (keyOn_address sha3 1 addr) (\<lambda>key.
     sbind (getData sha3 RootContractAddress key []) (\<lambda>(len, vmName).
       if len \<noteq> 0 \<and> vmName = asset_name then AssetVM_exec depth else sthrow (NativeVMNotFound vmName)))"

definition abiMethodId :: "(bytes \<Rightarrow> h256) \<Rightarrow> bytes \<Rightarrow> bytes" where
  "abiMethodId sha3 method = take 4 (hash_bytes (sha3 method))"

section \<open>Stores of words\<close>

text \<open>
  What the native storage relies on: reading a word after writing one. The client's lemma is about runs of words under consecutive keys, which
  wrap around at the end of the key space.
\<close>

locale word_store =
  fixes ok :: "'s \<Rightarrow> bool" and get :: "'s \<Rightarrow> 'k::len word \<Rightarrow> 'v" and put :: "'k word \<Rightarrow> 'v \<Rightarrow> 's \<Rightarrow> 's"
  assumes get_put: "ok s \<Longrightarrow> get (put k v s) = (get s)(k := v)"
    and ok_put: "ok s \<Longrightarrow> ok (put k v s)"
begin

lemma run_ok: "ok s \<Longrightarrow> ok (fold (\<lambda>(i, v). put (k + of_nat i) v) (enumerate j vs) s)"
  by (induction vs arbitrary: s j) (auto simp: ok_put)

lemma get_run:
  "ok s \<Longrightarrow> j + length vs \<le> 2 ^ LENGTH('k) \<Longrightarrow>
   get (fold (\<lambda>(i, v). put (k + of_nat i) v) (enumerate j vs) s) x =
     (let i = unat (x - k) in if j \<le> i \<and> i < j + length vs then vs ! (i - j) else get s x)"
proof (induction vs arbitrary: s j)
  case Nil
  then show ?case by (auto simp: Let_def)
next
  case (Cons v vs)
  let ?i = "unat (x - k)"
  have eq: "x = k + of_nat j \<longleftrightarrow> ?i = j"
  proof
    assume "x = k + of_nat j"
    then show "?i = j" using Cons.prems(2) by (simp add: unat_of_nat take_bit_nat_eq_self_iff)
  next
    assume "?i = j"
    moreover have "of_nat ?i = x - k" by simp
    ultimately have "of_nat j = x - k" by simp
    then show "x = k + of_nat j" by simp
  qed
  have "get (fold (\<lambda>(i, v). put (k + of_nat i) v) (enumerate (Suc j) vs) (put (k + of_nat j) v s)) x =
      (if Suc j \<le> ?i \<and> ?i < Suc j + length vs then vs ! (?i - Suc j) else get (put (k + of_nat j) v s) x)"
    using Cons.IH [of "put (k + of_nat j) v s" "Suc j"] Cons.prems ok_put by (simp add: Let_def)
  then show ?case
    using Cons.prems(1) eq by (auto simp: get_put Let_def nth_Cons')
qed

end

section \<open>The state as a store of words\<close>

definition ns_ok :: "(bytes \<Rightarrow> h256) \<Rightarrow> address \<Rightarrow> state \<Rightarrow> bool" where
  "ns_ok sha3 addr s \<longleftrightarrow> state_ok sha3 s \<and> view sha3 s addr \<noteq> None"

definition ns_get :: "(bytes \<Rightarrow> h256) \<Rightarrow> address \<Rightarrow> state \<Rightarrow> u256 \<Rightarrow> u256" where
  "ns_get sha3 addr s = v_storage (the (view sha3 s addr))"

definition ns_put :: "(bytes \<Rightarrow> h256) \<Rightarrow> address \<Rightarrow> u256 \<Rightarrow> u256 \<Rightarrow> state \<Rightarrow> state" where
  "ns_put sha3 addr k v s = snd (putWord sha3 addr k v s)"

lemma ns_put_view:
  assumes "ns_ok sha3 addr s"
  obtains v where "view sha3 s addr = Some v" "state_ok sha3 (ns_put sha3 addr k x s)"
    "view sha3 (ns_put sha3 addr k x s) = (view sha3 s)(addr \<mapsto> v\<lparr>v_storage := (v_storage v)(k := x)\<rparr>)"
    "putWord sha3 addr k x s = (Inr (), ns_put sha3 addr k x s)"
proof -
  obtain v where v: "view sha3 s addr = Some v" "state_ok sha3 s" using assms by (auto simp: ns_ok_def)
  obtain s' where "setStorage sha3 addr k x s = (Inr (), s')"
    "step sha3 s s' ((view sha3 s)(addr \<mapsto> v\<lparr>v_storage := (v_storage v)(k := x)\<rparr>)) (insert addr (dirty_set s)) [Storage addr k (v_storage v k)]"
    using setStorage_spec [OF v(2,1)] by blast
  then show thesis using that [OF v(1)] by (simp add: ns_put_def putWord_def step_def)
qed

lemma putWord_put: "ns_ok sha3 addr s \<Longrightarrow> putWord sha3 addr k v s = (Inr (), ns_put sha3 addr k v s)"
  by (erule ns_put_view [of sha3 addr s k v])

interpretation ns: word_store "ns_ok sha3 addr" "ns_get sha3 addr" "ns_put sha3 addr" for sha3 addr
proof unfold_locales
  fix s k v assume ok: "ns_ok sha3 addr s"
  obtain w where "view sha3 s addr = Some w" "state_ok sha3 (ns_put sha3 addr k v s)"
    "view sha3 (ns_put sha3 addr k v s) = (view sha3 s)(addr \<mapsto> w\<lparr>v_storage := (v_storage w)(k := v)\<rparr>)"
    by (rule ns_put_view [OF ok])
  then show "ns_get sha3 addr (ns_put sha3 addr k v s) = (ns_get sha3 addr s)(k := v)" "ns_ok sha3 addr (ns_put sha3 addr k v s)"
    by (simp_all add: ns_get_def ns_ok_def)
qed

lemma getWord_get:
  assumes "ns_ok sha3 addr s"
  obtains s' where "getWord sha3 addr k s = (Inr (ns_get sha3 addr s k), s')" "quiet sha3 s s'"
proof -
  have ok: "state_ok sha3 s" using assms by (simp add: ns_ok_def)
  obtain s' where "storage sha3 addr k s = (Inr (case view sha3 s addr of Some v \<Rightarrow> v_storage v k | None \<Rightarrow> 0), s')" "quiet sha3 s s'"
    by (rule storage_spec [OF ok])
  then show thesis using that assms by (auto simp: getWord_def ns_get_def ns_ok_def)
qed


lemma quiet_ns_ok: "quiet sha3 s s' \<Longrightarrow> ns_ok sha3 addr s \<Longrightarrow> ns_ok sha3 addr s'" "quiet sha3 s s' \<Longrightarrow> ns_get sha3 addr s' = ns_get sha3 addr s"
  by (auto simp: ns_ok_def ns_get_def quiet_def)

section \<open>Chunks\<close>

fun chunks :: "bytes \<Rightarrow> bytes list" where
  "chunks xs = (if xs = [] then [] else take 32 xs # chunks (drop 32 xs))"

declare chunks.simps [simp del]

lemma chunks_Nil [simp]: "chunks [] = []"
  by (simp add: chunks.simps)

lemma chunks_ne: "xs \<noteq> [] \<Longrightarrow> chunks xs = take 32 xs # chunks (drop 32 xs)"
  by (simp add: chunks.simps [of xs])

lemma length_chunks: "length (chunks xs) \<le> length xs"
proof (induction xs rule: chunks.induct)
  case (1 xs)
  show ?case
  proof (cases xs)
    case (Cons x ys)
    then show ?thesis using 1 by (simp add: chunks_ne)
  qed simp
qed

definition word_of :: "bytes \<Rightarrow> u256" where
  "word_of c = fromBigEndian (c @ replicate (32 - length c) 0)"

definition header_word :: "bytes \<Rightarrow> u256" where
  "header_word data = fromBigEndian (toBigEndian (length data) 2 @ take 30 data @ replicate (30 - length data) 0)"

definition data_words :: "bytes \<Rightarrow> u256 list" where
  "data_words data = header_word data # map word_of (chunks (drop 30 data))"

lemma hash_bytes_word: "length bs = 32 \<Longrightarrow> hash_bytes (fromBigEndian bs) = bs"
  using fromBigEndian_inject [of "hash_bytes (fromBigEndian bs)" bs] by (simp add: hash_bytes_def u256_roundtrip)

lemma hash_bytes_word_of: "length c \<le> 32 \<Longrightarrow> hash_bytes (word_of c) = c @ replicate (32 - length c) 0"
  unfolding word_of_def by (rule hash_bytes_word) simp

lemma be_nat_zeros: "be_nat (replicate n 0) = 0"
  by (induction n) (simp_all add: be_nat_Cons)

lemma length_word_bytes:
  assumes "n < 65536"
  shows "hash_bytes (push_bit 240 (of_nat n)) = toBigEndian n 2 @ replicate 30 0"
proof (rule be_nat_inject)
  have "unat (push_bit 240 (of_nat n) :: u256) = n * 2 ^ 240"
  proof -
    have "(push_bit 240 (of_nat n) :: u256) = of_nat (n * 2 ^ 240)" by (simp add: push_bit_eq_mult)
    moreover have "n * 2 ^ 240 < 2 ^ LENGTH(256)" using assms by simp
    ultimately show ?thesis by (simp only: unat_of_nat mod_less)
  qed
  moreover have "be_nat (toBigEndian n 2 @ replicate 30 0) = n * 2 ^ 240"
    using assms by (simp add: be_nat_append be_nat_toBigEndian be_nat_zeros)
  moreover have "n * 2 ^ 240 < 256 ^ 32" using assms by simp
  ultimately show "be_nat (hash_bytes (push_bit 240 (of_nat n))) = be_nat (toBigEndian n 2 @ replicate 30 0)"
    by (simp add: hash_bytes_def be_nat_toBigEndian)
qed (simp add: hash_bytes_def)

lemma header_word_eq:
  assumes "length data < 65536"
  shows "fromBigEndian (splice 2 (take (min (length data) 30) data) (hash_bytes (push_bit 240 (of_nat (length data))))) = header_word data"
proof -
  have l: "length (toBigEndian (length data) 2) = 2" by simp
  have "splice 2 (take (min (length data) 30) data) (toBigEndian (length data) 2 @ replicate 30 0) =
      toBigEndian (length data) 2 @ take 30 data @ replicate (30 - length data) 0"
    using l by (cases "length data \<le> 30") (simp_all add: splice_def min_def drop_append)
  then show ?thesis by (simp add: header_word_def length_word_bytes [OF assms])
qed

lemma header_word_read:
  assumes "length data < 65536"
  shows "unat (drop_bit 240 (header_word data)) = length data"
    "take (min (length data) 30) (drop 2 (hash_bytes (header_word data))) = take 30 data"
proof -
  let ?bs = "toBigEndian (length data) 2 @ take 30 data @ replicate (30 - length data) 0"
  have l: "length ?bs = 32" by simp
  have "be_nat ?bs = length data * 256 ^ 30 + be_nat (take 30 data @ replicate (30 - length data) 0)"
  proof -
    have "length (take 30 data @ replicate (30 - length data) 0) = 30" by simp
    then show ?thesis
      using assms be_nat_append [of "toBigEndian (length data) 2" "take 30 data @ replicate (30 - length data) 0"]
      by (simp only: be_nat_toBigEndian) simp
  qed
  moreover have "be_nat (take 30 data @ replicate (30 - length data) 0) < 256 ^ 30"
  proof -
    have "length (take 30 data @ replicate (30 - length data) 0) = 30" by simp
    then show ?thesis using be_nat_bound [of "take 30 data @ replicate (30 - length data) 0"] by (simp only:)
  qed
  ultimately have "be_nat ?bs div 256 ^ 30 = length data" by simp
  moreover have "unat (header_word data) = be_nat ?bs"
    using be_nat_bound [of ?bs] l by (simp add: header_word_def unat_fromBigEndian)
  ultimately show "unat (drop_bit 240 (header_word data)) = length data"
    unfolding unat_drop_bit_eq by (simp add: drop_bit_eq_div)
  show "take (min (length data) 30) (drop 2 (hash_bytes (header_word data))) = take 30 data"
    using hash_bytes_word [OF l] by (simp add: header_word_def min_def)
qed

section \<open>The loops\<close>

definition put_run :: "(bytes \<Rightarrow> h256) \<Rightarrow> address \<Rightarrow> u256 \<Rightarrow> nat \<Rightarrow> u256 list \<Rightarrow> state \<Rightarrow> state" where
  "put_run sha3 addr k j vs s = fold (\<lambda>(i, v). ns_put sha3 addr (k + of_nat i) v) (enumerate j vs) s"

lemma putData_loop_run:
  "ns_ok sha3 addr s \<Longrightarrow> key + 1 = k + of_nat j \<Longrightarrow>
   putData_loop sha3 addr key data written s = (Inr (), put_run sha3 addr k j (map word_of (chunks (drop written data))) s)"
proof (induction sha3 addr key data written arbitrary: s j rule: putData_loop.induct)
  case (1 sha3 addr key data written)
  show ?case
  proof (cases "written < length data")
    case False
    then show ?thesis by (simp add: putData_loop.simps [of sha3 addr key] sret_def put_run_def)
  next
    case True
    let ?c = "slice written (min (length data - written) 32) data"
    have c: "?c = take 32 (drop written data)" by (simp add: slice_def min_def)
    have w: "fromBigEndian (splice 0 ?c (replicate 32 0)) = word_of ?c" by (simp add: word_of_def splice_def)
    have ch: "chunks (drop written data) = ?c # chunks (drop (written + length ?c) data)"
      using True c chunks_ne [of "drop written data"] by (cases "length data - written \<le> 32") (simp_all add: add.commute)
    let ?s = "ns_put sha3 addr (key + 1) (word_of ?c) s"
    have "putData_loop sha3 addr key data written s = putData_loop sha3 addr (key + 1) data (written + length ?c) ?s"
      using True w putWord_put [OF "1.prems"(1)] by (simp add: putData_loop.simps [of sha3 addr key] Let_def)
    also have "\<dots> = (Inr (), put_run sha3 addr k (Suc j) (map word_of (chunks (drop (written + length ?c) data))) ?s)"
      using "1.IH" [OF True refl, of ?s "Suc j"] ns.ok_put "1.prems" by (simp add: algebra_simps)
    finally show ?thesis
      using "1.prems"(2) by (simp add: put_run_def ch)
  qed
qed

lemma getData_loop_run:
  "ns_ok sha3 addr s \<Longrightarrow> key + 1 = k + of_nat j \<Longrightarrow>
   (\<And>i. i < length (chunks rest) \<Longrightarrow> ns_get sha3 addr s (k + of_nat (j + i)) = word_of (chunks rest ! i)) \<Longrightarrow>
   \<exists>s'. getData_loop sha3 addr key (length buf + length rest) buf s = (Inr (buf @ rest), s') \<and> quiet sha3 s s'"
proof (induction rest arbitrary: s key j buf rule: chunks.induct)
  case (1 rest)
  show ?case
  proof (cases "rest = []")
    case True
    then show ?thesis using "1.prems"(1) quiet_refl by (auto simp: getData_loop.simps [of sha3 addr key] sret_def ns_ok_def)
  next
    case False
    note ch = chunks_ne [OF False]
    obtain t where t: "getWord sha3 addr (key + 1) s = (Inr (ns_get sha3 addr s (key + 1)), t)" "quiet sha3 s t"
      by (rule getWord_get [OF "1.prems"(1)])
    have w: "ns_get sha3 addr s (key + 1) = word_of (take 32 rest)" using "1.prems"(2) "1.prems"(3) [of 0] ch by simp
    have tk: "take (min (length rest) 32) (hash_bytes (word_of (take 32 rest))) = take 32 rest"
      by (simp add: hash_bytes_word_of min_def)
    have len: "length buf + length rest = length (buf @ take 32 rest) + length (drop 32 rest)" by simp
    have "getData_loop sha3 addr key (length buf + length rest) buf s =
        getData_loop sha3 addr (key + 1) (length (buf @ take 32 rest) + length (drop 32 rest)) (buf @ take 32 rest) t"
      using False t(1) w tk len by (simp add: getData_loop.simps [of sha3 addr key] del: length_append length_take length_drop)
        (simp add: getData_loop.simps [of sha3 addr key])
    moreover have "\<exists>s'. getData_loop sha3 addr (key + 1) (length (buf @ take 32 rest) + length (drop 32 rest)) (buf @ take 32 rest) t =
        (Inr ((buf @ take 32 rest) @ drop 32 rest), s') \<and> quiet sha3 t s'"
    proof (rule "1.IH" [OF False, of t "key + 1" "Suc j" "buf @ take 32 rest"])
      show "ns_ok sha3 addr t" by (rule quiet_ns_ok(1) [OF t(2) "1.prems"(1)])
      show "key + 1 + 1 = k + of_nat (Suc j)" using "1.prems"(2) by (simp add: algebra_simps)
      fix i assume "i < length (chunks (drop 32 rest))"
      then show "ns_get sha3 addr t (k + of_nat (Suc j + i)) = word_of (chunks (drop 32 rest) ! i)"
        using "1.prems"(3) [of "Suc i"] ch quiet_ns_ok(2) [OF t(2)] by simp
    qed
    ultimately show ?thesis using quiet_trans [OF t(2)] by auto
  qed
qed

lemma putData_run:
  assumes "ns_ok sha3 addr s" "length data \<le> 8190"
  shows "putData sha3 addr key data s = (Inr (), put_run sha3 addr key 0 (data_words data) s)"
proof -
  let ?s = "ns_put sha3 addr key (header_word data) s"
  have h: "length data < 65536" using assms(2) by simp
  have "putData sha3 addr key data s = putData_loop sha3 addr key data (min (length data) 30) ?s"
    using assms(2) putWord_put [OF assms(1)] header_word_eq [OF h] by (simp add: putData_def Let_def)
  also have "\<dots> = (Inr (), put_run sha3 addr key 1 (map word_of (chunks (drop (min (length data) 30) data))) ?s)"
    by (rule putData_loop_run) (simp_all add: ns.ok_put assms(1))
  also have "drop (min (length data) 30) data = drop 30 data" by (simp add: min_def)
  finally show ?thesis by (simp add: put_run_def data_words_def)
qed

lemma put_run_view:
  assumes "ns_ok sha3 addr s"
  shows "b \<noteq> addr \<Longrightarrow> view sha3 (put_run sha3 addr k j vs s) b = view sha3 s b"
  using assms
proof (induction vs arbitrary: s j)
  case Nil
  then show ?case by (simp add: put_run_def)
next
  case (Cons v vs)
  obtain w where "view sha3 (ns_put sha3 addr (k + of_nat j) v s) = (view sha3 s)(addr \<mapsto> w)"
    using ns_put_view [OF Cons.prems(2)] by blast
  then show ?case
    using Cons.IH [of "ns_put sha3 addr (k + of_nat j) v s" "Suc j"] Cons.prems ns.ok_put by (simp add: put_run_def)
qed

lemma data_words_bound: "length data \<le> 8190 \<Longrightarrow> length (data_words data) \<le> 8191"
  using length_chunks [of "drop 30 data"] by (simp add: data_words_def)

lemma getData_run:
  assumes ok: "ns_ok sha3 addr s" and len: "length data < 65536"
    and w: "\<And>i. i < length (data_words data) \<Longrightarrow> ns_get sha3 addr s (key + of_nat i) = data_words data ! i"
  shows "\<exists>s'. getData sha3 addr key buf s = (Inr (length data, if data = [] then buf else data), s') \<and> quiet sha3 s s'"
proof -
  obtain t where t: "getWord sha3 addr key s = (Inr (header_word data), t)" "quiet sha3 s t"
    using getWord_get [OF ok, of key] w [of 0] by (auto simp: data_words_def)
  note h = header_word_read [OF len]
  show ?thesis
  proof (cases "data = []")
    case True
    then show ?thesis using t h(1) by (auto simp: getData_def sret_def)
  next
    case False
    have "\<exists>s'. getData_loop sha3 addr key (length (take 30 data) + length (drop 30 data)) (take 30 data) t =
        (Inr (take 30 data @ drop 30 data), s') \<and> quiet sha3 t s'"
    proof (rule getData_loop_run [where k = key and j = 1])
      show "ns_ok sha3 addr t" by (rule quiet_ns_ok(1) [OF t(2) ok])
      fix i assume "i < length (chunks (drop 30 data))"
      then show "ns_get sha3 addr t (key + of_nat (1 + i)) = word_of (chunks (drop 30 data) ! i)"
        using w [of "Suc i"] quiet_ns_ok(2) [OF t(2)] by (simp add: data_words_def)
    qed simp
    then obtain s' where s': "getData_loop sha3 addr key (length data) (take 30 data) t = (Inr data, s')" "quiet sha3 t s'"
    proof -
      have "length (take 30 data) + length (drop 30 data) = length data" by simp
      with that \<open>\<exists>s'. _\<close> show thesis by auto
    qed
    have "getData sha3 addr key buf s = (Inr (length data, data), s')"
      using t(1) h False s'(1) by (simp add: getData_def sret_def Let_def)
    then show ?thesis using quiet_trans [OF t(2) s'(2)] False by auto
  qed
qed

lemma put_run_reads:
  assumes ok: "ns_ok sha3 addr s" and len: "length vs \<le> 8191" and i: "i < length vs"
  shows "ns_get sha3 addr (put_run sha3 addr key 0 vs s) (key + of_nat i) = vs ! i"
proof -
  have "unat (of_nat i :: u256) = i" using i len by (simp add: unat_of_nat)
  then show ?thesis
    using ns.get_run [OF ok, of 0 vs key "key + of_nat i"] len i by (simp add: put_run_def)
qed

text \<open>(C28) Native storage reads back what was written. With the native contract's account in the state, \<open>putData\<close> of at most 8190 bytes succeeds, and \<open>getData\<close> at
  the same key returns the length and exactly these bytes (an empty string leaves the caller's buffer as it was), also when the keys wrap around at \<open>2 ^ 256\<close>; every storage word outside the
  written run and every other account are unchanged. More than 8190 bytes are refused with \<open>ValueTooLarge\<close> before anything is written.\<close>

theorem native_storage_roundtrip:
  assumes ok: "ns_ok sha3 addr s"
  shows "if length data \<le> 8190
    then \<exists>s'. putData sha3 addr key data s = (Inr (), s') \<and> ns_ok sha3 addr s' \<and>
      (\<exists>s''. getData sha3 addr key buf s' = (Inr (length data, if data = [] then buf else data), s'') \<and> quiet sha3 s' s'') \<and>
      (\<forall>k. length (data_words data) \<le> unat (k - key) \<longrightarrow> ns_get sha3 addr s' k = ns_get sha3 addr s k) \<and>
      (\<forall>b. b \<noteq> addr \<longrightarrow> view sha3 s' b = view sha3 s b)
    else putData sha3 addr key data s = (Inl ValueTooLarge, s)"
proof (cases "length data \<le> 8190")
  case False
  then show ?thesis by (simp add: putData_def Let_def sthrow_def)
next
  case True
  let ?s = "put_run sha3 addr key 0 (data_words data) s"
  have ok': "ns_ok sha3 addr ?s" unfolding put_run_def by (rule ns.run_ok [OF ok])
  have "\<exists>s''. getData sha3 addr key buf ?s = (Inr (length data, if data = [] then buf else data), s'') \<and> quiet sha3 ?s s''"
    by (rule getData_run [OF ok']) (use True put_run_reads [OF ok data_words_bound [OF True]] in auto)
  moreover have "ns_get sha3 addr ?s k = ns_get sha3 addr s k" if "length (data_words data) \<le> unat (k - key)" for k
    using ns.get_run [OF ok, of 0 "data_words data" key k] data_words_bound [OF True] that by (simp add: put_run_def)
  ultimately show ?thesis using True putData_run [OF ok True] ok' put_run_view [OF ok] by auto
qed

lemma started_State_empty: "n \<noteq> Invalid256 \<Longrightarrow> started (State_empty sha3 n g)"
  by (simp add: started_def State_empty_def)

lemma empty_create_ns:
  assumes "EmptyTrie sha3 \<noteq> 0"
  shows "ns_ok sha3 a (snd (createContract sha3 a (State_empty sha3 0 g)))"
proof -
  have "view sha3 (State_empty sha3 0 g) a = None" by (simp add: State_empty_def view_def base_view_def trie_at_def)
  moreover have "started (State_empty sha3 0 g)" by (rule started_State_empty) (simp add: Invalid256_def)
  ultimately show ?thesis
    using createContract_spec(1) [OF State_empty_ok [OF assms, of 0 g], of a] by (auto simp: ns_ok_def step_def)
qed

theorem native_storage_roundtrip_witness:
  "let sha3 = (\<lambda>_. 1); s = snd (createContract sha3 5 (State_empty sha3 0 (\<lambda>i. i))) in
   \<exists>s' s''. putData sha3 5 (- 1) (replicate 100 7) s = (Inr (), s') \<and> getData sha3 5 (- 1) [] s' = (Inr (100, replicate 100 7), s'')"
proof -
  have "ns_ok (\<lambda>_. 1) 5 (snd (createContract (\<lambda>_. 1) 5 (State_empty (\<lambda>_. 1) 0 (\<lambda>i. i))))"
    by (rule empty_create_ns) (simp add: EmptyTrie_def)
  from native_storage_roundtrip [OF this, where data = "replicate 100 7" and key = "- 1" and buf = "[]"] show ?thesis
    by (auto simp: Let_def)
qed

section \<open>Registered contracts\<close>

definition registry_key :: "(bytes \<Rightarrow> h256) \<Rightarrow> address \<Rightarrow> u256" where
  "registry_key sha3 addr = sha3 (enc (List [Data [1], Data (address_bytes addr)]))"

lemma registry_keyOn: "keyOn_address sha3 1 addr s = (Inr (registry_key sha3 addr), s)"
proof -
  let ?ws = "[append_bigint 1, append_hash (address_bytes addr) False False]"
  let ?e = "\<lambda>f. case f RLPStream_new of Inl _ \<Rightarrow> [] | Inr t \<Rightarrow> m_out t"
  have l: "length (address_bytes addr) = 20" by (simp add: address_bytes_def)
  have one: "append_bigint 1 u = noteAppended 1 (u\<lparr>m_out := m_out u @ enc (Data [1])\<rparr>)" for u
    by (simp add: append_bigint_def rlp_consts push_back_def)
  have adr: "append_hash (address_bytes addr) False False u = noteAppended 1 (u\<lparr>m_out := m_out u @ enc (Data (address_bytes addr))\<rparr>)" for u
    using l by (simp add: append_hash_def append_bytes_enc max_rlp_def del: enc.simps)
  have e: "map ?e ?ws = map enc [Data [1], Data (address_bytes addr)]"
    by (simp add: one adr RLPStream_new_def noteAppended_def del: enc.simps One_nat_def)
  have "appendVector (\<lambda>f. f) ?ws RLPStream_new =
      noteAppended 1 (RLPStream_new\<lparr>m_out := m_out RLPStream_new @ rlp_header 0xc0 (length (concat (map ?e ?ws))) @ concat (map ?e ?ws)\<rparr>)"
  proof (rule appendVector_enc)
    show "\<And>y u. y \<in> set ?ws \<Longrightarrow> y u = noteAppended 1 (u\<lparr>m_out := m_out u @ ?e y\<rparr>)"
      by (auto simp: one adr RLPStream_new_def noteAppended_def simp del: enc.simps One_nat_def)
    show "length (concat (map ?e ?ws)) < max_rlp"
      unfolding e using l by (simp add: enc_Data_short max_rlp_def del: enc.simps)
  qed
  then have "keyOn sha3 1 (append_hash (address_bytes addr) False False) = Inr (registry_key sha3 addr)"
    unfolding e
    by (simp add: keyOn_def rlpList_def appendVector_def RLPStream_new_def noteAppended_def out_def registry_key_def Let_def)
  then show ?thesis by (simp add: keyOn_address_def lift_rlp_def sret_def)
qed



end
