(* ===== verification/Instruction.thy ===== *)
theory Instruction
  imports CommonData
begin

text \<open>
  The instructions of the EVM and their static properties: \<open>libevm/Instruction.h\<close> and \<open>libevm/Instruction.cpp\<close>.
  \<open>enum class Instruction: uint8_t\<close> may hold every byte, so that an instruction is a byte; \<open>Instruction_enum\<close> lists the names the enum gives to
  bytes. The table of the information on instructions is an association list in which, as in the initialiser of a
  \<open>std::map\<close>, the first of two entries with the same key counts.
\<close>

type_synonym Instruction = byte

definition Instruction_enum :: "(string \<times> Instruction) list" where
  "Instruction_enum = [
     (''STOP'', 0x00), (''ADD'', 0x01), (''MUL'', 0x02), (''SUB'', 0x03), (''DIV'', 0x04), (''SDIV'', 0x05), (''MOD'', 0x06),
     (''SMOD'', 0x07), (''ADDMOD'', 0x08), (''MULMOD'', 0x09), (''EXP'', 0x0a), (''SIGNEXTEND'', 0x0b), (''LT'', 0x10), (''GT'', 0x11),
     (''SLT'', 0x12), (''SGT'', 0x13), (''EQ'', 0x14), (''ISZERO'', 0x15), (''AND'', 0x16), (''OR'', 0x17), (''XOR'', 0x18),
     (''NOT'', 0x19), (''BYTE'', 0x1a), (''SHL'', 0x1b), (''SHR'', 0x1c), (''SAR'', 0x1d), (''SHA3'', 0x20), (''ADDRESS'', 0x30),
     (''BALANCE'', 0x31), (''ORIGIN'', 0x32), (''CALLER'', 0x33), (''CALLVALUE'', 0x34), (''CALLDATALOAD'', 0x35),
     (''CALLDATASIZE'', 0x36), (''CALLDATACOPY'', 0x37), (''CODESIZE'', 0x38), (''CODECOPY'', 0x39), (''GASPRICE'', 0x3a),
     (''EXTCODESIZE'', 0x3b), (''EXTCODECOPY'', 0x3c), (''RETURNDATASIZE'', 0x3d), (''RETURNDATACOPY'', 0x3e), (''BLOCKHASH'', 0x40),
     (''COINBASE'', 0x41), (''TIMESTAMP'', 0x42), (''NUMBER'', 0x43), (''DIFFICULTY'', 0x44), (''GASLIMIT'', 0x45), (''POP'', 0x50),
     (''MLOAD'', 0x51), (''MSTORE'', 0x52), (''MSTORE8'', 0x53), (''SLOAD'', 0x54), (''SSTORE'', 0x55), (''JUMP'', 0x56),
     (''JUMPI'', 0x57), (''PC'', 0x58), (''MSIZE'', 0x59), (''GAS'', 0x5a), (''JUMPDEST'', 0x5b), (''PUSH1'', 0x60), (''PUSH2'', 0x61),
     (''PUSH3'', 0x62), (''PUSH4'', 0x63), (''PUSH5'', 0x64), (''PUSH6'', 0x65), (''PUSH7'', 0x66), (''PUSH8'', 0x67), (''PUSH9'', 0x68),
     (''PUSH10'', 0x69), (''PUSH11'', 0x6a), (''PUSH12'', 0x6b), (''PUSH13'', 0x6c), (''PUSH14'', 0x6d), (''PUSH15'', 0x6e),
     (''PUSH16'', 0x6f), (''PUSH17'', 0x70), (''PUSH18'', 0x71), (''PUSH19'', 0x72), (''PUSH20'', 0x73), (''PUSH21'', 0x74),
     (''PUSH22'', 0x75), (''PUSH23'', 0x76), (''PUSH24'', 0x77), (''PUSH25'', 0x78), (''PUSH26'', 0x79), (''PUSH27'', 0x7a),
     (''PUSH28'', 0x7b), (''PUSH29'', 0x7c), (''PUSH30'', 0x7d), (''PUSH31'', 0x7e), (''PUSH32'', 0x7f), (''DUP1'', 0x80),
     (''DUP2'', 0x81), (''DUP3'', 0x82), (''DUP4'', 0x83), (''DUP5'', 0x84), (''DUP6'', 0x85), (''DUP7'', 0x86), (''DUP8'', 0x87),
     (''DUP9'', 0x88), (''DUP10'', 0x89), (''DUP11'', 0x8a), (''DUP12'', 0x8b), (''DUP13'', 0x8c), (''DUP14'', 0x8d), (''DUP15'', 0x8e),
     (''DUP16'', 0x8f), (''SWAP1'', 0x90), (''SWAP2'', 0x91), (''SWAP3'', 0x92), (''SWAP4'', 0x93), (''SWAP5'', 0x94), (''SWAP6'', 0x95),
     (''SWAP7'', 0x96), (''SWAP8'', 0x97), (''SWAP9'', 0x98), (''SWAP10'', 0x99), (''SWAP11'', 0x9a), (''SWAP12'', 0x9b),
     (''SWAP13'', 0x9c), (''SWAP14'', 0x9d), (''SWAP15'', 0x9e), (''SWAP16'', 0x9f), (''LOG0'', 0xa0), (''LOG1'', 0xa1), (''LOG2'', 0xa2),
     (''LOG3'', 0xa3), (''LOG4'', 0xa4), (''PUSHC'', 0xac), (''JUMPC'', 0xad), (''JUMPCI'', 0xae), (''JUMPTO'', 0xb0), (''JUMPIF'', 0xb1),
     (''JUMPSUB'', 0xb2), (''JUMPV'', 0xb3), (''JUMPSUBV'', 0xb4), (''BEGINSUB'', 0xb5), (''BEGINDATA'', 0xb6), (''RETURNSUB'', 0xb7),
     (''PUTLOCAL'', 0xb8), (''GETLOCAL'', 0xb9), (''XADD'', 0xc1), (''XMUL'', 0xc2), (''XSUB'', 0xc3), (''XDIV'', 0xc4), (''XSDIV'', 0xc5),
     (''XMOD'', 0xc6), (''XSMOD'', 0xc7), (''XLT'', 0xd0), (''XGT'', 0xd1), (''XSLT'', 0xd2), (''XSGT'', 0xd3), (''XEQ'', 0xd4),
     (''XISZERO'', 0xd5), (''XAND'', 0xd6), (''XOOR'', 0xd7), (''XXOR'', 0xd8), (''XNOT'', 0xd9), (''XSHL'', 0xdb), (''XSHR'', 0xdc),
     (''XSAR'', 0xdd), (''XROL'', 0xde), (''XROR'', 0xdf), (''XPUSH'', 0xe0), (''XMLOAD'', 0xe1), (''XMSTORE'', 0xe2), (''XSLOAD'', 0xe4),
     (''XSSTORE'', 0xe5), (''XVTOWIDE'', 0xe6), (''XWIDETOV'', 0xe7), (''XGET'', 0xe8), (''XPUT'', 0xe9), (''XSWIZZLE'', 0xea),
     (''XSHUFFLE'', 0xeb), (''CREATE'', 0xf0), (''CALL'', 0xf1), (''CALLCODE'', 0xf2), (''RETURN'', 0xf3), (''DELEGATECALL'', 0xf4),
     (''STATICCALL'', 0xfa), (''CREATE2'', 0xfb), (''REVERT'', 0xfd), (''INVALID'', 0xfe), (''SUICIDE'', 0xff)]"

datatype Tier = Zero | Base | VeryLow | Low | Mid | High | Ext | Special | Invalid

primrec Tier_unsigned :: "Tier \<Rightarrow> nat" where
  "Tier_unsigned Zero = 0"
| "Tier_unsigned Base = 1"
| "Tier_unsigned VeryLow = 2"
| "Tier_unsigned Low = 3"
| "Tier_unsigned Mid = 4"
| "Tier_unsigned High = 5"
| "Tier_unsigned Ext = 6"
| "Tier_unsigned Special = 7"
| "Tier_unsigned Invalid = 8"

record InstructionInfo =
  name :: string
  additional :: nat
  args :: nat
  ret :: nat
  gasPriceTier :: Tier

abbreviation info :: "string \<Rightarrow> nat \<Rightarrow> nat \<Rightarrow> nat \<Rightarrow> Tier \<Rightarrow> InstructionInfo" where
  "info n ad a r t \<equiv> \<lparr>name = n, additional = ad, args = a, ret = r, gasPriceTier = t\<rparr>"

definition c_instructionInfo :: "(Instruction \<times> InstructionInfo) list" where
  "c_instructionInfo = [
     (0x00, info ''STOP'' 0 0 0 Zero), (0x01, info ''ADD'' 0 2 1 VeryLow), (0x03, info ''SUB'' 0 2 1 VeryLow),
     (0x02, info ''MUL'' 0 2 1 Low), (0x04, info ''DIV'' 0 2 1 Low), (0x05, info ''SDIV'' 0 2 1 Low), (0x06, info ''MOD'' 0 2 1 Low),
     (0x07, info ''SMOD'' 0 2 1 Low), (0x0a, info ''EXP'' 0 2 1 Special), (0x19, info ''NOT'' 0 1 1 VeryLow),
     (0x10, info ''LT'' 0 2 1 VeryLow), (0x11, info ''GT'' 0 2 1 VeryLow), (0x12, info ''SLT'' 0 2 1 VeryLow),
     (0x13, info ''SGT'' 0 2 1 VeryLow), (0x14, info ''EQ'' 0 2 1 VeryLow), (0x15, info ''ISZERO'' 0 1 1 VeryLow),
     (0x16, info ''AND'' 0 2 1 VeryLow), (0x17, info ''OR'' 0 2 1 VeryLow), (0x18, info ''XOR'' 0 2 1 VeryLow),
     (0x1a, info ''BYTE'' 0 2 1 VeryLow), (0x1b, info ''SHL'' 0 2 1 VeryLow), (0x1c, info ''SHR'' 0 2 1 VeryLow),
     (0x1d, info ''SAR'' 0 2 1 VeryLow), (0x08, info ''ADDMOD'' 0 3 1 Mid), (0x09, info ''MULMOD'' 0 3 1 Mid),
     (0x0b, info ''SIGNEXTEND'' 0 2 1 Low), (0x20, info ''SHA3'' 0 2 1 Special), (0x30, info ''ADDRESS'' 0 0 1 Base),
     (0x31, info ''BALANCE'' 0 1 1 Special), (0x32, info ''ORIGIN'' 0 0 1 Base), (0x33, info ''CALLER'' 0 0 1 Base),
     (0x34, info ''CALLVALUE'' 0 0 1 Base), (0x35, info ''CALLDATALOAD'' 0 1 1 VeryLow), (0x36, info ''CALLDATASIZE'' 0 0 1 Base),
     (0x37, info ''CALLDATACOPY'' 0 3 0 VeryLow), (0x38, info ''CODESIZE'' 0 0 1 Base), (0x39, info ''CODECOPY'' 0 3 0 VeryLow),
     (0x3a, info ''GASPRICE'' 0 0 1 Base), (0x3b, info ''EXTCODESIZE'' 0 1 1 Special), (0x3c, info ''EXTCODECOPY'' 0 4 0 Special),
     (0x3d, info ''RETURNDATASIZE'' 0 0 1 Base), (0x3e, info ''RETURNDATACOPY'' 0 3 0 VeryLow), (0x40, info ''BLOCKHASH'' 0 1 1 Special),
     (0x41, info ''COINBASE'' 0 0 1 Base), (0x42, info ''TIMESTAMP'' 0 0 1 Base), (0x43, info ''NUMBER'' 0 0 1 Base),
     (0x44, info ''DIFFICULTY'' 0 0 1 Base), (0x45, info ''GASLIMIT'' 0 0 1 Base), (0x50, info ''POP'' 0 1 0 Base),
     (0x51, info ''MLOAD'' 0 1 1 VeryLow), (0x52, info ''MSTORE'' 0 2 0 VeryLow), (0x53, info ''MSTORE8'' 0 2 0 VeryLow),
     (0x54, info ''SLOAD'' 0 1 1 Special), (0x55, info ''SSTORE'' 0 2 0 Special), (0x56, info ''JUMP'' 0 1 0 Mid),
     (0x57, info ''JUMPI'' 0 2 0 High), (0x58, info ''PC'' 0 0 1 Base), (0x59, info ''MSIZE'' 0 0 1 Base), (0x5a, info ''GAS'' 0 0 1 Base),
     (0x5b, info ''JUMPDEST'' 0 0 0 Special), (0x60, info ''PUSH1'' 1 0 1 VeryLow), (0x61, info ''PUSH2'' 2 0 1 VeryLow),
     (0x62, info ''PUSH3'' 3 0 1 VeryLow), (0x63, info ''PUSH4'' 4 0 1 VeryLow), (0x64, info ''PUSH5'' 5 0 1 VeryLow),
     (0x65, info ''PUSH6'' 6 0 1 VeryLow), (0x66, info ''PUSH7'' 7 0 1 VeryLow), (0x67, info ''PUSH8'' 8 0 1 VeryLow),
     (0x68, info ''PUSH9'' 9 0 1 VeryLow), (0x69, info ''PUSH10'' 10 0 1 VeryLow), (0x6a, info ''PUSH11'' 11 0 1 VeryLow),
     (0x6b, info ''PUSH12'' 12 0 1 VeryLow), (0x6c, info ''PUSH13'' 13 0 1 VeryLow), (0x6d, info ''PUSH14'' 14 0 1 VeryLow),
     (0x6e, info ''PUSH15'' 15 0 1 VeryLow), (0x6f, info ''PUSH16'' 16 0 1 VeryLow), (0x70, info ''PUSH17'' 17 0 1 VeryLow),
     (0x71, info ''PUSH18'' 18 0 1 VeryLow), (0x72, info ''PUSH19'' 19 0 1 VeryLow), (0x73, info ''PUSH20'' 20 0 1 VeryLow),
     (0x74, info ''PUSH21'' 21 0 1 VeryLow), (0x75, info ''PUSH22'' 22 0 1 VeryLow), (0x76, info ''PUSH23'' 23 0 1 VeryLow),
     (0x77, info ''PUSH24'' 24 0 1 VeryLow), (0x78, info ''PUSH25'' 25 0 1 VeryLow), (0x79, info ''PUSH26'' 26 0 1 VeryLow),
     (0x7a, info ''PUSH27'' 27 0 1 VeryLow), (0x7b, info ''PUSH28'' 28 0 1 VeryLow), (0x7c, info ''PUSH29'' 29 0 1 VeryLow),
     (0x7d, info ''PUSH30'' 30 0 1 VeryLow), (0x7e, info ''PUSH31'' 31 0 1 VeryLow), (0x7f, info ''PUSH32'' 32 0 1 VeryLow),
     (0x80, info ''DUP1'' 0 1 2 VeryLow), (0x81, info ''DUP2'' 0 2 3 VeryLow), (0x82, info ''DUP3'' 0 3 4 VeryLow),
     (0x83, info ''DUP4'' 0 4 5 VeryLow), (0x84, info ''DUP5'' 0 5 6 VeryLow), (0x85, info ''DUP6'' 0 6 7 VeryLow),
     (0x86, info ''DUP7'' 0 7 8 VeryLow), (0x87, info ''DUP8'' 0 8 9 VeryLow), (0x88, info ''DUP9'' 0 9 10 VeryLow),
     (0x89, info ''DUP10'' 0 10 11 VeryLow), (0x8a, info ''DUP11'' 0 11 12 VeryLow), (0x8b, info ''DUP12'' 0 12 13 VeryLow),
     (0x8c, info ''DUP13'' 0 13 14 VeryLow), (0x8d, info ''DUP14'' 0 14 15 VeryLow), (0x8e, info ''DUP15'' 0 15 16 VeryLow),
     (0x8f, info ''DUP16'' 0 16 17 VeryLow), (0x90, info ''SWAP1'' 0 2 2 VeryLow), (0x91, info ''SWAP2'' 0 3 3 VeryLow),
     (0x92, info ''SWAP3'' 0 4 4 VeryLow), (0x93, info ''SWAP4'' 0 5 5 VeryLow), (0x94, info ''SWAP5'' 0 6 6 VeryLow),
     (0x95, info ''SWAP6'' 0 7 7 VeryLow), (0x96, info ''SWAP7'' 0 8 8 VeryLow), (0x97, info ''SWAP8'' 0 9 9 VeryLow),
     (0x98, info ''SWAP9'' 0 10 10 VeryLow), (0x99, info ''SWAP10'' 0 11 11 VeryLow), (0x9a, info ''SWAP11'' 0 12 12 VeryLow),
     (0x9b, info ''SWAP12'' 0 13 13 VeryLow), (0x9c, info ''SWAP13'' 0 14 14 VeryLow), (0x9d, info ''SWAP14'' 0 15 15 VeryLow),
     (0x9e, info ''SWAP15'' 0 16 16 VeryLow), (0x9f, info ''SWAP16'' 0 17 17 VeryLow), (0xa0, info ''LOG0'' 0 2 0 Special),
     (0xa1, info ''LOG1'' 0 3 0 Special), (0xa2, info ''LOG2'' 0 4 0 Special), (0xa3, info ''LOG3'' 0 5 0 Special),
     (0xa4, info ''LOG4'' 0 6 0 Special), (0xb0, info ''JUMPTO'' 2 1 0 VeryLow), (0xb1, info ''JUMPIF'' 2 2 0 Low),
     (0xb3, info ''JUMPV'' 2 1 0 Mid), (0xb2, info ''JUMPSUB'' 2 1 0 Low), (0xb4, info ''JUMPSUBV'' 2 1 0 Mid),
     (0xb5, info ''BEGINSUB'' 0 0 0 Special), (0xb6, info ''BEGINDATA'' 0 0 0 Special), (0xb7, info ''RETURNSUB'' 0 1 0 Mid),
     (0xb8, info ''PUTLOCAL'' 2 1 0 VeryLow), (0xb9, info ''GETLOCAL'' 2 0 1 VeryLow), (0xc1, info ''XADD'' 1 0 0 Special),
     (0xc2, info ''XMUL'' 1 2 1 Special), (0xc3, info ''XSUB'' 1 2 1 Special), (0xc4, info ''XDIV'' 1 2 1 Special),
     (0xc5, info ''XSDIV'' 1 2 1 Special), (0xc6, info ''XMOD'' 1 2 1 Special), (0xc7, info ''XSMOD'' 1 2 1 Special),
     (0xd0, info ''XLT'' 1 2 1 Special), (0xd1, info ''XGT'' 1 2 1 Special), (0xd2, info ''XSLT'' 1 2 1 Special),
     (0xd3, info ''XSGT'' 1 2 1 Special), (0xd4, info ''XEQ'' 1 2 1 Special), (0xd5, info ''XISZERO'' 1 2 1 Special),
     (0xd6, info ''XAND'' 1 1 1 Special), (0x18, info ''XOR'' 1 2 1 Special), (0xd8, info ''XXOR'' 1 2 1 Special),
     (0xd9, info ''XNOT'' 1 2 1 Special), (0xdb, info ''XSHL'' 1 2 1 Special), (0xdc, info ''XSHR'' 1 2 1 Special),
     (0xdd, info ''XSAR'' 1 2 1 Special), (0xde, info ''XROL'' 1 2 1 Special), (0xdf, info ''XROR'' 1 2 1 Special),
     (0xe0, info ''XPUSH'' 1 1 1 VeryLow), (0xe1, info ''XMLOAD'' 1 1 1 VeryLow), (0xe2, info ''XMSTORE'' 1 2 0 VeryLow),
     (0xe4, info ''XSLOAD'' 1 1 1 Special), (0xe5, info ''XSSTORE'' 1 2 0 Special), (0xe6, info ''XVTOWIDE'' 1 1 1 VeryLow),
     (0xe7, info ''XWIDETOV'' 1 1 1 VeryLow), (0xe9, info ''XPUT'' 1 3 1 Special), (0xe8, info ''XGET'' 1 2 1 Special),
     (0xea, info ''XSWIZZLE'' 1 2 1 Special), (0xeb, info ''XSHUFFLE'' 1 3 1 Special), (0xf0, info ''CREATE'' 0 3 1 Special),
     (0xfb, info ''CREATE2'' 0 4 1 Special), (0xf1, info ''CALL'' 0 7 1 Special), (0xf2, info ''CALLCODE'' 0 7 1 Special),
     (0xf3, info ''RETURN'' 0 2 0 Zero), (0xfa, info ''STATICCALL'' 0 6 1 Special), (0xf4, info ''DELEGATECALL'' 0 6 1 Special),
     (0xfd, info ''REVERT'' 0 2 0 Special), (0xfe, info ''INVALID'' 0 0 0 Zero), (0xff, info ''SUICIDE'' 0 1 0 Special),
     (0xac, info ''PUSHC'' 3 0 1 VeryLow), (0xad, info ''JUMPC'' 0 1 0 Mid), (0xae, info ''JUMPCI'' 0 2 0 High)]"

definition instructionInfo :: "Instruction \<Rightarrow> InstructionInfo" where
  "instructionInfo inst = (case map_of c_instructionInfo inst of Some i \<Rightarrow> i | None \<Rightarrow> info [] 0 0 0 Invalid)"

text \<open>\<open>initMetrics\<close>: the table indexed by the opcode that the interpreter reads.\<close>

record InstructionMetric =
  m_tier :: Tier
  m_args :: nat
  m_ret :: nat

definition c_metrics :: "Instruction \<Rightarrow> InstructionMetric" where
  "c_metrics i = (let op = instructionInfo i in \<lparr>m_tier = gasPriceTier op, m_args = args op, m_ret = ret op\<rparr>)"

end
