(* ===== verification/EVMSchedule.thy ===== *)
theory EVMSchedule
  imports Prelude
begin

text \<open>
  The gas schedules of the hard forks: \<open>struct EVMSchedule\<close> of \<open>libwingcore/EVMSchedule.h\<close> with its constants. A field of type
  \<open>unsigned\<close> is a natural number below \<open>2 ^ 32\<close>.
\<close>

record EVMSchedule =
  exceptionalFailedCodeDeposit :: bool
  haveDelegateCall :: bool
  eip150Mode :: bool
  eip158Mode :: bool
  haveBitwiseShifting :: bool
  haveRevert :: bool
  haveReturnData :: bool
  haveStaticCall :: bool
  haveCreate2 :: bool
  tierStepGas :: "nat list"
  expGas :: nat
  expByteGas :: nat
  sha3Gas :: nat
  sha3WordGas :: nat
  sloadGas :: nat
  sstoreSetGas :: nat
  sstoreResetGas :: nat
  sstoreRefundGas :: nat
  jumpdestGas :: nat
  logGas :: nat
  logDataGas :: nat
  logTopicGas :: nat
  createGas :: nat
  callGas :: nat
  callStipend :: nat
  callValueTransferGas :: nat
  callNewAccountGas :: nat
  suicideRefundGas :: nat
  memoryGas :: nat
  quadCoeffDiv :: nat
  createDataGas :: nat
  txGas :: nat
  txCreateGas :: nat
  txDataZeroGas :: nat
  txDataNonZeroGas :: nat
  copyGas :: nat
  extcodesizeGas :: nat
  extcodecopyGas :: nat
  balanceGas :: nat
  suicideGas :: nat
  blockhashGas :: nat
  maxCodeSize :: nat
  blockRewardOverwrite :: "u256 option"

definition staticCallDepthLimit :: "EVMSchedule \<Rightarrow> bool" where
  "staticCallDepthLimit s = (\<not> eip150Mode s)"

definition suicideChargesNewAccountGas :: "EVMSchedule \<Rightarrow> bool" where
  "suicideChargesNewAccountGas s = eip150Mode s"

definition emptinessIsNonexistence :: "EVMSchedule \<Rightarrow> bool" where
  "emptinessIsNonexistence s = eip158Mode s"

definition zeroValueTransferChargesNewAccountGas :: "EVMSchedule \<Rightarrow> bool" where
  "zeroValueTransferChargesNewAccountGas s = (\<not> eip158Mode s)"

definition DefaultSchedule :: EVMSchedule where
  "DefaultSchedule = \<lparr>
     exceptionalFailedCodeDeposit = True, haveDelegateCall = True, eip150Mode = False, eip158Mode = False,
     haveBitwiseShifting = False, haveRevert = False, haveReturnData = False, haveStaticCall = False, haveCreate2 = False,
     tierStepGas = [0, 2, 3, 5, 8, 10, 20, 0],
     expGas = 10, expByteGas = 10, sha3Gas = 30, sha3WordGas = 6, sloadGas = 50,
     sstoreSetGas = 20000, sstoreResetGas = 5000, sstoreRefundGas = 15000, jumpdestGas = 1,
     logGas = 375, logDataGas = 8, logTopicGas = 375, createGas = 32000, callGas = 40, callStipend = 2300,
     callValueTransferGas = 9000, callNewAccountGas = 25000, suicideRefundGas = 24000, memoryGas = 3, quadCoeffDiv = 512,
     createDataGas = 200, txGas = 21000, txCreateGas = 53000, txDataZeroGas = 4, txDataNonZeroGas = 68, copyGas = 3,
     extcodesizeGas = 20, extcodecopyGas = 20, balanceGas = 20, suicideGas = 0, blockhashGas = 20,
     maxCodeSize = 2 ^ 32 - 1, blockRewardOverwrite = None\<rparr>"

text \<open>The constructor that overrides three of the defaults.\<close>

definition EVMSchedule_of :: "bool \<Rightarrow> bool \<Rightarrow> nat \<Rightarrow> EVMSchedule" where
  "EVMSchedule_of efcd hdc txCreate =
     DefaultSchedule\<lparr>exceptionalFailedCodeDeposit := efcd, haveDelegateCall := hdc, txCreateGas := txCreate\<rparr>"

definition FrontierSchedule :: EVMSchedule where
  "FrontierSchedule = EVMSchedule_of False False 21000"

definition HomesteadSchedule :: EVMSchedule where
  "HomesteadSchedule = EVMSchedule_of True True 53000"

definition EIP150Schedule :: EVMSchedule where
  "EIP150Schedule = HomesteadSchedule\<lparr>eip150Mode := True, extcodesizeGas := 700, extcodecopyGas := 700, balanceGas := 400,
     sloadGas := 200, callGas := 700, suicideGas := 5000\<rparr>"

definition EIP158Schedule :: EVMSchedule where
  "EIP158Schedule = EIP150Schedule\<lparr>expByteGas := 50, eip158Mode := True, maxCodeSize := 0x6000\<rparr>"

definition ether :: u256 where
  "ether = 1000000000000000000"

definition ByzantiumSchedule :: EVMSchedule where
  "ByzantiumSchedule = EIP158Schedule\<lparr>haveRevert := True, haveReturnData := True, haveStaticCall := True,
     blockRewardOverwrite := Some (3 * ether)\<rparr>"

definition EWASMSchedule :: EVMSchedule where
  "EWASMSchedule = ByzantiumSchedule\<lparr>maxCodeSize := 2 ^ 32 - 1, txDataZeroGas := txDataNonZeroGas ByzantiumSchedule\<rparr>"

definition ConstantinopleSchedule :: EVMSchedule where
  "ConstantinopleSchedule = ByzantiumSchedule\<lparr>blockhashGas := 800, haveCreate2 := True, haveBitwiseShifting := True\<rparr>"

definition schedules :: "EVMSchedule list" where
  "schedules = [DefaultSchedule, FrontierSchedule, HomesteadSchedule, EIP150Schedule, EIP158Schedule, ByzantiumSchedule,
     EWASMSchedule, ConstantinopleSchedule]"

lemmas schedule_defs =
  ConstantinopleSchedule_def EWASMSchedule_def ByzantiumSchedule_def EIP158Schedule_def EIP150Schedule_def
  HomesteadSchedule_def FrontierSchedule_def EVMSchedule_of_def DefaultSchedule_def

text \<open>
  What the interpreter relies on: the tier costs, a positive price for every operation after which it goes on, and a
  call stipend that the surcharge for the transfer covers.
\<close>

definition schedule_ok :: "EVMSchedule \<Rightarrow> bool" where
  "schedule_ok s \<longleftrightarrow>
     tierStepGas s = [0, 2, 3, 5, 8, 10, 20, 0] \<and>
     0 < expGas s \<and> expGas s + 32 * expByteGas s < 2 ^ 32 \<and> 0 < sha3Gas s \<and> sha3Gas s < 2 ^ 32 \<and> sha3WordGas s < 2 ^ 32 \<and>
     0 < sloadGas s \<and> sloadGas s < 2 ^ 32 \<and> 0 < sstoreSetGas s \<and> sstoreSetGas s < 2 ^ 32 \<and>
     0 < sstoreResetGas s \<and> sstoreResetGas s < 2 ^ 32 \<and> 0 < logGas s \<and> logGas s + 4 * logTopicGas s < 2 ^ 32 \<and> logDataGas s < 2 ^ 32 \<and>
     0 < createGas s \<and> createGas s < 2 ^ 32 \<and> 0 < callGas s \<and> callGas s < 2 ^ 32 \<and> callStipend s \<le> callValueTransferGas s \<and>
     callValueTransferGas s < 2 ^ 32 \<and> callNewAccountGas s < 2 ^ 32 \<and> 0 < memoryGas s \<and> memoryGas s < 2 ^ 32 \<and>
     quadCoeffDiv s = 512 \<and> copyGas s < 8 \<and> 0 < extcodesizeGas s \<and> extcodesizeGas s < 2 ^ 32 \<and>
     0 < extcodecopyGas s \<and> extcodecopyGas s < 2 ^ 32 \<and> 0 < balanceGas s \<and> balanceGas s < 2 ^ 32 \<and>
     suicideGas s < 2 ^ 32 \<and> 0 < blockhashGas s \<and> blockhashGas s < 2 ^ 32"

lemma schedule_ok_schedules: "list_all schedule_ok schedules"
  by (simp add: schedules_def schedule_ok_def schedule_defs)

end
