(* ===== verification/ExtVMFace.thy ===== *)
theory ExtVMFace
  imports Instruction EVMSchedule
begin

text \<open>
  The boundary between the interpreter and the rest of the node: the exceptions of \<open>libevm/VMFace.h\<close> and the class \<open>ExtVMFace\<close> with its
  data types of \<open>libevm/ExtVMFace.h\<close>. An \<open>ExtVMFace\<close> object has constants that describe the running message, a sub-state that the
  interpreter writes directly, and virtual functions. The record \<open>ExtVMFace\<close> holds the constants and the virtual functions, so
  that the interpreter is defined over it; its type variables are the exceptions \<open>'e\<close> and the state \<open>'s\<close> of the implementation
  behind it. The part that execution changes, \<open>ext\<close>, is passed along.
\<close>

section \<open>Exceptions\<close>

text \<open>
  \<open>External\<close> is an exception that a virtual function of the environment throws through the interpreter. \<open>UndefinedBehaviour\<close> is not an
  exception of the code: it marks an access outside of an array, which the theorems on the interpreter exclude. \<open>TierOutOfRange\<close> marks the one such access that
  happens, the price of an undefined opcode.
\<close>

datatype 'e vm_error =
    BadInstruction
  | BadJumpDestination
  | OutOfGas
  | OutOfStack
  | StackUnderflow
  | DisallowedStateChange
  | BufferOverrun
  | RevertInstruction bytes
  | External 'e
  | UndefinedBehaviour
  | TierOutOfRange

section \<open>Data\<close>

record LogEntry =
  le_address :: address
  le_topics :: "h256 list"
  le_data :: bytes

record SubState =
  suicides :: "address set"
  logs :: "LogEntry list"
  refunds :: u256

definition SubState_new :: SubState where
  "SubState_new = \<lparr>suicides = {}, logs = [], refunds = 0\<rparr>"

definition SubState_add :: "SubState \<Rightarrow> SubState \<Rightarrow> SubState" where
  "SubState_add a s = \<lparr>suicides = suicides a \<union> suicides s, logs = logs a @ logs s, refunds = refunds a + refunds s\<rparr>"

definition SubState_clear :: "SubState \<Rightarrow> SubState" where
  "SubState_clear s = s\<lparr>suicides := {}, logs := [], refunds := 0\<rparr>"

datatype evmc_status_code =
    EVMC_SUCCESS
  | EVMC_FAILURE
  | EVMC_REVERT
  | EVMC_OUT_OF_GAS
  | EVMC_INVALID_INSTRUCTION
  | EVMC_UNDEFINED_INSTRUCTION
  | EVMC_STACK_OVERFLOW
  | EVMC_STACK_UNDERFLOW
  | EVMC_BAD_JUMP_DESTINATION
  | EVMC_INVALID_MEMORY_ACCESS
  | EVMC_CALL_DEPTH_EXCEEDED
  | EVMC_STATIC_MODE_VIOLATION
  | EVMC_PRECOMPILE_FAILURE
  | EVMC_CONTRACT_VALIDATION_FAILURE
  | EVMC_INTERNAL_ERROR
  | EVMC_REJECTED

record CallParameters =
  senderAddress :: address
  codeAddress :: address
  receiveAddress :: address
  valueTransfer :: u256
  apparentValue :: u256
  call_gas :: u256
  call_data :: bytes
  call_static :: bool

definition CallParameters_init :: CallParameters where
  "CallParameters_init = \<lparr>senderAddress = 0, codeAddress = 0, receiveAddress = 0, valueTransfer = 0, apparentValue = 0,
     call_gas = 0, call_data = [], call_static = False\<rparr>"

record CallResult =
  cr_status :: evmc_status_code
  cr_output :: bytes

record CreateResult =
  ct_status :: evmc_status_code
  ct_output :: bytes
  ct_address :: address

text \<open>The part of \<open>EnvInfo\<close> that the interpreter reads; the numbers are \<open>int64_t\<close> in the block header.\<close>

record EnvInfo =
  env_number :: int
  env_author :: address
  env_timestamp :: int
  env_difficulty :: u256
  env_gasLimit :: u256

section \<open>The interface\<close>

record 's ext =
  sub :: SubState
  world :: 's

type_synonym ('e, 's, 'a) hop = "'s ext \<Rightarrow> ('e + 'a) \<times> 's ext"

text \<open>\<open>create\<close> and \<open>call\<close> return the gas that is left beside their result: they write it to the gas argument, or to the field \<open>gas\<close> of the parameters.\<close>

record ('e, 's) ExtVMFace =
  myAddress :: address
  caller :: address
  origin :: address
  ext_value :: u256
  ext_gasPrice :: u256
  ext_data :: bytes
  ext_code :: bytes
  ext_depth :: nat
  staticCall :: bool
  envInfo :: EnvInfo
  evmSchedule :: EVMSchedule
  ext_store :: "u256 \<Rightarrow> ('e, 's, u256) hop"
  ext_setStore :: "u256 \<Rightarrow> u256 \<Rightarrow> ('e, 's, unit) hop"
  ext_balance :: "address \<Rightarrow> ('e, 's, u256) hop"
  ext_codeAt :: "address \<Rightarrow> ('e, 's, bytes) hop"
  ext_codeSizeAt :: "address \<Rightarrow> ('e, 's, nat) hop"
  ext_exists :: "address \<Rightarrow> ('e, 's, bool) hop"
  ext_suicide :: "address \<Rightarrow> ('e, 's, unit) hop"
  ext_create :: "u256 \<Rightarrow> u256 \<Rightarrow> bytes \<Rightarrow> Instruction \<Rightarrow> u256 \<Rightarrow> ('e, 's, CreateResult \<times> u256) hop"
  ext_call :: "CallParameters \<Rightarrow> ('e, 's, CallResult \<times> u256) hop"
  ext_blockHash :: "u256 \<Rightarrow> ('e, 's, h256) hop"

text \<open>\<open>log\<close> has one implementation, in the class itself.\<close>

definition ext_log :: "('e, 's) ExtVMFace \<Rightarrow> h256 list \<Rightarrow> bytes \<Rightarrow> ('e, 's, unit) hop" where
  "ext_log x topics bs s =
     (Inr (), s\<lparr>sub := (sub s)\<lparr>logs := logs (sub s) @ [\<lparr>le_address = myAddress x, le_topics = topics, le_data = bs\<rparr>]\<rparr>\<rparr>)"

text \<open>\<open>suicide\<close> of the class, which the implementations call.\<close>

definition ext_suicide_base :: "('e, 's) ExtVMFace \<Rightarrow> ('e, 's, unit) hop" where
  "ext_suicide_base x s = (Inr (), s\<lparr>sub := (sub s)\<lparr>suicides := insert (myAddress x) (suicides (sub s))\<rparr>\<rparr>)"

text \<open>Conversions between stack items and addresses: the low 160 bits.\<close>

definition asAddress :: "u256 \<Rightarrow> address" where
  "asAddress item = ucast item"

definition fromAddress :: "address \<Rightarrow> u256" where
  "fromAddress a = ucast a"

end
