(* ===== verification/LegacyVM.thy ===== *)
theory LegacyVM
  imports ExtVMFace
begin

unbundle bit_operations_syntax

text \<open>
  The interpreter: class \<open>LegacyVM\<close> of \<open>libevm/LegacyVM.h\<close>, \<open>LegacyVM.cpp\<close>, \<open>LegacyVMCalls.cpp\<close> and \<open>LegacyVMOpt.cpp\<close>, in the configuration
  of \<open>VMConfig.h\<close> (no subroutines, no SIMD, no constant pool, so that the opcodes of these extensions are bad
  instructions). The stack is the array \<open>m_stack\<close> with the two pointers into it, as in the class; \<open>m_SP\<close> counts slots from the
  start of the array and the stack ends at 1024. Integers of type \<open>uint64_t\<close> and \<open>unsigned\<close> are natural numbers, reduced by \<open>u64\<close> and \<open>u32\<close>
  where the code's arithmetic could wrap. The \<open>u512\<close> expressions of the code stay far below \<open>2 ^ 512\<close> and are natural numbers.

  Accesses outside of the arrays are the error \<open>UndefinedBehaviour\<close>: every body states with \<open>reads\<close> how many stack slots it
  reads, and the accesses to memory and code check their range. The read of \<open>tierStepGas[8]\<close> for an undefined opcode is the error \<open>TierOutOfRange\<close>. Tracing (\<open>onOperation\<close>) is
  left out.
\<close>

section \<open>State and control flow\<close>

text \<open>\<open>m_bounce\<close> points to the member function that runs next; \<open>None\<close> is the null pointer.\<close>

datatype bounce = InitEntry | InterpretCases | CaseCreate | CaseCall

record 's LegacyVM =
  m_io_gas_p :: u256
  m_io_gas :: nat
  m_ext :: "'s ext"
  m_bounce :: "bounce option"
  m_output :: bytes
  m_mem :: bytes
  m_code :: bytes
  m_returnData :: bytes
  m_stack :: "nat \<Rightarrow> u256"
  m_OP :: Instruction
  m_PC :: nat
  m_SP :: nat
  m_SPP :: nat
  m_runGas :: nat
  m_newMemSize :: nat
  m_copyMemSize :: nat
  m_jumpDests :: "nat list"

abbreviation m_stackEnd :: nat where
  "m_stackEnd \<equiv> 1024"

type_synonym ('e, 's, 'a) vmop = "'s LegacyVM \<Rightarrow> ('e vm_error + 'a) \<times> 's LegacyVM"

definition vret :: "'a \<Rightarrow> ('e, 's, 'a) vmop" where
  "vret a s = (Inr a, s)"

definition vthrow :: "'e vm_error \<Rightarrow> ('e, 's, 'a) vmop" where
  "vthrow e s = (Inl e, s)"

definition vbind :: "('e, 's, 'a) vmop \<Rightarrow> ('a \<Rightarrow> ('e, 's, 'b) vmop) \<Rightarrow> ('e, 's, 'b) vmop" where
  "vbind m f s = (case m s of (Inl e, s') \<Rightarrow> (Inl e, s') | (Inr a, s') \<Rightarrow> f a s')"

text \<open>The expression \<open>f\<close> over the state, which may throw.\<close>

definition veval :: "('s LegacyVM \<Rightarrow> 'e vm_error + 'a) \<Rightarrow> ('e, 's, 'a) vmop" where
  "veval f s = (f s, s)"

text \<open>\<open>vread f\<close> names values of the present state for the statement \<open>f\<close>.\<close>

definition vread :: "('s LegacyVM \<Rightarrow> ('e, 's, 'a) vmop) \<Rightarrow> ('e, 's, 'a) vmop" where
  "vread f s = f s s"

definition vmodify :: "('s LegacyVM \<Rightarrow> 's LegacyVM) \<Rightarrow> ('e, 's, unit) vmop" where
  "vmodify f s = (Inr (), f s)"

text \<open>\<open>vdo [s1, s2, \<dots>] k\<close> runs the statements in order and then \<open>k\<close>.\<close>

fun vdo :: "('e, 's, unit) vmop list \<Rightarrow> ('e, 's, 'a) vmop \<Rightarrow> ('e, 's, 'a) vmop" where
  "vdo [] k = k"
| "vdo (m # ms) k = vbind m (\<lambda>_. vdo ms k)"

declare vdo.simps(2) [simp del]

definition vif :: "('s LegacyVM \<Rightarrow> bool) \<Rightarrow> ('e, 's, 'a) vmop \<Rightarrow> ('e, 's, 'a) vmop \<Rightarrow> ('e, 's, 'a) vmop" where
  "vif c m n s = (if c s then m s else n s)"

definition throw_if :: "('s LegacyVM \<Rightarrow> bool) \<Rightarrow> 'e vm_error \<Rightarrow> ('e, 's, unit) vmop" where
  "throw_if c e s = (if c s then (Inl e, s) else (Inr (), s))"

text \<open>A call of a virtual function of the environment.\<close>

definition ext_do :: "('e, 's, 'a) hop \<Rightarrow> ('e, 's, 'a) vmop" where
  "ext_do h s = (case h (m_ext s) of (Inl e, t) \<Rightarrow> (Inl (External e), s\<lparr>m_ext := t\<rparr>) | (Inr a, t) \<Rightarrow> (Inr a, s\<lparr>m_ext := t\<rparr>))"

text \<open>The macros \<open>NEXT\<close> and \<open>CONTINUE\<close> go on with the loop, \<open>BREAK\<close> returns from it.\<close>

datatype flow = Loop | Return

definition NEXT :: "('e, 's, flow) vmop" where
  "NEXT s = (Inr Loop, s\<lparr>m_PC := m_PC s + 1\<rparr>)"

definition CONTINUE :: "('e, 's, flow) vmop" where
  "CONTINUE = vret Loop"

definition BREAK :: "('e, 's, flow) vmop" where
  "BREAK = vret Return"

section \<open>Arithmetic helpers\<close>

definition u32 :: "nat \<Rightarrow> nat" where
  "u32 n = n mod 2 ^ 32"

definition u64 :: "nat \<Rightarrow> nat" where
  "u64 n = n mod 2 ^ 64"

definition toInt63 :: "nat \<Rightarrow> 'e vm_error + nat" where
  "toInt63 v = (if v > 0x7FFFFFFFFFFFFFFF then Inl OutOfGas else Inr v)"

definition memNeed :: "u256 \<Rightarrow> u256 \<Rightarrow> 'e vm_error + nat" where
  "memNeed offset sz = toInt63 (if sz \<noteq> 0 then unat offset + unat sz else 0)"

text \<open>
  The division goes through \<open>s512\<close>, on \<open>u256\<close> and on \<open>s256\<close>; \<open>/\<close> and \<open>%\<close> of signed numbers truncate. The quotient of
  two \<open>s256\<close> may be \<open>2 ^ 255\<close>, which the cast to the sign-magnitude type \<open>s256\<close> keeps.
\<close>

definition divWorkaround_u :: "u256 \<Rightarrow> u256 \<Rightarrow> u256" where
  "divWorkaround_u a b = word_of_int (uint a div uint b)"

definition modWorkaround_u :: "u256 \<Rightarrow> u256 \<Rightarrow> u256" where
  "modWorkaround_u a b = word_of_int (uint a mod uint b)"

definition divWorkaround_s :: "int \<Rightarrow> int \<Rightarrow> int" where
  "divWorkaround_s a b = (if (a < 0) = (b < 0) then \<bar>a\<bar> div \<bar>b\<bar> else - (\<bar>a\<bar> div \<bar>b\<bar>))"

definition modWorkaround_s :: "int \<Rightarrow> int \<Rightarrow> int" where
  "modWorkaround_s a b = (if a < 0 then - (\<bar>a\<bar> mod \<bar>b\<bar>) else \<bar>a\<bar> mod \<bar>b\<bar>)"

text \<open>\<open>exp256\<close> squares the base as long as the exponent is not zero.\<close>

function exp256_loop :: "u256 \<Rightarrow> u256 \<Rightarrow> u256 \<Rightarrow> u256" where
  "exp256_loop base exponent result =
     (if exponent = 0 then result
      else exp256_loop (base * base) (drop_bit 1 exponent) (if exponent AND 1 \<noteq> 0 then result * base else result))"
  by pat_completeness auto
termination
proof (relation "measure (\<lambda>(base, exponent, result). unat exponent)")
  fix base exponent result :: u256
  assume "exponent \<noteq> 0"
  then have "0 < unat exponent"
    by (simp add: unat_gt_0)
  then show "((base * base, drop_bit 1 exponent, if exponent AND 1 \<noteq> 0 then result * base else result), base, exponent, result)
      \<in> measure (\<lambda>(base, exponent, result). unat exponent)"
    by (simp add: unsigned_drop_bit_eq drop_bit_Suc unat_div)
qed simp

declare exp256_loop.simps [simp del]

definition exp256 :: "u256 \<Rightarrow> u256 \<Rightarrow> u256" where
  "exp256 base exponent = exp256_loop base exponent 1"

text \<open>\<open>h256::firstBitSet\<close>: the number of leading zero bits of the big-endian bytes.\<close>

fun byte_firstBit :: "nat \<Rightarrow> byte \<Rightarrow> nat" where
  "byte_firstBit 0 d = 0"
| "byte_firstBit (Suc n) d = (if bit d 7 then 0 else 1 + byte_firstBit n (push_bit 1 d))"

fun firstBitSet :: "bytes \<Rightarrow> nat" where
  "firstBitSet [] = 0"
| "firstBitSet (d # ds) = (if d \<noteq> 0 then byte_firstBit 8 d else 8 + firstBitSet ds)"

text \<open>\<open>h256\<close> of a number and back.\<close>

definition h256_bytes :: "u256 \<Rightarrow> bytes" where
  "h256_bytes v = toBigEndian (unat v) 32"

section \<open>Stack\<close>

text \<open>\<open>SP s i\<close> is \<open>m_SP[i]\<close>.\<close>

definition SP :: "'s LegacyVM \<Rightarrow> nat \<Rightarrow> u256" where
  "SP s i = m_stack s (m_SP s + i)"

definition reads :: "nat \<Rightarrow> ('e, 's, unit) vmop" where
  "reads n = throw_if (\<lambda>s. m_stackEnd < m_SP s + n) UndefinedBehaviour"

definition set_slot :: "nat \<Rightarrow> u256 \<Rightarrow> ('e, 's, unit) vmop" where
  "set_slot i v = vdo [throw_if (\<lambda>s. m_stackEnd \<le> i) UndefinedBehaviour] (vmodify (\<lambda>s. s\<lparr>m_stack := (m_stack s)(i := v)\<rparr>))"

text \<open>\<open>m_SPP[0] = e\<close> and \<open>m_SP[i] = e\<close>, the expression \<open>e\<close> read in the present state.\<close>

definition setSPP :: "('s LegacyVM \<Rightarrow> u256) \<Rightarrow> ('e, 's, unit) vmop" where
  "setSPP e = vread (\<lambda>s. set_slot (m_SPP s) (e s))"

definition setSP :: "nat \<Rightarrow> ('s LegacyVM \<Rightarrow> u256) \<Rightarrow> ('e, 's, unit) vmop" where
  "setSP i e = vread (\<lambda>s. set_slot (m_SP s + i) (e s))"

definition throwBadStack :: "nat \<Rightarrow> nat \<Rightarrow> int \<Rightarrow> 'e vm_error" where
  "throwBadStack removed added spp = (let sz = int m_stackEnd - spp in if sz < int removed then StackUnderflow else OutOfStack)"

definition adjustStack :: "nat \<Rightarrow> nat \<Rightarrow> ('e, 's, unit) vmop" where
  "adjustStack removed added s =
     (let s1 = s\<lparr>m_SP := m_SPP s\<rparr>;
          spp = int (m_SPP s) + int removed in
      if int m_stackEnd < spp then (Inl (throwBadStack removed added spp), s1)
      else if spp - int added < 0 then (Inl (throwBadStack removed added (spp - int added)), s1)
      else (Inr (), s1\<lparr>m_SPP := nat (spp - int added)\<rparr>))"

section \<open>Gas and memory\<close>

text \<open>\<open>m_runGas = toInt63(e)\<close> and \<open>m_runGas += toInt63(e)\<close>.\<close>

definition set_runGas :: "('s LegacyVM \<Rightarrow> nat) \<Rightarrow> ('e, 's, unit) vmop" where
  "set_runGas e = vbind (veval (\<lambda>s. toInt63 (e s))) (\<lambda>g. vmodify (\<lambda>s. s\<lparr>m_runGas := g\<rparr>))"

definition add_runGas :: "nat \<Rightarrow> ('e, 's, unit) vmop" where
  "add_runGas g = vmodify (\<lambda>s. s\<lparr>m_runGas := u64 (m_runGas s + g)\<rparr>)"

definition gasForMem :: "EVMSchedule \<Rightarrow> nat \<Rightarrow> 'e vm_error + nat" where
  "gasForMem sch sz = (let s = sz div 32 in toInt63 (memoryGas sch * s + s * s div quadCoeffDiv sch))"

definition updateIOGas :: "('e, 's, unit) vmop" where
  "updateIOGas s = (if m_io_gas s < m_runGas s then (Inl OutOfGas, s) else (Inr (), s\<lparr>m_io_gas := m_io_gas s - m_runGas s\<rparr>))"

definition updateGas :: "('e, 's) ExtVMFace \<Rightarrow> ('e, 's, unit) vmop" where
  "updateGas x = vdo
     [vif (\<lambda>s. m_newMemSize s > length (m_mem s))
        (vbind (veval (\<lambda>s. gasForMem (evmSchedule x) (m_newMemSize s))) (\<lambda>a.
         vbind (veval (\<lambda>s. gasForMem (evmSchedule x) (length (m_mem s)))) (\<lambda>b.
         vbind (veval (\<lambda>s. toInt63 (u64 (a + 2 ^ 64 - b)))) add_runGas)))
        (vret ()),
      vmodify (\<lambda>s. s\<lparr>m_runGas := u64 (m_runGas s + u64 (copyGas (evmSchedule x) * (u64 (m_copyMemSize s + 31) div 32)))\<rparr>)]
     (throw_if (\<lambda>s. m_io_gas s < m_runGas s) OutOfGas)"

text \<open>\<open>vector::resize\<close> to a greater size appends zero bytes.\<close>

definition resize_mem :: "nat \<Rightarrow> bytes \<Rightarrow> bytes" where
  "resize_mem n m = m @ replicate (n - length m) 0"

definition updateMem :: "('e, 's) ExtVMFace \<Rightarrow> ('s LegacyVM \<Rightarrow> 'e vm_error + nat) \<Rightarrow> ('e, 's, unit) vmop" where
  "updateMem x newMem = vbind (veval newMem) (\<lambda>n. vdo
     [vmodify (\<lambda>s. s\<lparr>m_newMemSize := u64 (n + 31) div 32 * 32\<rparr>),
      updateGas x]
     (vif (\<lambda>s. m_newMemSize s > length (m_mem s)) (vmodify (\<lambda>s. s\<lparr>m_mem := resize_mem (m_newMemSize s) (m_mem s)\<rparr>)) (vret ())))"

text \<open>Reading and writing a range of memory; an empty range is never accessed.\<close>

definition mem_read :: "nat \<Rightarrow> nat \<Rightarrow> ('e, 's, bytes) vmop" where
  "mem_read off n s = (if n = 0 then (Inr [], s) else if length (m_mem s) < off + n then (Inl UndefinedBehaviour, s)
     else (Inr (slice off n (m_mem s)), s))"

definition mem_write :: "nat \<Rightarrow> bytes \<Rightarrow> ('e, 's, unit) vmop" where
  "mem_write off bs s = (if bs = [] then (Inr (), s) else if length (m_mem s) < off + length bs then (Inl UndefinedBehaviour, s)
     else (Inr (), s\<lparr>m_mem := splice off bs (m_mem s)\<rparr>))"

text \<open>
  \<open>copyDataToMemory\<close> on the stack slots \<open>sp0\<close>, \<open>sp1\<close>, \<open>sp2\<close>: the casts to \<open>size_t\<close> take the low 64 bits, \<open>bigIndex + size\<close> is
  computed in \<open>s512\<close>.
\<close>

definition copyDataToMemory :: "bytes \<Rightarrow> u256 \<Rightarrow> u256 \<Rightarrow> u256 \<Rightarrow> ('e, 's, unit) vmop" where
  "copyDataToMemory bs sp0 sp1 sp2 =
     (let offset = u64 (unat sp0);
          bigIndex = unat sp1;
          index = u64 bigIndex;
          sz = u64 (unat sp2);
          sizeToBeCopied = (if bigIndex + sz > length bs then (if length bs < bigIndex then 0 else length bs - index) else sz) in
      vdo
       [if sizeToBeCopied > 0
        then (if length bs < index + sizeToBeCopied then vthrow UndefinedBehaviour else mem_write offset (slice index sizeToBeCopied bs))
        else vret ()]
       (if sz > sizeToBeCopied then mem_write (offset + sizeToBeCopied) (replicate (sz - sizeToBeCopied) 0) else vret ()))"

section \<open>Fetching\<close>

text \<open>
  The price of a tier is read from an array of eight entries. The ninth tier, that of the opcodes without an instruction, is behind its end: this read is undefined
  behaviour, and it has an error of its own since it can happen.
\<close>

definition tier_gas :: "EVMSchedule \<Rightarrow> Tier \<Rightarrow> nat" where
  "tier_gas sch t = tierStepGas sch ! Tier_unsigned t"

definition fetchInstruction :: "('e, 's) ExtVMFace \<Rightarrow> ('e, 's, unit) vmop" where
  "fetchInstruction x = vdo
     [throw_if (\<lambda>s. length (m_code s) \<le> m_PC s) UndefinedBehaviour,
      vmodify (\<lambda>s. s\<lparr>m_OP := m_code s ! m_PC s\<rparr>),
      vread (\<lambda>s. adjustStack (m_args (c_metrics (m_OP s))) (m_ret (c_metrics (m_OP s)))),
      throw_if (\<lambda>s. length (tierStepGas (evmSchedule x)) \<le> Tier_unsigned (m_tier (c_metrics (m_OP s)))) TierOutOfRange,
      set_runGas (\<lambda>s. tier_gas (evmSchedule x) (m_tier (c_metrics (m_OP s))))]
     (vmodify (\<lambda>s. s\<lparr>m_newMemSize := length (m_mem s), m_copyMemSize := 0\<rparr>))"

section \<open>Code\<close>

definition copyCode :: "nat \<Rightarrow> ('e, 's) ExtVMFace \<Rightarrow> bytes" where
  "copyCode extraBytes x = ext_code x @ replicate extraBytes 0"

definition is_push :: "Instruction \<Rightarrow> bool" where
  "is_push op = (0x60 \<le> op \<and> op \<le> 0x7f)"

text \<open>
  The loop of \<open>optimize\<close>: it collects the positions of \<open>JUMPDEST\<close>, skips the data of \<open>PUSH\<close> instructions, and overwrites the
  opcodes that only the optimiser may generate.
\<close>

function optimize_loop :: "nat \<Rightarrow> nat \<Rightarrow> bytes \<Rightarrow> nat list \<Rightarrow> bytes \<times> nat list" where
  "optimize_loop nBytes pc mc jds =
     (if pc < nBytes
      then (let op = mc ! pc;
                mc' = (if op = 0xac \<or> op = 0xad \<or> op = 0xae then mc[pc := 0xfe] else mc) in
            if op = 0x5b then optimize_loop nBytes (pc + 1) mc' (jds @ [pc])
            else if is_push op then optimize_loop nBytes (pc + (unat op - 0x60 + 1) + 1) mc' jds
            else optimize_loop nBytes (pc + 1) mc' jds)
      else (mc, jds))"
  by pat_completeness auto
termination
  by (relation "measure (\<lambda>(nBytes, pc, mc, jds). nBytes - pc)") auto

declare optimize_loop.simps [simp del]

definition optimize :: "('e, 's) ExtVMFace \<Rightarrow> ('e, 's, unit) vmop" where
  "optimize x s =
     (case optimize_loop (length (ext_code x)) 0 (copyCode 33 x) (m_jumpDests s) of
        (mc, jds) \<Rightarrow> (Inr (), s\<lparr>m_code := mc, m_jumpDests := jds\<rparr>))"

definition initEntry :: "('e, 's) ExtVMFace \<Rightarrow> ('e, 's, unit) vmop" where
  "initEntry x = vdo [vmodify (\<lambda>s. s\<lparr>m_bounce := Some InterpretCases\<rparr>)] (optimize x)"

text \<open>\<open>std::binary_search\<close>: the lower bound by halving, then a comparison.\<close>

function lower_bound :: "nat list \<Rightarrow> nat \<Rightarrow> nat \<Rightarrow> nat \<Rightarrow> nat" where
  "lower_bound xs v first len =
     (if len = 0 then first
      else (let half = len div 2; middle = first + half in
            if xs ! middle < v then lower_bound xs v (middle + 1) (len - half - 1)
            else lower_bound xs v first half))"
  by pat_completeness auto
termination
  by (relation "measure (\<lambda>(xs, v, first, len). len)") auto

declare lower_bound.simps [simp del]

definition binary_search :: "nat list \<Rightarrow> nat \<Rightarrow> bool" where
  "binary_search xs v = (let i = lower_bound xs v 0 (length xs) in i < length xs \<and> \<not> v < xs ! i)"

definition verifyJumpDest :: "nat list \<Rightarrow> u256 \<Rightarrow> bool \<Rightarrow> 'e vm_error + int" where
  "verifyJumpDest jds dest throw =
     (if dest \<le> 0x7FFFFFFFFFFFFFFF \<and> binary_search jds (u64 (unat dest)) then Inr (int (u64 (unat dest)))
      else if throw then Inl BadJumpDestination
      else Inr (- 1))"

end
