(* ===== verification/LegacyVMCases.thy ===== *)
theory LegacyVMCases
  imports LegacyVM
begin

unbundle bit_operations_syntax

text \<open>
  The cases of \<open>interpretCases\<close>, one definition for the body of each, the functions \<open>caseCreate\<close> and \<open>caseCall\<close> that call out, the
  dispatch and the trampoline of \<open>exec\<close>.
\<close>

section \<open>Halting and memory\<close>

definition move_mem :: "('e, 's, unit) vmop" where
  "move_mem = vmodify (\<lambda>s. s\<lparr>m_mem := []\<rparr>)"

definition case_RETURN :: "('e, 's) ExtVMFace \<Rightarrow> ('e, 's, flow) vmop" where
  "case_RETURN x = vdo
     [reads 2,
      vmodify (\<lambda>s. s\<lparr>m_copyMemSize := 0\<rparr>),
      updateMem x (\<lambda>s. memNeed (SP s 0) (SP s 1)),
      updateIOGas,
      vread (\<lambda>s. vbind (mem_read (u64 (unat (SP s 0))) (u64 (unat (SP s 1)))) (\<lambda>bs. vmodify (\<lambda>s. s\<lparr>m_output := bs\<rparr>))),
      move_mem,
      vmodify (\<lambda>s. s\<lparr>m_bounce := None\<rparr>)]
     BREAK"

definition case_REVERT :: "('e, 's) ExtVMFace \<Rightarrow> ('e, 's, flow) vmop" where
  "case_REVERT x = vdo
     [throw_if (\<lambda>s. \<not> haveRevert (evmSchedule x)) BadInstruction,
      reads 2,
      vmodify (\<lambda>s. s\<lparr>m_copyMemSize := 0\<rparr>),
      updateMem x (\<lambda>s. memNeed (SP s 0) (SP s 1)),
      updateIOGas]
     (vread (\<lambda>s. vbind (mem_read (u64 (unat (SP s 0))) (u64 (unat (SP s 1))))
        (\<lambda>bs. vdo [move_mem] (vthrow (RevertInstruction bs)))))"

definition case_SUICIDE :: "('e, 's) ExtVMFace \<Rightarrow> ('e, 's, flow) vmop" where
  "case_SUICIDE x = vdo
     [throw_if (\<lambda>s. staticCall x) DisallowedStateChange,
      set_runGas (\<lambda>s. suicideGas (evmSchedule x)),
      reads 1,
      vread (\<lambda>s. let dest = asAddress (SP s 0) in
       vdo
        [vbind (ext_do (ext_balance x (myAddress x))) (\<lambda>b.
           if b > 0 \<or> zeroValueTransferChargesNewAccountGas (evmSchedule x)
           then (if suicideChargesNewAccountGas (evmSchedule x)
                 then vbind (ext_do (ext_exists x dest)) (\<lambda>ex.
                        if \<not> ex then add_runGas (callNewAccountGas (evmSchedule x)) else vret ())
                 else vret ())
           else vret ()),
         updateIOGas]
        (ext_do (ext_suicide x dest))),
      vmodify (\<lambda>s. s\<lparr>m_bounce := None\<rparr>)]
     BREAK"

definition case_STOP :: "('e, 's, flow) vmop" where
  "case_STOP = vdo [updateIOGas, vmodify (\<lambda>s. s\<lparr>m_bounce := None\<rparr>)] BREAK"

text \<open>\<open>toInt63(m_SP[0]) + n\<close>; the cast \<open>(unsigned)m_SP[0]\<close> takes 32 bits.\<close>

definition word_need :: "nat \<Rightarrow> 's LegacyVM \<Rightarrow> 'e vm_error + nat" where
  "word_need n s = ebind (toInt63 (unat (SP s 0))) (\<lambda>v. Inr (u64 (v + n)))"

definition case_MLOAD :: "('e, 's) ExtVMFace \<Rightarrow> ('e, 's, flow) vmop" where
  "case_MLOAD x = vdo
     [reads 1,
      updateMem x (word_need 32),
      updateIOGas,
      vread (\<lambda>s. vbind (mem_read (u32 (unat (SP s 0))) 32) (\<lambda>bs. setSPP (\<lambda>_. fromBigEndian bs)))]
     NEXT"

definition case_MSTORE :: "('e, 's) ExtVMFace \<Rightarrow> ('e, 's, flow) vmop" where
  "case_MSTORE x = vdo
     [reads 2,
      updateMem x (word_need 32),
      updateIOGas,
      vread (\<lambda>s. mem_write (u32 (unat (SP s 0))) (h256_bytes (SP s 1)))]
     NEXT"

definition case_MSTORE8 :: "('e, 's) ExtVMFace \<Rightarrow> ('e, 's, flow) vmop" where
  "case_MSTORE8 x = vdo
     [reads 2,
      updateMem x (word_need 1),
      updateIOGas,
      vread (\<lambda>s. mem_write (u32 (unat (SP s 0))) [ucast (SP s 1 AND 0xff)])]
     NEXT"

definition case_SHA3 :: "(bytes \<Rightarrow> h256) \<Rightarrow> ('e, 's) ExtVMFace \<Rightarrow> ('e, 's, flow) vmop" where
  "case_SHA3 sha3 x = vdo
     [reads 2,
      set_runGas (\<lambda>s. sha3Gas (evmSchedule x) + (unat (SP s 1) + 31) div 32 * sha3WordGas (evmSchedule x)),
      updateMem x (\<lambda>s. memNeed (SP s 0) (SP s 1)),
      updateIOGas,
      vread (\<lambda>s. vbind (mem_read (u64 (unat (SP s 0))) (u64 (unat (SP s 1)))) (\<lambda>bs. setSPP (\<lambda>_. sha3 bs)))]
     NEXT"

definition logGasMem :: "('e, 's) ExtVMFace \<Rightarrow> ('e, 's, unit) vmop" where
  "logGasMem x = vdo
     [set_runGas (\<lambda>s. let n = unat (m_OP s) - 0xa0; sch = evmSchedule x in
        u32 (logGas sch + logTopicGas sch * n) + logDataGas sch * unat (SP s 1))]
     (updateMem x (\<lambda>s. memNeed (SP s 0) (SP s 1)))"

text \<open>The five bodies \<open>LOG0\<close> to \<open>LOG4\<close> differ in the number \<open>n\<close> of topics.\<close>

definition case_LOG :: "nat \<Rightarrow> ('e, 's) ExtVMFace \<Rightarrow> ('e, 's, flow) vmop" where
  "case_LOG n x = vdo
     [throw_if (\<lambda>s. staticCall x) DisallowedStateChange,
      reads (n + 2),
      logGasMem x,
      updateIOGas,
      vread (\<lambda>s. vbind (mem_read (u64 (unat (SP s 0))) (u64 (unat (SP s 1))))
         (\<lambda>bs. ext_do (ext_log x (map (SP s) [2..<n + 2]) bs)))]
     NEXT"

definition case_EXP :: "('e, 's) ExtVMFace \<Rightarrow> ('e, 's, flow) vmop" where
  "case_EXP x = vdo
     [reads 2,
      set_runGas (\<lambda>s. u32 (expGas (evmSchedule x) + expByteGas (evmSchedule x) * (32 - firstBitSet (h256_bytes (SP s 1)) div 8))),
      updateIOGas,
      setSPP (\<lambda>s. exp256 (SP s 0) (SP s 1))]
     NEXT"

section \<open>Arithmetic, comparison and bit operations\<close>

text \<open>
  Most of these bodies charge the gas and write one value. \<open>op1\<close>, \<open>op2\<close> and \<open>op3\<close> are that shape for a function of the first one,
  two or three stack items.
\<close>

definition op1 :: "(u256 \<Rightarrow> u256) \<Rightarrow> ('e, 's, flow) vmop" where
  "op1 f = vdo [updateIOGas, reads 1, setSPP (\<lambda>s. f (SP s 0))] NEXT"

definition op2 :: "(u256 \<Rightarrow> u256 \<Rightarrow> u256) \<Rightarrow> ('e, 's, flow) vmop" where
  "op2 f = vdo [updateIOGas, reads 2, setSPP (\<lambda>s. f (SP s 0) (SP s 1))] NEXT"

definition op3 :: "(u256 \<Rightarrow> u256 \<Rightarrow> u256 \<Rightarrow> u256) \<Rightarrow> ('e, 's, flow) vmop" where
  "op3 f = vdo [updateIOGas, reads 3, setSPP (\<lambda>s. f (SP s 0) (SP s 1) (SP s 2))] NEXT"

definition case_ADD :: "('e, 's, flow) vmop" where
  "case_ADD = op2 (\<lambda>a b. a + b)"

definition case_MUL :: "('e, 's, flow) vmop" where
  "case_MUL = op2 (\<lambda>a b. a * b)"

definition case_SUB :: "('e, 's, flow) vmop" where
  "case_SUB = op2 (\<lambda>a b. a - b)"

definition case_DIV :: "('e, 's, flow) vmop" where
  "case_DIV = op2 (\<lambda>a b. if b \<noteq> 0 then divWorkaround_u a b else 0)"

definition case_SDIV :: "('e, 's, flow) vmop" where
  "case_SDIV = op2 (\<lambda>a b. if b \<noteq> 0 then s2u (divWorkaround_s (u2s a) (u2s b)) else 0)"

definition case_MOD :: "('e, 's, flow) vmop" where
  "case_MOD = op2 (\<lambda>a b. if b \<noteq> 0 then modWorkaround_u a b else 0)"

definition case_SMOD :: "('e, 's, flow) vmop" where
  "case_SMOD = op2 (\<lambda>a b. if b \<noteq> 0 then s2u (modWorkaround_s (u2s a) (u2s b)) else 0)"

definition case_NOT :: "('e, 's, flow) vmop" where
  "case_NOT = op1 (\<lambda>a. NOT a)"

definition case_LT :: "('e, 's, flow) vmop" where
  "case_LT = op2 (\<lambda>a b. if a < b then 1 else 0)"

definition case_GT :: "('e, 's, flow) vmop" where
  "case_GT = op2 (\<lambda>a b. if a > b then 1 else 0)"

definition case_SLT :: "('e, 's, flow) vmop" where
  "case_SLT = op2 (\<lambda>a b. if u2s a < u2s b then 1 else 0)"

definition case_SGT :: "('e, 's, flow) vmop" where
  "case_SGT = op2 (\<lambda>a b. if u2s a > u2s b then 1 else 0)"

definition case_EQ :: "('e, 's, flow) vmop" where
  "case_EQ = op2 (\<lambda>a b. if a = b then 1 else 0)"

definition case_ISZERO :: "('e, 's, flow) vmop" where
  "case_ISZERO = op1 (\<lambda>a. if a \<noteq> 0 then 0 else 1)"

definition case_AND :: "('e, 's, flow) vmop" where
  "case_AND = op2 (\<lambda>a b. a AND b)"

definition case_OR :: "('e, 's, flow) vmop" where
  "case_OR = op2 (\<lambda>a b. a OR b)"

definition case_XOR :: "('e, 's, flow) vmop" where
  "case_XOR = op2 (\<lambda>a b. a XOR b)"

definition case_BYTE :: "('e, 's, flow) vmop" where
  "case_BYTE = op2 (\<lambda>a b. if a < 32 then drop_bit (u32 (unat (8 * (31 - a)))) b AND 0xff else 0)"

definition shl256 :: "u256 \<Rightarrow> u256 \<Rightarrow> u256" where
  "shl256 a b = (if a \<ge> 256 then 0 else push_bit (u32 (unat a)) b)"

definition shr256 :: "u256 \<Rightarrow> u256 \<Rightarrow> u256" where
  "shr256 a b = (if a \<ge> 256 then 0 else drop_bit (u32 (unat a)) b)"

definition sar256 :: "u256 \<Rightarrow> u256 \<Rightarrow> u256" where
  "sar256 a shiftee =
     (let hibit = push_bit 255 1;
          allbits = 0xffffffffffffffffffffffffffffffffffffffffffffffffffffffffffffffff in
      if a \<ge> 256 then (if shiftee AND hibit \<noteq> 0 then allbits else 0)
      else (let amount = u32 (unat a); r = drop_bit amount shiftee in
            if shiftee AND hibit \<noteq> 0 then r OR push_bit (256 - amount) allbits else r))"

definition shift_op :: "(u256 \<Rightarrow> u256 \<Rightarrow> u256) \<Rightarrow> ('e, 's) ExtVMFace \<Rightarrow> ('e, 's, flow) vmop" where
  "shift_op f x = vdo [throw_if (\<lambda>s. \<not> haveBitwiseShifting (evmSchedule x)) BadInstruction] (op2 f)"

definition case_SHL :: "('e, 's) ExtVMFace \<Rightarrow> ('e, 's, flow) vmop" where
  "case_SHL = shift_op shl256"

definition case_SHR :: "('e, 's) ExtVMFace \<Rightarrow> ('e, 's, flow) vmop" where
  "case_SHR = shift_op shr256"

definition case_SAR :: "('e, 's) ExtVMFace \<Rightarrow> ('e, 's, flow) vmop" where
  "case_SAR = shift_op sar256"

definition case_ADDMOD :: "('e, 's, flow) vmop" where
  "case_ADDMOD = op3 (\<lambda>a b c. if c \<noteq> 0 then ucast ((ucast a + ucast b :: u512) mod ucast c) else 0)"

definition case_MULMOD :: "('e, 's, flow) vmop" where
  "case_MULMOD = op3 (\<lambda>a b c. if c \<noteq> 0 then ucast ((ucast a * ucast b :: u512) mod ucast c) else 0)"

text \<open>\<open>SIGNEXTEND\<close> changes \<open>m_SP[1]\<close>, the slot that is the top of the stack afterwards.\<close>

definition signextend :: "u256 \<Rightarrow> u256 \<Rightarrow> u256" where
  "signextend k number =
     (if k < 31
      then (let testBit = u32 (u32 (unat k) * 8 + 7);
                mask = push_bit testBit 1 - 1 in
            if bit number testBit then number OR NOT mask else number AND mask)
      else number)"

definition case_SIGNEXTEND :: "('e, 's, flow) vmop" where
  "case_SIGNEXTEND = vdo [updateIOGas, reads 2, setSP 1 (\<lambda>s. signextend (SP s 0) (SP s 1))] NEXT"

section \<open>Environment\<close>

text \<open>A body that charges the gas and pushes a value of the environment or of the machine.\<close>

definition push_value :: "('s LegacyVM \<Rightarrow> u256) \<Rightarrow> ('e, 's, flow) vmop" where
  "push_value f = vdo [updateIOGas, setSPP f] NEXT"

definition case_ADDRESS :: "('e, 's) ExtVMFace \<Rightarrow> ('e, 's, flow) vmop" where
  "case_ADDRESS x = push_value (\<lambda>_. fromAddress (myAddress x))"

definition case_ORIGIN :: "('e, 's) ExtVMFace \<Rightarrow> ('e, 's, flow) vmop" where
  "case_ORIGIN x = push_value (\<lambda>_. fromAddress (origin x))"

definition case_BALANCE :: "('e, 's) ExtVMFace \<Rightarrow> ('e, 's, flow) vmop" where
  "case_BALANCE x = vdo
     [set_runGas (\<lambda>s. balanceGas (evmSchedule x)), updateIOGas, reads 1,
      vread (\<lambda>s. vbind (ext_do (ext_balance x (asAddress (SP s 0)))) (\<lambda>b. setSPP (\<lambda>_. b)))]
     NEXT"

definition case_CALLER :: "('e, 's) ExtVMFace \<Rightarrow> ('e, 's, flow) vmop" where
  "case_CALLER x = push_value (\<lambda>_. fromAddress (caller x))"

definition case_CALLVALUE :: "('e, 's) ExtVMFace \<Rightarrow> ('e, 's, flow) vmop" where
  "case_CALLVALUE x = push_value (\<lambda>_. ext_value x)"

definition calldataload :: "bytes \<Rightarrow> u256 \<Rightarrow> u256" where
  "calldataload bs i =
     (if unat i + 31 < length bs then fromBigEndian (slice (u64 (unat i)) 32 bs)
      else if length bs \<le> unat i then 0
      else fromBigEndian (map (\<lambda>j. if j < length bs then bs ! j else 0) [u64 (unat i)..<u64 (unat i) + 32]))"

definition case_CALLDATALOAD :: "('e, 's) ExtVMFace \<Rightarrow> ('e, 's, flow) vmop" where
  "case_CALLDATALOAD x = vdo [updateIOGas, reads 1, setSP 0 (\<lambda>s. calldataload (ext_data x) (SP s 0))] NEXT"

definition case_CALLDATASIZE :: "('e, 's) ExtVMFace \<Rightarrow> ('e, 's, flow) vmop" where
  "case_CALLDATASIZE x = push_value (\<lambda>_. of_nat (length (ext_data x)))"

definition case_RETURNDATASIZE :: "('e, 's) ExtVMFace \<Rightarrow> ('e, 's, flow) vmop" where
  "case_RETURNDATASIZE x = vdo [throw_if (\<lambda>s. \<not> haveReturnData (evmSchedule x)) BadInstruction]
     (push_value (\<lambda>s. of_nat (length (m_returnData s))))"

definition case_CODESIZE :: "('e, 's) ExtVMFace \<Rightarrow> ('e, 's, flow) vmop" where
  "case_CODESIZE x = push_value (\<lambda>_. of_nat (length (ext_code x)))"

definition case_EXTCODESIZE :: "('e, 's) ExtVMFace \<Rightarrow> ('e, 's, flow) vmop" where
  "case_EXTCODESIZE x = vdo
     [set_runGas (\<lambda>s. extcodesizeGas (evmSchedule x)), updateIOGas, reads 1,
      vread (\<lambda>s. vbind (ext_do (ext_codeSizeAt x (asAddress (SP s 0)))) (\<lambda>n. setSPP (\<lambda>_. of_nat n)))]
     NEXT"

definition set_copyMemSize :: "nat \<Rightarrow> ('e, 's, unit) vmop" where
  "set_copyMemSize i = vbind (veval (\<lambda>s. toInt63 (unat (SP s i)))) (\<lambda>n. vmodify (\<lambda>s. s\<lparr>m_copyMemSize := n\<rparr>))"

definition case_CALLDATACOPY :: "('e, 's) ExtVMFace \<Rightarrow> ('e, 's, flow) vmop" where
  "case_CALLDATACOPY x = vdo
     [reads 3, set_copyMemSize 2, updateMem x (\<lambda>s. memNeed (SP s 0) (SP s 2)), updateIOGas,
      vread (\<lambda>s. copyDataToMemory (ext_data x) (SP s 0) (SP s 1) (SP s 2))]
     NEXT"

definition case_RETURNDATACOPY :: "('e, 's) ExtVMFace \<Rightarrow> ('e, 's, flow) vmop" where
  "case_RETURNDATACOPY x = vdo
     [throw_if (\<lambda>s. \<not> haveReturnData (evmSchedule x)) BadInstruction,
      reads 3,
      throw_if (\<lambda>s. length (m_returnData s) < unat (SP s 1) + unat (SP s 2)) BufferOverrun,
      set_copyMemSize 2, updateMem x (\<lambda>s. memNeed (SP s 0) (SP s 2)), updateIOGas,
      vread (\<lambda>s. copyDataToMemory (m_returnData s) (SP s 0) (SP s 1) (SP s 2))]
     NEXT"

definition case_CODECOPY :: "('e, 's) ExtVMFace \<Rightarrow> ('e, 's, flow) vmop" where
  "case_CODECOPY x = vdo
     [reads 3, set_copyMemSize 2, updateMem x (\<lambda>s. memNeed (SP s 0) (SP s 2)), updateIOGas,
      vread (\<lambda>s. copyDataToMemory (ext_code x) (SP s 0) (SP s 1) (SP s 2))]
     NEXT"

definition case_EXTCODECOPY :: "('e, 's) ExtVMFace \<Rightarrow> ('e, 's, flow) vmop" where
  "case_EXTCODECOPY x = vdo
     [set_runGas (\<lambda>s. extcodecopyGas (evmSchedule x)),
      reads 4, set_copyMemSize 3, updateMem x (\<lambda>s. memNeed (SP s 1) (SP s 3)), updateIOGas,
      vread (\<lambda>s. vbind (ext_do (ext_codeAt x (asAddress (SP s 0)))) (\<lambda>c. copyDataToMemory c (SP s 1) (SP s 2) (SP s 3)))]
     NEXT"

definition case_GASPRICE :: "('e, 's) ExtVMFace \<Rightarrow> ('e, 's, flow) vmop" where
  "case_GASPRICE x = push_value (\<lambda>_. ext_gasPrice x)"

definition case_BLOCKHASH :: "('e, 's) ExtVMFace \<Rightarrow> ('e, 's, flow) vmop" where
  "case_BLOCKHASH x = vdo
     [set_runGas (\<lambda>s. blockhashGas (evmSchedule x)), updateIOGas, reads 1,
      vread (\<lambda>s. vbind (ext_do (ext_blockHash x (SP s 0))) (\<lambda>h. setSPP (\<lambda>_. h)))]
     NEXT"

definition case_COINBASE :: "('e, 's) ExtVMFace \<Rightarrow> ('e, 's, flow) vmop" where
  "case_COINBASE x = push_value (\<lambda>_. ucast (env_author (envInfo x)))"

definition case_TIMESTAMP :: "('e, 's) ExtVMFace \<Rightarrow> ('e, 's, flow) vmop" where
  "case_TIMESTAMP x = push_value (\<lambda>_. word_of_int (env_timestamp (envInfo x)))"

definition case_NUMBER :: "('e, 's) ExtVMFace \<Rightarrow> ('e, 's, flow) vmop" where
  "case_NUMBER x = push_value (\<lambda>_. word_of_int (env_number (envInfo x)))"

definition case_DIFFICULTY :: "('e, 's) ExtVMFace \<Rightarrow> ('e, 's, flow) vmop" where
  "case_DIFFICULTY x = push_value (\<lambda>_. env_difficulty (envInfo x))"

definition case_GASLIMIT :: "('e, 's) ExtVMFace \<Rightarrow> ('e, 's, flow) vmop" where
  "case_GASLIMIT x = push_value (\<lambda>_. env_gasLimit (envInfo x))"

section \<open>Stack, storage and control flow\<close>

definition case_POP :: "('e, 's, flow) vmop" where
  "case_POP = vdo [updateIOGas] NEXT"

text \<open>The byte of the code at the program counter.\<close>

definition code_at :: "'s LegacyVM \<Rightarrow> 'e vm_error + byte" where
  "code_at s = (if m_PC s < length (m_code s) then Inr (m_code s ! m_PC s) else Inl UndefinedBehaviour)"

definition inc_PC :: "('e, 's, unit) vmop" where
  "inc_PC = vmodify (\<lambda>s. s\<lparr>m_PC := m_PC s + 1\<rparr>)"

definition case_PUSH1 :: "('e, 's, flow) vmop" where
  "case_PUSH1 = vdo [updateIOGas, inc_PC, vbind (veval code_at) (\<lambda>b. setSPP (\<lambda>_. ucast b)), inc_PC] CONTINUE"

fun push_loop :: "nat \<Rightarrow> ('e, 's, unit) vmop" where
  "push_loop 0 = vret ()"
| "push_loop (Suc numBytes) =
     vdo [vbind (veval code_at) (\<lambda>b. setSPP (\<lambda>s. push_bit 8 (m_stack s (m_SPP s)) OR ucast b)), inc_PC] (push_loop numBytes)"

declare push_loop.simps [simp del]

definition case_PUSH :: "('e, 's, flow) vmop" where
  "case_PUSH = vdo
     [updateIOGas,
      setSPP (\<lambda>_. 0),
      inc_PC,
      vread (\<lambda>s. push_loop (unat (m_OP s) - 0x60 + 1))]
     CONTINUE"

definition jump_to :: "nat \<Rightarrow> ('e, 's, unit) vmop" where
  "jump_to i = vbind (veval (\<lambda>s. verifyJumpDest (m_jumpDests s) (SP s i) True)) (\<lambda>pc. vmodify (\<lambda>s. s\<lparr>m_PC := nat pc\<rparr>))"

definition case_JUMP :: "('e, 's, flow) vmop" where
  "case_JUMP = vdo [updateIOGas, reads 1, jump_to 0] CONTINUE"

definition case_JUMPI :: "('e, 's, flow) vmop" where
  "case_JUMPI = vdo [updateIOGas, reads 2, vif (\<lambda>s. SP s 1 \<noteq> 0) (jump_to 0) inc_PC] CONTINUE"

definition case_DUP :: "('e, 's, flow) vmop" where
  "case_DUP = vdo
     [updateIOGas,
      vread (\<lambda>s. let n = unat (m_OP s) - 0x80 in vdo [reads (n + 1)] (setSPP (\<lambda>s. SP s n)))]
     NEXT"

definition case_SWAP :: "('e, 's, flow) vmop" where
  "case_SWAP = vdo
     [updateIOGas,
      vread (\<lambda>s. let n = unat (m_OP s) - 0x90 + 1; a = SP s 0; b = SP s n in
           vdo [reads (n + 1), setSP 0 (\<lambda>_. b)] (setSP n (\<lambda>_. a)))]
     NEXT"

definition case_SLOAD :: "('e, 's) ExtVMFace \<Rightarrow> ('e, 's, flow) vmop" where
  "case_SLOAD x = vdo
     [set_runGas (\<lambda>s. sloadGas (evmSchedule x)), updateIOGas, reads 1,
      vread (\<lambda>s. vbind (ext_do (ext_store x (SP s 0))) (\<lambda>v. setSPP (\<lambda>_. v)))]
     NEXT"

definition add_refund :: "nat \<Rightarrow> ('e, 's, unit) vmop" where
  "add_refund n = vmodify (\<lambda>s. s\<lparr>m_ext := (m_ext s)\<lparr>sub := (sub (m_ext s))\<lparr>refunds := refunds (sub (m_ext s)) + of_nat n\<rparr>\<rparr>\<rparr>)"

definition updateSSGas :: "('e, 's) ExtVMFace \<Rightarrow> ('e, 's, unit) vmop" where
  "updateSSGas x = vread (\<lambda>s.
     vbind (ext_do (ext_store x (SP s 0))) (\<lambda>v1.
       if v1 = 0 \<and> SP s 1 \<noteq> 0 then set_runGas (\<lambda>_. sstoreSetGas (evmSchedule x))
       else vbind (ext_do (ext_store x (SP s 0))) (\<lambda>v2.
         if v2 \<noteq> 0 \<and> SP s 1 = 0
         then vdo [set_runGas (\<lambda>_. sstoreResetGas (evmSchedule x))] (add_refund (sstoreRefundGas (evmSchedule x)))
         else set_runGas (\<lambda>_. sstoreResetGas (evmSchedule x)))))"

definition case_SSTORE :: "('e, 's) ExtVMFace \<Rightarrow> ('e, 's, flow) vmop" where
  "case_SSTORE x = vdo
     [throw_if (\<lambda>s. staticCall x) DisallowedStateChange,
      reads 2,
      updateSSGas x,
      updateIOGas,
      vread (\<lambda>s. ext_do (ext_setStore x (SP s 0) (SP s 1)))]
     NEXT"

definition case_PC :: "('e, 's, flow) vmop" where
  "case_PC = push_value (\<lambda>s. of_nat (m_PC s))"

definition case_MSIZE :: "('e, 's, flow) vmop" where
  "case_MSIZE = push_value (\<lambda>s. of_nat (length (m_mem s)))"

definition case_GAS :: "('e, 's, flow) vmop" where
  "case_GAS = push_value (\<lambda>s. of_nat (m_io_gas s))"

definition case_JUMPDEST :: "('e, 's, flow) vmop" where
  "case_JUMPDEST = vdo [vmodify (\<lambda>s. s\<lparr>m_runGas := 1\<rparr>), updateIOGas] NEXT"

definition case_INVALID :: "('e, 's, flow) vmop" where
  "case_INVALID = vthrow BadInstruction"

section \<open>Calls\<close>

definition bounce_to :: "bounce \<Rightarrow> ('e, 's, unit) vmop" where
  "bounce_to b = vmodify (\<lambda>s. s\<lparr>m_bounce := Some b\<rparr>)"

definition case_CREATE2 :: "('e, 's) ExtVMFace \<Rightarrow> ('e, 's, flow) vmop" where
  "case_CREATE2 x = vdo [throw_if (\<lambda>s. \<not> haveCreate2 (evmSchedule x)) BadInstruction, bounce_to CaseCreate] BREAK"

definition case_CREATE :: "('e, 's) ExtVMFace \<Rightarrow> ('e, 's, flow) vmop" where
  "case_CREATE x = vdo [throw_if (\<lambda>s. staticCall x) DisallowedStateChange, bounce_to CaseCreate] BREAK"

definition case_CALLs :: "('e, 's) ExtVMFace \<Rightarrow> ('e, 's, flow) vmop" where
  "case_CALLs x = vdo
     [throw_if (\<lambda>s. m_OP s = 0xf4 \<and> \<not> haveDelegateCall (evmSchedule x)) BadInstruction,
      throw_if (\<lambda>s. m_OP s = 0xfa \<and> \<not> haveStaticCall (evmSchedule x)) BadInstruction,
      vif (\<lambda>s. m_OP s = 0xf1 \<and> staticCall x) (vdo [reads 3] (throw_if (\<lambda>s. SP s 2 \<noteq> 0) DisallowedStateChange)) (vret ()),
      bounce_to CaseCall]
     BREAK"

text \<open>The part of \<open>caseCreate\<close> that is reached when the balance and the depth allow the creation.\<close>

definition create_allowance :: "EVMSchedule \<Rightarrow> u256 \<Rightarrow> u256" where
  "create_allowance sch gas = (if \<not> staticCallDepthLimit sch then gas - gas div 64 else gas)"

definition create_out :: "('e, 's) ExtVMFace \<Rightarrow> u256 \<Rightarrow> u256 \<Rightarrow> u256 \<Rightarrow> u256 \<Rightarrow> ('e, 's, unit) vmop" where
  "create_out x endowment salt initOff initSize = vdo
     [vmodify (\<lambda>s. s\<lparr>m_io_gas_p := of_nat (m_io_gas s)\<rparr>)]
     (vread (\<lambda>s. let createGas = create_allowance (evmSchedule x) (m_io_gas_p s) in
       vbind (mem_read (u64 (unat initOff)) (u64 (unat initSize))) (\<lambda>initCode.
       vbind (ext_do (ext_create x endowment createGas initCode (m_OP s) salt)) (\<lambda>result_gas. vdo
         [setSPP (\<lambda>_. ucast (ct_address (fst result_gas))),
          vmodify (\<lambda>s. s\<lparr>m_returnData := ct_output (fst result_gas)\<rparr>),
          vmodify (\<lambda>s. s\<lparr>m_io_gas_p := m_io_gas_p s - (createGas - snd result_gas)\<rparr>)]
         (vmodify (\<lambda>s. s\<lparr>m_io_gas := u64 (unat (m_io_gas_p s))\<rparr>))))))"

definition caseCreate :: "('e, 's) ExtVMFace \<Rightarrow> ('e, 's, unit) vmop" where
  "caseCreate x = vdo
     [bounce_to InterpretCases,
      set_runGas (\<lambda>s. createGas (evmSchedule x)),
      vread (\<lambda>s. reads (if m_OP s = 0xf0 then 3 else 4)),
      vread (\<lambda>s. let endowment = SP s 0;
               salt = (if m_OP s = 0xf0 then 0 else SP s 1);
               initOff = (if m_OP s = 0xf0 then SP s 1 else SP s 2);
               initSize = (if m_OP s = 0xf0 then SP s 2 else SP s 3) in
           vdo
            [updateMem x (\<lambda>_. memNeed initOff initSize),
             updateIOGas,
             vmodify (\<lambda>s. s\<lparr>m_returnData := []\<rparr>)]
            (vbind (ext_do (ext_balance x (myAddress x))) (\<lambda>b.
              if b \<ge> endowment \<and> ext_depth x < 1024 then create_out x endowment salt initOff initSize
              else setSPP (\<lambda>_. 0))))]
     inc_PC"

text \<open>
  \<open>caseCallSetup\<close> in two parts. The first one charges the price of the call and of the memory for its input and output.
\<close>

definition call_charge :: "('e, 's) ExtVMFace \<Rightarrow> Instruction \<Rightarrow> address \<Rightarrow> u256 \<Rightarrow> u256 \<Rightarrow> u256 \<Rightarrow> u256 \<Rightarrow> u256 \<Rightarrow> ('e, 's, unit) vmop" where
  "call_charge x op destinationAddr callValue inputOffset inputSize outputOffset outputSize = vdo
     [set_runGas (\<lambda>_. callGas (evmSchedule x)),
      (if op = 0xf1
       then vbind (ext_do (ext_exists x destinationAddr)) (\<lambda>ex.
              if \<not> ex \<and> (callValue > 0 \<or> zeroValueTransferChargesNewAccountGas (evmSchedule x))
              then vbind (veval (\<lambda>_. toInt63 (callNewAccountGas (evmSchedule x)))) add_runGas else vret ())
       else vret ()),
      (if (op = 0xf1 \<or> op = 0xf2) \<and> callValue > 0
       then vbind (veval (\<lambda>_. toInt63 (callValueTransferGas (evmSchedule x)))) add_runGas else vret ()),
      vbind (veval (\<lambda>_. memNeed inputOffset inputSize)) (\<lambda>inputMemNeed.
      vbind (veval (\<lambda>_. memNeed outputOffset outputSize)) (\<lambda>outputMemNeed. vdo
        [vmodify (\<lambda>s. s\<lparr>m_newMemSize := max inputMemNeed outputMemNeed\<rparr>)]
        (updateMem x (\<lambda>s. Inr (m_newMemSize s)))))]
     updateIOGas"

text \<open>The gas that is handed to the callee, charged to the caller.\<close>

definition call_allowance :: "('e, 's) ExtVMFace \<Rightarrow> u256 \<Rightarrow> ('e, 's, u256) vmop" where
  "call_allowance x requested =
     vbind (veval (\<lambda>s. Inr (if staticCallDepthLimit (evmSchedule x) then requested
              else min requested (of_nat (m_io_gas s - m_io_gas s div 64))))) (\<lambda>gas.
       vdo [set_runGas (\<lambda>_. unat gas), updateIOGas] (vret gas))"

text \<open>
  The second part fills in the parameters; it returns them with the range of memory for the output, or without a range when
  the call cannot be made.
\<close>

definition call_params :: "('e, 's) ExtVMFace \<Rightarrow> Instruction \<Rightarrow> address \<Rightarrow> u256 \<Rightarrow> u256 \<Rightarrow> CallParameters" where
  "call_params x op destinationAddr callValue gas =
     (let haveValueArg = (op = 0xf1 \<or> op = 0xf2) in
      CallParameters_init\<lparr>
        call_static := (op = 0xfa \<or> staticCall x),
        call_gas := (if haveValueArg \<and> callValue > 0 then gas + of_nat (callStipend (evmSchedule x)) else gas),
        codeAddress := destinationAddr,
        valueTransfer := (if haveValueArg then callValue else 0),
        apparentValue := (if haveValueArg then callValue else if op = 0xf4 then ext_value x else 0)\<rparr>)"

definition caseCallSetup :: "('e, 's) ExtVMFace \<Rightarrow> ('e, 's, CallParameters \<times> (nat \<times> nat) option) vmop" where
  "caseCallSetup x = vread (\<lambda>s.
     let op = m_OP s;
         sizesOffset = (if op = 0xf1 \<or> op = 0xf2 then 3 else 2 :: nat);
         destinationAddr = asAddress (SP s 1);
         inputOffset = SP s sizesOffset;
         inputSize = SP s (sizesOffset + 1);
         outputOffset = SP s (sizesOffset + 2);
         outputSize = SP s (sizesOffset + 3) in
     vdo
      [reads (sizesOffset + 4),
       call_charge x op destinationAddr (SP s 2) inputOffset inputSize outputOffset outputSize]
      (vbind (call_allowance x (SP s 0)) (\<lambda>gas.
       let params = call_params x op destinationAddr (SP s 2) gas in
       vbind (ext_do (ext_balance x (myAddress x))) (\<lambda>b.
         if b \<ge> valueTransfer params \<and> ext_depth x < 1024
         then vbind (mem_read (u64 (unat inputOffset)) (u64 (unat inputSize))) (\<lambda>input.
           vret (params\<lparr>
             senderAddress := (if op = 0xf4 then caller x else myAddress x),
             receiveAddress := (if op = 0xf1 \<or> op = 0xfa then destinationAddr else myAddress x),
             call_data := input\<rparr>, Some (u64 (unat outputOffset), u64 (unat outputSize))))
         else vret (params, None)))))"

text \<open>\<open>result.output.copyTo(output)\<close> copies as many bytes as the shorter of the two ranges has. \<open>call_out\<close> returns the gas that the callee left.\<close>

definition call_out :: "('e, 's) ExtVMFace \<Rightarrow> CallParameters \<Rightarrow> nat \<Rightarrow> nat \<Rightarrow> ('e, 's, u256) vmop" where
  "call_out x params outOff outSize =
     vbind (ext_do (ext_call x params)) (\<lambda>result_gas. vdo
       [mem_write outOff (take outSize (cr_output (fst result_gas))),
        vmodify (\<lambda>s. s\<lparr>m_returnData := cr_output (fst result_gas)\<rparr>),
        setSPP (\<lambda>_. if cr_status (fst result_gas) = EVMC_SUCCESS then 1 else 0)]
       (vret (snd result_gas)))"

definition caseCall :: "('e, 's) ExtVMFace \<Rightarrow> ('e, 's, unit) vmop" where
  "caseCall x = vdo
     [bounce_to InterpretCases,
      vmodify (\<lambda>s. s\<lparr>m_returnData := []\<rparr>),
      vbind (caseCallSetup x) (\<lambda>params_outp.
        vbind
          (case snd params_outp of
             Some (outOff, outSize) \<Rightarrow> call_out x (fst params_outp) outOff outSize
           | None \<Rightarrow> vdo [setSPP (\<lambda>_. 0)] (vret (call_gas (fst params_outp))))
          (\<lambda>gas. vmodify (\<lambda>s. s\<lparr>m_io_gas := u64 (m_io_gas s + u64 (unat gas))\<rparr>)))]
     inc_PC"

section \<open>Dispatch and execution\<close>

text \<open>
  The jump table of \<open>VMConfig.h\<close>: the label of the body for each opcode. The labels of the extensions that are compiled out lead to bodies
  that throw \<open>BadInstruction\<close>, as does \<open>INVALID\<close>.
\<close>

definition jumpTable_list :: "(bytes \<Rightarrow> h256) \<Rightarrow> ('e, 's) ExtVMFace \<Rightarrow> (Instruction \<times> ('e, 's, flow) vmop) list" where
  "jumpTable_list sha3 x =
     [(0x00, case_STOP), (0x01, case_ADD), (0x02, case_MUL), (0x03, case_SUB), (0x04, case_DIV), (0x05, case_SDIV),
      (0x06, case_MOD), (0x07, case_SMOD), (0x08, case_ADDMOD), (0x09, case_MULMOD), (0x0a, case_EXP x), (0x0b, case_SIGNEXTEND),
      (0x10, case_LT), (0x11, case_GT), (0x12, case_SLT), (0x13, case_SGT), (0x14, case_EQ), (0x15, case_ISZERO),
      (0x16, case_AND), (0x17, case_OR), (0x18, case_XOR), (0x19, case_NOT), (0x1a, case_BYTE),
      (0x1b, case_SHL x), (0x1c, case_SHR x), (0x1d, case_SAR x), (0x20, case_SHA3 sha3 x),
      (0x30, case_ADDRESS x), (0x31, case_BALANCE x), (0x32, case_ORIGIN x), (0x33, case_CALLER x), (0x34, case_CALLVALUE x),
      (0x35, case_CALLDATALOAD x), (0x36, case_CALLDATASIZE x), (0x37, case_CALLDATACOPY x), (0x38, case_CODESIZE x),
      (0x39, case_CODECOPY x), (0x3a, case_GASPRICE x), (0x3b, case_EXTCODESIZE x), (0x3c, case_EXTCODECOPY x),
      (0x3d, case_RETURNDATASIZE x), (0x3e, case_RETURNDATACOPY x), (0x40, case_BLOCKHASH x), (0x41, case_COINBASE x),
      (0x42, case_TIMESTAMP x), (0x43, case_NUMBER x), (0x44, case_DIFFICULTY x), (0x45, case_GASLIMIT x),
      (0x50, case_POP), (0x51, case_MLOAD x), (0x52, case_MSTORE x), (0x53, case_MSTORE8 x), (0x54, case_SLOAD x),
      (0x55, case_SSTORE x), (0x56, case_JUMP), (0x57, case_JUMPI), (0x58, case_PC), (0x59, case_MSIZE), (0x5a, case_GAS),
      (0x5b, case_JUMPDEST), (0x60, case_PUSH1),
      (0xa0, case_LOG 0 x), (0xa1, case_LOG 1 x), (0xa2, case_LOG 2 x), (0xa3, case_LOG 3 x), (0xa4, case_LOG 4 x),
      (0xf0, case_CREATE x), (0xf1, case_CALLs x), (0xf2, case_CALLs x), (0xf3, case_RETURN x), (0xf4, case_CALLs x),
      (0xfa, case_CALLs x), (0xfb, case_CREATE2 x), (0xfd, case_REVERT x), (0xff, case_SUICIDE x)]"

definition jumpTable :: "(bytes \<Rightarrow> h256) \<Rightarrow> ('e, 's) ExtVMFace \<Rightarrow> Instruction \<Rightarrow> ('e, 's, flow) vmop" where
  "jumpTable sha3 x op =
     (if 0x61 \<le> op \<and> op \<le> 0x7f then case_PUSH
      else if 0x80 \<le> op \<and> op \<le> 0x8f then case_DUP
      else if 0x90 \<le> op \<and> op \<le> 0x9f then case_SWAP
      else (case map_of (jumpTable_list sha3 x) op of Some h \<Rightarrow> h | None \<Rightarrow> case_INVALID))"

text \<open>One round of the loop, and the loop.\<close>

definition vm_step :: "(bytes \<Rightarrow> h256) \<Rightarrow> ('e, 's) ExtVMFace \<Rightarrow> ('e, 's, flow) vmop" where
  "vm_step sha3 x = vdo [fetchInstruction x] (vread (\<lambda>s. jumpTable sha3 x (m_OP s)))"

partial_function (option) interpretCases ::
  "(bytes \<Rightarrow> h256) \<Rightarrow> ('e, 's) ExtVMFace \<Rightarrow> 's LegacyVM \<Rightarrow> (('e vm_error + unit) \<times> 's LegacyVM) option"
where
  "interpretCases sha3 x s =
     (case vm_step sha3 x s of
        (Inl e, s') \<Rightarrow> Some (Inl e, s')
      | (Inr Loop, s') \<Rightarrow> interpretCases sha3 x s'
      | (Inr Return, s') \<Rightarrow> Some (Inr (), s'))"

definition run_bounce ::
  "(bytes \<Rightarrow> h256) \<Rightarrow> ('e, 's) ExtVMFace \<Rightarrow> bounce \<Rightarrow> 's LegacyVM \<Rightarrow> (('e vm_error + unit) \<times> 's LegacyVM) option"
where
  "run_bounce sha3 x b s =
     (case b of
        InitEntry \<Rightarrow> Some (initEntry x s)
      | InterpretCases \<Rightarrow> interpretCases sha3 x s
      | CaseCreate \<Rightarrow> Some (caseCreate x s)
      | CaseCall \<Rightarrow> Some (caseCall x s))"

partial_function (option) trampoline ::
  "(bytes \<Rightarrow> h256) \<Rightarrow> ('e, 's) ExtVMFace \<Rightarrow> 's LegacyVM \<Rightarrow> (('e vm_error + unit) \<times> 's LegacyVM) option"
where
  "trampoline sha3 x s =
     (case m_bounce s of
        None \<Rightarrow> Some (Inr (), s)
      | Some b \<Rightarrow>
          Option.bind (run_bounce sha3 x b s) (\<lambda>(r, s').
            case r of Inl e \<Rightarrow> Some (Inl e, s') | Inr _ \<Rightarrow> trampoline sha3 x s'))"

text \<open>A new object: the members with their initialisers.\<close>

definition LegacyVM_new :: "'s ext \<Rightarrow> 's LegacyVM" where
  "LegacyVM_new e = \<lparr>m_io_gas_p = 0, m_io_gas = 0, m_ext = e, m_bounce = None, m_output = [], m_mem = [], m_code = [], m_returnData = [],
     m_stack = (\<lambda>_. 0), m_OP = 0, m_PC = 0, m_SP = m_stackEnd, m_SPP = m_stackEnd, m_runGas = 0, m_newMemSize = 0,
     m_copyMemSize = 0, m_jumpDests = []\<rparr>"

text \<open>\<open>exec\<close> returns the output or the exception, the gas that is left and the environment; \<open>None\<close> would be an execution that never ends.\<close>

definition exec ::
  "(bytes \<Rightarrow> h256) \<Rightarrow> ('e, 's) ExtVMFace \<Rightarrow> u256 \<Rightarrow> 's ext \<Rightarrow> (('e vm_error + bytes) \<times> u256 \<times> 's ext) option"
where
  "exec sha3 x io_gas e =
     (case trampoline sha3 x ((LegacyVM_new e)\<lparr>m_io_gas_p := io_gas, m_io_gas := u64 (unat io_gas), m_PC := 0,
          m_bounce := Some InitEntry\<rparr>) of
        None \<Rightarrow> None
      | Some (Inl err, s) \<Rightarrow> Some (Inl err, of_nat (m_io_gas s), m_ext s)
      | Some (Inr _, s) \<Rightarrow> Some (Inr (m_output s), of_nat (m_io_gas s), m_ext s))"

end
