(* ===== verification/LegacyVMLogic.thy ===== *)
theory LegacyVMLogic
  imports LegacyVMCases
begin

text \<open>
  A calculus for statements about the interpreter. \<open>wp m Q E s\<close> says that running \<open>m\<close> from \<open>s\<close> gives a result and a state with \<open>Q\<close>, or an exception and a
  state with \<open>E\<close>; the rules \<open>wp_simps\<close> compute it for the statements of which the bodies are made.
\<close>

named_theorems wp_simps \<open>weakest preconditions of the interpreter's statements\<close>

definition wp :: "('e, 's, 'a) vmop \<Rightarrow> ('a \<Rightarrow> 's LegacyVM \<Rightarrow> bool) \<Rightarrow> ('e vm_error \<Rightarrow> 's LegacyVM \<Rightarrow> bool) \<Rightarrow> 's LegacyVM \<Rightarrow> bool" where
  "wp m Q E s = (case m s of (Inl e, s') \<Rightarrow> E e s' | (Inr a, s') \<Rightarrow> Q a s')"

lemma wp_conseq:
  "wp m Q E s \<Longrightarrow> (\<And>a s'. Q a s' \<Longrightarrow> Q' a s') \<Longrightarrow> (\<And>e s'. E e s' \<Longrightarrow> E' e s') \<Longrightarrow> wp m Q' E' s"
  by (auto simp: wp_def split: sum.splits prod.splits)

lemma wp_result: "wp m Q E s \<Longrightarrow> m s = (Inr a, s') \<Longrightarrow> Q a s'"
  by (simp add: wp_def)

lemma wp_error: "wp m Q E s \<Longrightarrow> m s = (Inl e, s') \<Longrightarrow> E e s'"
  by (simp add: wp_def)

lemma wp_vret [wp_simps]: "wp (vret a) Q E s = Q a s"
  by (simp add: wp_def vret_def)

lemma wp_vthrow [wp_simps]: "wp (vthrow e) Q E s = E e s"
  by (simp add: wp_def vthrow_def)

lemma wp_vbind [wp_simps]: "wp (vbind m f) Q E s = wp m (\<lambda>a. wp (f a) Q E) E s"
  by (auto simp: wp_def vbind_def split: sum.splits prod.splits)

lemma wp_vdo_Cons [wp_simps]: "wp (vdo (m # ms) k) Q E s = wp m (\<lambda>_. wp (vdo ms k) Q E) E s"
  by (simp add: vdo.simps wp_vbind)

lemma wp_vread [wp_simps]: "wp (vread f) Q E s = wp (f s) Q E s"
  by (simp add: wp_def vread_def)

lemma wp_veval [wp_simps]: "wp (veval f) Q E s = (case f s of Inl e \<Rightarrow> E e s | Inr a \<Rightarrow> Q a s)"
  by (simp add: wp_def veval_def)

lemma wp_vmodify [wp_simps]: "wp (vmodify f) Q E s = Q () (f s)"
  by (simp add: wp_def vmodify_def)

lemma wp_vif [wp_simps]: "wp (vif c m n) Q E s = (if c s then wp m Q E s else wp n Q E s)"
  by (simp add: wp_def vif_def)

lemma wp_throw_if [wp_simps]: "wp (throw_if c e) Q E s = (if c s then E e s else Q () s)"
  by (simp add: wp_def throw_if_def)

lemma wp_NEXT [wp_simps]: "wp NEXT Q E s = Q Loop (s\<lparr>m_PC := m_PC s + 1\<rparr>)"
  by (simp add: wp_def NEXT_def)

lemma wp_CONTINUE [wp_simps]: "wp CONTINUE Q E s = Q Loop s"
  by (simp add: CONTINUE_def wp_vret)

lemma wp_BREAK [wp_simps]: "wp BREAK Q E s = Q Return s"
  by (simp add: BREAK_def wp_vret)

lemma wp_ext_do [wp_simps]:
  "wp (ext_do h) Q E s =
     (case h (m_ext s) of (Inl e, t) \<Rightarrow> E (External e) (s\<lparr>m_ext := t\<rparr>) | (Inr a, t) \<Rightarrow> Q a (s\<lparr>m_ext := t\<rparr>))"
  by (auto simp: wp_def ext_do_def split: sum.splits prod.splits)

lemma wp_reads [wp_simps]: "wp (reads n) Q E s = (if 1024 < m_SP s + n then E UndefinedBehaviour s else Q () s)"
  by (simp add: reads_def wp_throw_if)

lemma wp_set_slot [wp_simps]:
  "wp (set_slot i v) Q E s = (if 1024 \<le> i then E UndefinedBehaviour s else Q () (s\<lparr>m_stack := (m_stack s)(i := v)\<rparr>))"
  by (simp add: set_slot_def wp_simps)

lemma wp_setSPP [wp_simps]:
  "wp (setSPP e) Q E s =
     (if 1024 \<le> m_SPP s then E UndefinedBehaviour s else Q () (s\<lparr>m_stack := (m_stack s)(m_SPP s := e s)\<rparr>))"
  by (simp add: setSPP_def wp_simps)

lemma wp_setSP [wp_simps]:
  "wp (setSP i e) Q E s =
     (if 1024 \<le> m_SP s + i then E UndefinedBehaviour s else Q () (s\<lparr>m_stack := (m_stack s)(m_SP s + i := e s)\<rparr>))"
  by (simp add: setSP_def wp_simps)

lemma wp_set_runGas [wp_simps]:
  "wp (set_runGas e) Q E s = (if 0x7FFFFFFFFFFFFFFF < e s then E OutOfGas s else Q () (s\<lparr>m_runGas := e s\<rparr>))"
  by (simp add: set_runGas_def toInt63_def wp_simps)

lemma wp_add_runGas [wp_simps]: "wp (add_runGas g) Q E s = Q () (s\<lparr>m_runGas := u64 (m_runGas s + g)\<rparr>)"
  by (simp add: add_runGas_def wp_simps)

lemma wp_updateIOGas [wp_simps]:
  "wp updateIOGas Q E s = (if m_io_gas s < m_runGas s then E OutOfGas s else Q () (s\<lparr>m_io_gas := m_io_gas s - m_runGas s\<rparr>))"
  by (simp add: wp_def updateIOGas_def)

lemma wp_mem_read [wp_simps]:
  "wp (mem_read off n) Q E s =
     (if n = 0 then Q [] s else if length (m_mem s) < off + n then E UndefinedBehaviour s else Q (slice off n (m_mem s)) s)"
  by (simp add: wp_def mem_read_def)

lemma wp_mem_write [wp_simps]:
  "wp (mem_write off bs) Q E s =
     (if bs = [] then Q () s else if length (m_mem s) < off + length bs then E UndefinedBehaviour s
      else Q () (s\<lparr>m_mem := splice off bs (m_mem s)\<rparr>))"
  by (simp add: wp_def mem_write_def)

lemma wp_bounce_to [wp_simps]: "wp (bounce_to b) Q E s = Q () (s\<lparr>m_bounce := Some b\<rparr>)"
  by (simp add: bounce_to_def wp_simps)

lemma wp_inc_PC [wp_simps]: "wp inc_PC Q E s = Q () (s\<lparr>m_PC := m_PC s + 1\<rparr>)"
  by (simp add: inc_PC_def wp_simps)

lemma wp_move_mem [wp_simps]: "wp move_mem Q E s = Q () (s\<lparr>m_mem := []\<rparr>)"
  by (simp add: move_mem_def wp_simps)

lemma wp_add_refund [wp_simps]:
  "wp (add_refund n) Q E s =
     Q () (s\<lparr>m_ext := (m_ext s)\<lparr>sub := (sub (m_ext s))\<lparr>refunds := refunds (sub (m_ext s)) + of_nat n\<rparr>\<rparr>\<rparr>)"
  by (simp add: add_refund_def wp_simps)

lemma wp_adjustStack [wp_simps]:
  "wp (adjustStack removed added) Q E s =
     (let s1 = s\<lparr>m_SP := m_SPP s\<rparr> in
      if 1024 < m_SPP s + removed then E StackUnderflow s1
      else if m_SPP s + removed < added then E OutOfStack s1
      else Q () (s1\<lparr>m_SPP := m_SPP s + removed - added\<rparr>))"
  by (auto simp: wp_def adjustStack_def throwBadStack_def Let_def nat_diff_distrib nat_int_add)

lemma SP_simps [simp]:
  "SP (s\<lparr>m_io_gas := a\<rparr>) i = SP s i" "SP (s\<lparr>m_ext := b\<rparr>) i = SP s i" "SP (s\<lparr>m_bounce := c\<rparr>) i = SP s i"
  "SP (s\<lparr>m_mem := d\<rparr>) i = SP s i" "SP (s\<lparr>m_runGas := a\<rparr>) i = SP s i" "SP (s\<lparr>m_newMemSize := a\<rparr>) i = SP s i"
  "SP (s\<lparr>m_copyMemSize := a\<rparr>) i = SP s i" "SP (s\<lparr>m_returnData := d\<rparr>) i = SP s i" "SP (s\<lparr>m_PC := a\<rparr>) i = SP s i"
  "SP (s\<lparr>m_SPP := a\<rparr>) i = SP s i" "SP (s\<lparr>m_OP := f\<rparr>) i = SP s i" "SP (s\<lparr>m_io_gas_p := g\<rparr>) i = SP s i"
  "SP (s\<lparr>m_output := d\<rparr>) i = SP s i"
  by (simp_all add: SP_def)

end
