(* ===== verification/LegacyVMSafe.thy ===== *)
theory LegacyVMSafe
  imports LegacyVMLogic
begin

text \<open>
  The invariant of the interpreter, and that every body keeps it: no array is accessed outside of its bounds, and every round of the
  loop that goes on consumes gas. What the environment must promise for this is the predicate \<open>host_ok\<close>.
\<close>

section \<open>Memory expansion\<close>

lemma u64_id [simp]: "n < 2 ^ 64 \<Longrightarrow> u64 n = n"
  by (simp add: u64_def)

lemma u64_lt [simp]: "u64 n < 18446744073709551616"
  by (simp add: u64_def)

lemma u32_id [simp]: "n < 2 ^ 32 \<Longrightarrow> u32 n = n"
  by (simp add: u32_def)

lemma u32_le: "u32 n \<le> n"
  by (simp add: u32_def)

lemma u64_le: "u64 n \<le> n"
  by (simp add: u64_def)

lemma toInt63_Inr: "toInt63 n = Inr m \<longleftrightarrow> m = n \<and> n < 2 ^ 63"
  by (auto simp: toInt63_def)

lemma toInt63_Inl: "toInt63 n = Inl e \<longleftrightarrow> e = OutOfGas \<and> 2 ^ 63 \<le> n"
  by (auto simp: toInt63_def)

lemma length_resize_mem [simp]: "length (resize_mem n m) = max n (length m)"
  by (simp add: resize_mem_def)

lemma gasForMem_mono:
  assumes "gasForMem sch a = Inr ga" "gasForMem sch b = Inr gb" "b \<le> a"
  shows "gb \<le> ga"
proof -
  have d: "b div 32 \<le> a div 32"
    using assms(3) by (simp add: div_le_mono)
  have "memoryGas sch * (b div 32) + b div 32 * (b div 32) div quadCoeffDiv sch
      \<le> memoryGas sch * (a div 32) + a div 32 * (a div 32) div quadCoeffDiv sch"
    by (intro add_mono mult_le_mono div_le_mono le_refl d)
  then show ?thesis
    using assms(1,2) by (simp add: gasForMem_def Let_def toInt63_Inr)
qed

lemma wp_updateGas:
  assumes copy: "copyGas (evmSchedule x) < 8" "m_runGas s + 8 * ((m_copyMemSize s + 31) div 32) < 2 ^ 63" "m_copyMemSize s < 2 ^ 63"
  and E: "\<And>s'. m_io_gas s' = m_io_gas s \<Longrightarrow> m_ext s' = m_ext s \<Longrightarrow> E OutOfGas s'"
  and Q: "\<And>r. m_runGas s \<le> r \<Longrightarrow> r \<le> m_io_gas s \<Longrightarrow> Q () (s\<lparr>m_runGas := r\<rparr>)"
  shows "wp (updateGas x) Q E s"
proof -
  define c where "c = copyGas (evmSchedule x) * ((m_copyMemSize s + 31) div 32)"
  have c: "u64 (copyGas (evmSchedule x) * (u64 (m_copyMemSize s + 31) div 32)) = c" "m_runGas s + c < 2 ^ 63"
  proof -
    have le: "c \<le> 8 * ((m_copyMemSize s + 31) div 32)"
      using copy(1) by (simp add: c_def)
    then show "m_runGas s + c < 2 ^ 63"
      using copy(2) by linarith
    have "u64 (m_copyMemSize s + 31) = m_copyMemSize s + 31"
      using copy(3) by simp
    moreover have "u64 c = c"
      using le copy(2) by simp
    ultimately show "u64 (copyGas (evmSchedule x) * (u64 (m_copyMemSize s + 31) div 32)) = c"
      by (simp add: c_def)
  qed
  have fin: "wp (throw_if (\<lambda>s. m_io_gas s < m_runGas s) OutOfGas) Q E (s\<lparr>m_runGas := u64 (r + c)\<rparr>)"
    if "m_runGas s \<le> r" "r + c < 2 ^ 64" for r
    using that Q [of "r + c"] E by (simp add: wp_simps)
  have exp: "wp (throw_if (\<lambda>s. m_io_gas s < m_runGas s) OutOfGas) Q E (s\<lparr>m_runGas := u64 (u64 (m_runGas s + d) + c)\<rparr>)"
    if "d < 2 ^ 63" for d
  proof -
    have "u64 (m_runGas s + d) = m_runGas s + d"
      using c(2) that by simp
    then show ?thesis
      using fin [of "m_runGas s + d"] that c(2) by simp
  qed
  show ?thesis
    using fin [of "m_runGas s"] c(2) E exp
    by (auto simp: updateGas_def wp_simps c(1) gasForMem_def Let_def toInt63_Inl toInt63_Inr split: sum.splits)
qed

lemma wp_updateMem:
  assumes sch: "copyGas (evmSchedule x) < 8" "m_runGas s + 8 * ((m_copyMemSize s + 31) div 32) < 2 ^ 63" "m_copyMemSize s < 2 ^ 63"
  and mem: "32 dvd length (m_mem s)"
  and n: "\<And>n. f s = Inr n \<Longrightarrow> n \<le> 2 ^ 63 + 31"
  and E: "\<And>e s'. m_io_gas s' = m_io_gas s \<Longrightarrow> m_ext s' = m_ext s \<Longrightarrow> f s = Inl e \<or> e = OutOfGas \<Longrightarrow> E e s'"
  and Q: "\<And>n N r. f s = Inr n \<Longrightarrow> n \<le> N \<Longrightarrow> 32 dvd max N (length (m_mem s)) \<Longrightarrow> m_runGas s \<le> r \<Longrightarrow> r \<le> m_io_gas s \<Longrightarrow>
      Q () (s\<lparr>m_newMemSize := N, m_runGas := r, m_mem := resize_mem N (m_mem s)\<rparr>)"
  shows "wp (updateMem x f) Q E s"
proof (cases "f s")
  case (Inl e)
  then show ?thesis
    using E by (simp add: updateMem_def wp_simps)
next
  case (Inr n)
  define N where "N = u64 (n + 31) div 32 * 32"
  have N: "n \<le> N" "32 dvd N"
  proof -
    have "n + 31 < 2 ^ 64"
      using n [OF Inr] by simp
    then have "N = (n + 31) div 32 * 32"
      by (simp add: N_def)
    then show "n \<le> N" "32 dvd N"
      by simp_all
  qed
  have keep: "resize_mem N (m_mem s) = m_mem s" if "N \<le> length (m_mem s)"
    using that by (simp add: resize_mem_def)
  have upd: "s\<lparr>m_newMemSize := N, m_runGas := r, m_mem := m_mem s\<rparr> = s\<lparr>m_newMemSize := N, m_runGas := r\<rparr>" for r
    by simp
  have Q': "Q () (s\<lparr>m_newMemSize := N, m_runGas := r, m_mem := resize_mem N (m_mem s)\<rparr>)"
    if "m_runGas s \<le> r" "r \<le> m_io_gas s" for r
    using Q [OF Inr N(1) _ that] N(2) mem by (simp add: max_def)
  have "wp (updateGas x) (\<lambda>_. wp (vif (\<lambda>s. m_newMemSize s > length (m_mem s))
      (vmodify (\<lambda>s. s\<lparr>m_mem := resize_mem (m_newMemSize s) (m_mem s)\<rparr>)) (vret ())) Q E) E (s\<lparr>m_newMemSize := N\<rparr>)"
  proof (rule wp_updateGas [OF sch(1)])
    fix r
    assume "m_runGas (s\<lparr>m_newMemSize := N\<rparr>) \<le> r" "r \<le> m_io_gas (s\<lparr>m_newMemSize := N\<rparr>)"
    then show "wp (vif (\<lambda>s. m_newMemSize s > length (m_mem s))
      (vmodify (\<lambda>s. s\<lparr>m_mem := resize_mem (m_newMemSize s) (m_mem s)\<rparr>)) (vret ())) Q E (s\<lparr>m_newMemSize := N, m_runGas := r\<rparr>)"
      using Q' [of r] keep by (auto simp: wp_simps upd not_less)
  qed (use sch(2,3) E in auto)
  then show ?thesis
    by (simp add: updateMem_def wp_simps Inr N_def)
qed

lemma memNeed_Inr: "memNeed off n = Inr k \<longleftrightarrow> k = (if n \<noteq> 0 then unat off + unat n else 0) \<and> k < 2 ^ 63"
  by (auto simp: memNeed_def toInt63_Inr)

lemma memNeed_Inl: "memNeed off n = Inl e \<Longrightarrow> e = OutOfGas"
  by (simp add: memNeed_def toInt63_Inl)

lemma word_need_Inr: "n \<le> 32 \<Longrightarrow> word_need n s = Inr k \<longleftrightarrow> k = unat (SP s 0) + n \<and> unat (SP s 0) < 2 ^ 63"
  by (auto simp: word_need_def ebind_eq_Inr_iff toInt63_Inr)

lemma word_need_Inl: "word_need n s = Inl e \<Longrightarrow> e = OutOfGas"
  by (auto simp: word_need_def ebind_eq_Inl_iff toInt63_Inl)

text \<open>A range for which \<open>memNeed\<close> has been granted lies in the memory.\<close>

lemma memNeed_range:
  assumes "memNeed off n = Inr k" "k \<le> N"
  shows "u64 (unat n) = 0 \<or> u64 (unat off) + u64 (unat n) \<le> N"
    "n \<noteq> 0 \<Longrightarrow> u64 (unat off) = unat off" "u64 (unat n) = unat n"
proof -
  show n: "u64 (unat n) = unat n"
    using assms(1) by (cases "n = 0") (auto simp: memNeed_Inr)
  show o: "n \<noteq> 0 \<Longrightarrow> u64 (unat off) = unat off"
    using assms(1) by (auto simp: memNeed_Inr)
  show "u64 (unat n) = 0 \<or> u64 (unat off) + u64 (unat n) \<le> N"
    using assms n o by (auto simp: memNeed_Inr split: if_splits)
qed

end
