(* ===== verification/LegacyVMCode.thy ===== *)
theory LegacyVMCode
  imports LegacyVMCases
begin

text \<open>
  The code analysis of the interpreter: the pass of \<open>optimize\<close> finds the jump destinations of the code, the \<open>JUMPDEST\<close> bytes at which an
  instruction starts, and \<open>verifyJumpDest\<close> admits these and no other targets.
\<close>

section \<open>Instruction boundaries\<close>

text \<open>
  Where the instructions of a code start: at 0, and behind each instruction with its immediate data. The last one may reach beyond
  the end of the code, which is why the interpreter extends it by 33 bytes.
\<close>

definition op_size :: "Instruction \<Rightarrow> nat" where
  "op_size op = (if is_push op then unat op - 0x60 + 2 else 1)"

inductive_set instr_starts :: "bytes \<Rightarrow> nat set" for c :: bytes where
  start_zero: "0 \<in> instr_starts c"
| start_next: "p \<in> instr_starts c \<Longrightarrow> p < length c \<Longrightarrow> p + op_size (c ! p) \<in> instr_starts c"

definition jump_targets :: "bytes \<Rightarrow> nat set" where
  "jump_targets c = {p \<in> instr_starts c. p < length c \<and> c ! p = 0x5b}"

lemma is_push_unat: "is_push op \<longleftrightarrow> 0x60 \<le> unat op \<and> unat op \<le> 0x7f"
  by (simp add: is_push_def word_le_nat_alt)

lemma op_size_bounds: "0 < op_size op" "op_size op \<le> 33"
  by (auto simp: op_size_def is_push_unat)

lemma instr_starts_bound: "p \<in> instr_starts c \<Longrightarrow> p < length c + 33"
proof (induction rule: instr_starts.induct)
  case (start_next p)
  then show ?case
    using op_size_bounds(2) [of "c ! p"] by linarith
qed simp

text \<open>The code that runs: as given, with the generated opcodes overwritten at the instruction starts from \<open>pc\<close> on, and zeros behind it.\<close>

definition replace_op :: "Instruction \<Rightarrow> Instruction" where
  "replace_op op = (if op = 0xac \<or> op = 0xad \<or> op = 0xae then 0xfe else op)"

text \<open>The starts are the iterates of one increasing function, so that none lies inside another instruction.\<close>

definition next_start :: "bytes \<Rightarrow> nat \<Rightarrow> nat" where
  "next_start c p = (if p < length c then p + op_size (c ! p) else p)"

lemma instr_starts_iterate: "p \<in> instr_starts c \<Longrightarrow> \<exists>k. p = (next_start c ^^ k) 0"
proof (induction rule: instr_starts.induct)
  case start_zero
  have "0 = (next_start c ^^ 0) 0"
    by simp
  then show ?case ..
next
  case (start_next p)
  then obtain k where "p = (next_start c ^^ k) 0"
    by blast
  then have "p + op_size (c ! p) = (next_start c ^^ Suc k) 0"
    using start_next(2) by (simp add: next_start_def)
  then show ?case ..
qed

lemma instr_starts_gap:
  assumes "p \<in> instr_starts c" "q \<in> instr_starts c" "p < q" "p < length c"
  shows "p + op_size (c ! p) \<le> q"
proof -
  obtain i j where ij: "p = (next_start c ^^ i) 0" "q = (next_start c ^^ j) 0"
    using assms instr_starts_iterate by meson
  have mono: "(next_start c ^^ a) 0 \<le> (next_start c ^^ b) 0" if "a \<le> b" for a b
    by (rule lift_Suc_mono_le [OF _ that]) (simp add: next_start_def)
  have "i < j"
    using mono [of j i] ij assms(3) by (cases "i < j") auto
  then have "(next_start c ^^ Suc i) 0 \<le> q"
    using mono [of "Suc i" j] ij by simp
  then show ?thesis
    using assms(4) ij(1) by (simp add: next_start_def)
qed

lemma optimize_loop_step:
  "optimize_loop n pc mc jds =
     (if pc < n then optimize_loop n (pc + op_size (mc ! pc)) (mc[pc := replace_op (mc ! pc)]) (if mc ! pc = 0x5b then jds @ [pc] else jds)
      else (mc, jds))"
proof (cases "pc < n")
  case False
  then show ?thesis
    by (simp add: optimize_loop.simps)
next
  case True
  let ?op = "mc ! pc"
  have r: "(if ?op = 0xac \<or> ?op = 0xad \<or> ?op = 0xae then mc[pc := 0xfe] else mc) = mc[pc := replace_op ?op]"
    by (simp add: replace_op_def)
  have j: "\<not> is_push 0x5b"
    by (simp add: is_push_def)
  show ?thesis
  proof (cases "?op = 0x5b")
    case op: True
    then show ?thesis
      using True j r by (simp add: optimize_loop.simps [of n pc] Let_def op_size_def)
  next
    case op: False
    then show ?thesis
      using True j r by (cases "is_push ?op") (simp_all add: optimize_loop.simps [of n pc mc jds] Let_def op_size_def)
  qed
qed

lemma optimize_loop_spec:
  assumes "pc \<in> instr_starts c" "length c \<le> length mc" "\<forall>i. pc \<le> i \<and> i < length c \<longrightarrow> mc ! i = c ! i"
  shows "\<exists>mc' jds'. optimize_loop (length c) pc mc jds = (mc', jds @ jds') \<and> length mc' = length mc \<and>
    (\<forall>i. length c \<le> i \<or> i < pc \<longrightarrow> mc' ! i = mc ! i) \<and>
    (\<forall>p \<in> instr_starts c. pc \<le> p \<and> p < length c \<longrightarrow> mc' ! p = replace_op (c ! p)) \<and>
    set jds' = {p \<in> jump_targets c. pc \<le> p} \<and> sorted_wrt (<) jds'"
  using assms
proof (induction "length c - pc" arbitrary: pc mc jds rule: less_induct)
  case less
  show ?case
  proof (cases "pc < length c")
    case False
    then have "optimize_loop (length c) pc mc jds = (mc, jds @ [])"
      by (simp add: optimize_loop_step)
    moreover have "{p \<in> jump_targets c. pc \<le> p} = {}"
      using False by (auto simp: jump_targets_def)
    ultimately show ?thesis
      using False by fastforce
  next
    case True
    let ?op = "c ! pc"
    let ?q = "pc + op_size ?op"
    let ?mc = "mc[pc := replace_op ?op]"
    let ?j = "if ?op = 0x5b then [pc] else []"
    have op: "mc ! pc = ?op"
      using less(4) True by simp
    have st: "optimize_loop (length c) pc mc jds = optimize_loop (length c) ?q ?mc (jds @ ?j)"
      using True op by (subst optimize_loop_step) simp
    have pos: "0 < op_size ?op"
      by (rule op_size_bounds)
    have q: "?q \<in> instr_starts c"
      by (rule start_next [OF less(2) True])
    obtain mc' jds' where ih:
      "optimize_loop (length c) ?q ?mc (jds @ ?j) = (mc', (jds @ ?j) @ jds')" "length mc' = length ?mc"
      "\<forall>i. length c \<le> i \<or> i < ?q \<longrightarrow> mc' ! i = ?mc ! i"
      "\<forall>p \<in> instr_starts c. ?q \<le> p \<and> p < length c \<longrightarrow> mc' ! p = replace_op (c ! p)"
      "set jds' = {p \<in> jump_targets c. ?q \<le> p}" "sorted_wrt (<) jds'"
    proof -
      have "length c - ?q < length c - pc"
        using True pos by simp
      then have "\<exists>mc' jds'. optimize_loop (length c) ?q ?mc (jds @ ?j) = (mc', (jds @ ?j) @ jds') \<and> length mc' = length ?mc \<and>
          (\<forall>i. length c \<le> i \<or> i < ?q \<longrightarrow> mc' ! i = ?mc ! i) \<and>
          (\<forall>p \<in> instr_starts c. ?q \<le> p \<and> p < length c \<longrightarrow> mc' ! p = replace_op (c ! p)) \<and>
          set jds' = {p \<in> jump_targets c. ?q \<le> p} \<and> sorted_wrt (<) jds'"
        by (rule less(1)) (use q less(3,4) pos in auto)
      then show ?thesis
        using that by blast
    qed
    have gap: "p = pc \<or> ?q \<le> p" if "p \<in> instr_starts c" "pc \<le> p" for p
      using instr_starts_gap [OF less(2) that(1) _ True] that(2) by (cases "p = pc") auto
    have targets: "{p \<in> jump_targets c. pc \<le> p} = set ?j \<union> {p \<in> jump_targets c. ?q \<le> p}"
      using gap less(2) True pos by (auto simp: jump_targets_def)
    have "mc' ! p = replace_op (c ! p)" if "p \<in> instr_starts c" "pc \<le> p" "p < length c" for p
      using gap [OF that(1,2)] ih(3,4) that pos less(3) by (cases "p = pc") auto
    moreover have "mc' ! i = mc ! i" if "length c \<le> i \<or> i < pc" for i
      using ih(3) that True by auto
    moreover have "sorted_wrt (<) (?j @ jds')"
      using ih(5,6) pos by auto
    ultimately show ?thesis
      using st ih(1,2,5) targets by (intro exI [of _ mc'] exI [of _ "?j @ jds'"]) (simp add: Un_commute)
  qed
qed

lemma lower_bound_spec:
  assumes "sorted xs" "first + len \<le> length xs" "\<forall>i < first. xs ! i < v" "\<forall>i. first + len \<le> i \<and> i < length xs \<longrightarrow> v \<le> xs ! i"
  shows "lower_bound xs v first len \<le> length xs \<and> (\<forall>i < lower_bound xs v first len. xs ! i < v) \<and>
    (\<forall>i. lower_bound xs v first len \<le> i \<and> i < length xs \<longrightarrow> v \<le> xs ! i)"
  using assms
proof (induction xs v first len rule: lower_bound.induct)
  case (1 xs v first len)
  show ?case
  proof (cases "len = 0")
    case True
    then show ?thesis
      using 1(4,5,6) by (simp add: lower_bound.simps [of xs v first 0])
  next
    case False
    define h where "h = len div 2"
    have h: "first + h < length xs" "h < len"
      using False 1(4) by (auto simp: h_def)
    show ?thesis
    proof (cases "xs ! (first + h) < v")
      case True
      have below: "xs ! i < v" if "i < first + h + 1" for i
        using sorted_nth_mono [OF 1(3), of i "first + h"] that h(1) True by simp
      have "lower_bound xs v (first + h + 1) (len - h - 1) \<le> length xs \<and>
          (\<forall>i < lower_bound xs v (first + h + 1) (len - h - 1). xs ! i < v) \<and>
          (\<forall>i. lower_bound xs v (first + h + 1) (len - h - 1) \<le> i \<and> i < length xs \<longrightarrow> v \<le> xs ! i)"
        by (rule 1(1) [OF False h_def refl True 1(3)]) (use below h 1(4,6) in auto)
      moreover have "lower_bound xs v first len = lower_bound xs v (first + h + 1) (len - h - 1)"
        using False True by (simp add: lower_bound.simps [of xs v first len] Let_def h_def)
      ultimately show ?thesis
        by simp
    next
      case ge: False
      have above: "v \<le> xs ! i" if "first + h \<le> i" "i < length xs" for i
        using sorted_nth_mono [OF 1(3) that] ge by simp
      have "lower_bound xs v first h \<le> length xs \<and> (\<forall>i < lower_bound xs v first h. xs ! i < v) \<and>
          (\<forall>i. lower_bound xs v first h \<le> i \<and> i < length xs \<longrightarrow> v \<le> xs ! i)"
        by (rule 1(2) [OF False h_def refl ge 1(3)]) (use above h 1(4,5) in auto)
      moreover have "lower_bound xs v first len = lower_bound xs v first h"
        using False ge by (simp add: lower_bound.simps [of xs v first len] Let_def h_def)
      ultimately show ?thesis
        by simp
    qed
  qed
qed

lemma binary_search_iff:
  assumes "sorted xs"
  shows "binary_search xs v \<longleftrightarrow> v \<in> set xs"
proof -
  let ?i = "lower_bound xs v 0 (length xs)"
  have lb: "\<forall>i < ?i. xs ! i < v" "\<forall>i. ?i \<le> i \<and> i < length xs \<longrightarrow> v \<le> xs ! i"
    using lower_bound_spec [OF assms, of 0 "length xs" v] by simp_all
  show ?thesis
  proof
    assume "binary_search xs v"
    then have "?i < length xs" "xs ! ?i \<le> v"
      by (simp_all add: binary_search_def Let_def)
    with lb(2) have "xs ! ?i = v"
      by (simp add: order_antisym)
    with \<open>?i < length xs\<close> show "v \<in> set xs"
      using nth_mem [of ?i xs] by simp
  next
    assume "v \<in> set xs"
    then obtain k where k: "k < length xs" "xs ! k = v"
      by (auto simp: in_set_conv_nth)
    then have "?i \<le> k"
      using lb(1) by (metis less_irrefl not_le_imp_less)
    then show "binary_search xs v"
      using k sorted_nth_mono [OF assms, of ?i k] by (simp add: binary_search_def Let_def)
  qed
qed

section \<open>Jump destinations\<close>

text \<open>What \<open>optimize\<close> leaves in \<open>m_code\<close> and \<open>m_jumpDests\<close> of a new machine.\<close>

lemma optimize_spec:
  assumes "m_jumpDests s = []"
  obtains mc jds where "optimize x s = (Inr (), s\<lparr>m_code := mc, m_jumpDests := jds\<rparr>)"
    "length mc = length (ext_code x) + 33" "\<And>i. length (ext_code x) \<le> i \<Longrightarrow> i < length mc \<Longrightarrow> mc ! i = 0"
    "\<And>p. p \<in> instr_starts (ext_code x) \<Longrightarrow> p < length (ext_code x) \<Longrightarrow> mc ! p = replace_op (ext_code x ! p)"
    "set jds = jump_targets (ext_code x)" "sorted jds"
proof -
  let ?c = "ext_code x"
  let ?mc = "?c @ replicate 33 0"
  have s: "0 \<in> instr_starts ?c" "length ?c \<le> length ?mc" "\<forall>i. 0 \<le> i \<and> i < length ?c \<longrightarrow> ?mc ! i = ?c ! i"
    by (auto simp: start_zero nth_append)
  obtain mc jds where m: "optimize_loop (length ?c) 0 ?mc [] = (mc, jds)" "length mc = length ?mc"
    "\<forall>i. length ?c \<le> i \<or> i < 0 \<longrightarrow> mc ! i = ?mc ! i"
    "\<forall>p \<in> instr_starts ?c. 0 \<le> p \<and> p < length ?c \<longrightarrow> mc ! p = replace_op (?c ! p)"
    "set jds = {p \<in> jump_targets ?c. 0 \<le> p}" "sorted_wrt (<) jds"
    using optimize_loop_spec [OF s, of "[]"] by auto
  have z: "mc ! i = 0" if "length ?c \<le> i" "i < length mc" for i
    using m(2,3) that by (auto simp: nth_append)
  show ?thesis
    by (rule that [of jds mc])
      (use m assms z in \<open>auto simp: optimize_def copyCode_def intro: strict_sorted_imp_sorted\<close>)
qed

lemma verifyJumpDest_spec:
  assumes "sorted jds"
  shows "verifyJumpDest jds dest True =
    (if unat dest < 2 ^ 63 \<and> unat dest \<in> set jds then Inr (int (unat dest)) else Inl BadJumpDestination)"
proof -
  have "unat (0x7FFFFFFFFFFFFFFF :: u256) = 9223372036854775807"
    by simp
  then have le: "dest \<le> 0x7FFFFFFFFFFFFFFF \<longleftrightarrow> unat dest < 2 ^ 63"
    unfolding word_le_nat_alt by auto
  have "u64 (unat dest) = unat dest" if "unat dest < 2 ^ 63"
    using that by (simp add: u64_def)
  then show ?thesis
    unfolding verifyJumpDest_def le binary_search_iff [OF assms] by (simp cong: conj_cong)
qed

text \<open>(C8) Jumps: after \<open>initEntry\<close> has prepared a code, \<open>verifyJumpDest\<close> accepts a target exactly if it is a \<open>JUMPDEST\<close> byte at the start
  of an instruction (and fits in 63 bits), and otherwise throws \<open>BadJumpDestination\<close>; the binary search over the table
  that one linear pass has collected is a membership test in that set.\<close>

theorem jump_destinations:
  "verifyJumpDest (m_jumpDests (snd (initEntry x (LegacyVM_new e)))) dest True =
     (if unat dest < 2 ^ 63 \<and> unat dest \<in> jump_targets (ext_code x) then Inr (int (unat dest)) else Inl BadJumpDestination)"
proof -
  let ?s = "(LegacyVM_new e)\<lparr>m_bounce := Some InterpretCases\<rparr>"
  have i: "initEntry x (LegacyVM_new e) = optimize x ?s"
    by (simp add: initEntry_def vdo.simps vbind_def vmodify_def)
  have j: "m_jumpDests ?s = []"
    by (simp add: LegacyVM_new_def)
  show ?thesis
    by (rule optimize_spec [OF j, of x]) (simp add: i verifyJumpDest_spec)
qed

end
