(* ===== verification/LegacyVMInv.thy ===== *)
theory LegacyVMInv
  imports LegacyVMSafe LegacyVMCode
begin

text \<open>
  Every body of the interpreter keeps the invariant \<open>vm_inv\<close>, accesses its arrays inside their bounds, and consumes gas when it goes
  on: the lemmas \<open>ok_\<dots>\<close>, one for each shape of body.
\<close>

section \<open>What the interpreter relies on\<close>

text \<open>
  The environment promises that a call or a creation does not return more gas than it was given. The sizes of byte
  vectors fit in \<open>size_t\<close>, as they do for every vector of the language.
\<close>

definition host_ok :: "('e, 's) ExtVMFace \<Rightarrow> bool" where
  "host_ok x \<longleftrightarrow>
     schedule_ok (evmSchedule x) \<and> length (ext_data x) < 2 ^ 64 \<and> length (ext_code x) < 2 ^ 64 \<and>
     (\<forall>a e c e'. ext_codeAt x a e = (Inr c, e') \<longrightarrow> length c < 2 ^ 64) \<and>
     (\<forall>v g ic op salt e r g' e'. ext_create x v g ic op salt e = (Inr (r, g'), e') \<longrightarrow> g' \<le> g \<and> length (ct_output r) < 2 ^ 64) \<and>
     (\<forall>p e r g' e'. ext_call x p e = (Inr (r, g'), e') \<longrightarrow> g' \<le> call_gas p \<and> length (cr_output r) < 2 ^ 64)"

section \<open>The invariant\<close>

definition code_ok :: "('e, 's) ExtVMFace \<Rightarrow> 's LegacyVM \<Rightarrow> bool" where
  "code_ok x s \<longleftrightarrow>
     length (m_code s) = length (ext_code x) + 33 \<and>
     (\<forall>i. length (ext_code x) \<le> i \<and> i < length (m_code s) \<longrightarrow> m_code s ! i = 0) \<and>
     (\<forall>p \<in> instr_starts (ext_code x). p < length (ext_code x) \<longrightarrow> m_code s ! p = replace_op (ext_code x ! p)) \<and>
     set (m_jumpDests s) = jump_targets (ext_code x) \<and> sorted (m_jumpDests s)"

text \<open>Between two instructions.\<close>

definition vm_inv :: "('e, 's) ExtVMFace \<Rightarrow> 's LegacyVM \<Rightarrow> bool" where
  "vm_inv x s \<longleftrightarrow> code_ok x s \<and> m_PC s \<in> instr_starts (ext_code x) \<and> 32 dvd length (m_mem s) \<and> m_SPP s \<le> 1024 \<and> m_io_gas s < 2 ^ 64 \<and>
     length (m_returnData s) < 2 ^ 64"

text \<open>After the fetch of an instruction \<open>op\<close> that takes \<open>a\<close> items, gives \<open>r\<close> and is of tier \<open>t\<close>.\<close>

definition fetched :: "('e, 's) ExtVMFace \<Rightarrow> nat \<Rightarrow> nat \<Rightarrow> Tier \<Rightarrow> Instruction \<Rightarrow> 's LegacyVM \<Rightarrow> bool" where
  "fetched x a r t op s \<longleftrightarrow> code_ok x s \<and> 32 dvd length (m_mem s) \<and> m_io_gas s < 2 ^ 64 \<and> m_OP s = op \<and>
     (op = 0 \<or> op = 0xfe \<or> m_PC s + op_size op \<in> instr_starts (ext_code x)) \<and> m_PC s \<in> instr_starts (ext_code x) \<and>
     (op = 0 \<or> m_PC s < length (ext_code x)) \<and>
     m_SP s + a \<le> 1024 \<and> m_SPP s + r = m_SP s + a \<and> m_runGas s = tier_gas (evmSchedule x) t \<and> m_copyMemSize s = 0 \<and>
     length (m_returnData s) < 2 ^ 64"

definition pending :: "('e, 's) ExtVMFace \<Rightarrow> 's LegacyVM \<Rightarrow> bool" where
  "pending x s \<longleftrightarrow>
     m_bounce s = Some CaseCreate \<and> (fetched x 3 1 Special 0xf0 s \<or> fetched x 4 1 Special 0xfb s) \<or>
     m_bounce s = Some CaseCall \<and> (fetched x 7 1 Special 0xf1 s \<or> fetched x 7 1 Special 0xf2 s \<or>
       fetched x 6 1 Special 0xf4 s \<or> fetched x 6 1 Special 0xfa s)"

definition err_ok :: "'s LegacyVM \<Rightarrow> 'e vm_error \<Rightarrow> 's LegacyVM \<Rightarrow> bool" where
  "err_ok s e s' \<longleftrightarrow> e \<noteq> UndefinedBehaviour \<and> e \<noteq> TierOutOfRange \<and> m_io_gas s' \<le> m_io_gas s"

primrec post :: "('e, 's) ExtVMFace \<Rightarrow> 's LegacyVM \<Rightarrow> flow \<Rightarrow> 's LegacyVM \<Rightarrow> bool" where
  "post x s Loop s' \<longleftrightarrow> vm_inv x s' \<and> m_bounce s' = m_bounce s \<and> m_io_gas s' < m_io_gas s"
| "post x s Return s' \<longleftrightarrow> m_io_gas s' \<le> m_io_gas s \<and> (m_bounce s' = None \<or> pending x s')"

definition handler_ok :: "('e, 's) ExtVMFace \<Rightarrow> nat \<Rightarrow> nat \<Rightarrow> Tier \<Rightarrow> Instruction \<Rightarrow> ('e, 's, flow) vmop \<Rightarrow> bool" where
  "handler_ok x a r t op h \<longleftrightarrow> (\<forall>s. fetched x a r t op s \<longrightarrow> wp h (post x s) (err_ok s) s)"

text \<open>Instructions after which the next one follows immediately.\<close>

definition plain :: "Instruction \<Rightarrow> bool" where
  "plain op \<longleftrightarrow> op \<noteq> 0 \<and> op \<noteq> 0xfe \<and> \<not> is_push op"

lemma plain_simps [simp]: "\<not> plain 0" "\<not> plain 0xfe"
  by (simp_all add: plain_def)

lemma handler_okI:
  assumes "\<And>s. code_ok x s \<Longrightarrow> 32 dvd length (m_mem s) \<Longrightarrow> m_io_gas s < 2 ^ 64 \<Longrightarrow> m_OP s = op \<Longrightarrow> m_SP s + a \<le> 1024 \<Longrightarrow>
    m_SPP s + r = m_SP s + a \<Longrightarrow> m_runGas s = tier_gas (evmSchedule x) t \<Longrightarrow> m_copyMemSize s = 0 \<Longrightarrow> length (m_returnData s) < 2 ^ 64 \<Longrightarrow>
    (plain op \<longrightarrow> Suc (m_PC s) \<in> instr_starts (ext_code x)) \<Longrightarrow>
    (op \<noteq> 0 \<and> op \<noteq> 0xfe \<longrightarrow> m_PC s + op_size op \<in> instr_starts (ext_code x) \<and> m_PC s < length (ext_code x)) \<Longrightarrow>
    fetched x a r t op s \<Longrightarrow> wp h (post x s) (err_ok s) s"
  shows "handler_ok x a r t op h"
  using assms by (auto simp: handler_ok_def fetched_def plain_def op_size_def)

lemma code_ok_upd [simp]:
  "code_ok x (s\<lparr>m_io_gas := a\<rparr>) = code_ok x s" "code_ok x (s\<lparr>m_ext := b\<rparr>) = code_ok x s"
  "code_ok x (s\<lparr>m_bounce := c\<rparr>) = code_ok x s" "code_ok x (s\<lparr>m_mem := d\<rparr>) = code_ok x s"
  "code_ok x (s\<lparr>m_runGas := a\<rparr>) = code_ok x s" "code_ok x (s\<lparr>m_newMemSize := a\<rparr>) = code_ok x s"
  "code_ok x (s\<lparr>m_copyMemSize := a\<rparr>) = code_ok x s" "code_ok x (s\<lparr>m_returnData := d\<rparr>) = code_ok x s"
  "code_ok x (s\<lparr>m_PC := a\<rparr>) = code_ok x s" "code_ok x (s\<lparr>m_SPP := a\<rparr>) = code_ok x s" "code_ok x (s\<lparr>m_SP := a\<rparr>) = code_ok x s"
  "code_ok x (s\<lparr>m_OP := f\<rparr>) = code_ok x s" "code_ok x (s\<lparr>m_io_gas_p := g\<rparr>) = code_ok x s"
  "code_ok x (s\<lparr>m_output := d\<rparr>) = code_ok x s" "code_ok x (s\<lparr>m_stack := h\<rparr>) = code_ok x s"
  by (simp_all add: code_ok_def)

lemma fetched_bounce [simp]: "fetched x a r t op (s\<lparr>m_bounce := b\<rparr>) = fetched x a r t op s"
  by (simp add: fetched_def)

lemma gas_diff [simp]: "(m :: nat) < k \<Longrightarrow> m - g < k" "0 < g \<Longrightarrow> g \<le> m \<Longrightarrow> m - g < m"
  by simp_all

lemma tier_gas_pos:
  assumes "schedule_ok (evmSchedule x)" "t \<in> {Base, VeryLow, Low, Mid, High, Ext}"
  shows "0 < tier_gas (evmSchedule x) t" "tier_gas (evmSchedule x) t \<le> 20"
  using assms by (auto simp: schedule_ok_def tier_gas_def)

lemma tier_gas_le: "schedule_ok (evmSchedule x) \<Longrightarrow> t \<noteq> Invalid \<Longrightarrow> tier_gas (evmSchedule x) t \<le> 20"
  by (cases t) (auto simp: schedule_ok_def tier_gas_def)

section \<open>Simple bodies\<close>

lemma ok_write:
  assumes sch: "schedule_ok (evmSchedule x)" and t: "t \<in> {Base, VeryLow, Low, Mid, High, Ext}" and op: "plain op"
  shows "handler_ok x 1 1 t op (op1 f)" "handler_ok x 2 1 t op (op2 g)" "handler_ok x 3 1 t op (op3 h)"
    "handler_ok x 0 1 t op (push_value p)" "handler_ok x 2 1 t op case_SIGNEXTEND" "handler_ok x 1 1 t op (case_CALLDATALOAD x)"
    "handler_ok x 1 0 t op case_POP"
  using tier_gas_pos [OF sch t] op
  by (auto intro!: handler_okI simp: op1_def op2_def op3_def push_value_def case_SIGNEXTEND_def
      case_CALLDATALOAD_def case_POP_def wp_simps err_ok_def vm_inv_def)


lemma ok_guarded:
  assumes sch: "schedule_ok (evmSchedule x)" and op: "plain op"
  shows "handler_ok x 2 1 VeryLow op (shift_op f x)" "handler_ok x 0 1 Base op (case_RETURNDATASIZE x)"
  using ok_write(2) [OF sch _ op, of VeryLow f] ok_write(4) [OF sch _ op, of Base "\<lambda>s. of_nat (length (m_returnData s))"]
  by (auto simp: handler_ok_def shift_op_def case_RETURNDATASIZE_def wp_simps err_ok_def)

lemma ok_halt: "handler_ok x 0 0 Zero 0 case_STOP" "handler_ok x a r t op case_INVALID"
  by (rule handler_okI; simp add: case_STOP_def case_INVALID_def wp_simps err_ok_def)+

lemma ok_JUMPDEST: "plain op \<Longrightarrow> handler_ok x 0 0 t op case_JUMPDEST"
  by (auto intro!: handler_okI simp: case_JUMPDEST_def wp_simps err_ok_def vm_inv_def)

lemma ok_EXP:
  assumes "schedule_ok (evmSchedule x)" "plain op"
  shows "handler_ok x 2 1 t op (case_EXP x)"
proof -
  define g where "g v = u32 (expGas (evmSchedule x) + expByteGas (evmSchedule x) * (32 - firstBitSet (h256_bytes v) div 8))" for v
  have g: "0 < g v" for v
  proof -
    have "expByteGas (evmSchedule x) * (32 - firstBitSet (h256_bytes v) div 8) \<le> 32 * expByteGas (evmSchedule x)"
      by simp
    then have "expGas (evmSchedule x) + expByteGas (evmSchedule x) * (32 - firstBitSet (h256_bytes v) div 8) < 2 ^ 32"
      using assms(1) unfolding schedule_ok_def by linarith
    then show ?thesis
      using assms(1) by (simp add: g_def schedule_ok_def)
  qed
  show ?thesis
    using g assms(2)
    by (auto intro!: handler_okI simp: case_EXP_def wp_simps err_ok_def vm_inv_def simp flip: g_def)
qed

lemma ok_host_read:
  assumes sch: "schedule_ok (evmSchedule x)" and op: "plain op"
  shows "handler_ok x 1 1 t op (case_BALANCE x)" "handler_ok x 1 1 t op (case_EXTCODESIZE x)"
    "handler_ok x 1 1 t op (case_BLOCKHASH x)" "handler_ok x 1 1 t op (case_SLOAD x)"
  using sch op
  by (auto intro!: handler_okI split: sum.splits prod.splits simp: case_BALANCE_def case_EXTCODESIZE_def case_BLOCKHASH_def
      case_SLOAD_def wp_simps err_ok_def vm_inv_def schedule_ok_def)

lemma ok_SSTORE:
  assumes sch: "schedule_ok (evmSchedule x)" and op: "plain op"
  shows "handler_ok x 2 0 t op (case_SSTORE x)"
  using sch op
  by (auto intro!: handler_okI split: sum.splits prod.splits simp: case_SSTORE_def updateSSGas_def wp_simps err_ok_def vm_inv_def
      schedule_ok_def)

section \<open>Code and stack\<close>

lemma code_ok_bound: "code_ok x s \<Longrightarrow> p \<in> instr_starts (ext_code x) \<Longrightarrow> p < length (m_code s)"
  using instr_starts_bound by (fastforce simp: code_ok_def)

lemma ok_PUSH1:
  assumes "schedule_ok (evmSchedule x)"
  shows "handler_ok x 0 1 VeryLow 0x60 case_PUSH1"
proof (rule handler_okI)
  fix s
  assume s: "code_ok x s" "32 dvd length (m_mem s)" "m_io_gas s < 2 ^ 64" "m_SP s + 0 \<le> 1024" "m_SPP s + 1 = m_SP s + 0"
    "m_runGas s = tier_gas (evmSchedule x) VeryLow" "length (m_returnData s) < 2 ^ 64"
    "0x60 \<noteq> (0 :: Instruction) \<and> 0x60 \<noteq> (0xfe :: Instruction) \<longrightarrow>
       m_PC s + op_size 0x60 \<in> instr_starts (ext_code x) \<and> m_PC s < length (ext_code x)"
  have n: "Suc (Suc (m_PC s)) \<in> instr_starts (ext_code x)"
    using s(8) by (simp add: op_size_def is_push_def)
  have "Suc (m_PC s) < length (m_code s)"
    using code_ok_bound [OF s(1) n] by simp
  then show "wp case_PUSH1 (post x s) (err_ok s) s"
    using s n tier_gas_pos [OF assms, of VeryLow]
    by (simp add: case_PUSH1_def wp_simps err_ok_def vm_inv_def code_at_def)
qed

lemma wp_push_loop:
  assumes "m_PC s + n < length (m_code s)" "m_SPP s < 1024"
    and "\<And>st. Q () (s\<lparr>m_PC := m_PC s + n, m_stack := st\<rparr>)"
  shows "wp (push_loop n) Q E s"
  using assms
proof (induction n arbitrary: s)
  case 0
  have "s = s\<lparr>m_PC := m_PC s + 0, m_stack := m_stack s\<rparr>"
    by simp
  then show ?case
    using 0(3) [of "m_stack s"] by (simp add: wp_simps push_loop.simps)
next
  case (Suc n)
  show ?case
    using Suc(2,3,4) by (auto simp: wp_simps push_loop.simps code_at_def intro!: Suc(1))
qed

lemma ok_PUSH:
  assumes "schedule_ok (evmSchedule x)" "is_push op"
  shows "handler_ok x 0 1 VeryLow op case_PUSH"
proof (rule handler_okI)
  fix s
  assume s: "code_ok x s" "32 dvd length (m_mem s)" "m_io_gas s < 2 ^ 64" "m_OP s = op" "m_SP s + 0 \<le> 1024" "m_SPP s + 1 = m_SP s + 0"
    "m_runGas s = tier_gas (evmSchedule x) VeryLow" "length (m_returnData s) < 2 ^ 64"
    "op \<noteq> 0 \<and> op \<noteq> 0xfe \<longrightarrow> m_PC s + op_size op \<in> instr_starts (ext_code x) \<and> m_PC s < length (ext_code x)"
  define n where "n = Suc (unat op - 0x60)"
  have "op \<noteq> 0" "op \<noteq> 0xfe"
    using assms(2) by (auto simp: is_push_def)
  then have n: "Suc (m_PC s) + n \<in> instr_starts (ext_code x)"
    using s(9) assms(2) by (simp add: op_size_def n_def)
  have b: "Suc (m_PC s) + n < length (m_code s)"
    using code_ok_bound [OF s(1) n] by simp
  show "wp case_PUSH (post x s) (err_ok s) s"
    using s(1-8) b n tier_gas_pos [OF assms(1), of VeryLow]
    by (auto simp: case_PUSH_def wp_simps err_ok_def vm_inv_def simp flip: n_def intro!: wp_push_loop)
qed

lemma ok_jumps:
  assumes "schedule_ok (evmSchedule x)" "plain op"
  shows "handler_ok x 1 0 Mid op case_JUMP" "handler_ok x 2 0 High op case_JUMPI"
proof -
  have j: "wp (jump_to 0) Q E s"
    if "code_ok x s" "E BadJumpDestination s" "\<And>p. p \<in> instr_starts (ext_code x) \<Longrightarrow> Q () (s\<lparr>m_PC := p\<rparr>)"
    for Q E and s :: "'b LegacyVM"
    using that by (auto simp: jump_to_def wp_simps code_ok_def jump_targets_def verifyJumpDest_spec)
  show "handler_ok x 1 0 Mid op case_JUMP"
    using tier_gas_pos [OF assms(1), of Mid] assms(2)
    by (auto simp: case_JUMP_def wp_simps err_ok_def vm_inv_def intro!: handler_okI j)
  show "handler_ok x 2 0 High op case_JUMPI"
    using tier_gas_pos [OF assms(1), of High] assms(2)
    by (auto simp: case_JUMPI_def wp_simps err_ok_def vm_inv_def intro!: handler_okI j)
qed

lemma ok_DUP:
  assumes "schedule_ok (evmSchedule x)" "plain op" "n = unat op - 0x80"
  shows "handler_ok x (n + 1) (n + 2) VeryLow op case_DUP"
  using tier_gas_pos [OF assms(1), of VeryLow] assms(2,3)
  by (auto simp: case_DUP_def wp_simps err_ok_def vm_inv_def Let_def intro!: handler_okI)

lemma ok_SWAP:
  assumes "schedule_ok (evmSchedule x)" "plain op" "n = unat op - 0x90"
  shows "handler_ok x (n + 2) (n + 2) VeryLow op case_SWAP"
  using tier_gas_pos [OF assms(1), of VeryLow] assms(2,3)
  by (auto simp: case_SWAP_def wp_simps err_ok_def vm_inv_def Let_def intro!: handler_okI)

section \<open>Memory\<close>

text \<open>The premises of \<open>wp_updateMem\<close> in the form in which the bodies have them.\<close>

definition granted :: "u256 \<Rightarrow> u256 \<Rightarrow> nat \<Rightarrow> bool" where
  "granted off n len \<longleftrightarrow> (n \<noteq> 0 \<longrightarrow> unat off + unat n \<le> len) \<and> (\<exists>k. memNeed off n = (Inr k :: unit vm_error + nat))"

lemma wp_updateMem_need:
  assumes h: "schedule_ok (evmSchedule x)" and mem: "32 dvd length (m_mem s)"
  and g: "m_runGas s + 8 * ((m_copyMemSize s + 31) div 32) < 2 ^ 63" "m_copyMemSize s < 2 ^ 63"
  and E: "\<And>s'. m_io_gas s' = m_io_gas s \<Longrightarrow> E OutOfGas s'"
  and Q: "\<And>N r. granted (off s) (n s) (max N (length (m_mem s))) \<Longrightarrow>
      u64 (unat (n s)) = 0 \<or> u64 (unat (off s)) + u64 (unat (n s)) \<le> N \<Longrightarrow> 32 dvd max N (length (m_mem s)) \<Longrightarrow>
      m_runGas s \<le> r \<Longrightarrow> r \<le> m_io_gas s \<Longrightarrow>
      Q () (s\<lparr>m_newMemSize := N, m_runGas := r, m_mem := resize_mem N (m_mem s)\<rparr>)"
  shows "wp (updateMem x (\<lambda>s. memNeed (off s) (n s))) Q E s"
proof (rule wp_updateMem [OF _ g mem])
  show "copyGas (evmSchedule x) < 8"
    using h by (simp add: schedule_ok_def)
  show "Q () (s\<lparr>m_newMemSize := N, m_runGas := r, m_mem := resize_mem N (m_mem s)\<rparr>)"
    if "memNeed (off s) (n s) = Inr k" "k \<le> N" "32 dvd max N (length (m_mem s))" "m_runGas s \<le> r" "r \<le> m_io_gas s"
    for k N r
  proof -
    have "granted (off s) (n s) (max N (length (m_mem s)))"
      using that(1,2) by (auto simp: granted_def memNeed_Inr)
    then show ?thesis
      using Q [OF _ memNeed_range(1) [OF that(1,2)] that(3-5)] by blast
  qed
qed (use E in \<open>auto simp: memNeed_Inr dest: memNeed_Inl\<close>)

lemma copy_bound:
  assumes v: "v < 9223372036854775808" and g: "g < 8589934592"
  shows "g + 8 * ((v + 31) div 32) < (9223372036854775808 :: nat)"
proof -
  have "(v + 31) div 32 * 32 \<le> v + 31"
    by simp
  then have "4 * (8 * ((v + 31) div 32)) \<le> v + 31"
    by linarith
  then show ?thesis
    using v g by linarith
qed

lemma u32_range: "a + n \<le> (N :: nat) \<Longrightarrow> u32 a + n \<le> N"
  using u32_le [of a] by linarith

lemma wp_updateMem_word:
  assumes h: "schedule_ok (evmSchedule x)" and mem: "32 dvd length (m_mem s)" and n: "n \<le> 32"
  and g: "m_runGas s < 2 ^ 63" "m_copyMemSize s = 0"
  and E: "\<And>s'. m_io_gas s' = m_io_gas s \<Longrightarrow> E OutOfGas s'"
  and Q: "\<And>N r. u32 (unat (SP s 0)) + n \<le> N \<Longrightarrow> 32 dvd max N (length (m_mem s)) \<Longrightarrow>
      m_runGas s \<le> r \<Longrightarrow> r \<le> m_io_gas s \<Longrightarrow>
      Q () (s\<lparr>m_newMemSize := N, m_runGas := r, m_mem := resize_mem N (m_mem s)\<rparr>)"
  shows "wp (updateMem (x :: ('e, 's) ExtVMFace) (word_need n)) Q E s"
proof (rule wp_updateMem [OF _ _ _ mem])
  show "copyGas (evmSchedule x) < 8"
    using h by (simp add: schedule_ok_def)
qed (use g E Q n u32_range in \<open>auto simp: word_need_Inr dest: word_need_Inl\<close>)

lemma ok_memory:
  assumes "schedule_ok (evmSchedule x)" "plain op"
  shows "handler_ok x 1 1 VeryLow op (case_MLOAD x)" "handler_ok x 2 0 VeryLow op (case_MSTORE x)"
    "handler_ok x 2 0 VeryLow op (case_MSTORE8 x)"
  using tier_gas_pos [OF assms(1), of VeryLow] assms
  by (auto intro!: handler_okI wp_updateMem_word simp: case_MLOAD_def case_MSTORE_def case_MSTORE8_def wp_simps err_ok_def vm_inv_def
      h256_bytes_def)


lemma ok_SHA3:
  assumes "schedule_ok (evmSchedule x)" "plain op"
  shows "handler_ok x 2 1 t op (case_SHA3 sha3 x)"
  using assms
  by (auto intro!: handler_okI wp_updateMem_need simp: case_SHA3_def wp_simps err_ok_def vm_inv_def schedule_ok_def)

lemma ok_LOG:
  assumes "schedule_ok (evmSchedule x)" "plain op" "unat op = 0xa0 + n" "n \<le> 4"
  shows "handler_ok x (n + 2) 0 t op (case_LOG n x)"
proof -
  define g where "g v = u32 (logGas (evmSchedule x) + logTopicGas (evmSchedule x) * n) + logDataGas (evmSchedule x) * v" for v
  have g: "0 < g v" for v
  proof -
    have "logTopicGas (evmSchedule x) * n \<le> logTopicGas (evmSchedule x) * 4"
      using assms(4) by simp
    then have "logGas (evmSchedule x) + logTopicGas (evmSchedule x) * n < 2 ^ 32"
      using assms(1) unfolding schedule_ok_def by linarith
    then show ?thesis
      using assms(1) by (simp add: schedule_ok_def g_def)
  qed
  show ?thesis
  proof (rule handler_okI)
    fix s
    assume s: "code_ok x s" "32 dvd length (m_mem s)" "m_io_gas s < 2 ^ 64" "m_OP s = op" "m_SP s + (n + 2) \<le> 1024"
      "m_SPP s + 0 = m_SP s + (n + 2)" "m_copyMemSize s = 0" "length (m_returnData s) < 2 ^ 64"
      "plain op \<longrightarrow> Suc (m_PC s) \<in> instr_starts (ext_code x)"
    have op: "unat (m_OP s) - 0xa0 = n"
      using s(4) assms(3) by simp
    show "wp (case_LOG n x) (post x s) (err_ok s) s"
      using s(1-3,5-9) assms(1,2) g [of "unat (SP s (Suc 0))"]
      by (auto intro!: wp_updateMem_need simp: case_LOG_def logGasMem_def ext_log_def Let_def wp_simps err_ok_def vm_inv_def op
          simp flip: g_def)
  qed
qed

lemma ok_RETURN:
  assumes "schedule_ok (evmSchedule x)" "plain op"
  shows "handler_ok x 2 0 Zero op (case_RETURN x)" "handler_ok x 2 0 Special op (case_REVERT x)"
  using assms tier_gas_le [OF assms(1), of Zero] tier_gas_le [OF assms(1), of Special]
  by (auto intro!: handler_okI wp_updateMem_need simp: case_RETURN_def case_REVERT_def wp_simps err_ok_def)

text \<open>\<open>copyDataToMemory\<close> puts the bytes from the given index, followed by zeros, into the range that \<open>memNeed\<close> has granted.\<close>

definition window :: "bytes \<Rightarrow> nat \<Rightarrow> nat \<Rightarrow> bytes" where
  "window bs i n = map (\<lambda>j. if j < length bs then bs ! j else 0) [i..<i + n]"

lemma length_window [simp]: "length (window bs i n) = n"
  by (simp add: window_def)

lemma window_split:
  "window bs i n =
     (let c = (if length bs < i + n then (if length bs < i then 0 else length bs - i) else n) in slice i c bs @ replicate (n - c) 0)"
  by (rule nth_equalityI) (auto simp: window_def Let_def slice_def nth_append)

lemma splice_append:
  "i + length a + length b \<le> length xs \<Longrightarrow> splice (i + length a) b (splice i a xs) = splice i (a @ b) xs"
  by (rule nth_equalityI) (auto simp: nth_splice nth_append)

lemma copyDataToMemory_spec:
  assumes "memNeed sp0 sp2 = (Inr k :: 'e vm_error + nat)" "k \<le> length (m_mem s)" "length bs < 2 ^ 64"
  shows "copyDataToMemory bs sp0 sp1 sp2 s =
    (Inr () :: 'e vm_error + unit, s\<lparr>m_mem := splice (unat sp0) (window bs (unat sp1) (unat sp2)) (m_mem s)\<rparr>)"
proof -
  define i where "i = unat sp1"
  define n where "n = unat sp2"
  define c where "c = (if length bs < i + n then (if length bs < i then 0 else length bs - i) else n)"
  have n: "u64 n = n"
    using memNeed_range(3) [OF assms(1,2)] by (simp add: n_def)
  have w: "window bs i n = slice i c bs @ replicate (n - c) 0"
    unfolding c_def by (subst window_split) (simp add: Let_def)
  have c: "c \<le> n" "0 < c \<Longrightarrow> i + c \<le> length bs"
    by (auto simp: c_def)
  have i: "u64 i = i" if "\<not> length bs < i \<or> 0 < c"
    using that assms(3) c(2) by (cases "length bs < i") auto
  have cc: "(if length bs < i + u64 n then (if length bs < i then 0 else length bs - u64 i) else u64 n) = c"
    using i n by (auto simp: c_def)
  have off: "u64 (unat sp0) = unat sp0" "unat sp0 + n \<le> length (m_mem s)" if "n \<noteq> 0"
    using memNeed_range(1,2) [OF assms(1,2)] that n memNeed_range(3) [OF assms(1,2)] by (auto simp: n_def unat_eq_zero)
  have sl: "length (slice i c bs) = c"
    using c by (cases "c = 0") auto
  show ?thesis
  proof (cases "n = 0")
    case True
    then have "c = 0"
      using c(1) by simp
    then show ?thesis
      using cc True w unfolding copyDataToMemory_def Let_def i_def [symmetric] n_def [symmetric]
      by (simp add: vdo.simps vbind_def vret_def)
  next
    case False
    have two: "splice (unat sp0 + c) (replicate (n - c) 0) (splice (unat sp0) (slice i c bs) (m_mem s)) =
        splice (unat sp0) (window bs i n) (m_mem s)"
      using splice_append [of "unat sp0" "slice i c bs" "replicate (n - c) 0" "m_mem s"] off(2) [OF False] c(1) sl w by simp
    have e1: "slice i c bs = [] \<longleftrightarrow> c = 0"
      using sl by (metis length_0_conv)
    show ?thesis
      using cc n i c off [OF False] sl two e1 False w
      unfolding copyDataToMemory_def Let_def i_def [symmetric] n_def [symmetric]
      by (cases "c = 0"; cases "c = n") (auto simp: vdo.simps vbind_def vret_def mem_write_def)
  qed
qed

lemma wp_copyDataToMemory:
  assumes "granted sp0 sp2 (length (m_mem s))" "length bs < 2 ^ 64"
    and "\<And>m. length m = length (m_mem s) \<Longrightarrow> Q () (s\<lparr>m_mem := m\<rparr>)"
  shows "wp (copyDataToMemory bs sp0 sp1 sp2 :: ('e, 's, unit) vmop) Q E s"
proof -
  have k: "memNeed sp0 sp2 = (Inr :: nat \<Rightarrow> 'e vm_error + nat) (if sp2 \<noteq> 0 then unat sp0 + unat sp2 else 0)"
      "(if sp2 \<noteq> 0 then unat sp0 + unat sp2 else 0) \<le> length (m_mem s)"
    using assms(1) by (auto simp: granted_def memNeed_Inr)
  have "length (splice (unat sp0) (window bs (unat sp1) (unat sp2)) (m_mem s)) = length (m_mem s)"
    using k(2) by (cases "sp2 = 0") (simp_all add: window_def)
  then show ?thesis
    using assms(3) copyDataToMemory_spec [OF k assms(2), of sp1] by (simp add: wp_def)
qed

lemma ok_copy:
  assumes h: "host_ok x" and op: "plain op"
  shows "handler_ok x 3 0 VeryLow op (case_CALLDATACOPY x)" "handler_ok x 3 0 VeryLow op (case_CODECOPY x)"
    "handler_ok x 3 0 VeryLow op (case_RETURNDATACOPY x)" "handler_ok x 4 0 t op (case_EXTCODECOPY x)"
proof -
  have sch: "schedule_ok (evmSchedule x)" "0 < extcodecopyGas (evmSchedule x)" "extcodecopyGas (evmSchedule x) < 2 ^ 33"
    using h by (auto simp: host_ok_def schedule_ok_def)
  have t: "0 < tier_gas (evmSchedule x) VeryLow" "tier_gas (evmSchedule x) VeryLow < 2 ^ 33"
    using tier_gas_pos [OF sch(1), of VeryLow] by auto
  have len: "length (ext_data x) < 2 ^ 64" "length (ext_code x) < 2 ^ 64"
    "\<And>a e c e'. ext_codeAt x a e = (Inr c, e') \<Longrightarrow> length c < 2 ^ 64"
    using h by (auto simp: host_ok_def)
  show "handler_ok x 3 0 VeryLow op (case_CALLDATACOPY x)" "handler_ok x 3 0 VeryLow op (case_CODECOPY x)"
    "handler_ok x 3 0 VeryLow op (case_RETURNDATACOPY x)"
    using t op sch(1) len(1,2)
    by (auto intro!: handler_okI wp_updateMem_need wp_copyDataToMemory copy_bound split: sum.splits
        simp: case_CALLDATACOPY_def case_CODECOPY_def case_RETURNDATACOPY_def set_copyMemSize_def toInt63_Inr toInt63_Inl wp_simps
        err_ok_def vm_inv_def)
  show "handler_ok x 4 0 t op (case_EXTCODECOPY x)"
    using op sch len(3)
    by (auto intro!: handler_okI wp_updateMem_need wp_copyDataToMemory copy_bound split: sum.splits prod.splits
        simp: case_EXTCODECOPY_def set_copyMemSize_def toInt63_Inr toInt63_Inl wp_simps err_ok_def vm_inv_def)
qed

section \<open>Calls\<close>

lemma ok_SUICIDE:
  assumes "schedule_ok (evmSchedule x)" "plain op"
  shows "handler_ok x 1 0 t op (case_SUICIDE x)"
  using assms
  by (auto intro!: handler_okI split: sum.splits prod.splits simp: case_SUICIDE_def Let_def wp_simps err_ok_def)

lemma ok_CREATE:
  shows "handler_ok x 3 1 Special 0xf0 (case_CREATE x)" "handler_ok x 4 1 Special 0xfb (case_CREATE2 x)"
  by (auto intro!: handler_okI simp: case_CREATE_def case_CREATE2_def pending_def wp_simps err_ok_def)

lemma ok_CALLs:
  shows "handler_ok x 7 1 Special 0xf1 (case_CALLs x)" "handler_ok x 7 1 Special 0xf2 (case_CALLs x)"
    "handler_ok x 6 1 Special 0xf4 (case_CALLs x)" "handler_ok x 6 1 Special 0xfa (case_CALLs x)"
  by (auto intro!: handler_okI simp: case_CALLs_def pending_def wp_simps err_ok_def)

text \<open>\<open>caseCreate\<close> and \<open>caseCall\<close> lead back into the loop, with less gas.\<close>

definition call_post :: "('e, 's) ExtVMFace \<Rightarrow> 's LegacyVM \<Rightarrow> unit \<Rightarrow> 's LegacyVM \<Rightarrow> bool" where
  "call_post x s u s' \<longleftrightarrow> vm_inv x s' \<and> m_bounce s' = Some InterpretCases \<and> m_io_gas s' < m_io_gas s"

lemma gas_returned:
  fixes p cg g :: u256
  assumes "cg \<le> p" "g \<le> cg"
  shows "u64 (unat (p - (cg - g))) \<le> unat p"
proof -
  have "cg - g \<le> cg"
    using assms(2) by (simp add: word_sub_le_iff)
  then have "cg - g \<le> p"
    using assms(1) by (rule order_trans)
  then have "p - (cg - g) \<le> p"
    by (simp add: word_sub_le_iff)
  then show ?thesis
    using u64_le [of "unat (p - (cg - g))"] by (simp add: word_le_nat_alt)
qed

lemma create_allowance_le: "create_allowance sch p \<le> p"
proof -
  have "p div 64 \<le> p"
    by (simp add: word_le_nat_alt unat_div)
  then show ?thesis
    by (simp add: create_allowance_def word_sub_le_iff)
qed

lemma unat_gas [simp]: "n < 18446744073709551616 \<Longrightarrow> unat (word_of_nat n :: u256) = n"
  by (simp add: unat_of_nat take_bit_eq_mod)

text \<open>The state behind the charges of a call or creation, on the way back into the loop.\<close>

definition call_mid :: "('e, 's) ExtVMFace \<Rightarrow> 's LegacyVM \<Rightarrow> bool" where
  "call_mid x s \<longleftrightarrow> code_ok x s \<and> 32 dvd length (m_mem s) \<and> m_io_gas s < 2 ^ 64 \<and> m_SPP s < 1024 \<and>
     Suc (m_PC s) \<in> instr_starts (ext_code x) \<and> m_bounce s = Some InterpretCases \<and> length (m_returnData s) < 2 ^ 64"

lemma wp_create_out:
  assumes h: "host_ok x" and s: "call_mid x s"
    and r: "u64 (unat initSize) = 0 \<or> u64 (unat initOff) + u64 (unat initSize) \<le> length (m_mem s)"
    and Q: "\<And>s'. call_mid x s' \<Longrightarrow> m_io_gas s' \<le> m_io_gas s \<Longrightarrow> Q () s'"
    and E: "\<And>e s'. e \<noteq> UndefinedBehaviour \<Longrightarrow> e \<noteq> TierOutOfRange \<Longrightarrow> m_io_gas s' \<le> m_io_gas s \<Longrightarrow> E e s'"
  shows "wp (create_out x endowment salt initOff initSize) Q E s"
proof -
  define cg where "cg = create_allowance (evmSchedule x) (of_nat (m_io_gas s))"
  have ret: "u64 (unat (of_nat (m_io_gas s) - (cg - g))) \<le> m_io_gas s" "length (ct_output r) < 2 ^ 64"
    if "ext_create x endowment cg ic op salt e = (Inr (r, g), e')" for ic op e r g e'
  proof -
    have "g \<le> cg" "length (ct_output r) < 2 ^ 64"
      using h that unfolding host_ok_def by blast+
    then show "u64 (unat (of_nat (m_io_gas s) - (cg - g))) \<le> m_io_gas s" "length (ct_output r) < 2 ^ 64"
      using gas_returned [of cg "of_nat (m_io_gas s)" g] s create_allowance_le by (auto simp: call_mid_def cg_def)
  qed
  show ?thesis
    using s r ret unfolding create_out_def
    by (auto simp: wp_simps Let_def call_mid_def cg_def [symmetric] split: sum.split prod.split intro!: Q E)
qed

end
