(* ===== verification/LegacyVMArith.thy ===== *)
theory LegacyVMArith
  imports LegacyVMInv "HOL-Library.Signed_Division"
begin

unbundle bit_operations_syntax

text \<open>
  The arithmetic of the interpreter against its mathematical meaning: exponentiation by squaring, truncated signed division through a wider
  type, shifts by masks, sign extension, modular arithmetic without overflow, and the access to single bytes.
\<close>

lemma s2u_word: "s2u i = word_of_int i"
  unfolding s2u_def by (rule word_uint_eqI) (simp add: uint_word_of_int del: of_int_add)

lemma exp256_loop_power: "exp256_loop b e r = r * b ^ unat e"
proof (induction b e r rule: exp256_loop.induct)
  case (1 b e r)
  show ?case
  proof (cases "e = 0")
    case True
    then show ?thesis
      by (simp add: exp256_loop.simps)
  next
    case False
    have h: "unat (drop_bit 1 e) = unat e div 2"
      by (simp add: unsigned_drop_bit_eq drop_bit_Suc unat_div)
    have o: "e AND 1 \<noteq> 0 \<longleftrightarrow> odd (unat e)"
      unfolding and_one_eq mod_2_eq_odd bit_0 [symmetric] by (simp add: bit_unsigned_iff del: bit_0)
    have p: "b ^ unat e = (b * b) ^ (unat e div 2) * (if odd (unat e) then b else 1)"
      by (cases "even (unat e)") (auto elim!: evenE oddE simp: power_mult power2_eq_square power_mult_distrib power_add)
    show ?thesis
      using False 1 by (subst exp256_loop.simps) (simp add: h [simplified] o p mult.commute mult.left_commute)
  qed
qed

lemma divWorkaround_s_sdiv: "divWorkaround_s a b = a sdiv b"
  by (cases a "0 :: int" rule: linorder_cases; cases b "0 :: int" rule: linorder_cases)
    (auto simp: divWorkaround_s_def signed_divide_int_def)

lemma modWorkaround_s_smod: "modWorkaround_s a b = a smod b"
  by (cases a "0 :: int" rule: linorder_cases; cases b "0 :: int" rule: linorder_cases)
    (auto simp: modWorkaround_s_def signed_modulo_int_def signed_divide_int_def minus_div_mult_eq_mod [symmetric])

lemma ge_256: "(256 :: u256) \<le> a \<longleftrightarrow> 256 \<le> unat a"
  by (simp add: word_le_nat_alt)

lemma u32_small: "n < 4294967296 \<Longrightarrow> u32 n = n"
  by (simp add: u32_def)

lemma shl256_spec: "shl256 a b = push_bit (unat a) b"
  by (rule bit_word_eqI) (auto simp: shl256_def ge_256 u32_small bit_simps)

lemma shr256_spec: "shr256 a b = drop_bit (unat a) b"
  by (rule bit_word_eqI) (auto simp: shr256_def ge_256 u32_small bit_simps dest: bit_imp_le_length)

lemma sar256_spec: "sar256 a b = signed_drop_bit (unat a) b"
proof -
  have hi: "b AND push_bit 255 1 \<noteq> 0 \<longleftrightarrow> bit b 255"
    unfolding push_bit_of_1 and_exp_eq_0_iff_not_bit by simp
  have all: "(0xffffffffffffffffffffffffffffffffffffffffffffffffffffffffffffffff :: u256) = - 1"
    by simp
  show ?thesis
    unfolding sar256_def Let_def hi
    by (rule bit_word_eqI)
      (auto simp: all ge_256 u32_small bit_simps dest: bit_imp_le_length)
qed

lemma signextend_spec:
  "signextend k b = (if unat k < 31 then word_of_int (signed_take_bit (8 * unat k + 7) (uint b)) else b)"
proof -
  have k: "k < 31 \<longleftrightarrow> unat k < 31"
    by (simp add: word_less_nat_alt)
  show ?thesis
  proof (cases "unat k < 31")
    case True
    have t: "u32 (u32 (unat k) * 8 + 7) = 8 * unat k + 7" 
      using True by (simp add: u32_def)
    show ?thesis
      unfolding signextend_def k t if_P [OF True] Let_def
      by (rule bit_word_eqI) (use True in \<open>auto simp: bit_simps min_def mask_eq_exp_minus_1 [symmetric] push_bit_of_1 bit_uint_iff\<close>)
  qed (simp add: signextend_def k)
qed

lemma unat_wide: "unat (ucast a :: u512) = unat a" for a :: u256
  by (simp add: unsigned_ucast_eq take_bit_nat_eq_self_iff order.strict_trans2 [OF unsigned_less [of a]])

lemma unat_less: "unat a < 2 ^ 256" for a :: u256
  using unsigned_less [of a] by simp

lemma mod_spec:
  fixes c :: u256 and v :: u512
  shows "ucast (v mod ucast c) = (of_nat (unat v mod unat c) :: u256)"
proof -
  have "ucast (v mod ucast c) = (of_nat (unat (v mod ucast c)) :: u256)"
    by (rule bit_word_eqI) (simp add: bit_simps)
  then show ?thesis
    by (simp add: unat_mod_distrib unat_wide)
qed

lemma wide_sum: "unat (ucast a + ucast b :: u512) = unat a + unat b" for a b :: u256
  using unat_less [of a] unat_less [of b] by (simp add: unat_word_ariths unat_wide)

lemma wide_product: "unat (ucast a * ucast b :: u512) = unat a * unat b" for a b :: u256
proof -
  have "unat a * unat b < 2 ^ 256 * 2 ^ 256"
    using unat_less [of a] unat_less [of b] by (intro mult_strict_mono) simp_all
  then show ?thesis
    by (simp add: unat_word_ariths unat_wide flip: power_add)
qed

text \<open>\<open>BYTE\<close> counts from the most significant byte.\<close>

lemma nth_toBigEndian: "i < n \<Longrightarrow> toBigEndian v n ! i = of_nat (v div 256 ^ (n - 1 - i))"
proof (induction n arbitrary: v)
  case (Suc n)
  show ?case
  proof (cases "i < n")
    case True
    then have "256 ^ (n - i) = 256 * (256 :: nat) ^ (n - 1 - i)"
      by (metis Suc_diff_Suc diff_Suc_eq_diff_pred power_Suc)
    then show ?thesis
      using True Suc(1) [of "v div 256"] by (simp add: nth_append div_mult2_eq)
  next
    case False
    then have "i = n"
      using Suc(2) by simp
    then show ?thesis
      by (simp add: nth_append) (rule bit_word_eqI, simp add: bit_simps flip: take_bit_eq_mod [of 8, simplified])
  qed
qed simp

lemma byte_spec:
  "(if a < 32 then drop_bit (u32 (unat (8 * (31 - a)))) b AND 0xff else 0) =
     (if unat a < 32 then ucast (h256_bytes b ! unat a) else (0 :: u256))" for a b :: u256
proof (cases "unat a < 32")
  case True
  then have a: "a < 32" "u32 (unat (8 * (31 - a))) = 8 * (31 - unat a)" 
    by (auto simp: word_less_nat_alt unat_word_ariths unat_sub word_le_nat_alt u32_def)
  have "h256_bytes b ! unat a = of_nat (drop_bit (8 * (31 - unat a)) (unat b))"
    using True by (simp add: h256_bytes_def nth_toBigEndian drop_bit_eq_div power_mult)
  moreover have m: "w AND 0xff = take_bit 8 w" for w :: u256
    by (simp add: take_bit_eq_mask mask_eq_exp_minus_1)
  ultimately show ?thesis
    unfolding if_P [OF True] if_P [OF a(1)] a(2) m
    by (simp only:) (rule bit_word_eqI, auto simp: bit_simps bit_unsigned_iff)
qed (simp add: word_less_nat_alt)

lemma fromBigEndian_zeros: "fromBigEndian (replicate n 0) = (0 :: u256)"
  by (induction n) (simp_all add: fromBigEndian_def)

lemma calldataload_spec:
  assumes "length bs < 2 ^ 64"
  shows "calldataload bs i = fromBigEndian (window bs (unat i) 32)"
proof (cases "unat i < length bs")
  case True
  then have u: "u64 (unat i) = unat i"
    using assms by (simp add: u64_def)
  show ?thesis
  proof (cases "unat i + 31 < length bs")
    case full: True
    then have "slice (unat i) 32 bs = window bs (unat i) 32"
      by (intro nth_equalityI) (auto simp: window_def slice_def)
    then show ?thesis
      using full by (simp add: calldataload_def u)
  qed (use True in \<open>simp add: calldataload_def u window_def\<close>)
next
  case False
  have "window bs (unat i) 32 = replicate 32 0"
    using False by (intro nth_equalityI) (auto simp: window_def)
  then show ?thesis
    using False fromBigEndian_zeros [of 32] by (simp add: calldataload_def)
qed

text \<open>(C10) The arithmetic instructions compute what they stand for: \<open>EXP\<close> the power modulo \<open>2 ^ 256\<close> (its loop ends), \<open>DIV\<close> and \<open>MOD\<close> the
  unsigned and \<open>SDIV\<close> and \<open>SMOD\<close> the truncating signed division with zero for a zero divisor, \<open>SLT\<close> and \<open>SGT\<close> the signed order, \<open>ADDMOD\<close> and \<open>MULMOD\<close> the
  remainder of the exact sum and product, the shifts those of words of any amount, \<open>BYTE\<close> the byte counted from the
  most significant one, and \<open>SIGNEXTEND\<close> the extension of the low bytes as a signed number.\<close>

theorem arithmetic_instructions:
  "exp256 b n = b ^ unat n \<and>
   case_DIV = op2 (\<lambda>a b. a div b) \<and>
   case_MOD = op2 (\<lambda>a b. if b \<noteq> 0 then a mod b else 0) \<and>
   case_SDIV = op2 (\<lambda>a b. if b \<noteq> 0 then word_of_int (sint a sdiv sint b) else 0) \<and>
   case_SMOD = op2 (\<lambda>a b. if b \<noteq> 0 then word_of_int (sint a smod sint b) else 0) \<and>
   case_SLT = op2 (\<lambda>a b. of_bool (sint a < sint b)) \<and>
   case_SGT = op2 (\<lambda>a b. of_bool (sint b < sint a)) \<and>
   case_ADDMOD = op3 (\<lambda>a b c. if c \<noteq> 0 then of_nat ((unat a + unat b) mod unat c) else 0) \<and>
   case_MULMOD = op3 (\<lambda>a b c. if c \<noteq> 0 then of_nat ((unat a * unat b) mod unat c) else 0) \<and>
   case_SHL x = shift_op (\<lambda>a b. push_bit (unat a) b) x \<and>
   case_SHR x = shift_op (\<lambda>a b. drop_bit (unat a) b) x \<and>
   case_SAR x = shift_op (\<lambda>a b. signed_drop_bit (unat a) b) x \<and>
   case_BYTE = op2 (\<lambda>a b. if unat a < 32 then ucast (h256_bytes b ! unat a) else 0) \<and>
   signextend k v = (if unat k < 31 then word_of_int (signed_take_bit (8 * unat k + 7) (uint v)) else v)"
proof -
  have d: "divWorkaround_u a b = a div b" "modWorkaround_u a b = a mod b" for a b
    by (simp_all add: divWorkaround_u_def modWorkaround_u_def word_div_def word_mod_def)
  have z: "(if b \<noteq> 0 then a div b else 0) = a div b" for a b :: u256
    by simp
  have sh: "shl256 = (\<lambda>a b. push_bit (unat a) b)" "shr256 = (\<lambda>a b. drop_bit (unat a) b)"
    "sar256 = (\<lambda>a b. signed_drop_bit (unat a) b)"
    by (intro ext; simp add: shl256_spec shr256_spec sar256_spec)+
  show ?thesis
    unfolding exp256_def exp256_loop_power case_DIV_def case_MOD_def case_SDIV_def case_SMOD_def case_SLT_def case_SGT_def case_ADDMOD_def
      case_MULMOD_def case_SHL_def case_SHR_def case_SAR_def case_BYTE_def d z sh byte_spec signextend_spec s2u_word u2s_sint
      divWorkaround_s_sdiv modWorkaround_s_smod mod_spec wide_sum wide_product of_bool_def
    by simp
qed

text \<open>(C11) Reads of call data and copies to memory: \<open>CALLDATALOAD\<close> reads 32 bytes and \<open>copyDataToMemory\<close> copies any number of bytes from
  any 256-bit offset of the data, continued by zeros behind its end; the copy changes exactly the range of memory
  that \<open>memNeed\<close> has granted, although offsets and sizes are cast to 64 bits on the way.\<close>

theorem data_reads_padded:
  assumes "length bs < 2 ^ 64" "memNeed sp0 sp2 = (Inr k :: 'e vm_error + nat)" "k \<le> length (m_mem s)"
  shows "calldataload bs i = fromBigEndian (window bs (unat i) 32) \<and>
    copyDataToMemory bs sp0 sp1 sp2 s =
      (Inr () :: 'e vm_error + unit, s\<lparr>m_mem := splice (unat sp0) (window bs (unat sp1) (unat sp2)) (m_mem s)\<rparr>)"
  using calldataload_spec [OF assms(1)] copyDataToMemory_spec [OF assms(2,3,1)] by simp

text \<open>A copy of five bytes from the offset \<open>2 ^ 64 + 1\<close>, of which the low 64 bits are inside the data: zeros are copied.\<close>

theorem data_reads_padded_witness:
  "calldataload [7, 8] 1 = (fromBigEndian (window [7, 8] 1 32) :: u256) \<and>
   copyDataToMemory [7, 8] 3 0x10000000000000001 5 ((LegacyVM_new \<lparr>sub = SubState_new, world = ()\<rparr>)\<lparr>m_mem := replicate 32 9\<rparr>) =
     (Inr () :: unit vm_error + unit,
      (LegacyVM_new \<lparr>sub = SubState_new, world = ()\<rparr>)\<lparr>m_mem := splice 3 (window [7, 8] (2 ^ 64 + 1) 5) (replicate 32 9)\<rparr>)"
  using data_reads_padded [of "[7, 8]" 3 5 8 "(LegacyVM_new \<lparr>sub = SubState_new, world = ()\<rparr>)\<lparr>m_mem := replicate 32 9\<rparr>" 1 "0x10000000000000001",
      where ?'e = unit]
  by (simp add: memNeed_def toInt63_def)

end
