(* ===== verification/LegacyVMCallsInv.thy ===== *)
theory LegacyVMCallsInv
  imports LegacyVMInv
begin

text \<open>
  \<open>caseCreate\<close> and \<open>caseCall\<close> keep the invariant of the interpreter and return to the loop with less gas: what the callee leaves of its gas,
  the stipend included, is less than what the caller has paid.
\<close>

lemma plain_call_ops [simp]:
  "plain 0xf0" "plain 0xf1" "plain 0xf2" "plain 0xf4" "plain 0xfa" "plain 0xfb"
  by (simp_all add: plain_def is_push_def)

lemma call_mid_fetched:
  assumes "fetched x a r t op s" "plain op"
  shows "code_ok x s" "32 dvd length (m_mem s)" "m_io_gas s < 18446744073709551616" "m_OP s = op" "m_SP s + a \<le> 1024"
    "m_SPP s + r = m_SP s + a" "m_copyMemSize s = 0" "Suc (m_PC s) \<in> instr_starts (ext_code x)"
  using assms by (auto simp: fetched_def plain_def op_size_def)

lemma wp_caseCreate:
  assumes h: "host_ok x" and f: "fetched x 3 1 Special 0xf0 s \<or> fetched x 4 1 Special 0xfb s"
  shows "wp (caseCreate x) (call_post x s) (err_ok s) s"
proof -
  have sch: "schedule_ok (evmSchedule x)" "0 < createGas (evmSchedule x)" "createGas (evmSchedule x) < 2 ^ 32"
    using h by (auto simp: host_ok_def schedule_ok_def)
  have s: "code_ok x s" "32 dvd length (m_mem s)" "m_io_gas s < 18446744073709551616" "m_copyMemSize s = 0"
    "Suc (m_PC s) \<in> instr_starts (ext_code x)" "m_SPP s < 1024" "m_SP s + (if m_OP s = 0xf0 then 3 else 4) \<le> 1024"
    using f call_mid_fetched [of x 3 1 Special "0xf0" s] call_mid_fetched [of x 4 1 Special "0xfb" s] by auto
  define a where "a = (if m_OP s = 0xf0 then 3 else 4 :: nat)"
  define salt where "salt = (if m_OP s = 0xf0 then 0 else SP s 1)"
  define off where "off = (if m_OP s = 0xf0 then SP s 1 else SP s 2)"
  define sz where "sz = (if m_OP s = 0xf0 then SP s 2 else SP s 3)"
  have a: "\<not> 1024 < m_SP s + a"
    using s(7) by (simp add: a_def)
  show ?thesis
    unfolding caseCreate_def
    using sch s(1-6) a
    by (auto simp: wp_simps Let_def a_def [symmetric] salt_def [symmetric] off_def [symmetric] sz_def [symmetric]
        err_ok_def call_post_def vm_inv_def call_mid_def
        intro!: wp_updateMem_need wp_create_out [OF h] split: sum.split prod.split)
qed

text \<open>The surcharge for a transfer, and the stipend that it pays for.\<close>

abbreviation pays :: "Instruction \<Rightarrow> u256 \<Rightarrow> bool" where
  "pays op v \<equiv> (op = 0xf1 \<or> op = 0xf2) \<and> v > 0"

definition in_range :: "u256 \<Rightarrow> u256 \<Rightarrow> nat \<Rightarrow> bool" where
  "in_range off n len \<longleftrightarrow> u64 (unat n) = 0 \<or> u64 (unat off) + u64 (unat n) \<le> len"

lemma wp_call_charge:
  fixes x :: "('e, 's) ExtVMFace"
  assumes h: "schedule_ok (evmSchedule x)" and s: "32 dvd length (m_mem s)" "m_copyMemSize s = 0"
    and Q: "\<And>e N r. callGas (evmSchedule x) + (if pays op v then callValueTransferGas (evmSchedule x) else 0) \<le> r \<Longrightarrow> r \<le> m_io_gas s \<Longrightarrow>
      in_range io is N \<Longrightarrow> in_range oo os N \<Longrightarrow> 32 dvd max N (length (m_mem s)) \<Longrightarrow>
      Q () (s\<lparr>m_ext := e, m_newMemSize := N, m_runGas := r, m_mem := resize_mem N (m_mem s), m_io_gas := m_io_gas s - r\<rparr>)"
    and E: "\<And>e s'. e \<noteq> UndefinedBehaviour \<Longrightarrow> e \<noteq> TierOutOfRange \<Longrightarrow> m_io_gas s' \<le> m_io_gas s \<Longrightarrow> E e s'"
  shows "wp (call_charge x op dest v io is oo os) Q E s"
proof -
  define V where "V = (if pays op v then callValueTransferGas (evmSchedule x) else 0)"
  define mem where "mem = vbind (veval (\<lambda>_. memNeed io is)) (\<lambda>inputMemNeed.
      vbind (veval (\<lambda>_. memNeed oo os)) (\<lambda>outputMemNeed. vdo
        [vmodify (\<lambda>s. s\<lparr>m_newMemSize := max inputMemNeed outputMemNeed\<rparr>)]
        (updateMem x (\<lambda>s. Inr (m_newMemSize s)))))"
  have b: "callGas (evmSchedule x) < 4294967296" "callNewAccountGas (evmSchedule x) < 4294967296"
    "callValueTransferGas (evmSchedule x) < 4294967296"
    using h by (auto simp: schedule_ok_def)
  have copy: "copyGas (evmSchedule x) < 8"
    using h by (simp add: schedule_ok_def)
  have m: "wp mem (\<lambda>_. wp updateIOGas Q E) E (s\<lparr>m_ext := e, m_runGas := g\<rparr>)"
    if g: "callGas (evmSchedule x) + V \<le> g" "g < 12884901888" for e g
  proof (cases "memNeed io is :: 'e vm_error + nat")
    case (Inl err)
    then show ?thesis
      using E memNeed_Inl [OF Inl] by (auto simp: mem_def wp_simps)
  next
    case i: (Inr i)
    show ?thesis
    proof (cases "memNeed oo os :: 'e vm_error + nat")
      case (Inl err)
      then show ?thesis
        using E i memNeed_Inl [OF Inl] by (auto simp: mem_def wp_simps)
    next
      case o: (Inr k)
      have ik: "i < 9223372036854775808" "k < 9223372036854775808"
        using i o by (auto simp: memNeed_Inr)
      have "wp (updateMem x (\<lambda>s. Inr (m_newMemSize s))) (\<lambda>_. wp updateIOGas Q E) E
          (s\<lparr>m_ext := e, m_runGas := g, m_newMemSize := max i k\<rparr>)"
      proof (rule wp_updateMem [OF copy])
        fix n N r
        assume a: "Inr (m_newMemSize (s\<lparr>m_ext := e, m_runGas := g, m_newMemSize := max i k\<rparr>)) = Inr n" "n \<le> N"
          "32 dvd max N (length (m_mem (s\<lparr>m_ext := e, m_runGas := g, m_newMemSize := max i k\<rparr>)))"
          "m_runGas (s\<lparr>m_ext := e, m_runGas := g, m_newMemSize := max i k\<rparr>) \<le> r"
          "r \<le> m_io_gas (s\<lparr>m_ext := e, m_runGas := g, m_newMemSize := max i k\<rparr>)"
        have N: "i \<le> N" "k \<le> N"
          using a(1,2) by auto
        have "in_range io is N" "in_range oo os N"
          using memNeed_range(1) [OF i N(1)] memNeed_range(1) [OF o N(2)] by (simp_all add: in_range_def)
        then show "wp updateIOGas Q E (s\<lparr>m_ext := e, m_runGas := g, m_newMemSize := max i k, m_newMemSize := N, m_runGas := r,
            m_mem := resize_mem N (m_mem (s\<lparr>m_ext := e, m_runGas := g, m_newMemSize := max i k\<rparr>))\<rparr>)"
          using Q [of r N e] a(3-5) g(1) E by (auto simp: wp_simps V_def)
      qed (use s ik E g in auto)
      then show ?thesis
        by (simp add: mem_def wp_simps i o)
    qed
  qed
  have "wp (if pays op v then vbind (veval (\<lambda>_. toInt63 (callValueTransferGas (evmSchedule x)))) add_runGas else vret ())
      (\<lambda>_. wp mem (\<lambda>_. wp updateIOGas Q E) E) E (s\<lparr>m_ext := e, m_runGas := g\<rparr>)"
    if "callGas (evmSchedule x) \<le> g" "g < 8589934592" for e g
    using m [of g e] m [of "g + callValueTransferGas (evmSchedule x)" e] that b E
    by (auto simp: wp_simps toInt63_def V_def)
  note v = this
  have comm: "s\<lparr>m_runGas := a, m_ext := e\<rparr> = s\<lparr>m_ext := e, m_runGas := a\<rparr>" for a e
    by simp
  show ?thesis
    unfolding call_charge_def mem_def [symmetric]
    using v [of "callGas (evmSchedule x)"] v [of "callGas (evmSchedule x) + callNewAccountGas (evmSchedule x)"]
      v [of "callGas (evmSchedule x)" "m_ext s"] b E
    by (auto simp: wp_simps toInt63_def comm split: sum.split prod.split)
qed

lemma wp_call_allowance:
  assumes s: "m_io_gas s < 18446744073709551616"
    and Q: "\<And>g. unat g \<le> m_io_gas s \<Longrightarrow> Q g (s\<lparr>m_runGas := unat g, m_io_gas := m_io_gas s - unat g\<rparr>)"
    and E: "E OutOfGas s" "\<And>g. E OutOfGas (s\<lparr>m_runGas := g\<rparr>)"
  shows "wp (call_allowance x requested) Q E s"
  using Q E by (auto simp: call_allowance_def wp_simps)

lemma call_params_gas:
  assumes "unat g < 18446744073709551616" "callStipend (evmSchedule x) < 4294967296"
  shows "unat (call_gas (call_params x op d v g)) = unat g + (if pays op v then callStipend (evmSchedule x) else 0)"
proof -
  have "unat (g + of_nat (callStipend (evmSchedule x))) = unat g + callStipend (evmSchedule x)"
    using assms by (simp add: unat_word_ariths unat_of_nat take_bit_eq_mod)
  then show ?thesis
    by (auto simp: call_params_def Let_def)
qed

lemma wp_call_out:
  assumes h: "host_ok x" and s: "call_mid x s"
    and r: "outSize = 0 \<or> outOff + outSize \<le> length (m_mem s)"
    and Q: "\<And>s' g. call_mid x s' \<Longrightarrow> m_io_gas s' = m_io_gas s \<Longrightarrow> g \<le> call_gas p \<Longrightarrow> Q g s'"
    and E: "\<And>e s'. e \<noteq> UndefinedBehaviour \<Longrightarrow> e \<noteq> TierOutOfRange \<Longrightarrow> m_io_gas s' \<le> m_io_gas s \<Longrightarrow> E e s'"
  shows "wp (call_out x p outOff outSize) Q E s"
proof -
  have ret: "g \<le> call_gas p" "length (cr_output r) < 18446744073709551616"
    if "ext_call x p e = (Inr (r, g), e')" for e r g e'
  proof -
    have "g \<le> call_gas p" "length (cr_output r) < 2 ^ 64"
      using h that unfolding host_ok_def by blast+
    then show "g \<le> call_gas p" "length (cr_output r) < 18446744073709551616"
      by simp_all
  qed
  show ?thesis
    using s r ret unfolding call_out_def
    by (auto simp: wp_simps call_mid_def split: sum.split prod.split intro!: Q E)
qed

lemma call_gas_final:
  assumes sch: "schedule_ok (evmSchedule x)" and io: "io < 18446744073709551616"
    and r: "callGas (evmSchedule x) + (if pays op v then callValueTransferGas (evmSchedule x) else 0) \<le> r" "r \<le> io"
    and g: "unat g \<le> io - r" "g' \<le> call_gas (call_params x op d v g)"
  shows "u64 (io - r - unat g + u64 (unat g')) < io"
proof -
  have st: "callStipend (evmSchedule x) \<le> callValueTransferGas (evmSchedule x)" "callValueTransferGas (evmSchedule x) < 4294967296"
    "0 < callGas (evmSchedule x)"
    using sch by (auto simp: schedule_ok_def)
  have "unat g' \<le> unat (call_gas (call_params x op d v g))"
    using g(2) by (simp add: word_le_nat_alt)
  also have "\<dots> = unat g + (if pays op v then callStipend (evmSchedule x) else 0)"
    using g(1) io st by (intro call_params_gas) auto
  finally have "io - r - unat g + unat g' < io"
    using r g(1) st by (auto split: if_splits)
  moreover have "u64 (io - r - unat g + u64 (unat g')) \<le> io - r - unat g + unat g'"
    using u64_le [of "unat g'"] u64_le [of "io - r - unat g + u64 (unat g')"] by linarith
  ultimately show ?thesis
    by linarith
qed

text \<open>What is known when \<open>caseCallSetup\<close> returns: \<open>r\<close> is the price of the call, \<open>g\<close> the gas that has been handed over.\<close>

definition call_ready :: "('e, 's) ExtVMFace \<Rightarrow> 's LegacyVM \<Rightarrow> CallParameters \<times> (nat \<times> nat) option \<Rightarrow> 's LegacyVM \<Rightarrow> bool" where
  "call_ready x s po s' \<longleftrightarrow> call_mid x s' \<and>
     (\<exists>r g d. m_io_gas s' = m_io_gas s - r - unat g \<and>
        callGas (evmSchedule x) + (if pays (m_OP s) (SP s 2) then callValueTransferGas (evmSchedule x) else 0) \<le> r \<and> r \<le> m_io_gas s \<and>
        unat g \<le> m_io_gas s - r \<and> call_gas (fst po) = call_gas (call_params x (m_OP s) d (SP s 2) g)) \<and>
     (\<forall>oo os. snd po = Some (oo, os) \<longrightarrow> os = 0 \<or> oo + os \<le> length (m_mem s'))"

lemma wp_caseCallSetup:
  assumes h: "schedule_ok (evmSchedule x)" and s: "call_mid x s" "m_copyMemSize s = 0"
    "m_SP s + (if m_OP s = 0xf1 \<or> m_OP s = 0xf2 then 7 else 6) \<le> 1024"
    and Q: "\<And>po s'. call_ready x s po s' \<Longrightarrow> Q po s'"
    and E: "\<And>e s'. e \<noteq> UndefinedBehaviour \<Longrightarrow> e \<noteq> TierOutOfRange \<Longrightarrow> m_io_gas s' \<le> m_io_gas s \<Longrightarrow> E e s'"
  shows "wp (caseCallSetup x) Q E s"
proof -
  define so where "so = (if m_OP s = 0xf1 \<or> m_OP s = 0xf2 then 3 else 2 :: nat)"
  have so: "\<not> 1024 < m_SP s + (so + 4)"
    using s(3) by (auto simp: so_def split: if_splits)
  have mid: "code_ok x s" "32 dvd length (m_mem s)" "m_io_gas s < 18446744073709551616"
    using s(1) by (auto simp: call_mid_def)
  show ?thesis
    unfolding caseCallSetup_def Let_def wp_vread wp_vdo_Cons wp_reads so_def [symmetric] if_not_P [OF so]
  proof (rule wp_call_charge [OF h mid(2) s(2) _ E], goal_cases charge)
    case (charge e N r)
    let ?s = "s\<lparr>m_ext := e, m_newMemSize := N, m_runGas := r, m_mem := resize_mem N (m_mem s), m_io_gas := m_io_gas s - r\<rparr>"
    show ?case
      unfolding vdo.simps(1) wp_vbind
    proof (rule wp_call_allowance, goal_cases gas allow)
      case (allow g)
      let ?t = "\<lambda>e2. ?s\<lparr>m_runGas := unat g, m_io_gas := m_io_gas ?s - unat g, m_ext := e2\<rparr>"
      have ready: "call_ready x s (p, outp) (?t e2)"
        if p: "call_gas p = call_gas (call_params x (m_OP s) d (SP s 2) g)"
          and o: "outp = None \<or> outp = Some (u64 (unat (SP s (so + 2))), u64 (unat (SP s (so + 3))))" for p outp d e2
      proof -
        have "call_mid x (?t e2)"
          using s(1) charge(5) by (simp add: call_mid_def)
        moreover have "m_io_gas (?t e2) = m_io_gas s - r - unat g" "unat g \<le> m_io_gas s - r"
          using allow by simp_all
        moreover have "os = 0 \<or> oo + os \<le> length (m_mem (?t e2))" if "outp = Some (oo, os)" for oo os
          using o that charge(4) by (auto simp: in_range_def)
        ultimately show ?thesis
          using charge(1,2) p unfolding call_ready_def fst_conv snd_conv by blast
      qed
      have i: "u64 (unat (SP s (so + 1))) = 0 \<or> u64 (unat (SP s so)) + u64 (unat (SP s (so + 1))) \<le> length (m_mem (?t e2))" for e2
        using charge(3) by (auto simp: in_range_def)
      obtain res e2 where b: "ext_balance x (myAddress x) (m_ext (?s\<lparr>m_runGas := unat g, m_io_gas := m_io_gas ?s - unat g\<rparr>)) = (res, e2)"
        by fastforce
      have Q': "Q (p, outp) (?t e2)"
        if "call_gas p = call_gas (call_params x (m_OP s) (asAddress (SP s 1)) (SP s 2) g)"
          "outp = None \<or> outp = Some (u64 (unat (SP s (so + 2))), u64 (unat (SP s (so + 3))))" for p outp
        using ready that by (intro Q)
      show ?case
      proof (cases res)
        case (Inl err)
        then show ?thesis
          unfolding wp_ext_do b by (simp add: E)
      next
        case (Inr v)
        show ?thesis
        proof (cases "valueTransfer (call_params x (m_OP s) (asAddress (SP s 1)) (SP s 2) g) \<le> v \<and> ext_depth x < 1024")
          case True
          show ?thesis
          proof (cases "u64 (unat (SP s (so + 1))) = 0")
            case z: True
            show ?thesis
              unfolding wp_ext_do b Inr prod.case sum.case if_P [OF True] wp_vbind wp_mem_read if_P [OF z] wp_vret
              by (rule Q') simp_all
          next
            case z: False
            then have len: "\<not> length (m_mem (?t e2)) < u64 (unat (SP s so)) + u64 (unat (SP s (so + 1)))"
              using i [of e2] by linarith
            show ?thesis
              unfolding wp_ext_do b Inr prod.case sum.case if_P [OF True] wp_vbind wp_mem_read if_not_P [OF z] if_not_P [OF len] wp_vret
              by (rule Q') simp_all
          qed
        next
          case False
          show ?thesis
            unfolding wp_ext_do b Inr prod.case sum.case if_not_P [OF False] wp_vret by (rule Q') simp_all
        qed
      qed
    qed (use mid E in auto)
  qed
qed

lemma wp_caseCall:
  assumes h: "host_ok x"
    and f: "fetched x 7 1 Special 0xf1 s \<or> fetched x 7 1 Special 0xf2 s \<or> fetched x 6 1 Special 0xf4 s \<or> fetched x 6 1 Special 0xfa s"
  shows "wp (caseCall x) (call_post x s) (err_ok s) s"
proof -
  have sch: "schedule_ok (evmSchedule x)"
    using h by (simp add: host_ok_def)
  let ?s = "s\<lparr>m_bounce := Some InterpretCases, m_returnData := []\<rparr>"
  have s: "call_mid x ?s" "m_copyMemSize ?s = 0" "m_SP ?s + (if m_OP ?s = 0xf1 \<or> m_OP ?s = 0xf2 then 7 else 6) \<le> 1024"
  proof -
    obtain op where op: "fetched x (if op = 0xf1 \<or> op = 0xf2 then 7 else 6) 1 Special op s" "plain op"
    proof -
      have "fetched x (if op = 0xf1 \<or> op = 0xf2 then 7 else 6) 1 Special op s"
        if "op = 0xf1 \<and> fetched x 7 1 Special op s \<or> op = 0xf2 \<and> fetched x 7 1 Special op s \<or>
          op = 0xf4 \<and> fetched x 6 1 Special op s \<or> op = 0xfa \<and> fetched x 6 1 Special op s" for op
        using that by auto
      then show ?thesis
        using f that plain_call_ops by blast
    qed
    note fs = call_mid_fetched [OF op]
    show "call_mid x ?s"
      using fs(1,2,3,5,6,8) by (simp add: call_mid_def split: if_splits)
    show "m_copyMemSize ?s = 0"
      using fs(7) by simp
    show "m_SP ?s + (if m_OP ?s = 0xf1 \<or> m_OP ?s = 0xf2 then 7 else 6) \<le> 1024"
      using fs(4,5) by simp
  qed
  have io: "m_io_gas s < 18446744073709551616"
    using s(1) by (simp add: call_mid_def)
  show ?thesis
    unfolding caseCall_def wp_vdo_Cons wp_bounce_to wp_vmodify wp_vbind
  proof (rule wp_caseCallSetup [OF sch s], goal_cases ready error)
    case (ready po s')
    then obtain r g d where rg: "m_io_gas s' = m_io_gas s - r - unat g"
      "callGas (evmSchedule x) + (if pays (m_OP s) (SP s 2) then callValueTransferGas (evmSchedule x) else 0) \<le> r"
      "r \<le> m_io_gas s" "unat g \<le> m_io_gas s - r" "call_gas (fst po) = call_gas (call_params x (m_OP s) d (SP s 2) g)"
      by (auto simp: call_ready_def)
    have mid: "call_mid x s'" and out: "snd po = Some (oo, os) \<Longrightarrow> os = 0 \<or> oo + os \<le> length (m_mem s')" for oo os
      using ready by (auto simp: call_ready_def)
    have fin: "call_post x s () (t\<lparr>m_io_gas := u64 (m_io_gas t + u64 (unat g')), m_PC := m_PC t + 1\<rparr>)"
      if "call_mid x t" "m_io_gas t = m_io_gas s'" "g' \<le> call_gas (fst po)" for t g'
      using call_gas_final [OF sch io rg(2,3,4), of g' d] that rg(1,5) by (simp add: call_post_def vm_inv_def call_mid_def)
    show ?case
    proof (cases "snd po")
      case None
      have "call_mid x (s'\<lparr>m_stack := (m_stack s')(m_SPP s' := 0)\<rparr>)"
        using mid by (simp add: call_mid_def)
      from fin [OF this] show ?thesis
        using mid by (simp add: None wp_simps call_mid_def)
    next
      case (Some range)
      obtain oo os where ro: "range = (oo, os)"
        by (cases range)
      show ?thesis
        unfolding Some ro option.case prod.case
      proof (rule wp_call_out [OF h mid out])
        show "snd po = Some (oo, os)"
          by (simp add: Some ro)
      qed (use fin rg(1) in \<open>auto simp: wp_simps err_ok_def\<close>)
    qed
  next
    case error
    then show ?case
      by (simp add: err_ok_def)
  qed
qed

end
