(* ===== verification/LegacyVMMetrics.thy ===== *)
theory LegacyVMMetrics
  imports LegacyVM
begin

text \<open>
  The stack items and the price tier of every opcode that the interpreter implements, computed from the table of \<open>Instruction\<close>.
\<close>

abbreviation metric :: "nat \<Rightarrow> nat \<Rightarrow> Tier \<Rightarrow> InstructionMetric" where
  "metric a r t \<equiv> \<lparr>m_tier = t, m_args = a, m_ret = r\<rparr>"

fun info_at :: "('k \<times> 'v) list \<Rightarrow> 'v \<Rightarrow> 'k \<Rightarrow> 'v" where
  "info_at [] d k = d"
| "info_at ((a, b) # xs) d k = (if k = a then b else info_at xs d k)"

lemma lookup_map_of: "info_at xs d k = (case map_of xs k of None \<Rightarrow> d | Some v \<Rightarrow> v)"
  by (induction xs d k rule: info_at.induct) auto

lemma c_metrics_lookup:
  "c_metrics op = info_at (map (\<lambda>(k, i). (k, metric (args i) (ret i) (gasPriceTier i))) c_instructionInfo) (metric 0 0 Invalid) op"
  by (auto simp: c_metrics_def instructionInfo_def lookup_map_of map_of_map Let_def split: option.split)

text \<open>An undefined opcode takes nothing from the stack and gives nothing.\<close>

lemma unknown_metric:
  assumes "m_tier (c_metrics op) = Invalid"
  shows "m_args (c_metrics op) = 0 \<and> m_ret (c_metrics op) = 0"
proof -
  have "list_all (\<lambda>(k, i). gasPriceTier i \<noteq> Invalid) c_instructionInfo"
    by (simp add: c_instructionInfo_def)
  then have "gasPriceTier i \<noteq> Invalid" if "map_of c_instructionInfo op = Some i" for i
    using map_of_SomeD [OF that] by (auto simp: list_all_iff)
  then show ?thesis
    using assms by (auto simp: c_metrics_def instructionInfo_def Let_def split: option.splits)
qed

lemma metric_table:
  "map (\<lambda>(k, i). (k, metric (args i) (ret i) (gasPriceTier i))) c_instructionInfo = [
     (0x00, metric 0 0 Zero), (0x01, metric 2 1 VeryLow), (0x03, metric 2 1 VeryLow), (0x02, metric 2 1 Low), (0x04, metric 2 1 Low),
     (0x05, metric 2 1 Low), (0x06, metric 2 1 Low), (0x07, metric 2 1 Low), (0x0a, metric 2 1 Special), (0x19, metric 1 1 VeryLow),
     (0x10, metric 2 1 VeryLow), (0x11, metric 2 1 VeryLow), (0x12, metric 2 1 VeryLow), (0x13, metric 2 1 VeryLow),
     (0x14, metric 2 1 VeryLow), (0x15, metric 1 1 VeryLow), (0x16, metric 2 1 VeryLow), (0x17, metric 2 1 VeryLow),
     (0x18, metric 2 1 VeryLow), (0x1a, metric 2 1 VeryLow), (0x1b, metric 2 1 VeryLow), (0x1c, metric 2 1 VeryLow),
     (0x1d, metric 2 1 VeryLow), (0x08, metric 3 1 Mid), (0x09, metric 3 1 Mid), (0x0b, metric 2 1 Low), (0x20, metric 2 1 Special),
     (0x30, metric 0 1 Base), (0x31, metric 1 1 Special), (0x32, metric 0 1 Base), (0x33, metric 0 1 Base), (0x34, metric 0 1 Base),
     (0x35, metric 1 1 VeryLow), (0x36, metric 0 1 Base), (0x37, metric 3 0 VeryLow), (0x38, metric 0 1 Base), (0x39, metric 3 0 VeryLow),
     (0x3a, metric 0 1 Base), (0x3b, metric 1 1 Special), (0x3c, metric 4 0 Special), (0x3d, metric 0 1 Base), (0x3e, metric 3 0 VeryLow),
     (0x40, metric 1 1 Special), (0x41, metric 0 1 Base), (0x42, metric 0 1 Base), (0x43, metric 0 1 Base), (0x44, metric 0 1 Base),
     (0x45, metric 0 1 Base), (0x50, metric 1 0 Base), (0x51, metric 1 1 VeryLow), (0x52, metric 2 0 VeryLow), (0x53, metric 2 0 VeryLow),
     (0x54, metric 1 1 Special), (0x55, metric 2 0 Special), (0x56, metric 1 0 Mid), (0x57, metric 2 0 High), (0x58, metric 0 1 Base),
     (0x59, metric 0 1 Base), (0x5a, metric 0 1 Base), (0x5b, metric 0 0 Special), (0x60, metric 0 1 VeryLow), (0x61, metric 0 1 VeryLow),
     (0x62, metric 0 1 VeryLow), (0x63, metric 0 1 VeryLow), (0x64, metric 0 1 VeryLow), (0x65, metric 0 1 VeryLow),
     (0x66, metric 0 1 VeryLow), (0x67, metric 0 1 VeryLow), (0x68, metric 0 1 VeryLow), (0x69, metric 0 1 VeryLow),
     (0x6a, metric 0 1 VeryLow), (0x6b, metric 0 1 VeryLow), (0x6c, metric 0 1 VeryLow), (0x6d, metric 0 1 VeryLow),
     (0x6e, metric 0 1 VeryLow), (0x6f, metric 0 1 VeryLow), (0x70, metric 0 1 VeryLow), (0x71, metric 0 1 VeryLow),
     (0x72, metric 0 1 VeryLow), (0x73, metric 0 1 VeryLow), (0x74, metric 0 1 VeryLow), (0x75, metric 0 1 VeryLow),
     (0x76, metric 0 1 VeryLow), (0x77, metric 0 1 VeryLow), (0x78, metric 0 1 VeryLow), (0x79, metric 0 1 VeryLow),
     (0x7a, metric 0 1 VeryLow), (0x7b, metric 0 1 VeryLow), (0x7c, metric 0 1 VeryLow), (0x7d, metric 0 1 VeryLow),
     (0x7e, metric 0 1 VeryLow), (0x7f, metric 0 1 VeryLow), (0x80, metric 1 2 VeryLow), (0x81, metric 2 3 VeryLow),
     (0x82, metric 3 4 VeryLow), (0x83, metric 4 5 VeryLow), (0x84, metric 5 6 VeryLow), (0x85, metric 6 7 VeryLow),
     (0x86, metric 7 8 VeryLow), (0x87, metric 8 9 VeryLow), (0x88, metric 9 10 VeryLow), (0x89, metric 10 11 VeryLow),
     (0x8a, metric 11 12 VeryLow), (0x8b, metric 12 13 VeryLow), (0x8c, metric 13 14 VeryLow), (0x8d, metric 14 15 VeryLow),
     (0x8e, metric 15 16 VeryLow), (0x8f, metric 16 17 VeryLow), (0x90, metric 2 2 VeryLow), (0x91, metric 3 3 VeryLow),
     (0x92, metric 4 4 VeryLow), (0x93, metric 5 5 VeryLow), (0x94, metric 6 6 VeryLow), (0x95, metric 7 7 VeryLow),
     (0x96, metric 8 8 VeryLow), (0x97, metric 9 9 VeryLow), (0x98, metric 10 10 VeryLow), (0x99, metric 11 11 VeryLow),
     (0x9a, metric 12 12 VeryLow), (0x9b, metric 13 13 VeryLow), (0x9c, metric 14 14 VeryLow), (0x9d, metric 15 15 VeryLow),
     (0x9e, metric 16 16 VeryLow), (0x9f, metric 17 17 VeryLow), (0xa0, metric 2 0 Special), (0xa1, metric 3 0 Special),
     (0xa2, metric 4 0 Special), (0xa3, metric 5 0 Special), (0xa4, metric 6 0 Special), (0xb0, metric 1 0 VeryLow),
     (0xb1, metric 2 0 Low), (0xb3, metric 1 0 Mid), (0xb2, metric 1 0 Low), (0xb4, metric 1 0 Mid), (0xb5, metric 0 0 Special),
     (0xb6, metric 0 0 Special), (0xb7, metric 1 0 Mid), (0xb8, metric 1 0 VeryLow), (0xb9, metric 0 1 VeryLow),
     (0xc1, metric 0 0 Special), (0xc2, metric 2 1 Special), (0xc3, metric 2 1 Special), (0xc4, metric 2 1 Special),
     (0xc5, metric 2 1 Special), (0xc6, metric 2 1 Special), (0xc7, metric 2 1 Special), (0xd0, metric 2 1 Special),
     (0xd1, metric 2 1 Special), (0xd2, metric 2 1 Special), (0xd3, metric 2 1 Special), (0xd4, metric 2 1 Special),
     (0xd5, metric 2 1 Special), (0xd6, metric 1 1 Special), (0x18, metric 2 1 Special), (0xd8, metric 2 1 Special),
     (0xd9, metric 2 1 Special), (0xdb, metric 2 1 Special), (0xdc, metric 2 1 Special), (0xdd, metric 2 1 Special),
     (0xde, metric 2 1 Special), (0xdf, metric 2 1 Special), (0xe0, metric 1 1 VeryLow), (0xe1, metric 1 1 VeryLow),
     (0xe2, metric 2 0 VeryLow), (0xe4, metric 1 1 Special), (0xe5, metric 2 0 Special), (0xe6, metric 1 1 VeryLow),
     (0xe7, metric 1 1 VeryLow), (0xe9, metric 3 1 Special), (0xe8, metric 2 1 Special), (0xea, metric 2 1 Special),
     (0xeb, metric 3 1 Special), (0xf0, metric 3 1 Special), (0xfb, metric 4 1 Special), (0xf1, metric 7 1 Special),
     (0xf2, metric 7 1 Special), (0xf3, metric 2 0 Zero), (0xfa, metric 6 1 Special), (0xf4, metric 6 1 Special),
     (0xfd, metric 2 0 Special), (0xfe, metric 0 0 Zero), (0xff, metric 1 0 Special), (0xac, metric 0 1 VeryLow), (0xad, metric 1 0 Mid),
     (0xae, metric 2 0 High)]"
  by (simp add: c_instructionInfo_def)

lemma metrics_1:
  "c_metrics 0x00 = metric 0 0 Zero" "c_metrics 0x01 = metric 2 1 VeryLow" "c_metrics 0x02 = metric 2 1 Low"
  "c_metrics 0x03 = metric 2 1 VeryLow" "c_metrics 0x04 = metric 2 1 Low" "c_metrics 0x05 = metric 2 1 Low"
  "c_metrics 0x06 = metric 2 1 Low" "c_metrics 0x07 = metric 2 1 Low" "c_metrics 0x08 = metric 3 1 Mid" "c_metrics 0x09 = metric 3 1 Mid"
  "c_metrics 0x0a = metric 2 1 Special" "c_metrics 0x0b = metric 2 1 Low" "c_metrics 0x10 = metric 2 1 VeryLow"
  "c_metrics 0x11 = metric 2 1 VeryLow" "c_metrics 0x12 = metric 2 1 VeryLow" "c_metrics 0x13 = metric 2 1 VeryLow"
  "c_metrics 0x14 = metric 2 1 VeryLow" "c_metrics 0x15 = metric 1 1 VeryLow" "c_metrics 0x16 = metric 2 1 VeryLow"
  "c_metrics 0x17 = metric 2 1 VeryLow"
  unfolding c_metrics_lookup metric_table info_at.simps by simp_all

lemma metrics_2:
  "c_metrics 0x18 = metric 2 1 VeryLow" "c_metrics 0x19 = metric 1 1 VeryLow" "c_metrics 0x1a = metric 2 1 VeryLow"
  "c_metrics 0x1b = metric 2 1 VeryLow" "c_metrics 0x1c = metric 2 1 VeryLow" "c_metrics 0x1d = metric 2 1 VeryLow"
  "c_metrics 0x20 = metric 2 1 Special" "c_metrics 0x30 = metric 0 1 Base" "c_metrics 0x31 = metric 1 1 Special"
  "c_metrics 0x32 = metric 0 1 Base" "c_metrics 0x33 = metric 0 1 Base" "c_metrics 0x34 = metric 0 1 Base"
  "c_metrics 0x35 = metric 1 1 VeryLow" "c_metrics 0x36 = metric 0 1 Base" "c_metrics 0x37 = metric 3 0 VeryLow"
  "c_metrics 0x38 = metric 0 1 Base" "c_metrics 0x39 = metric 3 0 VeryLow" "c_metrics 0x3a = metric 0 1 Base"
  "c_metrics 0x3b = metric 1 1 Special" "c_metrics 0x3c = metric 4 0 Special"
  unfolding c_metrics_lookup metric_table info_at.simps by simp_all

lemma metrics_3:
  "c_metrics 0x3d = metric 0 1 Base" "c_metrics 0x3e = metric 3 0 VeryLow" "c_metrics 0x40 = metric 1 1 Special"
  "c_metrics 0x41 = metric 0 1 Base" "c_metrics 0x42 = metric 0 1 Base" "c_metrics 0x43 = metric 0 1 Base"
  "c_metrics 0x44 = metric 0 1 Base" "c_metrics 0x45 = metric 0 1 Base" "c_metrics 0x50 = metric 1 0 Base"
  "c_metrics 0x51 = metric 1 1 VeryLow" "c_metrics 0x52 = metric 2 0 VeryLow" "c_metrics 0x53 = metric 2 0 VeryLow"
  "c_metrics 0x54 = metric 1 1 Special" "c_metrics 0x55 = metric 2 0 Special" "c_metrics 0x56 = metric 1 0 Mid"
  "c_metrics 0x57 = metric 2 0 High" "c_metrics 0x58 = metric 0 1 Base" "c_metrics 0x59 = metric 0 1 Base"
  "c_metrics 0x5a = metric 0 1 Base" "c_metrics 0x5b = metric 0 0 Special"
  unfolding c_metrics_lookup metric_table info_at.simps by simp_all

lemma metrics_4:
  "c_metrics 0x60 = metric 0 1 VeryLow" "c_metrics 0xa0 = metric 2 0 Special" "c_metrics 0xa1 = metric 3 0 Special"
  "c_metrics 0xa2 = metric 4 0 Special" "c_metrics 0xa3 = metric 5 0 Special" "c_metrics 0xa4 = metric 6 0 Special"
  "c_metrics 0xf0 = metric 3 1 Special" "c_metrics 0xf1 = metric 7 1 Special" "c_metrics 0xf2 = metric 7 1 Special"
  "c_metrics 0xf3 = metric 2 0 Zero" "c_metrics 0xf4 = metric 6 1 Special" "c_metrics 0xfa = metric 6 1 Special"
  "c_metrics 0xfb = metric 4 1 Special" "c_metrics 0xfd = metric 2 0 Special" "c_metrics 0xff = metric 1 0 Special"
  unfolding c_metrics_lookup metric_table info_at.simps by simp_all

lemmas metrics_simps = metrics_1 metrics_2 metrics_3 metrics_4

lemma byte_range:
  fixes op :: Instruction
  assumes "of_nat a \<le> op" "op \<le> of_nat b" "a < 256" "b < 256"
  shows "\<exists>n \<in> set [a..<Suc b]. op = of_nat n"
proof
  show "op = of_nat (unat op)"
    by simp
  show "unat op \<in> set [a..<Suc b]"
    using assms by (auto simp: word_le_nat_alt unat_of_nat take_bit_eq_mod)
qed

lemma metrics_PUSH:
  "c_metrics 0x60 = metric 0 1 VeryLow" "c_metrics 0x61 = metric 0 1 VeryLow" "c_metrics 0x62 = metric 0 1 VeryLow"
  "c_metrics 0x63 = metric 0 1 VeryLow" "c_metrics 0x64 = metric 0 1 VeryLow" "c_metrics 0x65 = metric 0 1 VeryLow"
  "c_metrics 0x66 = metric 0 1 VeryLow" "c_metrics 0x67 = metric 0 1 VeryLow" "c_metrics 0x68 = metric 0 1 VeryLow"
  "c_metrics 0x69 = metric 0 1 VeryLow" "c_metrics 0x6a = metric 0 1 VeryLow" "c_metrics 0x6b = metric 0 1 VeryLow"
  "c_metrics 0x6c = metric 0 1 VeryLow" "c_metrics 0x6d = metric 0 1 VeryLow" "c_metrics 0x6e = metric 0 1 VeryLow"
  "c_metrics 0x6f = metric 0 1 VeryLow" "c_metrics 0x70 = metric 0 1 VeryLow" "c_metrics 0x71 = metric 0 1 VeryLow"
  "c_metrics 0x72 = metric 0 1 VeryLow" "c_metrics 0x73 = metric 0 1 VeryLow" "c_metrics 0x74 = metric 0 1 VeryLow"
  "c_metrics 0x75 = metric 0 1 VeryLow" "c_metrics 0x76 = metric 0 1 VeryLow" "c_metrics 0x77 = metric 0 1 VeryLow"
  "c_metrics 0x78 = metric 0 1 VeryLow" "c_metrics 0x79 = metric 0 1 VeryLow" "c_metrics 0x7a = metric 0 1 VeryLow"
  "c_metrics 0x7b = metric 0 1 VeryLow" "c_metrics 0x7c = metric 0 1 VeryLow" "c_metrics 0x7d = metric 0 1 VeryLow"
  "c_metrics 0x7e = metric 0 1 VeryLow" "c_metrics 0x7f = metric 0 1 VeryLow"
  unfolding c_metrics_lookup metric_table info_at.simps by simp_all

lemma metrics_DUP:
  "c_metrics 0x80 = metric 1 2 VeryLow" "c_metrics 0x81 = metric 2 3 VeryLow" "c_metrics 0x82 = metric 3 4 VeryLow"
  "c_metrics 0x83 = metric 4 5 VeryLow" "c_metrics 0x84 = metric 5 6 VeryLow" "c_metrics 0x85 = metric 6 7 VeryLow"
  "c_metrics 0x86 = metric 7 8 VeryLow" "c_metrics 0x87 = metric 8 9 VeryLow" "c_metrics 0x88 = metric 9 10 VeryLow"
  "c_metrics 0x89 = metric 10 11 VeryLow" "c_metrics 0x8a = metric 11 12 VeryLow" "c_metrics 0x8b = metric 12 13 VeryLow"
  "c_metrics 0x8c = metric 13 14 VeryLow" "c_metrics 0x8d = metric 14 15 VeryLow" "c_metrics 0x8e = metric 15 16 VeryLow"
  "c_metrics 0x8f = metric 16 17 VeryLow"
  unfolding c_metrics_lookup metric_table info_at.simps by simp_all

lemma metrics_SWAP:
  "c_metrics 0x90 = metric 2 2 VeryLow" "c_metrics 0x91 = metric 3 3 VeryLow" "c_metrics 0x92 = metric 4 4 VeryLow"
  "c_metrics 0x93 = metric 5 5 VeryLow" "c_metrics 0x94 = metric 6 6 VeryLow" "c_metrics 0x95 = metric 7 7 VeryLow"
  "c_metrics 0x96 = metric 8 8 VeryLow" "c_metrics 0x97 = metric 9 9 VeryLow" "c_metrics 0x98 = metric 10 10 VeryLow"
  "c_metrics 0x99 = metric 11 11 VeryLow" "c_metrics 0x9a = metric 12 12 VeryLow" "c_metrics 0x9b = metric 13 13 VeryLow"
  "c_metrics 0x9c = metric 14 14 VeryLow" "c_metrics 0x9d = metric 15 15 VeryLow" "c_metrics 0x9e = metric 16 16 VeryLow"
  "c_metrics 0x9f = metric 17 17 VeryLow"
  unfolding c_metrics_lookup metric_table info_at.simps by simp_all

lemma metrics_push: "is_push op \<Longrightarrow> c_metrics op = metric 0 1 VeryLow"
  using byte_range [of "0x60" op "0x7f"] by (auto simp: is_push_def upt_rec metrics_PUSH)

lemma metrics_dup: "0x80 \<le> op \<Longrightarrow> op \<le> 0x8f \<Longrightarrow> c_metrics op = metric (unat op - 0x80 + 1) (unat op - 0x80 + 2) VeryLow"
  using byte_range [of "0x80" op "0x8f"] by (auto simp: upt_rec metrics_DUP)

lemma metrics_swap: "0x90 \<le> op \<Longrightarrow> op \<le> 0x9f \<Longrightarrow> c_metrics op = metric (unat op - 0x90 + 2) (unat op - 0x90 + 2) VeryLow"
  using byte_range [of "0x90" op "0x9f"] by (auto simp: upt_rec metrics_SWAP)

end
