(* ===== verification/LegacyVMRun.thy ===== *)
theory LegacyVMRun
  imports LegacyVMCallsInv LegacyVMMetrics
begin

text \<open>
  Whole runs: \<open>exec\<close> returns for every code and every amount of gas, leaves no more gas than it was given, and never
  accesses an array outside of its bounds.
\<close>

section \<open>One round of the loop\<close>

text \<open>
  The exception of a round. The price of an opcode is read behind the end of the array exactly if the opcode is undefined.
\<close>

definition step_err :: "'s LegacyVM \<Rightarrow> 'e vm_error \<Rightarrow> 's LegacyVM \<Rightarrow> bool" where
  "step_err s e s' \<longleftrightarrow> e \<noteq> UndefinedBehaviour \<and> m_io_gas s' \<le> m_io_gas s \<and> (e = TierOutOfRange \<longleftrightarrow> m_tier (c_metrics (m_code s ! m_PC s)) = Invalid)"

lemma wp_fetchInstruction:
  assumes sch: "schedule_ok (evmSchedule x)" and s: "vm_inv x s"
  shows "wp (fetchInstruction x)
    (\<lambda>_ s'. fetched x (m_args (c_metrics (m_OP s'))) (m_ret (c_metrics (m_OP s'))) (m_tier (c_metrics (m_OP s'))) (m_OP s') s' \<and>
       m_io_gas s' = m_io_gas s \<and> m_bounce s' = m_bounce s \<and> m_tier (c_metrics (m_code s ! m_PC s)) \<noteq> Invalid)
    (step_err s) s"
proof -
  have pc: "m_PC s \<in> instr_starts (ext_code x)" "m_PC s < length (m_code s)"
    using s code_ok_bound [of x s "m_PC s"] by (auto simp: vm_inv_def)
  define op where "op = m_code s ! m_PC s"
  have op: "op = 0 \<or> op = 0xfe \<or> m_PC s + op_size op \<in> instr_starts (ext_code x)" "op = 0 \<or> m_PC s < length (ext_code x)"
  proof -
    have "op = 0" if "\<not> m_PC s < length (ext_code x)"
      using s pc(2) that by (auto simp: vm_inv_def code_ok_def op_def)
    moreover have "op = replace_op (ext_code x ! m_PC s)" if "m_PC s < length (ext_code x)"
      using s pc(1) that by (auto simp: vm_inv_def code_ok_def op_def)
    moreover have "m_PC s + op_size (ext_code x ! m_PC s) \<in> instr_starts (ext_code x)" if "m_PC s < length (ext_code x)"
      using pc(1) that by (rule start_next)
    ultimately show "op = 0 \<or> op = 0xfe \<or> m_PC s + op_size op \<in> instr_starts (ext_code x)" "op = 0 \<or> m_PC s < length (ext_code x)"
      by (cases "m_PC s < length (ext_code x)"; auto simp: replace_op_def split: if_splits)+
  qed
  have tier: "\<not> 0x7FFFFFFFFFFFFFFF < tier_gas (evmSchedule x) t" if "t \<noteq> Invalid" for t
    using tier_gas_le [OF sch that] by simp
  have inv: "8 \<le> Tier_unsigned t \<longleftrightarrow> t = Invalid" for t
    by (cases t) simp_all
  have len: "length (tierStepGas (evmSchedule x)) = 8"
    using sch by (simp add: schedule_ok_def)
  have none: "m_args (c_metrics op) = 0" "m_ret (c_metrics op) = 0" if "m_tier (c_metrics op) = Invalid"
    using that unknown_metric [of op] by simp_all
  show ?thesis
    using s pc op tier none
    by (auto simp: fetchInstruction_def wp_simps Let_def step_err_def len inv op_def [symmetric] fetched_def vm_inv_def)
qed

lemma jumpTable_list_ok:
  assumes h: "host_ok x"
  shows "list_all (\<lambda>(op, h). handler_ok x (m_args (c_metrics op)) (m_ret (c_metrics op)) (m_tier (c_metrics op)) op h) (jumpTable_list sha3 x)"
proof -
  have sch: "schedule_ok (evmSchedule x)"
    using h by (simp add: host_ok_def)
  have pl:
    "plain 0x01" "plain 0x02" "plain 0x03" "plain 0x04" "plain 0x05" "plain 0x06" "plain 0x07" "plain 0x08" "plain 0x09" "plain 0x0a"
    "plain 0x0b" "plain 0x10" "plain 0x11" "plain 0x12" "plain 0x13" "plain 0x14" "plain 0x15" "plain 0x16" "plain 0x17" "plain 0x18"
    "plain 0x19" "plain 0x1a" "plain 0x1b" "plain 0x1c" "plain 0x1d" "plain 0x20" "plain 0x30" "plain 0x31" "plain 0x32" "plain 0x33"
    "plain 0x34" "plain 0x35" "plain 0x36" "plain 0x37" "plain 0x38" "plain 0x39" "plain 0x3a" "plain 0x3b" "plain 0x3c" "plain 0x3d"
    "plain 0x3e" "plain 0x40" "plain 0x41" "plain 0x42" "plain 0x43" "plain 0x44" "plain 0x45" "plain 0x50" "plain 0x51" "plain 0x52"
    "plain 0x53" "plain 0x54" "plain 0x55" "plain 0x56" "plain 0x57" "plain 0x58" "plain 0x59" "plain 0x5a" "plain 0x5b" "plain 0xa0"
    "plain 0xa1" "plain 0xa2" "plain 0xa3" "plain 0xa4" "plain 0xf0" "plain 0xf1" "plain 0xf2" "plain 0xf3" "plain 0xf4" "plain 0xfa"
    "plain 0xfb" "plain 0xfd" "plain 0xff"
    by (simp_all add: plain_def is_push_unat)
  note ok = ok_write [OF sch] ok_guarded [OF sch] ok_halt(1) ok_JUMPDEST ok_EXP [OF sch] ok_host_read [OF sch] ok_SSTORE [OF sch]
    ok_PUSH1 [OF sch] ok_jumps [OF sch] ok_memory [OF sch] ok_SHA3 [OF sch] ok_RETURN [OF sch] ok_copy [OF h] ok_SUICIDE [OF sch]
    ok_CREATE ok_CALLs
  have log: "handler_ok x a 0 t op (case_LOG n x)" if "plain op" "unat op = 0xa0 + n" "n \<le> 4" "a = n + 2" for a t op n
    using ok_LOG [OF sch that(1-3)] that(4) by simp
  have logs: "handler_ok x 2 0 t 0xa0 (case_LOG 0 x)" "handler_ok x 3 0 t 0xa1 (case_LOG 1 x)" "handler_ok x 4 0 t 0xa2 (case_LOG 2 x)"
    "handler_ok x 5 0 t 0xa3 (case_LOG 3 x)" "handler_ok x 6 0 t 0xa4 (case_LOG 4 x)" for t
    by (rule log; simp add: pl)+
  show ?thesis
    unfolding jumpTable_list_def
    by (simp add: metrics_simps ok logs pl case_ADD_def case_MUL_def case_SUB_def case_DIV_def case_SDIV_def case_MOD_def
        case_SMOD_def case_ADDMOD_def case_MULMOD_def case_LT_def case_GT_def case_SLT_def case_SGT_def case_EQ_def case_ISZERO_def
        case_AND_def case_OR_def case_XOR_def case_NOT_def case_BYTE_def case_SHL_def case_SHR_def case_SAR_def case_ADDRESS_def
        case_ORIGIN_def case_CALLER_def case_CALLVALUE_def case_CALLDATASIZE_def case_CODESIZE_def case_GASPRICE_def case_COINBASE_def
        case_TIMESTAMP_def case_NUMBER_def case_DIFFICULTY_def case_GASLIMIT_def case_PC_def case_MSIZE_def case_GAS_def
        del: One_nat_def)
qed

lemma jumpTable_ok:
  assumes h: "host_ok x"
  shows "handler_ok x (m_args (c_metrics op)) (m_ret (c_metrics op)) (m_tier (c_metrics op)) op (jumpTable sha3 x op)"
proof -
  have sch: "schedule_ok (evmSchedule x)"
    using h by (simp add: host_ok_def)
  consider (push) "0x61 \<le> op" "op \<le> 0x7f" | (dup) "0x80 \<le> op" "op \<le> 0x8f" | (swap) "0x90 \<le> op" "op \<le> 0x9f"
    | (other) "\<not> (0x61 \<le> op \<and> op \<le> 0x7f)" "\<not> (0x80 \<le> op \<and> op \<le> 0x8f)" "\<not> (0x90 \<le> op \<and> op \<le> 0x9f)"
    by blast
  then show ?thesis
  proof cases
    case push
    then have p: "is_push op"
      by (simp add: is_push_unat word_le_nat_alt)
    show ?thesis
      using push ok_PUSH [OF sch p] by (simp add: jumpTable_def metrics_push [OF p])
  next
    case dup
    then have "plain op" "\<not> op \<le> 0x7f"
      by (auto simp: plain_def is_push_def word_le_nat_alt)
    then show ?thesis
      using dup ok_DUP [OF sch] by (simp add: jumpTable_def metrics_dup)
  next
    case swap
    then have "plain op" "\<not> op \<le> 0x7f" "\<not> op \<le> 0x8f"
      by (auto simp: plain_def is_push_def word_le_nat_alt)
    then show ?thesis
      using swap ok_SWAP [OF sch] by (simp add: jumpTable_def metrics_swap)
  next
    case other
    have j: "jumpTable sha3 x op = (case map_of (jumpTable_list sha3 x) op of Some h \<Rightarrow> h | None \<Rightarrow> case_INVALID)"
      unfolding jumpTable_def if_not_P [OF other(1)] if_not_P [OF other(2)] if_not_P [OF other(3)] by (rule refl)
    show ?thesis
    proof (cases "map_of (jumpTable_list sha3 x) op")
      case None
      then show ?thesis
        by (simp add: j ok_halt(2))
    next
      case (Some h)
      then have "(op, h) \<in> set (jumpTable_list sha3 x)"
        by (rule map_of_SomeD)
      then show ?thesis
        using jumpTable_list_ok [OF h, of sha3] Some by (auto simp: j list_all_iff)
    qed
  qed
qed

lemma wp_vm_step:
  assumes h: "host_ok x" and s: "vm_inv x s"
  shows "wp (vm_step sha3 x) (\<lambda>fl s'. post x s fl s' \<and> m_tier (c_metrics (m_code s ! m_PC s)) \<noteq> Invalid) (step_err s) s"
proof -
  have sch: "schedule_ok (evmSchedule x)"
    using h by (simp add: host_ok_def)
  define defined where "defined \<longleftrightarrow> m_tier (c_metrics (m_code s ! m_PC s)) \<noteq> Invalid"
  have "wp (jumpTable sha3 x (m_OP s')) (\<lambda>fl s'. post x s fl s' \<and> defined) (step_err s) s'"
    if "fetched x (m_args (c_metrics (m_OP s'))) (m_ret (c_metrics (m_OP s'))) (m_tier (c_metrics (m_OP s'))) (m_OP s') s'"
      "m_io_gas s' = m_io_gas s" "m_bounce s' = m_bounce s" "defined" for s'
  proof -
    have "wp (jumpTable sha3 x (m_OP s')) (post x s') (err_ok s') s'"
      using jumpTable_ok [OF h, of "m_OP s'"] that(1) by (simp add: handler_ok_def)
    then show ?thesis
    proof (rule wp_conseq)
      show "post x s a t \<and> defined" if "post x s' a t" for a t
        using that \<open>m_io_gas s' = m_io_gas s\<close> \<open>m_bounce s' = m_bounce s\<close> \<open>defined\<close> by (cases a) auto
    qed (use that in \<open>simp add: err_ok_def step_err_def defined_def\<close>)
  qed
  note h = this
  show ?thesis
    unfolding vm_step_def wp_vdo_Cons vdo.simps(1) wp_vread defined_def [symmetric]
    by (rule wp_conseq [OF wp_fetchInstruction [OF sch s]]) (use h in \<open>auto simp: defined_def\<close>)
qed

section \<open>Termination\<close>

text \<open>The code has an undefined opcode where an instruction starts.\<close>

definition undefined_opcode :: "bytes \<Rightarrow> bool" where
  "undefined_opcode code \<longleftrightarrow> (\<exists>p \<in> instr_starts code. p < length code \<and> m_tier (c_metrics (replace_op (code ! p))) = Invalid)"

definition run_err :: "('e, 's) ExtVMFace \<Rightarrow> 's LegacyVM \<Rightarrow> 'e vm_error \<Rightarrow> 's LegacyVM \<Rightarrow> bool" where
  "run_err x s e s' \<longleftrightarrow> e \<noteq> UndefinedBehaviour \<and> m_io_gas s' \<le> m_io_gas s \<and> (e = TierOutOfRange \<longrightarrow> undefined_opcode (ext_code x))"

lemma step_err_run:
  assumes "vm_inv x s" "step_err s e s'"
  shows "run_err x s e s'"
proof -
  have pc: "m_PC s \<in> instr_starts (ext_code x)" "m_PC s < length (m_code s)" "code_ok x s"
    using assms(1) code_ok_bound [of x s "m_PC s"] by (auto simp: vm_inv_def)
  have "undefined_opcode (ext_code x)" if t: "m_tier (c_metrics (m_code s ! m_PC s)) = Invalid"
  proof (cases "m_PC s < length (ext_code x)")
    case True
    then show ?thesis
      using pc t by (auto simp: code_ok_def undefined_opcode_def)
  next
    case False
    then show ?thesis
      using pc t by (simp add: code_ok_def metrics_simps)
  qed
  then show ?thesis
    using assms(2) by (auto simp: step_err_def run_err_def)
qed

text \<open>The loop returns: every round that goes on has consumed gas.\<close>

lemma interpretCases_returns:
  assumes h: "host_ok x" and s: "vm_inv x s" "m_bounce s = Some InterpretCases"
  shows "\<exists>r s'. interpretCases sha3 x s = Some (r, s') \<and>
    (case r of Inl e \<Rightarrow> run_err x s e s' | Inr _ \<Rightarrow> post x s Return s')"
  using s
proof (induction "m_io_gas s" arbitrary: s rule: less_induct)
  case less
  note st = wp_vm_step [OF h less(2), of sha3]
  obtain r s1 where r: "vm_step sha3 x s = (r, s1)"
    by (cases "vm_step sha3 x s")
  show ?case
  proof (cases r)
    case (Inl e)
    then show ?thesis
      using r wp_error [OF st] step_err_run [OF less(2)] by (subst interpretCases.simps) simp
  next
    case (Inr fl)
    have p: "post x s fl s1"
      using wp_result [OF st] r Inr by simp
    show ?thesis
    proof (cases fl)
      case Return
      then show ?thesis
        using r Inr p by (subst interpretCases.simps) simp
    next
      case Loop
      then have l: "vm_inv x s1" "m_bounce s1 = Some InterpretCases" "m_io_gas s1 < m_io_gas s"
        using p less(3) by auto
      have "interpretCases sha3 x s = interpretCases sha3 x s1"
        using r Inr Loop by (subst interpretCases.simps) simp
      moreover obtain r2 s2 where "interpretCases sha3 x s1 = Some (r2, s2)"
        "case r2 of Inl e \<Rightarrow> run_err x s1 e s2 | Inr _ \<Rightarrow> post x s1 Return s2"
        using less(1) [OF l(3,1,2)] by blast
      ultimately show ?thesis
        using l(3) by (cases r2) (auto simp: run_err_def)
    qed
  qed
qed

text \<open>The function pointer \<open>m_bounce\<close> of a state that the trampoline may reach.\<close>

definition ready :: "('e, 's) ExtVMFace \<Rightarrow> 's LegacyVM \<Rightarrow> bool" where
  "ready x s \<longleftrightarrow> m_bounce s = None \<or> vm_inv x s \<and> m_bounce s = Some InterpretCases \<or> pending x s"

lemma run_bounce_returns:
  assumes h: "host_ok x" and s: "ready x s" "m_bounce s = Some b"
  shows "\<exists>r s'. run_bounce sha3 x b s = Some (r, s') \<and> m_io_gas s' \<le> m_io_gas s \<and>
    (case r of Inl e \<Rightarrow> e \<noteq> UndefinedBehaviour \<and> (e = TierOutOfRange \<longrightarrow> undefined_opcode (ext_code x))
     | Inr _ \<Rightarrow> ready x s' \<and> (b \<noteq> InterpretCases \<longrightarrow> m_io_gas s' < m_io_gas s) \<and> m_bounce s' \<noteq> Some b)"
proof -
  have w: ?thesis if "wp m (call_post x s) (err_ok s) s" "run_bounce sha3 x b s = Some (m s)" "b \<noteq> InterpretCases" for m
  proof (cases "m s")
    case (Pair r s')
    then show ?thesis
      using that wp_result [OF that(1)] wp_error [OF that(1)]
      by (cases r) (auto simp: call_post_def err_ok_def ready_def)
  qed
  consider (cases) "vm_inv x s" "b = InterpretCases" | (calls) "pending x s"
    using s by (auto simp: ready_def)
  then show ?thesis
  proof cases
    case cases
    show ?thesis
      using interpretCases_returns [OF h cases(1), of sha3] s(2) cases(2)
      by (auto simp: run_bounce_def run_err_def ready_def pending_def split: sum.splits)
  next
    case calls
    then show ?thesis
      using w [of "caseCreate x"] w [of "caseCall x"] s(2) wp_caseCreate [OF h] wp_caseCall [OF h]
      by (auto simp: pending_def run_bounce_def)
  qed
qed

lemma trampoline_returns:
  assumes h: "host_ok x" and s: "ready x s"
  shows "\<exists>r s'. trampoline sha3 x s = Some (r, s') \<and> m_io_gas s' \<le> m_io_gas s \<and> r \<noteq> Inl UndefinedBehaviour \<and>
    (r = Inl TierOutOfRange \<longrightarrow> undefined_opcode (ext_code x))"
  using s
proof (induction "2 * m_io_gas s + (if m_bounce s = Some InterpretCases then 1 else 0)" arbitrary: s rule: less_induct)
  case less
  show ?case
  proof (cases "m_bounce s")
    case None
    then show ?thesis
      by (subst trampoline.simps) simp
  next
    case (Some b)
    obtain r s1 where r: "run_bounce sha3 x b s = Some (r, s1)" "m_io_gas s1 \<le> m_io_gas s"
      "case r of Inl e \<Rightarrow> e \<noteq> UndefinedBehaviour \<and> (e = TierOutOfRange \<longrightarrow> undefined_opcode (ext_code x))
       | Inr _ \<Rightarrow> ready x s1 \<and> (b \<noteq> InterpretCases \<longrightarrow> m_io_gas s1 < m_io_gas s) \<and> m_bounce s1 \<noteq> Some b"
      using run_bounce_returns [OF h less(2) Some] by blast
    show ?thesis
    proof (cases r)
      case (Inl e)
      then show ?thesis
        using r Some by (subst trampoline.simps) simp
    next
      case (Inr u)
      have "trampoline sha3 x s = trampoline sha3 x s1"
        using r(1) Some Inr by (subst trampoline.simps) simp
      moreover have "\<exists>r' s'. trampoline sha3 x s1 = Some (r', s') \<and> m_io_gas s' \<le> m_io_gas s1 \<and> r' \<noteq> Inl UndefinedBehaviour \<and>
          (r' = Inl TierOutOfRange \<longrightarrow> undefined_opcode (ext_code x))"
        by (rule less(1)) (use r Inr Some in \<open>auto split: if_splits\<close>)
      ultimately show ?thesis
        using r(2) by fastforce
    qed
  qed
qed

lemma initEntry_inv:
  assumes "m_jumpDests s = []" "m_PC s = 0" "32 dvd length (m_mem s)" "m_SPP s \<le> 1024"
    "m_io_gas s < 2 ^ 64" "length (m_returnData s) < 2 ^ 64"
  obtains s' where "initEntry x s = (Inr (), s')" "vm_inv x s'" "m_bounce s' = Some InterpretCases" "m_io_gas s' = m_io_gas s"
proof -
  let ?s = "s\<lparr>m_bounce := Some InterpretCases\<rparr>"
  have j: "m_jumpDests ?s = []"
    using assms(1) by simp
  obtain mc jds where o: "optimize x ?s = (Inr (), ?s\<lparr>m_code := mc, m_jumpDests := jds\<rparr>)"
    "length mc = length (ext_code x) + 33" "\<And>i. length (ext_code x) \<le> i \<Longrightarrow> i < length mc \<Longrightarrow> mc ! i = 0"
    "\<And>p. p \<in> instr_starts (ext_code x) \<Longrightarrow> p < length (ext_code x) \<Longrightarrow> mc ! p = replace_op (ext_code x ! p)"
    "set jds = jump_targets (ext_code x)" "sorted jds"
    by (rule optimize_spec [OF j, of x]) blast
  let ?t = "?s\<lparr>m_code := mc, m_jumpDests := jds\<rparr>"
  have "initEntry x s = (Inr (), ?t)"
    using o(1) by (simp add: initEntry_def vdo.simps vbind_def vmodify_def)
  moreover have "vm_inv x ?t"
    using assms o(2-) by (auto simp: vm_inv_def code_ok_def start_zero)
  ultimately show ?thesis
    by (rule that) simp_all
qed

section \<open>Whole runs\<close>

lemma exec_returns:
  assumes "host_ok x"
  obtains r g e' where "exec sha3 x io_gas e = Some (r, g, e')" "unat g \<le> u64 (unat io_gas)" "r \<noteq> Inl UndefinedBehaviour"
    "r = Inl TierOutOfRange \<longrightarrow> undefined_opcode (ext_code x)"
proof -
  let ?s = "(LegacyVM_new e)\<lparr>m_io_gas_p := io_gas, m_io_gas := u64 (unat io_gas), m_PC := 0, m_bounce := Some InitEntry\<rparr>"
  obtain s' where i: "initEntry x ?s = (Inr (), s')" "vm_inv x s'" "m_bounce s' = Some InterpretCases" "m_io_gas s' = m_io_gas ?s"
    by (rule initEntry_inv [of ?s x]) (auto simp: LegacyVM_new_def u64_def)
  then have s': "ready x s'" "m_io_gas s' = u64 (unat io_gas)"
    by (simp_all add: ready_def)
  have t0: "trampoline sha3 x ?s = trampoline sha3 x s'"
    using i(1) by (subst trampoline.simps) (simp add: run_bounce_def)
  obtain r t where t: "trampoline sha3 x s' = Some (r, t)" "m_io_gas t \<le> u64 (unat io_gas)" "r \<noteq> Inl UndefinedBehaviour"
    "r = Inl TierOutOfRange \<longrightarrow> undefined_opcode (ext_code x)"
    using trampoline_returns [OF assms s'(1), of sha3] s'(2) by auto
  have "m_io_gas t < 2 ^ 64"
    using t(2) by (rule order.strict_trans1) (simp add: u64_def)
  then have "unat (of_nat (m_io_gas t) :: u256) = m_io_gas t"
    by (simp add: unat_of_nat)
  then show ?thesis
    using t t0 by (cases r) (auto simp: exec_def intro!: that)
qed

text \<open>(C7) One round of the loop, from any state that satisfies the invariant \<open>vm_inv\<close> (the program counter is at the start of an instruction, the stack
  pointer inside the stack, the memory a whole number of words, the code copied and its jump destinations sorted): when the loop goes on, the
  invariant holds again and gas has been consumed; when it is left, the interpreter has either stopped or is about to
  make the call or the creation of the instruction it is at; whatever the exception, no access to stack, memory or code is out of bounds. The price of the instruction is read out of the bounds of
  \<open>tierStepGas\<close> exactly if its opcode is undefined.
\<close>

theorem vm_step_keeps_invariant:
  assumes "host_ok x" "vm_inv x s"
  shows "(case vm_step sha3 x s of
      (Inr Loop, s') \<Rightarrow> vm_inv x s' \<and> m_io_gas s' < m_io_gas s \<and> m_bounce s' = m_bounce s
    | (Inr Return, s') \<Rightarrow> m_io_gas s' \<le> m_io_gas s \<and> (m_bounce s' = None \<or> pending x s')
    | (Inl e, s') \<Rightarrow> m_io_gas s' \<le> m_io_gas s \<and> e \<noteq> UndefinedBehaviour) \<and>
    (fst (vm_step sha3 x s) = Inl TierOutOfRange \<longleftrightarrow> m_tier (c_metrics (m_code s ! m_PC s)) = Invalid)"
proof (cases "vm_step sha3 x s")
  case (Pair r s')
  note w = wp_vm_step [OF assms, of sha3]
  show ?thesis
  proof (cases r)
    case (Inl e)
    then show ?thesis
      using wp_error [OF w] Pair by (simp add: step_err_def)
  next
    case (Inr fl)
    then show ?thesis
      using wp_result [OF w] Pair by (cases fl) auto
  qed
qed

text \<open>(C6) \<open>exec\<close> returns for every code, every amount of gas and every environment that gives back at most the gas of a call: it ends with an
  output or with one of its exceptions, never by an access outside of its stack, memory or code, and it leaves
  no more gas than it was given (of which the interpreter keeps the low 64 bits). The read of \<open>tierStepGas\<close> behind the end of the array happens at most for code with
  an undefined opcode where an instruction starts.
\<close>

theorem exec_total:
  assumes "host_ok x"
  shows "\<exists>r g e'. exec sha3 x io_gas e = Some (r, g, e') \<and> unat g \<le> u64 (unat io_gas) \<and> r \<noteq> Inl UndefinedBehaviour \<and>
    (r = Inl TierOutOfRange \<longrightarrow> undefined_opcode (ext_code x))"
  using exec_returns [OF assms] by metis

section \<open>A concrete environment\<close>

text \<open>An account without storage, balance or calls, which runs \<open>code\<close> under the rules of Byzantium.\<close>

definition bare_env :: EnvInfo where
  "bare_env = \<lparr>env_number = 1, env_author = 0, env_timestamp = 0, env_difficulty = 0, env_gasLimit = 0\<rparr>"

definition bare_host :: "bytes \<Rightarrow> (unit, unit) ExtVMFace" where
  "bare_host c = \<lparr>myAddress = 1, caller = 2, origin = 3, ext_value = 0, ext_gasPrice = 0, ext_data = [], ext_code = c,
     ext_depth = 0, staticCall = False, envInfo = bare_env, evmSchedule = ByzantiumSchedule,
     ext_store = (\<lambda>_ e. (Inr 0, e)), ext_setStore = (\<lambda>_ _ e. (Inr (), e)), ext_balance = (\<lambda>_ e. (Inr 0, e)),
     ext_codeAt = (\<lambda>_ e. (Inr [], e)), ext_codeSizeAt = (\<lambda>_ e. (Inr 0, e)), ext_exists = (\<lambda>_ e. (Inr False, e)),
     ext_suicide = (\<lambda>_ e. (Inr (), e)),
     ext_create = (\<lambda>_ g _ _ _ e. (Inr (\<lparr>ct_status = EVMC_FAILURE, ct_output = [], ct_address = 0\<rparr>, 0), e)),
     ext_call = (\<lambda>_ e. (Inr (\<lparr>cr_status = EVMC_FAILURE, cr_output = []\<rparr>, 0), e)),
     ext_blockHash = (\<lambda>_ e. (Inr 0, e))\<rparr>"

lemma bare_host_ok: "length c < 2 ^ 64 \<Longrightarrow> host_ok (bare_host c)"
  using schedule_ok_schedules by (simp add: host_ok_def bare_host_def schedules_def)

definition bare_ext :: "unit ext" where
  "bare_ext = \<lparr>sub = SubState_new, world = ()\<rparr>"

text \<open>The state in which the code \<open>CALLER ISZERO PUSH1 5 JUMPI JUMPDEST\<close> starts.\<close>

theorem vm_step_keeps_invariant_witness:
  "case vm_step (\<lambda>_. 0) (bare_host [0x33, 0x15, 0x60, 5, 0x57, 0x5b])
      (snd (initEntry (bare_host [0x33, 0x15, 0x60, 5, 0x57, 0x5b]) ((LegacyVM_new bare_ext)\<lparr>m_io_gas := 50\<rparr>))) of
      (Inr Loop, s') \<Rightarrow> vm_inv (bare_host [0x33, 0x15, 0x60, 5, 0x57, 0x5b]) s' \<and> m_io_gas s' < 50 \<and> m_bounce s' = Some InterpretCases
    | (Inr Return, s') \<Rightarrow> m_io_gas s' \<le> 50 \<and> (m_bounce s' = None \<or> pending (bare_host [0x33, 0x15, 0x60, 5, 0x57, 0x5b]) s')
    | (Inl e, s') \<Rightarrow> m_io_gas s' \<le> 50 \<and> e \<noteq> UndefinedBehaviour"
proof -
  let ?x = "bare_host [0x33, 0x15, 0x60, 5, 0x57, 0x5b]"
  obtain s where s: "initEntry ?x ((LegacyVM_new bare_ext)\<lparr>m_io_gas := 50\<rparr>) = (Inr () :: unit vm_error + unit, s)" "vm_inv ?x s"
    "m_bounce s = Some InterpretCases" "m_io_gas s = 50"
    by (rule initEntry_inv [of "(LegacyVM_new bare_ext)\<lparr>m_io_gas := 50\<rparr>" ?x]) (auto simp: LegacyVM_new_def)
  have "host_ok ?x"
    by (rule bare_host_ok) simp
  from vm_step_keeps_invariant [OF this s(2), of "\<lambda>_. 0"] show ?thesis
    unfolding s(1) snd_conv s(3,4) by (rule conjunct1)
qed

text \<open>The code \<open>JUMPDEST PUSH1 0 JUMP\<close>, which loops until its gas is spent.\<close>

theorem exec_total_witness:
  "\<exists>r g e'. exec (\<lambda>_. 0) (bare_host [0x5b, 0x60, 0, 0x56]) 100000 bare_ext = Some (r, g, e') \<and>
     unat g \<le> u64 (unat (100000 :: u256)) \<and> r \<noteq> Inl UndefinedBehaviour"
  using exec_total [OF bare_host_ok, of "[0x5b, 0x60, 0, 0x56]" "\<lambda>_. 0" 100000 bare_ext] by auto

end
