(* ===== verification/LegacyVMFrame.thy ===== *)
theory LegacyVMFrame
  imports LegacyVMRun
begin

text \<open>
  What a run of the interpreter does to its environment: a property of the environment that the operations of \<open>ExtVMFace\<close> keep is kept by
  \<open>exec\<close>. In a static call only the reading operations and static calls without transfer are used.
\<close>

section \<open>Properties of the environment\<close>

text \<open>
  An operation keeps the property \<open>P\<close>, or throws an exception such that \<open>E\<close> holds of the exception and the environment at that moment.
\<close>

definition hkeeps :: "('s ext \<Rightarrow> bool) \<Rightarrow> ('e \<Rightarrow> 's ext \<Rightarrow> bool) \<Rightarrow> ('e, 's, 'a) hop \<Rightarrow> bool" where
  "hkeeps P E h \<longleftrightarrow> (\<forall>e. P e \<longrightarrow> (case h e of (Inr _, e') \<Rightarrow> P e' | (Inl z, e') \<Rightarrow> E z e'))"

text \<open>The calls that the interpreter makes, below the limit of the depth: in a static call they are static, and move no value to another account.\<close>

definition call_allowed :: "('e, 's) ExtVMFace \<Rightarrow> CallParameters \<Rightarrow> bool" where
  "call_allowed x p \<longleftrightarrow> ext_depth x < 1024 \<and> (staticCall x \<longrightarrow> call_static p \<and> (valueTransfer p = 0 \<or> senderAddress p = receiveAddress p))"

definition host_reads :: "('s ext \<Rightarrow> bool) \<Rightarrow> ('e \<Rightarrow> 's ext \<Rightarrow> bool) \<Rightarrow> ('e, 's) ExtVMFace \<Rightarrow> bool" where
  "host_reads P E x \<longleftrightarrow> (\<forall>k. hkeeps P E (ext_store x k)) \<and> (\<forall>a. hkeeps P E (ext_balance x a)) \<and> (\<forall>a. hkeeps P E (ext_codeAt x a)) \<and>
     (\<forall>a. hkeeps P E (ext_codeSizeAt x a)) \<and> (\<forall>a. hkeeps P E (ext_exists x a)) \<and> (\<forall>n. hkeeps P E (ext_blockHash x n)) \<and>
     (\<forall>p. call_allowed x p \<longrightarrow> hkeeps P E (ext_call x p))"

definition host_writes :: "('s ext \<Rightarrow> bool) \<Rightarrow> ('e \<Rightarrow> 's ext \<Rightarrow> bool) \<Rightarrow> ('e, 's) ExtVMFace \<Rightarrow> bool" where
  "host_writes P E x \<longleftrightarrow> (\<forall>k v. hkeeps P E (ext_setStore x k v)) \<and> (\<forall>a. hkeeps P E (ext_suicide x a)) \<and>
     (\<forall>ts bs. hkeeps P E (ext_log x ts bs)) \<and>
     (\<forall>e n. P e \<longrightarrow> P (e\<lparr>sub := (sub e)\<lparr>refunds := n\<rparr>\<rparr>))"

text \<open>\<open>CREATE2\<close> is not refused in a static call.\<close>

definition may_create :: "('e, 's) ExtVMFace \<Rightarrow> bool" where
  "may_create x \<longleftrightarrow> haveCreate2 (evmSchedule x) \<or> \<not> staticCall x"

definition host_keeps :: "('s ext \<Rightarrow> bool) \<Rightarrow> ('e \<Rightarrow> 's ext \<Rightarrow> bool) \<Rightarrow> ('e, 's) ExtVMFace \<Rightarrow> bool" where
  "host_keeps P E x \<longleftrightarrow> host_reads P E x \<and> (staticCall x \<or> host_writes P E x) \<and>
     (may_create x \<and> ext_depth x < 1024 \<longrightarrow> (\<forall>v g ic op salt. hkeeps P E (ext_create x v g ic op salt)))"

section \<open>Bodies that keep a property\<close>

text \<open>A state with the property \<open>P\<close> in which no call or creation is pending.\<close>

definition calm :: "('s ext \<Rightarrow> bool) \<Rightarrow> 's LegacyVM \<Rightarrow> bool" where
  "calm P s \<longleftrightarrow> P (m_ext s) \<and> (m_bounce s = None \<or> m_bounce s = Some InterpretCases)"

definition err_post :: "('s LegacyVM \<Rightarrow> bool) \<Rightarrow> ('e \<Rightarrow> 's ext \<Rightarrow> bool) \<Rightarrow> 'e vm_error \<Rightarrow> 's LegacyVM \<Rightarrow> bool" where
  "err_post Q E e s \<longleftrightarrow> (case e of External z \<Rightarrow> E z (m_ext s) | _ \<Rightarrow> Q s)"

definition good :: "('s ext \<Rightarrow> bool) \<Rightarrow> ('e \<Rightarrow> 's ext \<Rightarrow> bool) \<Rightarrow> ('e vm_error + 'a) \<times> 's LegacyVM \<Rightarrow> bool" where
  "good P E q \<longleftrightarrow> (case q of (Inr _, s) \<Rightarrow> calm P s | (Inl e, s) \<Rightarrow> err_post (calm P) E e s)"

definition keeps :: "('s ext \<Rightarrow> bool) \<Rightarrow> ('e \<Rightarrow> 's ext \<Rightarrow> bool) \<Rightarrow> ('e, 's, 'a) vmop \<Rightarrow> bool" where
  "keeps P E m \<longleftrightarrow> (\<forall>s. calm P s \<longrightarrow> good P E (m s))"

text \<open>The exceptions that the interpreter throws itself.\<close>

definition own_error :: "'e vm_error \<Rightarrow> bool" where
  "own_error e \<longleftrightarrow> (\<forall>z. e \<noteq> External z)"

lemma err_post_simps [simp]: "err_post Q E (External z) s = E z (m_ext s)" "own_error e \<Longrightarrow> err_post Q E e s = Q s"
  by (auto simp: err_post_def own_error_def split: vm_error.splits)

lemma err_post_mono: "err_post Q E e s \<Longrightarrow> (Q s \<Longrightarrow> R s) \<Longrightarrow> err_post R E e s"
  by (cases e) (simp_all add: err_post_def)

lemma good_simps [simp]: "good P E (Inr a, s) = calm P s" "good P E (Inl e, s) = err_post (calm P) E e s"
  by (simp_all add: good_def)

lemma own_error_simps [simp]: "own_error BadInstruction" "own_error BadJumpDestination" "own_error OutOfGas" "own_error OutOfStack" "own_error StackUnderflow"
  "own_error DisallowedStateChange" "own_error BufferOverrun" "own_error (RevertInstruction bs)" "own_error UndefinedBehaviour" "own_error TierOutOfRange"
  by (simp_all add: own_error_def)

definition own_result :: "'e vm_error + 'a \<Rightarrow> bool" where
  "own_result r \<longleftrightarrow> (\<forall>e. r = Inl e \<longrightarrow> own_error e)"

lemma own_result_simps [simp]:
  "own_result (Inr a)" "own_result (toInt63 n)" "own_result (memNeed o1 o2)" "own_result (verifyJumpDest jds d t)" "own_result (code_at s)"
  "own_result (gasForMem sch n)" "own_result (word_need n s)"
  by (auto simp: own_result_def toInt63_def memNeed_def verifyJumpDest_def code_at_def gasForMem_def word_need_def Let_def)

named_theorems keep_rules

lemma keeps_vret [keep_rules]: "keeps P E (vret a)"
  by (simp add: keeps_def vret_def)

lemma keeps_vthrow [keep_rules]: "own_error e \<Longrightarrow> keeps P E (vthrow e)"
  by (simp add: keeps_def vthrow_def)

lemma vbind_run: "m s = (Inr a, s1) \<Longrightarrow> vbind m f s = f a s1" "m s = (Inl e, s1) \<Longrightarrow> vbind m f s = (Inl e, s1)"
  by (simp_all add: vbind_def)

lemma keeps_vbind [keep_rules]: "keeps P E m \<Longrightarrow> (\<And>a. keeps P E (f a)) \<Longrightarrow> keeps P E (vbind m f)"
  unfolding keeps_def by (intro allI impI) (fastforce simp: vbind_def split: sum.splits prod.splits)

lemma keeps_vdo_Nil [keep_rules]: "keeps P E k \<Longrightarrow> keeps P E (vdo [] k)"
  by simp

lemma keeps_vdo_Cons [keep_rules]: "keeps P E m \<Longrightarrow> keeps P E (vdo ms k) \<Longrightarrow> keeps P E (vdo (m # ms) k)"
  unfolding vdo.simps by (rule keeps_vbind)

lemma keeps_vread [keep_rules]: "(\<And>s. keeps P E (f s)) \<Longrightarrow> keeps P E (vread f)"
  by (simp add: keeps_def vread_def)

lemma keeps_veval [keep_rules]: "(\<And>s. own_result (f s)) \<Longrightarrow> keeps P E (veval f)"
  by (auto simp: keeps_def veval_def good_def own_result_def split: sum.splits)

lemma keeps_vmodify [keep_rules]: "(\<And>s. m_ext (f s) = m_ext s \<and> (m_bounce (f s) = m_bounce s \<or> m_bounce (f s) = None)) \<Longrightarrow> keeps P E (vmodify f)"
  by (force simp: keeps_def vmodify_def calm_def)

lemma keeps_vif [keep_rules]: "keeps P E m \<Longrightarrow> keeps P E n \<Longrightarrow> keeps P E (vif c m n)"
  by (simp add: keeps_def vif_def)

lemma keeps_if [keep_rules]: "(c \<Longrightarrow> keeps P E m) \<Longrightarrow> (\<not> c \<Longrightarrow> keeps P E n) \<Longrightarrow> keeps P E (if c then m else n)"
  by simp

lemma keeps_throw_if [keep_rules]: "own_error e \<Longrightarrow> keeps P E (throw_if c e)"
  by (simp add: keeps_def throw_if_def)

lemma keeps_ext_do [keep_rules]: "hkeeps P E h \<Longrightarrow> keeps P E (ext_do h)"
  unfolding keeps_def hkeeps_def
  by (intro allI impI) (auto simp: ext_do_def calm_def split: sum.splits prod.splits)

lemma keeps_steps [keep_rules]:
  "keeps P E NEXT" "keeps P E CONTINUE" "keeps P E BREAK" "keeps P E updateIOGas" "keeps P E (mem_read a n)" "keeps P E (mem_write a bs)"
  "keeps P E (adjustStack r d)"
  by (auto simp: keeps_def calm_def throwBadStack_def NEXT_def CONTINUE_def BREAK_def vret_def updateIOGas_def mem_read_def mem_write_def adjustStack_def Let_def)

lemma keeps_helpers [keep_rules]:
  "keeps P E (reads n)" "keeps P E (setSPP e)" "keeps P E (setSP i e)" "keeps P E (set_runGas g)" "keeps P E (add_runGas k)" "keeps P E inc_PC"
  "(\<And>s. own_result (f s)) \<Longrightarrow> keeps P E (updateMem x f)" "keeps P E move_mem" "keeps P E (set_copyMemSize i)" "keeps P E (jump_to i)"
  "keeps P E (copyDataToMemory bs a b' c)" "keeps P E (fetchInstruction x)" "keeps P E (logGasMem x)"
  unfolding reads_def setSPP_def setSP_def set_slot_def set_runGas_def add_runGas_def inc_PC_def updateMem_def updateGas_def move_mem_def
    set_copyMemSize_def jump_to_def copyDataToMemory_def fetchInstruction_def logGasMem_def Let_def
  by (intro keep_rules; simp)+

lemma keeps_push_loop [keep_rules]: "keeps P E (push_loop n)"
  by (induction n) (auto simp: push_loop.simps intro!: keep_rules)


section \<open>The instructions\<close>

lemma keeps_guard: "own_error e \<Longrightarrow> (\<not> c \<Longrightarrow> keeps P E (vdo ms k)) \<Longrightarrow> keeps P E (vdo (throw_if (\<lambda>s. c) e # ms) k)"
  by (cases c) (auto simp: keeps_def vdo.simps vbind_def throw_if_def)

lemma keeps_plain [keep_rules]:
  "keeps P E (op1 f1)" "keeps P E (op2 f2)" "keeps P E (op3 f3)" "keeps P E (push_value v)" "keeps P E case_SIGNEXTEND" "keeps P E (case_CALLDATALOAD x)"
  "keeps P E case_POP" "keeps P E case_PUSH1" "keeps P E case_PUSH" "keeps P E case_DUP" "keeps P E case_SWAP" "keeps P E case_JUMP" "keeps P E case_JUMPI"
  "keeps P E case_JUMPDEST" "keeps P E case_INVALID" "keeps P E case_STOP" "keeps P E (case_EXP x)"
  "keeps P E (case_MLOAD x)" "keeps P E (case_MSTORE x)" "keeps P E (case_MSTORE8 x)" "keeps P E (case_SHA3 sha3 x)" "keeps P E (case_RETURN x)"
  "keeps P E (case_REVERT x)" "keeps P E (case_CALLDATACOPY x)" "keeps P E (case_CODECOPY x)" "keeps P E (case_RETURNDATACOPY x)"
  "keeps P E (shift_op f2 x)" "keeps P E (case_RETURNDATASIZE x)"
  unfolding op1_def op2_def op3_def push_value_def case_SIGNEXTEND_def case_CALLDATALOAD_def case_POP_def case_PUSH1_def case_PUSH_def
    case_DUP_def case_SWAP_def case_JUMP_def case_JUMPI_def case_JUMPDEST_def case_INVALID_def case_STOP_def case_EXP_def case_MLOAD_def
    case_MSTORE_def case_MSTORE8_def case_SHA3_def case_RETURN_def case_REVERT_def case_CALLDATACOPY_def case_CODECOPY_def
    case_RETURNDATACOPY_def shift_op_def case_RETURNDATASIZE_def Let_def
  by (intro keep_rules; simp)+

lemma keeps_reading:
  assumes "host_reads P E x"
  shows "keeps P E (case_BALANCE x)" "keeps P E (case_EXTCODESIZE x)" "keeps P E (case_EXTCODECOPY x)" "keeps P E (case_BLOCKHASH x)"
    "keeps P E (case_SLOAD x)"
  using assms unfolding case_BALANCE_def case_EXTCODESIZE_def case_EXTCODECOPY_def case_BLOCKHASH_def case_SLOAD_def host_reads_def
  by (intro keep_rules; simp)+

lemma keeps_writing:
  assumes "host_keeps P E x"
  shows "keeps P E (case_SSTORE x)" "keeps P E (case_LOG n x)" "keeps P E (case_SUICIDE x)"
proof -
  have r: "hkeeps P E (ext_store x k)" "hkeeps P E (ext_balance x a)" "hkeeps P E (ext_exists x a)" for k a
    using assms by (simp_all add: host_keeps_def host_reads_def)
  have w: "hkeeps P E (ext_setStore x k v)" "hkeeps P E (ext_suicide x a)" "hkeeps P E (ext_log x ts bs)" "keeps P E (add_refund i)"
    if "\<not> staticCall x" for k v a ts bs i
    using assms that by (auto simp: host_keeps_def host_writes_def keeps_def calm_def add_refund_def vmodify_def)
  show "keeps P E (case_SSTORE x)" "keeps P E (case_LOG n x)" "keeps P E (case_SUICIDE x)"
    unfolding case_SSTORE_def case_LOG_def case_SUICIDE_def updateSSGas_def Let_def
    by (rule keeps_guard, simp, (intro keep_rules r w; simp))+
qed

section \<open>Calls\<close>

text \<open>A state that \<open>exec\<close> reaches between two rounds of its trampoline.\<close>

definition frame_ok :: "('s ext \<Rightarrow> bool) \<Rightarrow> ('e, 's) ExtVMFace \<Rightarrow> 's LegacyVM \<Rightarrow> bool" where
  "frame_ok P x s \<longleftrightarrow> P (m_ext s) \<and> (m_bounce s = Some CaseCreate \<longrightarrow> may_create x) \<and>
     (m_bounce s = Some CaseCall \<longrightarrow> staticCall x \<longrightarrow> m_OP s = 0xf1 \<longrightarrow> SP s 2 = 0)"

lemma frame_okD: "frame_ok P x s \<Longrightarrow> P (m_ext s)"
  by (simp add: frame_ok_def)

lemma frame_ok_calm: "calm P s \<Longrightarrow> frame_ok P x s"
  by (auto simp: calm_def frame_ok_def)

text \<open>A body of the loop: it goes on only when nothing is pending.\<close>

definition frame_good ::
  "('s ext \<Rightarrow> bool) \<Rightarrow> ('e \<Rightarrow> 's ext \<Rightarrow> bool) \<Rightarrow> ('e, 's) ExtVMFace \<Rightarrow> ('e vm_error + 'a) \<times> 's LegacyVM \<Rightarrow> bool"
where
  "frame_good P E x q \<longleftrightarrow> (case q of (Inr _, s) \<Rightarrow> frame_ok P x s | (Inl e, s) \<Rightarrow> err_post (frame_ok P x) E e s)"

lemma frame_good_simps [simp]:
  "frame_good P E x (Inr a, s) = frame_ok P x s" "frame_good P E x (Inl e, s) = err_post (frame_ok P x) E e s"
  by (simp_all add: frame_good_def)

lemma good_frame: "good P E q \<Longrightarrow> frame_good P E x q"
  by (cases q; cases "fst q") (auto simp: frame_ok_calm elim!: err_post_mono)

definition frames :: "('s ext \<Rightarrow> bool) \<Rightarrow> ('e \<Rightarrow> 's ext \<Rightarrow> bool) \<Rightarrow> ('e, 's) ExtVMFace \<Rightarrow> ('e, 's, flow) vmop \<Rightarrow> bool" where
  "frames P E x m \<longleftrightarrow> (\<forall>s. calm P s \<longrightarrow> (if fst (m s) = Inr Loop then calm P (snd (m s)) else frame_good P E x (m s)))"

lemma frames_keeps: "keeps P E m \<Longrightarrow> frames P E x m"
  unfolding frames_def keeps_def by (metis good_frame good_simps(1) prod.collapse)

lemma frames_calls: "frames P E x (case_CREATE x)" "frames P E x (case_CREATE2 x)" "frames P E x (case_CALLs x)"
  by (auto simp: frames_def frame_ok_def calm_def may_create_def case_CREATE_def case_CREATE2_def case_CALLs_def vdo.simps vbind_def throw_if_def
      bounce_to_def vmodify_def BREAK_def vret_def vif_def reads_def SP_def)

lemma frames_jumpTable:
  assumes "host_keeps P E x"
  shows "frames P E x (jumpTable sha3 x op)"
proof -
  have r: "host_reads P E x"
    using assms by (simp add: host_keeps_def)
  have "list_all (\<lambda>(op, h). frames P E x h) (jumpTable_list sha3 x)"
    unfolding jumpTable_list_def
    by (simp add: frames_calls frames_keeps keep_rules keeps_reading [OF r] keeps_writing [OF assms] case_ADD_def case_MUL_def case_SUB_def
        case_DIV_def case_SDIV_def case_MOD_def case_SMOD_def case_ADDMOD_def case_MULMOD_def case_LT_def case_GT_def case_SLT_def case_SGT_def
        case_EQ_def case_ISZERO_def case_AND_def case_OR_def case_XOR_def case_NOT_def case_BYTE_def case_SHL_def case_SHR_def case_SAR_def
        case_ADDRESS_def case_ORIGIN_def case_CALLER_def case_CALLVALUE_def case_CALLDATASIZE_def case_CODESIZE_def case_GASPRICE_def
        case_COINBASE_def case_TIMESTAMP_def case_NUMBER_def case_DIFFICULTY_def case_GASLIMIT_def case_PC_def case_MSIZE_def case_GAS_def)
  then show ?thesis
    by (auto simp: jumpTable_def keep_rules frames_keeps list_all_iff dest!: map_of_SomeD split: option.split)
qed

lemma frames_vm_step:
  assumes "host_keeps P E x"
  shows "frames P E x (vm_step sha3 x)"
proof -
  have "if fst (vm_step sha3 x s) = Inr Loop then calm P (snd (vm_step sha3 x s)) else frame_good P E x (vm_step sha3 x s)" if s: "calm P s" for s
  proof (cases "fetchInstruction x s")
    case (Pair r s1)
    have c: "good P E (r, s1)"
      using keeps_helpers(12) [of P E x] s Pair by (force simp: keeps_def)
    show ?thesis
    proof (cases r)
      case (Inl e)
      then show ?thesis
        using Pair good_frame [OF c, of x] by (simp add: vm_step_def vdo.simps vbind_def)
    next
      case (Inr u)
      then have "calm P s1"
        using c by simp
      moreover from Inr have "vm_step sha3 x s = jumpTable sha3 x (m_OP s1) s1"
        using Pair by (simp add: vm_step_def vdo.simps vbind_def vread_def)
      ultimately show ?thesis
        using frames_jumpTable [OF assms, of sha3 "m_OP s1"] by (simp add: frames_def)
    qed
  qed
  then show ?thesis
    by (simp add: frames_def)
qed

text \<open>\<open>caseCreate\<close> and \<open>caseCall\<close> start by going back to \<open>interpretCases\<close>.\<close>

lemma bounce_back:
  assumes "keeps P E (vdo ms k)" "P (m_ext s)"
  shows "good P E (vdo (bounce_to InterpretCases # ms) k s)"
  using assms by (simp add: keeps_def calm_def vdo.simps(2) vbind_def bounce_to_def vmodify_def)

lemma caseCreate_good:
  assumes h: "host_keeps P E x" "may_create x" and s: "P (m_ext s)"
  shows "good P E (caseCreate x s)"
proof -
  have "hkeeps P E (ext_balance x a)" "ext_depth x < 1024 \<Longrightarrow> hkeeps P E (ext_create x v g ic op salt)" for a v g ic op salt
    using h by (simp_all add: host_keeps_def host_reads_def)
  then show ?thesis
    unfolding caseCreate_def create_out_def Let_def by (intro bounce_back keep_rules s; simp)
qed

text \<open>The parameters of a call are those that \<open>call_allowed\<close> describes.\<close>

definition yields :: "('a \<Rightarrow> bool) \<Rightarrow> ('e, 's, 'a) vmop \<Rightarrow> bool" where
  "yields Q m \<longleftrightarrow> (\<forall>s a s'. m s = (Inr a, s') \<longrightarrow> Q a)"

lemma yields_rules:
  "Q a \<Longrightarrow> yields Q (vret a)"
  "(\<And>b. yields Q (f b)) \<Longrightarrow> yields Q (vbind m f)"
  "yields Q k \<Longrightarrow> yields Q (vdo [] k)"
  "yields Q (vdo ms k) \<Longrightarrow> yields Q (vdo (n # ms) k)"
  "(c \<Longrightarrow> yields Q k) \<Longrightarrow> (\<not> c \<Longrightarrow> yields Q l) \<Longrightarrow> yields Q (if c then k else l)"
  by (auto simp: yields_def vret_def vbind_def vdo.simps split: sum.splits prod.splits)

lemma vread_yields: "vread f s = (Inr a, s') \<Longrightarrow> yields Q (f s) \<Longrightarrow> Q a"
  by (auto simp: yields_def vread_def)

lemma call_params_allowed:
  assumes "staticCall x \<Longrightarrow> op = 0xf1 \<Longrightarrow> v = 0" "ext_depth x < 1024"
  shows "call_allowed x ((call_params x op d v g)\<lparr>senderAddress := (if op = 0xf4 then caller x else myAddress x),
    receiveAddress := (if op = 0xf1 \<or> op = 0xfa then d else myAddress x), call_data := bs\<rparr>)"
  using assms by (auto simp: call_allowed_def call_params_def CallParameters_init_def Let_def)

lemma caseCallSetup_allowed:
  assumes c: "caseCallSetup x s = (Inr po, s')" and s: "staticCall x \<Longrightarrow> m_OP s = 0xf1 \<Longrightarrow> SP s 2 = 0"
  shows "snd po = None \<or> call_allowed x (fst po)"
  using c unfolding caseCallSetup_def
  by (rule vread_yields) (unfold Let_def, intro yields_rules; unfold fst_conv snd_conv, blast intro: call_params_allowed s)

lemma keeps_caseCallSetup: "host_reads P E x \<Longrightarrow> keeps P E (caseCallSetup x)"
  unfolding caseCallSetup_def call_charge_def call_allowance_def Let_def
  by (intro keep_rules; simp add: host_reads_def)

lemma keeps_call_out: "hkeeps P E (ext_call x p) \<Longrightarrow> keeps P E (call_out x p oo os)"
  unfolding call_out_def by (intro keep_rules; simp)

lemma vdo_run: "m s = (Inr (), s1) \<Longrightarrow> vdo (m # ms) k s = vdo ms k s1"
  by (simp add: vbind_def vdo.simps(2))

lemma caseCall_good:
  assumes h: "host_keeps P E x" and s: "P (m_ext s)" "staticCall x \<Longrightarrow> m_OP s = 0xf1 \<Longrightarrow> SP s 2 = 0"
  shows "good P E (caseCall x s)"
proof -
  have r: "host_reads P E x"
    using h by (simp add: host_keeps_def)
  let ?s = "s\<lparr>m_bounce := Some InterpretCases, m_returnData := []\<rparr>"
  define out where "out po = (case snd po of
      Some (outOff, outSize) \<Rightarrow> call_out x (fst po) outOff outSize
    | None \<Rightarrow> vdo [setSPP (\<lambda>_. 0)] (vret (call_gas (fst po))))" for po
  define gas :: "u256 \<Rightarrow> ('b, 'a, unit) vmop" where "gas g = vmodify (\<lambda>s. s\<lparr>m_io_gas := u64 (m_io_gas s + u64 (unat g))\<rparr>)" for g
  define rest where "rest = vbind (caseCallSetup x) (\<lambda>po. vbind (out po) gas)"
  have c: "caseCall x s = vdo [rest] inc_PC ?s"
    unfolding caseCall_def out_def gas_def rest_def
    by (subst vdo_run [of _ _ "s\<lparr>m_bounce := Some InterpretCases\<rparr>"], simp add: bounce_to_def vmodify_def,
        subst vdo_run [of _ _ ?s], simp add: vmodify_def, rule refl)
  obtain q s1 where q: "caseCallSetup x ?s = (q, s1)"
    by (cases "caseCallSetup x ?s")
  have cs: "calm P ?s"
    using s(1) by (simp add: calm_def)
  then have c1: "good P E (q, s1)"
    using keeps_caseCallSetup [OF r] q by (force simp: keeps_def)
  have "good P E (rest ?s)"
  proof (cases q)
    case (Inl e)
    then show ?thesis
      using c1 q by (simp add: rest_def vbind_def)
  next
    case (Inr po)
    have "snd po = None \<or> call_allowed x (fst po)"
      using caseCallSetup_allowed [OF q [unfolded Inr]] s(2) by (simp add: SP_def)
    then have "keeps P E (out po)"
      using r unfolding out_def by (cases "snd po") (simp_all add: keep_rules host_reads_def keeps_call_out split: prod.split)
    moreover have "keeps P E (gas g)" for g
      unfolding gas_def by (intro keep_rules; simp)
    ultimately have "keeps P E (vbind (out po) gas)"
      by (intro keep_rules)
    moreover have "rest ?s = vbind (out po) gas s1"
      using q unfolding rest_def Inr by (rule vbind_run(1))
    ultimately show ?thesis
      using c1 Inr by (simp add: keeps_def)
  qed
  then show ?thesis
    unfolding c by (cases "rest ?s") (auto simp: vdo.simps vbind_def inc_PC_def vmodify_def calm_def split: sum.split)
qed

section \<open>Whole runs\<close>

lemma interpretCases_frame:
  assumes h: "host_keeps P E x" and i: "interpretCases sha3 x s = Some q" "calm P s"
  shows "frame_good P E x q"
proof -
  have st: "if fst (vm_step sh x s) = Inr Loop then calm P (snd (vm_step sh x s)) else frame_good P E x (vm_step sh x s)" if "calm P s" for sh s
    using frames_vm_step [OF h, of sh] that by (simp add: frames_def)
  let ?Q = "\<lambda>sh y s q. y = x \<longrightarrow> calm P s \<longrightarrow> frame_good P E x q"
  have "?Q sha3 x s q"
  proof (rule interpretCases.raw_induct [of ?Q "((sha3, x), s)" q, unfolded prod.case])
    fix f sh y s q
    assume f: "\<And>sh y s q. f sh y s = Some q \<Longrightarrow> ?Q sh y s q" and
      "(case vm_step sh y s of (Inl e, s') \<Rightarrow> Some (Inl e, s') | (Inr Loop, s') \<Rightarrow> f sh y s' | (Inr Return, s') \<Rightarrow> Some (Inr (), s')) = Some q"
    from this(2) show "?Q sh y s q"
      using st [of s sh] f [of sh y _ q] by (auto split: prod.splits sum.splits flow.splits)
  qed (rule i(1))
  then show ?thesis
    using i(2) by simp
qed

lemma run_bounce_frame:
  assumes h: "host_keeps P E x" and r: "run_bounce sha3 x b s = Some q" and s: "frame_ok P x s" "m_bounce s = Some b"
  shows "frame_good P E x q"
proof (cases b)
  case InitEntry
  then show ?thesis
    using r s by (auto simp: run_bounce_def initEntry_def optimize_def vdo.simps vbind_def vmodify_def frame_ok_def split: prod.splits)
next
  case InterpretCases
  then show ?thesis
    using r s interpretCases_frame [OF h] by (simp add: run_bounce_def frame_ok_def calm_def)
next
  case CaseCreate
  then show ?thesis
    using r s good_frame [OF caseCreate_good [OF h, of s]] by (auto simp: run_bounce_def frame_ok_def)
next
  case CaseCall
  then show ?thesis
    using r s good_frame [OF caseCall_good [OF h, of s]] by (auto simp: run_bounce_def frame_ok_def)
qed

lemma trampoline_frame:
  assumes h: "host_keeps P E x" and t: "trampoline sha3 x s = Some q" "frame_ok P x s"
  shows "frame_good P E x q"
proof -
  let ?Q = "\<lambda>sh y s q. y = x \<longrightarrow> frame_ok P x s \<longrightarrow> frame_good P E x q"
  have "?Q sha3 x s q"
  proof (rule trampoline.raw_induct [of ?Q "((sha3, x), s)" q, unfolded prod.case])
    fix f sh y s q
    assume f: "\<And>sh y s q. f sh y s = Some q \<Longrightarrow> ?Q sh y s q" and
      run: "(case m_bounce s of None \<Rightarrow> Some (Inr (), s)
        | Some b \<Rightarrow> Option.bind (run_bounce sh y b s) (\<lambda>(r, s'). case r of Inl e \<Rightarrow> Some (Inl e, s') | Inr _ \<Rightarrow> f sh y s')) = Some q"
    show "?Q sh y s q"
    proof (intro impI)
      assume a: "y = x" "frame_ok P x s"
      show "frame_good P E x q"
      proof (cases "m_bounce s")
        case None
        then show ?thesis
          using run a(2) by auto
      next
        case (Some b)
        then obtain r s1 where r: "run_bounce sh x b s = Some (r, s1)"
          "(case r of Inl e \<Rightarrow> Some (Inl e, s1) | Inr _ \<Rightarrow> f sh x s1) = Some q"
          using run a(1) by (auto simp: bind_eq_Some_conv)
        have "frame_good P E x (r, s1)"
          by (rule run_bounce_frame [OF h r(1) a(2) Some])
        then show ?thesis
          using r(2) f [of sh x s1 q] by (cases r) auto
      qed
    qed
  qed (rule t(1))
  then show ?thesis
    using t(2) by simp
qed

text \<open>A run keeps \<open>P\<close>, unless an exception of the environment ends it, and then \<open>E\<close> holds.\<close>

lemma exec_frame:
  assumes "host_keeps P E x" "exec sha3 x io_gas e = Some (r, g, e')" "P e"
  shows "case r of Inl (External z) \<Rightarrow> E z e' | _ \<Rightarrow> P e'"
proof -
  let ?s = "(LegacyVM_new e)\<lparr>m_io_gas_p := io_gas, m_io_gas := u64 (unat io_gas), m_PC := 0, m_bounce := Some InitEntry\<rparr>"
  obtain q s' where q: "trampoline sha3 x ?s = Some (q, s')" "r = (case q of Inl err \<Rightarrow> Inl err | Inr _ \<Rightarrow> Inr (m_output s'))" "e' = m_ext s'"
    using assms(2) by (auto simp: exec_def split: option.splits sum.splits)
  have "frame_good P E x (q, s')"
    by (rule trampoline_frame [OF assms(1) q(1)]) (use assms(3) in \<open>simp add: frame_ok_def LegacyVM_new_def\<close>)
  then show ?thesis
    using q(2,3) by (auto simp: err_post_def frame_ok_def split: sum.splits vm_error.splits)
qed

lemma static_refused:
  assumes "staticCall x"
  shows "op \<in> {0x55, 0xa0, 0xa1, 0xa2, 0xa3, 0xa4, 0xf0, 0xff} \<Longrightarrow> jumpTable sha3 x op s = (Inl DisallowedStateChange, s)"
    "m_OP s = 0xf1 \<Longrightarrow> m_SP s + 3 \<le> m_stackEnd \<Longrightarrow> SP s 2 \<noteq> 0 \<Longrightarrow> jumpTable sha3 x 0xf1 s = (Inl DisallowedStateChange, s)"
proof -
  have t: "jumpTable sha3 x 0x55 = case_SSTORE x" "jumpTable sha3 x 0xa0 = case_LOG 0 x" "jumpTable sha3 x 0xa1 = case_LOG 1 x"
    "jumpTable sha3 x 0xa2 = case_LOG 2 x" "jumpTable sha3 x 0xa3 = case_LOG 3 x" "jumpTable sha3 x 0xa4 = case_LOG 4 x"
    "jumpTable sha3 x 0xf0 = case_CREATE x" "jumpTable sha3 x 0xff = case_SUICIDE x" "jumpTable sha3 x 0xf1 = case_CALLs x"
    by (simp_all add: jumpTable_def jumpTable_list_def)
  have b: "case_SSTORE x s = (Inl DisallowedStateChange, s)" "case_LOG n x s = (Inl DisallowedStateChange, s)" "case_CREATE x s = (Inl DisallowedStateChange, s)"
    "case_SUICIDE x s = (Inl DisallowedStateChange, s)" for n
    by (simp_all add: assms case_SSTORE_def case_LOG_def case_CREATE_def case_SUICIDE_def vdo.simps vbind_def throw_if_def)
  show "jumpTable sha3 x op s = (Inl DisallowedStateChange, s)" if "op \<in> {0x55, 0xa0, 0xa1, 0xa2, 0xa3, 0xa4, 0xf0, 0xff}"
    using that t b by auto
  show "jumpTable sha3 x 0xf1 s = (Inl DisallowedStateChange, s)" if "m_OP s = 0xf1" "m_SP s + 3 \<le> m_stackEnd" "SP s 2 \<noteq> 0"
    using that by (simp add: t assms case_CALLs_def vdo.simps vbind_def throw_if_def vif_def reads_def vret_def)
qed

text \<open>(C9) Static calls. In a static call \<open>SSTORE\<close>, the \<open>LOG\<close> instructions, \<open>CREATE\<close>, \<open>SUICIDE\<close> and a \<open>CALL\<close> with a value throw \<open>DisallowedStateChange\<close> before they do
  anything. Whatever property of the environment the reading operations of the host keep, together with static calls in which no
  value moves to another account, is kept by a whole run of the interpreter in a static call, on every path. The exception is \<open>CREATE2\<close>, which
  is not refused in a static call: the rule needs a schedule without it, and with it the creation is started.\<close>

theorem static_calls_isolated:
  "(staticCall x \<and> op \<in> {0x55, 0xa0, 0xa1, 0xa2, 0xa3, 0xa4, 0xf0, 0xff} \<longrightarrow> jumpTable sha3 x op s = (Inl DisallowedStateChange, s)) \<and>
   (staticCall x \<and> m_OP s = 0xf1 \<and> m_SP s + 3 \<le> m_stackEnd \<and> SP s 2 \<noteq> 0 \<longrightarrow> jumpTable sha3 x 0xf1 s = (Inl DisallowedStateChange, s)) \<and>
   (staticCall x \<and> \<not> haveCreate2 (evmSchedule x) \<and> host_reads P (\<lambda>_. P) x \<and> P e \<and> exec sha3 x io_gas e = Some (r, g, e') \<longrightarrow> P e') \<and>
   (staticCall x \<and> haveCreate2 (evmSchedule x) \<longrightarrow> case_CREATE2 x s = (Inr Return, s\<lparr>m_bounce := Some CaseCreate\<rparr>))"
proof (intro conjI)
  show "staticCall x \<and> \<not> haveCreate2 (evmSchedule x) \<and> host_reads P (\<lambda>_. P) x \<and> P e \<and> exec sha3 x io_gas e = Some (r, g, e') \<longrightarrow> P e'"
    using exec_frame [of P "\<lambda>_. P" x sha3 io_gas e r g e'] by (auto simp: host_keeps_def may_create_def split: sum.splits vm_error.splits)
qed (use static_refused(1) [of x op sha3 s] static_refused(2) [of x s sha3] in \<open>auto simp: case_CREATE2_def vdo.simps vbind_def throw_if_def bounce_to_def vmodify_def BREAK_def vret_def\<close>)

text \<open>A static call of the code \<open>PUSH1 1 PUSH1 1 SSTORE\<close>, and of \<open>CREATE2\<close> under the rules of Constantinople.\<close>

theorem static_calls_isolated_witness:
  "jumpTable (\<lambda>_. 0) ((bare_host [0x60, 1, 0x60, 1, 0x55])\<lparr>staticCall := True\<rparr>) 0x55 (LegacyVM_new bare_ext) = (Inl DisallowedStateChange, LegacyVM_new bare_ext) \<and>
   (\<exists>r g. exec (\<lambda>_. 0) ((bare_host [0x60, 1, 0x60, 1, 0x55])\<lparr>staticCall := True\<rparr>) 100000 bare_ext = Some (r, g, bare_ext)) \<and>
   case_CREATE2 ((bare_host [0xfb])\<lparr>staticCall := True, evmSchedule := ConstantinopleSchedule\<rparr>) (LegacyVM_new bare_ext) =
     (Inr Return, (LegacyVM_new bare_ext)\<lparr>m_bounce := Some CaseCreate\<rparr>)"
proof (intro conjI)
  let ?x = "(bare_host [0x60, 1, 0x60, 1, 0x55])\<lparr>staticCall := True\<rparr>"
  show "jumpTable (\<lambda>_. 0) ?x 0x55 (LegacyVM_new bare_ext) = (Inl DisallowedStateChange, LegacyVM_new bare_ext)"
    using static_calls_isolated [of ?x "0x55" "\<lambda>_. 0" "LegacyVM_new bare_ext" "\<lambda>_. True" bare_ext 0 undefined 0 bare_ext] by simp
next
  let ?x = "(bare_host [0x60, 1, 0x60, 1, 0x55])\<lparr>staticCall := True\<rparr>"
  have "host_ok ?x"
    using bare_host_ok [of "[0x60, 1, 0x60, 1, 0x55]"] by (simp add: host_ok_def)
  then obtain r g e' where e: "exec (\<lambda>_. 0) ?x 100000 bare_ext = Some (r, g, e')"
    by (rule exec_returns)
  have "staticCall ?x" "\<not> haveCreate2 (evmSchedule ?x)" "host_reads (\<lambda>e. e = bare_ext) (\<lambda>_ e. e = bare_ext) ?x"
    by (simp_all add: bare_host_def schedule_defs host_reads_def hkeeps_def)
  then have "e' = bare_ext"
    using static_calls_isolated [of ?x 0 "\<lambda>_. 0" "LegacyVM_new bare_ext" "\<lambda>e. e = bare_ext" bare_ext 100000 r g e'] e by simp
  then show "\<exists>r g. exec (\<lambda>_. 0) ?x 100000 bare_ext = Some (r, g, bare_ext)"
    using e by blast
next
  let ?y = "(bare_host [0xfb])\<lparr>staticCall := True, evmSchedule := ConstantinopleSchedule\<rparr>"
  have "staticCall ?y" "haveCreate2 (evmSchedule ?y)"
    by (simp_all add: schedule_defs)
  then show "case_CREATE2 ?y (LegacyVM_new bare_ext) = (Inr Return, (LegacyVM_new bare_ext)\<lparr>m_bounce := Some CaseCreate\<rparr>)"
    using static_calls_isolated [of ?y 0 "\<lambda>_. 0" "LegacyVM_new bare_ext" "\<lambda>_. True" bare_ext 0 undefined 0 bare_ext] by simp
qed

end
