(* ===== verification/Transaction.thy ===== *)
theory Transaction
  imports StateCommit EVMSchedule
begin

text \<open>
  Transactions: class \<open>TransactionBase\<close> of \<open>libwingcore/TransactionBase.h\<close> and \<open>TransactionBase.cpp\<close>. The mutable members \<open>m_hashWith\<close> and
  \<open>m_sender\<close> are caches, with zero for a value that is not known yet; \<open>sender\<close> and \<open>sha3\<close> return the object with the caches they leave behind.
  The recovery of a public key from a signature and signing are arguments: they belong to the secp256k1 library.
\<close>

section \<open>Data\<close>

datatype tx_type = NullTransaction | ContractCreation | MessageCall

record SignatureStruct =
  sig_r :: h256
  sig_s :: h256
  sig_v :: byte

record TransactionBase =
  t_type :: tx_type
  t_nonce :: u256
  t_value :: u256
  t_receiveAddress :: address
  t_gasPrice :: u256
  t_gas :: u256
  t_data :: bytes
  t_vrs :: "SignatureStruct option"
  t_chainId :: int
  t_hashWith :: h256
  t_sender :: address

datatype tx_error =
    TxRLP rlp_error
  | InvalidTransactionFormat
  | InvalidSignature
  | TransactionIsUnsigned

datatype CheckTransaction = CheckNone | CheckCheap | CheckEverything

definition TransactionBase_null :: TransactionBase where
  "TransactionBase_null = \<lparr>t_type = NullTransaction, t_nonce = 0, t_value = 0, t_receiveAddress = 0, t_gasPrice = 0, t_gas = 0, t_data = [],
     t_vrs = None, t_chainId = - 4, t_hashWith = 0, t_sender = 0\<rparr>"

definition TransactionBase_call :: "u256 \<Rightarrow> u256 \<Rightarrow> u256 \<Rightarrow> address \<Rightarrow> bytes \<Rightarrow> u256 \<Rightarrow> TransactionBase" where
  "TransactionBase_call val gasPrice gas dest dat nonce = TransactionBase_null\<lparr>t_type := MessageCall, t_nonce := nonce, t_value := val,
     t_receiveAddress := dest, t_gasPrice := gasPrice, t_gas := gas, t_data := dat\<rparr>"

definition TransactionBase_create :: "u256 \<Rightarrow> u256 \<Rightarrow> u256 \<Rightarrow> bytes \<Rightarrow> u256 \<Rightarrow> TransactionBase" where
  "TransactionBase_create val gasPrice gas dat nonce = TransactionBase_null\<lparr>t_type := ContractCreation, t_nonce := nonce, t_value := val,
     t_gasPrice := gasPrice, t_gas := gas, t_data := dat\<rparr>"

section \<open>Queries\<close>

definition tx_eq :: "TransactionBase \<Rightarrow> TransactionBase \<Rightarrow> bool" where
  "tx_eq t c = (t_type t = t_type c \<and> (t_type t = ContractCreation \<or> t_receiveAddress t = t_receiveAddress c) \<and>
     t_value t = t_value c \<and> t_data t = t_data c)"

definition nonNull :: "TransactionBase \<Rightarrow> bool" where
  "nonNull t = (t_type t \<noteq> NullTransaction)"

definition isCreation :: "TransactionBase \<Rightarrow> bool" where
  "isCreation t = (t_type t = ContractCreation)"

definition isZeroSignature :: "u256 \<Rightarrow> u256 \<Rightarrow> bool" where
  "isZeroSignature r s = (r = 0 \<and> s = 0)"

definition hasSignature :: "TransactionBase \<Rightarrow> bool" where
  "hasSignature t = (t_vrs t \<noteq> None)"

definition hasZeroSignature :: "TransactionBase \<Rightarrow> bool" where
  "hasZeroSignature t = (case t_vrs t of None \<Rightarrow> False | Some vrs \<Rightarrow> isZeroSignature (sig_r vrs) (sig_s vrs))"

definition isReplayProtected :: "TransactionBase \<Rightarrow> bool" where
  "isReplayProtected t = (t_chainId t \<noteq> - 4)"

definition signature :: "TransactionBase \<Rightarrow> tx_error + SignatureStruct" where
  "signature t = (case t_vrs t of None \<Rightarrow> Inl TransactionIsUnsigned | Some vrs \<Rightarrow> Inr vrs)"

definition SignatureStruct_isValid :: "SignatureStruct \<Rightarrow> bool" where
  "SignatureStruct_isValid vrs =
     (let s_max = 0xfffffffffffffffffffffffffffffffebaaedce6af48a03bbfd25e8cd0364141 in
      sig_v vrs \<le> 1 \<and> sig_r vrs > 0 \<and> sig_s vrs > 0 \<and> sig_r vrs < s_max \<and> sig_s vrs < s_max)"

definition c_secp256k1n :: u256 where
  "c_secp256k1n = 115792089237316195423570985008687907852837564279074904382605163141518161494337"

definition checkLowS :: "TransactionBase \<Rightarrow> tx_error + unit" where
  "checkLowS t = (case t_vrs t of
     None \<Rightarrow> Inl TransactionIsUnsigned
   | Some vrs \<Rightarrow> if sig_s vrs > c_secp256k1n div 2 then Inl InvalidSignature else Inr ())"

definition checkChainId :: "int \<Rightarrow> TransactionBase \<Rightarrow> tx_error + unit" where
  "checkChainId chainId t = (if t_chainId t \<noteq> chainId \<and> t_chainId t \<noteq> - 4 then Inl InvalidSignature else Inr ())"

text \<open>The default constructor of \<open>SignatureStruct\<close> gives the zero signature.\<close>

definition clearSignature :: "TransactionBase \<Rightarrow> TransactionBase" where
  "clearSignature t = t\<lparr>t_vrs := Some \<lparr>sig_r = 0, sig_s = 0, sig_v = 0\<rparr>\<rparr>"

definition tx_setNonce :: "u256 \<Rightarrow> TransactionBase \<Rightarrow> TransactionBase" where
  "tx_setNonce n t = (clearSignature t)\<lparr>t_nonce := n\<rparr>"

definition baseGasRequired :: "bool \<Rightarrow> bytes \<Rightarrow> EVMSchedule \<Rightarrow> nat" where
  "baseGasRequired contractCreation dat es =
     foldl (\<lambda>g i. g + (if i \<noteq> 0 then txDataNonZeroGas es else txDataZeroGas es)) (if contractCreation then txCreateGas es else txGas es) dat"

section \<open>Serialisation\<close>

text \<open>\<open>append\<close> of an \<open>int\<close> is that of an \<open>unsigned\<close>.\<close>

definition append_int :: "int \<Rightarrow> rlp_stream \<Rightarrow> rlp_error + rlp_stream" where
  "append_int i = append_bigint (nat (i mod 2 ^ 32))"

definition tx_lift :: "rlp_error + 'a \<Rightarrow> tx_error + 'a" where
  "tx_lift r = (case r of Inl e \<Rightarrow> Inl (TxRLP e) | Inr a \<Rightarrow> Inr a)"

definition streamRLP :: "TransactionBase \<Rightarrow> bool \<Rightarrow> bool \<Rightarrow> rlp_stream \<Rightarrow> tx_error + rlp_stream" where
  "streamRLP t sig forEip155hash s =
     (if t_type t = NullTransaction then Inr s
      else
        ebind (tx_lift (appendList ((if sig \<or> forEip155hash then 3 else 0) + 6) s)) (\<lambda>s.
        ebind (tx_lift (append_all (\<lambda>f. f)
          [append_bigint (unat (t_nonce t)), append_bigint (unat (t_gasPrice t)), append_bigint (unat (t_gas t)),
           if t_type t = MessageCall then append_hash (address_bytes (t_receiveAddress t)) False False else append_bytes [] False,
           append_bigint (unat (t_value t)), append_bytes (t_data t) False] s)) (\<lambda>s.
        if sig then
          (case t_vrs t of
             None \<Rightarrow> Inl TransactionIsUnsigned
           | Some vrs \<Rightarrow>
               tx_lift (append_all (\<lambda>f. f)
                 [append_int (if hasZeroSignature t then t_chainId t else int (unat (sig_v vrs)) + (t_chainId t * 2 + 35)),
                  append_bigint (unat (sig_r vrs)), append_bigint (unat (sig_s vrs))] s))
        else if forEip155hash then tx_lift (append_all (\<lambda>f. f) [append_int (t_chainId t), append_int 0, append_int 0] s)
        else Inr s)))"

definition tx_rlp :: "bool \<Rightarrow> TransactionBase \<Rightarrow> tx_error + bytes" where
  "tx_rlp sig t = ebind (streamRLP t sig False RLPStream_new) (\<lambda>s. tx_lift (out s))"

definition tx_sha3 :: "(bytes \<Rightarrow> h256) \<Rightarrow> bool \<Rightarrow> TransactionBase \<Rightarrow> (tx_error + h256) \<times> TransactionBase" where
  "tx_sha3 sha3 sig t =
     (if sig \<and> t_hashWith t \<noteq> 0 then (Inr (t_hashWith t), t)
      else (case ebind (streamRLP t sig (t_chainId t > 0 \<and> \<not> sig) RLPStream_new) (\<lambda>s. tx_lift (out s)) of
              Inl e \<Rightarrow> (Inl e, t)
            | Inr bs \<Rightarrow> (Inr (sha3 bs), if sig then t\<lparr>t_hashWith := sha3 bs\<rparr> else t)))"

definition MaxAddress :: address where
  "MaxAddress = 0xffffffffffffffffffffffffffffffffffffffff"

definition sender ::
  "(bytes \<Rightarrow> h256) \<Rightarrow> (SignatureStruct \<Rightarrow> h256 \<Rightarrow> u512) \<Rightarrow> TransactionBase \<Rightarrow> (tx_error + address) \<times> TransactionBase" where
  "sender sha3 recover t =
     (if t_sender t \<noteq> 0 then (Inr (t_sender t), t)
      else if hasZeroSignature t then (Inr MaxAddress, t\<lparr>t_sender := MaxAddress\<rparr>)
      else
        (case t_vrs t of
           None \<Rightarrow> (Inl TransactionIsUnsigned, t)
         | Some vrs \<Rightarrow>
             (case tx_sha3 sha3 False t of
                (Inl e, t1) \<Rightarrow> (Inl e, t1)
              | (Inr h, t1) \<Rightarrow>
                  (let p = recover vrs h in
                   if p = 0 then (Inl InvalidSignature, t1)
                   else (let a = ucast (sha3 (toBigEndian (unat p) 64)) in (Inr a, t1\<lparr>t_sender := a\<rparr>))))))"

definition safeSender ::
  "(bytes \<Rightarrow> h256) \<Rightarrow> (SignatureStruct \<Rightarrow> h256 \<Rightarrow> u512) \<Rightarrow> TransactionBase \<Rightarrow> address \<times> TransactionBase" where
  "safeSender sha3 recover t = (case sender sha3 recover t of (Inl _, t1) \<Rightarrow> (0, t1) | (Inr a, t1) \<Rightarrow> (a, t1))"

definition sign ::
  "(bytes \<Rightarrow> h256) \<Rightarrow> (h256 \<Rightarrow> SignatureStruct) \<Rightarrow> TransactionBase \<Rightarrow> (tx_error + unit) \<times> TransactionBase" where
  "sign sha3 sig_of t =
     (case tx_sha3 sha3 False t of
        (Inl e, t1) \<Rightarrow> (Inl e, t1)
      | (Inr h, t1) \<Rightarrow> (Inr (), if SignatureStruct_isValid (sig_of h) then t1\<lparr>t_vrs := Some (sig_of h)\<rparr> else t1))"

definition forceSender :: "address \<Rightarrow> TransactionBase \<Rightarrow> TransactionBase" where
  "forceSender a t = t\<lparr>t_sender := a\<rparr>"

text \<open>A transaction from a skeleton; a null secret, which signs nothing, is \<open>None\<close>.\<close>

record TransactionSkeleton =
  ts_creation :: bool
  ts_from :: address
  ts_to :: address
  ts_value :: u256
  ts_data :: bytes
  ts_nonce :: u256
  ts_gas :: u256
  ts_gasPrice :: u256

definition TransactionBase_skeleton ::
  "(bytes \<Rightarrow> h256) \<Rightarrow> (h256 \<Rightarrow> SignatureStruct) option \<Rightarrow> TransactionSkeleton \<Rightarrow> tx_error + TransactionBase" where
  "TransactionBase_skeleton sha3 secret ts =
     (let t = TransactionBase_null\<lparr>t_type := (if ts_creation ts then ContractCreation else MessageCall), t_nonce := ts_nonce ts,
            t_value := ts_value ts, t_receiveAddress := ts_to ts, t_gasPrice := ts_gasPrice ts, t_gas := ts_gas ts, t_data := ts_data ts,
            t_sender := ts_from ts\<rparr>
      in case secret of
           None \<Rightarrow> Inr t
         | Some sig_of \<Rightarrow> (case sign sha3 sig_of t of (Inl e, _) \<Rightarrow> Inl e | (Inr _, t1) \<Rightarrow> Inr t1))"

section \<open>Construction from RLP\<close>

text \<open>The constructor reads the items through the indexing cache of the \<open>RLP\<close> object.\<close>

type_synonym 'a reader = "rlp \<Rightarrow> (tx_error + 'a) \<times> rlp"

definition rbind :: "'a reader \<Rightarrow> ('a \<Rightarrow> 'b reader) \<Rightarrow> 'b reader" where
  "rbind m f r = (case m r of (Inl e, r') \<Rightarrow> (Inl e, r') | (Inr a, r') \<Rightarrow> f a r')"

definition rfield :: "(bytes \<Rightarrow> rlp_error + 'a) \<Rightarrow> nat \<Rightarrow> 'a reader" where
  "rfield conv i r = (case nth_field conv i r of (x, r') \<Rightarrow> (tx_lift x, r'))"

definition rresult :: "tx_error + 'a \<Rightarrow> 'a reader" where
  "rresult x r = (x, r)"

definition toInt_int :: "bytes \<Rightarrow> rlp_error + int" where
  "toInt_int d = ebind (toInt Strict d) (\<lambda>w :: 32 word. Inr (sint w))"

text \<open>The signature of the items \<open>v\<close>, \<open>r\<close> and \<open>s\<close>, with the chain identifier; division of \<open>int\<close> truncates.\<close>

definition read_signature :: "CheckTransaction \<Rightarrow> int \<Rightarrow> h256 \<Rightarrow> h256 \<Rightarrow> tx_error + int \<times> SignatureStruct" where
  "read_signature checkSig v r s =
     (if isZeroSignature r s then Inr (v, \<lparr>sig_r = r, sig_s = s, sig_v = 0\<rparr>)
      else
        ebind (if v > 36 then Inr ((v - 35) div 2) else if v = 27 \<or> v = 28 then Inr (- 4) else Inl InvalidSignature) (\<lambda>chainId.
          let vrs = \<lparr>sig_r = r, sig_s = s, sig_v = word_of_int (v - (chainId * 2 + 35))\<rparr> in
          if (checkSig = CheckCheap \<or> checkSig = CheckEverything) \<and> \<not> SignatureStruct_isValid vrs then Inl InvalidSignature
          else Inr (chainId, vrs)))"

definition TransactionBase_rlp ::
  "(bytes \<Rightarrow> h256) \<Rightarrow> (SignatureStruct \<Rightarrow> h256 \<Rightarrow> u512) \<Rightarrow> CheckTransaction \<Rightarrow> bytes \<Rightarrow> tx_error + TransactionBase" where
  "TransactionBase_rlp sha3 recover checkSig rlpData =
     ebind (tx_lift (RLP_ctor rlpData VeryStrict)) (\<lambda>d. fst (
       rbind (rresult (if isList d then Inr () else Inl InvalidTransactionFormat)) (\<lambda>_.
       rbind (rfield (toInt Strict) 0) (\<lambda>nonce.
       rbind (rfield (toInt Strict) 1) (\<lambda>gasPrice.
       rbind (rfield (toInt Strict) 2) (\<lambda>gas.
       rbind (rfield (\<lambda>i. Inr (isEmpty i)) 3) (\<lambda>creation.
       rbind (if creation then rresult (Inr (replicate 20 0)) else rfield (toHash 20 VeryStrict) 3) (\<lambda>receiveAddress.
       rbind (rfield (toInt Strict) 4) (\<lambda>val.
       rbind (rfield (\<lambda>i. Inr (isData i)) 5) (\<lambda>data_ok.
       rbind (rresult (if data_ok then Inr () else Inl InvalidTransactionFormat)) (\<lambda>_.
       rbind (rfield (toBytes LaissezFaire) 5) (\<lambda>dat.
       rbind (rfield toInt_int 6) (\<lambda>v.
       rbind (rfield (toInt Strict) 7) (\<lambda>r.
       rbind (rfield (toInt Strict) 8) (\<lambda>s.
       rbind (rresult (read_signature checkSig v r s)) (\<lambda>(chainId, vrs).
       let t = \<lparr>t_type = (if creation then ContractCreation else MessageCall), t_nonce = nonce, t_value = val,
              t_receiveAddress = fromBigEndian receiveAddress, t_gasPrice = gasPrice, t_gas = gas, t_data = dat, t_vrs = Some vrs,
              t_chainId = chainId, t_hashWith = 0, t_sender = 0\<rparr> in
       rbind (rresult (if checkSig = CheckEverything
              then (case sender sha3 recover t of (Inl e, _) \<Rightarrow> Inl e | (Inr _, t1) \<Rightarrow> Inr t1) else Inr t)) (\<lambda>t.
       rbind (\<lambda>r. (tx_lift (itemCount (m_data r)), r)) (\<lambda>n.
       rresult (if n > 9 then Inl InvalidTransactionFormat else Inr t))))))))))))))))) (rlp_of d)))"


section \<open>Writing\<close>

lemma tx_lift_ebind: "tx_lift (ebind x f) = ebind (tx_lift x) (\<lambda>a. tx_lift (f a))"
  by (cases x) (simp_all add: tx_lift_def)

lemma tx_lift_Inr [simp]: "tx_lift (Inr a) = Inr a"
  by (simp add: tx_lift_def)

text \<open>Writers that each append one encoded item write the encoded list.\<close>

definition writer_of :: "(rlp_stream \<Rightarrow> rlp_error + rlp_stream) \<Rightarrow> item \<Rightarrow> bool" where
  "writer_of w it \<longleftrightarrow> (\<forall>u. w u = noteAppended 1 (u\<lparr>m_out := m_out u @ enc it\<rparr>))"

lemma writers_enc:
  assumes "list_all2 writer_of ws its" "length (concat (map enc its)) < max_rlp"
  shows "ebind (appendVector (\<lambda>f. f) ws RLPStream_new) out = Inr (enc (List its))"
proof -
  let ?e = "\<lambda>f. case f RLPStream_new of Inl _ \<Rightarrow> [] | Inr t \<Rightarrow> m_out t"
  have e1: "?e w = enc it" if "writer_of w it" for w it
    using that by (simp add: writer_of_def RLPStream_new_def noteAppended_def del: enc.simps)
  have e: "map ?e ws = map enc its"
    using assms(1) by (induction rule: list_all2_induct) (simp_all add: e1 del: enc.simps)
  have w: "y u = noteAppended 1 (u\<lparr>m_out := m_out u @ ?e y\<rparr>)" if y: "y \<in> set ws" for y u
  proof -
    obtain it where "writer_of y it"
      using assms(1) y by (auto simp: list_all2_conv_all_nth in_set_conv_nth)
    then show ?thesis
      unfolding e1 [OF \<open>writer_of y it\<close>] by (simp add: writer_of_def)
  qed
  have "appendVector (\<lambda>f. f) ws RLPStream_new =
      noteAppended 1 (RLPStream_new\<lparr>m_out := m_out RLPStream_new @ rlp_header 0xc0 (length (concat (map ?e ws))) @ concat (map ?e ws)\<rparr>)"
    by (rule appendVector_enc [OF w]) (simp_all add: e assms(2))
  then show ?thesis
    unfolding e by (simp add: RLPStream_new_def noteAppended_def out_def Let_def)
qed

lemma writer_bigint: "bytesRequired n < max_rlp \<Longrightarrow> writer_of (append_bigint n) (Data (toCompactBigEndian n 0))"
  by (simp add: writer_of_def append_bigint_enc del: enc.simps)

lemma writer_u256: "writer_of (append_bigint (unat (w :: u256))) (Data (toCompactBigEndian (unat w) 0))"
  by (simp add: writer_of_def append_u256 del: enc.simps)

lemma writer_bytes: "length bs < max_rlp \<Longrightarrow> writer_of (append_bytes bs False) (Data bs)"
  by (simp add: writer_of_def append_bytes_enc del: enc.simps)

lemma bytesRequired_int: "bytesRequired (nat (i mod 4294967296)) \<le> 4"
  by (simp add: bytesRequired_le_iff nat_less_iff)

lemma writer_int: "writer_of (append_int i) (Data (toCompactBigEndian (nat (i mod 2 ^ 32)) 0))"
  using writer_bigint [of "nat (i mod 2 ^ 32)"] bytesRequired_int [of i] by (simp add: append_int_def max_rlp_def)

text \<open>The item that carries the recovery number and the chain.\<close>

definition v_item :: "TransactionBase \<Rightarrow> SignatureStruct \<Rightarrow> int" where
  "v_item t vrs = (if hasZeroSignature t then t_chainId t else int (unat (sig_v vrs)) + (t_chainId t * 2 + 35))"

definition tx_items :: "TransactionBase \<Rightarrow> SignatureStruct \<Rightarrow> item list" where
  "tx_items t vrs =
     [Data (toCompactBigEndian (unat (t_nonce t)) 0), Data (toCompactBigEndian (unat (t_gasPrice t)) 0),
      Data (toCompactBigEndian (unat (t_gas t)) 0), Data (if t_type t = MessageCall then address_bytes (t_receiveAddress t) else []),
      Data (toCompactBigEndian (unat (t_value t)) 0), Data (t_data t),
      Data (toCompactBigEndian (nat (v_item t vrs mod 2 ^ 32)) 0),
      Data (toCompactBigEndian (unat (sig_r vrs)) 0), Data (toCompactBigEndian (unat (sig_s vrs)) 0)]"

lemma compact_u256: "length (toCompactBigEndian (unat w) 0) \<le> 32" for w :: u256
  using u256_bytes [of w] by (simp add: toCompactBigEndian_def)

lemma compact_int: "length (toCompactBigEndian (nat (i mod 4294967296)) 0) \<le> 32"
  using bytesRequired_int [of i] by (simp add: toCompactBigEndian_def)

lemma length_address_bytes [simp]: "length (address_bytes a) = 20"
  by (simp add: address_bytes_def)

lemma enc_data_length: "length (enc (Data bs)) \<le> length bs + 1 + bytesRequired (length bs)"
  by (simp add: length_rlp_header)

lemma tx_items_small:
  assumes "length (t_data t) < 2 ^ 63"
  shows "length (concat (map enc (tx_items t vrs))) < max_rlp" "list_all small (tx_items t vrs)"
proof -
  have d: "length (enc (Data (t_data t))) \<le> length (t_data t) + 9"
    using enc_data_length [of "t_data t"] max_rlp_bytes [of "length (t_data t)"] assms by (simp add: max_rlp_def del: enc.simps)
  have a: "length (enc (Data (if t_type t = MessageCall then address_bytes (t_receiveAddress t) else []))) \<le> 33"
    by (rule length_enc_short) simp
  note c = length_enc_short [OF compact_u256] length_enc_short [OF compact_int]
  show "length (concat (map enc (tx_items t vrs))) < max_rlp"
    using d a c(1) [of "t_nonce t"] c(1) [of "t_gasPrice t"] c(1) [of "t_gas t"] c(1) [of "t_value t"] c(1) [of "sig_r vrs"]
      c(1) [of "sig_s vrs"] c(2) [of "v_item t vrs"] assms
    by (simp add: tx_items_def max_rlp_def del: enc.simps)
  have m: "(32 :: nat) < max_rlp"
    by (simp add: max_rlp_def)
  show "list_all small (tx_items t vrs)"
    using assms le_less_trans [OF compact_u256 m] le_less_trans [OF compact_int [of "v_item t vrs"] m]
    by (simp add: tx_items_def max_rlp_def)
qed

lemma tx_rlp_enc:
  assumes "t_type t \<noteq> NullTransaction" "t_vrs t = Some vrs" "length (t_data t) < 2 ^ 63"
  shows "tx_rlp True t = Inr (enc (List (tx_items t vrs)))"
proof -
  let ?ws = "[append_bigint (unat (t_nonce t)), append_bigint (unat (t_gasPrice t)), append_bigint (unat (t_gas t)),
    if t_type t = MessageCall then append_hash (address_bytes (t_receiveAddress t)) False False else append_bytes [] False,
    append_bigint (unat (t_value t)), append_bytes (t_data t) False]"
  let ?vs = "[append_int (v_item t vrs), append_bigint (unat (sig_r vrs)), append_bigint (unat (sig_s vrs))]"
  have n: "length (?ws @ ?vs) = 9"
    by simp
  have "streamRLP t True False RLPStream_new = tx_lift (appendVector (\<lambda>f. f) (?ws @ ?vs) RLPStream_new)"
    unfolding streamRLP_def appendVector_def append_all_append tx_lift_ebind n
    using assms(1,2) by (simp add: v_item_def del: append_all.simps)
  then have "tx_rlp True t = tx_lift (ebind (appendVector (\<lambda>f. f) (?ws @ ?vs) RLPStream_new) out)"
    by (simp only: tx_rlp_def tx_lift_ebind)
  moreover have "writer_of (if t_type t = MessageCall then append_hash (address_bytes (t_receiveAddress t)) False False else append_bytes [] False)
      (Data (if t_type t = MessageCall then address_bytes (t_receiveAddress t) else []))"
    using writer_bytes [of "address_bytes (t_receiveAddress t)"] writer_bytes [of "[]"]
    by (simp add: writer_of_def append_hash_def max_rlp_def)
  then have "list_all2 writer_of (?ws @ ?vs) (tx_items t vrs)"
    using assms(3) by (simp add: tx_items_def writer_u256 writer_int [simplified] writer_bytes max_rlp_def del: if_split)
  ultimately show ?thesis
    by (simp only: writers_enc [OF _ tx_items_small(1) [OF assms(3)]] tx_lift_Inr)
qed


section \<open>Reading\<close>

text \<open>The cache of an object over the list of items \<open>xs\<close>.\<close>

definition reading :: "bytes list \<Rightarrow> bytes \<Rightarrow> rlp \<Rightarrow> bool" where
  "reading xs d r \<longleftrightarrow> m_data r = d \<and> (\<exists>p. payload d = Inr p \<and> split_items p = Inr xs) \<and> cache_ok xs r"

lemma rbind_field:
  assumes "reading xs d r" "i < length xs" "conv (xs ! i) = Inr y" "\<And>r'. reading xs d r' \<Longrightarrow> fst (f y r') = z"
  shows "fst (rbind (rfield conv i) f r) = z"
proof -
  obtain p where p: "payload (m_data r) = Inr p" "split_items p = Inr xs" "cache_ok xs r" "m_data r = d"
    using assms(1) by (auto simp: reading_def)
  have "i < 2 ^ 64 - 1"
    using p(3) assms(2) by (simp add: cache_ok_def)
  then obtain r' where r': "rlp_nth i r = (Inr (xs ! i), r')" "m_data r' = m_data r" "cache_ok xs r'"
    using rlp_nth_spec [OF p(1-3), of i] assms(2) by (auto simp: item_at_def)
  then have "reading xs d r'"
    using p by (auto simp: reading_def)
  then show ?thesis
    using assms(3,4) by (simp add: rbind_def rfield_def nth_field_def r'(1))
qed

lemma rbind_result: "fst (rbind (rresult (Inr a)) f r) = fst (f a r)"
  by (simp add: rbind_def rresult_def)

lemma reading_enc:
  assumes "list_all small its" "length (concat (map enc its)) < max_rlp" "length its < 100"
  shows "reading (map enc its) (enc (List its)) (rlp_of (enc (List its)))"
  using assms payload_list [OF assms(2)] split_items_enc [OF assms(1)] cache_ok_rlp_of [of "map enc its"]
  by (simp add: reading_def rlp_of_def Let_def)

lemma itemCount_enc:
  assumes "list_all small its" "length (concat (map enc its)) < max_rlp"
  shows "itemCount (enc (List its)) = Inr (length its)" "isList (enc (List its))"
proof -
  show l: "isList (enc (List its))"
    using list_header [OF assms(2), of "concat (map enc its)"] by (simp add: Let_def)
  show "itemCount (enc (List its)) = Inr (length its)"
    using l payload_list [OF assms(2)] split_items_enc [OF assms(1)] by (simp add: itemCount_def items_def items_loop_split Let_def)
qed

lemma toInt_int_enc:
  assumes "n < 2 ^ 31"
  shows "toInt_int (enc (Data (toCompactBigEndian n 0))) = Inr (int n)"
proof -
  let ?bs = "toCompactBigEndian n 0"
  have l: "length ?bs \<le> 4"
    using assms by (simp add: toCompactBigEndian_def bytesRequired_le_iff)
  have c: "?bs = [] \<or> hd ?bs \<noteq> 0"
    using hd_toBigEndian_bytesRequired [of n] by (cases "n = 0") (auto simp: toCompactBigEndian_def)
  have "toInt Strict (enc (Data ?bs)) = Inr (fromBigEndian ?bs :: 32 word)"
    by (rule toInt_enc_canonical [OF _ _ c]) (use l in simp_all)
  moreover have "(fromBigEndian ?bs :: 32 word) = of_nat n"
    using less_pow_bytesRequired [of n] by (simp add: fromBigEndian_of_nat toCompactBigEndian_def be_nat_toBigEndian)
  moreover have "sint (of_nat n :: 32 word) = int n"
    using assms by (simp add: signed_of_nat signed_take_bit_int_eq_self)
  ultimately show ?thesis
    by (simp add: toInt_int_def del: enc.simps)
qed

lemma address_item:
  "toHash 20 VeryStrict (enc (Data (address_bytes a))) = Inr (address_bytes a)" "\<not> isEmpty (enc (Data (address_bytes a)))"
  "fromBigEndian (address_bytes a) = a"
proof -
  let ?d = "enc (Data (address_bytes a))"
  have p: "payload ?d = Inr (address_bytes a)" "isData ?d"
    using payload_enc [of "address_bytes a"] toBytes_enc [of "address_bytes a" VeryStrict] by (auto simp: max_rlp_def simp del: enc.simps)
  moreover have "requireGood ?d = Inr ()"
    by (simp add: enc_Data_short requireGood_def isNull_def rlp_consts del: enc.simps)
  ultimately show "toHash 20 VeryStrict ?d = Inr (address_bytes a)"
    by (simp add: toHash_def VeryStrict_def del: enc.simps)
  show "\<not> isEmpty ?d"
    by (simp add: enc_Data_short isEmpty_def isNull_def rlp_consts del: enc.simps)
  have "unat a < 2 ^ 160"
    using unsigned_less [of a] by simp
  then show "fromBigEndian (address_bytes a) = a"
    by (simp add: address_bytes_def fromBigEndian_of_nat be_nat_toBigEndian)
qed

lemma empty_item: "isEmpty (enc (Data []))" 
  by (simp add: rlp_header_def isEmpty_def isNull_def c_rlpDataImmLenStart_def)

text \<open>The signatures that the serialised form can carry.\<close>

definition sig_ok :: "TransactionBase \<Rightarrow> bool" where
  "sig_ok t \<longleftrightarrow> (case t_vrs t of
     None \<Rightarrow> False
   | Some vrs \<Rightarrow>
       if hasZeroSignature t then sig_v vrs = 0 \<and> 0 \<le> t_chainId t \<and> t_chainId t < 2 ^ 31
       else sig_v vrs \<le> 1 \<and> (t_chainId t = - 4 \<or> 1 \<le> t_chainId t \<and> t_chainId t < 2 ^ 30 - 18))"

lemma read_signature_spec:
  assumes "sig_ok t" "t_vrs t = Some vrs" "checkSig = CheckNone \<or> hasZeroSignature t \<or> SignatureStruct_isValid vrs"
  shows "read_signature checkSig (v_item t vrs) (sig_r vrs) (sig_s vrs) = Inr (t_chainId t, vrs)" "0 \<le> v_item t vrs" "v_item t vrs < 2 ^ 31"
proof -
  have v: "sig_v vrs = 0 \<or> sig_v vrs = 1"
  proof -
    have "unat (sig_v vrs) \<le> 1"
      using assms(1,2) by (auto simp: sig_ok_def word_le_nat_alt split: if_splits)
    then have "unat (sig_v vrs) = 0 \<or> unat (sig_v vrs) = 1"
      by linarith
    then show ?thesis
    proof
      assume "unat (sig_v vrs) = 1"
      then have "unat (sig_v vrs) = unat (1 :: byte)"
        by simp
      then show ?thesis
        by (rule disjI2 [OF unsigned_word_eqI])
    qed (simp add: unat_eq_zero)
  qed
  show "0 \<le> v_item t vrs" "v_item t vrs < 2 ^ 31"
    using assms(1,2) v by (auto simp: sig_ok_def v_item_def split: if_splits)
  show "read_signature checkSig (v_item t vrs) (sig_r vrs) (sig_s vrs) = Inr (t_chainId t, vrs)"
  proof (cases "hasZeroSignature t")
    case True
    then show ?thesis
      using assms(1,2) by (simp add: read_signature_def v_item_def sig_ok_def hasZeroSignature_def)
  next
    case False
    then have nz: "\<not> isZeroSignature (sig_r vrs) (sig_s vrs)"
      using assms(2) by (simp add: hasZeroSignature_def)
    have "v_item t vrs = int (unat (sig_v vrs)) + (t_chainId t * 2 + 35)"
      using False by (simp add: v_item_def)
    then have c: "(if v_item t vrs > 36 then Inr ((v_item t vrs - 35) div 2)
        else if v_item t vrs = 27 \<or> v_item t vrs = 28 then Inr (- 4) else Inl InvalidSignature) = Inr (t_chainId t)"
      and "v_item t vrs - (t_chainId t * 2 + 35) = uint (sig_v vrs)"
      using assms(1,2) False v by (auto simp: sig_ok_def)
    from this(2) have w: "word_of_int (v_item t vrs - (t_chainId t * 2 + 35)) = sig_v vrs"
      by (simp only: word_of_int_uint)
    have r: "\<lparr>sig_r = sig_r vrs, sig_s = sig_s vrs, sig_v = sig_v vrs\<rparr> = vrs"
      by simp
    show ?thesis
      unfolding read_signature_def if_not_P [OF nz] c ebind_Inr w r Let_def using assms(3) False by auto
  qed
qed

section \<open>Property\<close>

lemma TransactionBase_reads:
  assumes ctor: "RLP_ctor d VeryStrict = Inr d" "isList d" "itemCount d = Inr 9" "reading xs d (rlp_of d)" and n: "length xs = 9"
    and words: "toInt Strict (xs ! 0) = Inr nonce" "toInt Strict (xs ! 1) = Inr gasPrice" "toInt Strict (xs ! 2) = Inr gas"
      "toInt Strict (xs ! 4) = Inr val" "toInt_int (xs ! 6) = Inr v" "toInt Strict (xs ! 7) = Inr r" "toInt Strict (xs ! 8) = Inr s"
    and dest: "isEmpty (xs ! 3) = creation" "creation \<Longrightarrow> ra = replicate 20 0" "\<not> creation \<Longrightarrow> toHash 20 VeryStrict (xs ! 3) = Inr ra"
    and dat: "isData (xs ! 5)" "toBytes LaissezFaire (xs ! 5) = Inr bs"
    and sig: "read_signature checkSig v r s = Inr (chainId, vrs)" "checkSig \<noteq> CheckEverything"
  shows "TransactionBase_rlp sha3 recover checkSig d =
    Inr \<lparr>t_type = (if creation then ContractCreation else MessageCall), t_nonce = nonce, t_value = val,
      t_receiveAddress = fromBigEndian ra, t_gasPrice = gasPrice, t_gas = gas, t_data = bs, t_vrs = Some vrs,
      t_chainId = chainId, t_hashWith = 0, t_sender = 0\<rparr>"
proof -
  have f: "fst (rbind (rfield conv i) f q) = z"
    if "i < 9" "conv (xs ! i) = Inr y" "reading xs d q" "\<And>q'. reading xs d q' \<Longrightarrow> fst (f y q') = z"
    for conv i y f q and z :: "tx_error + TransactionBase"
    by (rule rbind_field [of xs d q i conv y, OF that(3) _ that(2)]) (use that(1,4) n in simp_all)
  have to: "fst (rbind (if creation then rresult (Inr (replicate 20 0)) else rfield (toHash 20 VeryStrict) 3) f q) = z"
    if "reading xs d q" "\<And>q'. reading xs d q' \<Longrightarrow> fst (f ra q') = z" for f q and z :: "tx_error + TransactionBase"
    using that dest(2,3) by (cases creation) (auto simp: rbind_result intro: f)
  have "(\<lambda>i. Inr (isEmpty i)) (xs ! 3) = Inr creation" "(\<lambda>i. Inr (isData i)) (xs ! 5) = Inr True"
    using dest(1) dat(1) by simp_all
  note x = this
  note field = f [of 0 "toInt Strict", OF _ words(1)] f [of 1 "toInt Strict", OF _ words(2)] f [of 2 "toInt Strict", OF _ words(3)]
    f [of 3 "\<lambda>i. Inr (isEmpty i)", OF _ x(1)] to f [of 4 "toInt Strict", OF _ words(4)] f [of 5 "\<lambda>i. Inr (isData i)", OF _ x(2)]
    f [of 5 "toBytes LaissezFaire", OF _ dat(2)] f [of 6 toInt_int, OF _ words(5)] f [of 7 "toInt Strict", OF _ words(6)]
    f [of 8 "toInt Strict", OF _ words(7)]
  show ?thesis
    unfolding TransactionBase_rlp_def ctor(1) tx_lift_Inr ebind_Inr if_P [OF ctor(2)] rbind_result
    apply (rule field(1) [OF _ ctor(4)], simp)
    apply (rule field(2), simp, assumption)
    apply (rule field(3), simp, assumption)
    apply (rule field(4), simp, assumption)
    apply (rule field(5), assumption)
    apply (rule field(6), simp, assumption)
    apply (rule field(7), simp, assumption)
    unfolding if_True rbind_result
    apply (rule field(8), simp, assumption)
    apply (rule field(9), simp, assumption)
    apply (rule field(10), simp, assumption)
    apply (rule field(11), simp, assumption)
    unfolding sig(1) rbind_result prod.case
    using sig(2) ctor(3) by (simp add: rbind_result reading_def rbind_def rresult_def Let_def)
qed

lemma tx_items_read:
  assumes "length (t_data t) < 2 ^ 63" "t_type t \<noteq> NullTransaction" "0 \<le> v_item t vrs" "v_item t vrs < 2 ^ 31"
  defines "xs \<equiv> map enc (tx_items t vrs)"
  shows "toInt Strict (xs ! 0) = Inr (t_nonce t)" "toInt Strict (xs ! 1) = Inr (t_gasPrice t)" "toInt Strict (xs ! 2) = Inr (t_gas t)"
    "toInt Strict (xs ! 4) = Inr (t_value t)" "toInt_int (xs ! 6) = Inr (v_item t vrs)"
    "toInt Strict (xs ! 7) = Inr (sig_r vrs)" "toInt Strict (xs ! 8) = Inr (sig_s vrs)"
    "isEmpty (xs ! 3) = (t_type t = ContractCreation)"
    "t_type t \<noteq> ContractCreation \<Longrightarrow> toHash 20 VeryStrict (xs ! 3) = Inr (address_bytes (t_receiveAddress t))"
    "isData (xs ! 5)" "toBytes LaissezFaire (xs ! 5) = Inr (t_data t)"
proof -
  have n: "xs ! k = enc (tx_items t vrs ! k)" if "k < 9" for k
    unfolding xs_def by (rule nth_map) (use that in \<open>simp add: tx_items_def\<close>)
  show "toInt Strict (xs ! 0) = Inr (t_nonce t)" "toInt Strict (xs ! 1) = Inr (t_gasPrice t)" "toInt Strict (xs ! 2) = Inr (t_gas t)"
    "toInt Strict (xs ! 4) = Inr (t_value t)" "toInt Strict (xs ! 7) = Inr (sig_r vrs)" "toInt Strict (xs ! 8) = Inr (sig_s vrs)"
    by (simp_all add: n tx_items_def toInt_u256 del: enc.simps)
  show "toInt_int (xs ! 6) = Inr (v_item t vrs)"
    using assms(3,4) toInt_int_enc [of "nat (v_item t vrs)"] by (simp add: n tx_items_def nat_less_iff del: enc.simps)
  show "isData (xs ! 5)" "toBytes LaissezFaire (xs ! 5) = Inr (t_data t)"
    using toBytes_enc [of "t_data t" LaissezFaire] assms(1) by (simp_all add: n tx_items_def max_rlp_def del: enc.simps)
  show "isEmpty (xs ! 3) = (t_type t = ContractCreation)"
    using empty_item address_item(2) [of "t_receiveAddress t"] assms(2) by (cases "t_type t") (simp_all add: n tx_items_def del: enc.simps)
  show "toHash 20 VeryStrict (xs ! 3) = Inr (address_bytes (t_receiveAddress t))" if "t_type t \<noteq> ContractCreation"
    using that assms(2) address_item(1) [of "t_receiveAddress t"] by (cases "t_type t") (simp_all add: n tx_items_def del: enc.simps)
qed

text \<open>(C16) Transactions survive serialisation: for every transaction with a signature that the format can carry (the recovery number is 0 or 1,
  the chain is absent or in range), \<open>streamRLP\<close> writes one RLP list of nine items and the constructor reads back exactly the same transaction
  from it, with empty caches; the length of the data and the value of every field are arbitrary. With the check of the signature
  enabled the result is the same if the signature is valid.\<close>

theorem transaction_rlp_roundtrip:
  assumes "t_type t \<noteq> NullTransaction" "t_type t = ContractCreation \<longrightarrow> t_receiveAddress t = 0" "length (t_data t) < 2 ^ 63"
    and "sig_ok t" "checkSig = CheckNone \<or> checkSig = CheckCheap \<and> (\<forall>vrs. t_vrs t = Some vrs \<longrightarrow> SignatureStruct_isValid vrs)"
  shows "\<exists>d. tx_rlp True t = Inr d \<and>
    TransactionBase_rlp sha3 recover checkSig d = Inr (t\<lparr>t_hashWith := 0, t_sender := 0\<rparr>)"
proof -
  obtain vrs where vrs: "t_vrs t = Some vrs"
    using assms(4) by (auto simp: sig_ok_def split: option.splits)
  let ?its = "tx_items t vrs" and ?creation = "t_type t = ContractCreation"
  let ?d = "enc (List ?its)" and ?ra = "if ?creation then replicate 20 0 else address_bytes (t_receiveAddress t)"
  note small = tx_items_small [OF assms(3), of vrs]
  have sg: "checkSig = CheckNone \<or> hasZeroSignature t \<or> SignatureStruct_isValid vrs" "checkSig \<noteq> CheckEverything"
    using assms(5) vrs by auto
  note v = read_signature_spec [OF assms(4) vrs sg(1)]
  note items = tx_items_read [OF assms(3,1) v(2,3)]
  have d: "RLP_ctor ?d VeryStrict = Inr ?d" "isList ?d" "itemCount ?d = Inr 9" "reading (map enc ?its) ?d (rlp_of ?d)" "length (map enc ?its) = 9"
    using ctor_enc [of "List ?its"] itemCount_enc [OF small(2,1)] reading_enc [OF small(2,1)] small by (simp_all add: tx_items_def del: enc.simps)
  have zero: "(fromBigEndian (replicate k 0) :: address) = 0" for k
    by (induction k) (simp_all add: fromBigEndian_def)
  have "fromBigEndian ?ra = t_receiveAddress t"
    using assms(2) zero by (simp add: address_item(3))
  moreover have "(if ?creation then ContractCreation else MessageCall) = t_type t"
    using assms(1) by (cases "t_type t") simp_all
  ultimately have "TransactionBase_rlp sha3 recover checkSig ?d = Inr (t\<lparr>t_hashWith := 0, t_sender := 0\<rparr>)"
    using TransactionBase_reads [OF d items(1-8) _ _ items(10,11) v(1) sg(2), of ?ra sha3 recover] items(9) vrs by simp
  then show ?thesis
    using tx_rlp_enc [OF assms(1) vrs assms(3)] by blast
qed

theorem transaction_rlp_roundtrip_witness:
  "\<exists>t. t_type t = MessageCall \<and> t_data t = [1, 2] \<and> t_chainId t = 1 \<and> (\<exists>d. tx_rlp True t = Inr d \<and>
    TransactionBase_rlp (\<lambda>_. 0) (\<lambda>_ _. 0) CheckCheap d = Inr (t\<lparr>t_hashWith := 0, t_sender := 0\<rparr>))"
  by (rule exI [of _ "(TransactionBase_call 7 1 21000 5 [1, 2] 3)\<lparr>t_vrs := Some \<lparr>sig_r = 1, sig_s = 2, sig_v = 1\<rparr>, t_chainId := 1\<rparr>"],
      intro conjI transaction_rlp_roundtrip)
    (simp_all add: TransactionBase_call_def TransactionBase_null_def sig_ok_def hasZeroSignature_def isZeroSignature_def
      SignatureStruct_isValid_def)

end
