(* ===== verification/SealEngine.thy ===== *)
theory SealEngine
  imports Transaction
begin

text \<open>
  The rules of the chain: \<open>ChainOperationParams\<close> of \<open>libwingcore/ChainOperationParams.h\<close> and the part of \<open>SealEngineFace\<close> and \<open>SealEngineBase\<close> of
  \<open>libwingcore/SealEngine.h\<close> that execution of transactions uses: the gas schedule of a block, the precompiled contracts and the check of a
  transaction. Block numbers are \<open>int64_t\<close> in the header; they are not negative, and are passed as \<open>u256\<close>. Prices and bodies of the
  precompiled contracts are fields of the parameters.
\<close>

section \<open>Parameters\<close>

record PrecompiledContract =
  pc_cost :: "bytes \<Rightarrow> nat"
  pc_execute :: "bytes \<Rightarrow> bool \<times> bytes"
  pc_startingBlock :: u256

text \<open>The constructor for a price of \<open>base\<close> and \<open>word\<close> for each word of the input.\<close>

definition PrecompiledContract_words :: "nat \<Rightarrow> nat \<Rightarrow> (bytes \<Rightarrow> bool \<times> bytes) \<Rightarrow> u256 \<Rightarrow> PrecompiledContract" where
  "PrecompiledContract_words base word exec startingBlock =
     \<lparr>pc_cost = (\<lambda>i. base + (length i + 31) div 32 * word), pc_execute = exec, pc_startingBlock = startingBlock\<rparr>"

definition c_infiniteBlockNumer :: u256 where
  "c_infiniteBlockNumer = 2 ^ 63 - 1"

record ChainOperationParams =
  cp_blockReward :: u256
  maximumExtraDataSize :: u256
  accountStartNonce :: u256
  tieBreakingGas :: bool
  minGasLimit :: u256
  maxGasLimit :: u256
  gasLimitBoundDivisor :: u256
  homesteadForkBlock :: u256
  EIP150ForkBlock :: u256
  EIP158ForkBlock :: u256
  byzantiumForkBlock :: u256
  eWASMForkBlock :: u256
  constantinopleForkBlock :: u256
  daoHardforkBlock :: u256
  chainID :: int
  networkID :: int
  minimumDifficulty :: u256
  difficultyBoundDivisor :: u256
  durationLimit :: u256
  allowFutureBlocks :: bool
  precompiled :: "address \<rightharpoonup> PrecompiledContract"

definition ChainOperationParams_new :: ChainOperationParams where
  "ChainOperationParams_new = \<lparr>cp_blockReward = 0x4563918244F40000, maximumExtraDataSize = 1024, accountStartNonce = 0, tieBreakingGas = True,
     minGasLimit = 0x1388, maxGasLimit = 0x7fffffffffffffff, gasLimitBoundDivisor = 0x0400,
     homesteadForkBlock = c_infiniteBlockNumer, EIP150ForkBlock = c_infiniteBlockNumer, EIP158ForkBlock = c_infiniteBlockNumer,
     byzantiumForkBlock = c_infiniteBlockNumer, eWASMForkBlock = c_infiniteBlockNumer, constantinopleForkBlock = c_infiniteBlockNumer,
     daoHardforkBlock = c_infiniteBlockNumer, chainID = 0, networkID = 0, minimumDifficulty = 0x020000,
     difficultyBoundDivisor = 0x0800, durationLimit = 0x0d, allowFutureBlocks = False, precompiled = Map.empty\<rparr>"

definition scheduleForBlockNumber :: "ChainOperationParams \<Rightarrow> u256 \<Rightarrow> EVMSchedule" where
  "scheduleForBlockNumber p blockNumber =
     (if blockNumber \<ge> constantinopleForkBlock p then ConstantinopleSchedule
      else if blockNumber \<ge> eWASMForkBlock p then EWASMSchedule
      else if blockNumber \<ge> byzantiumForkBlock p then ByzantiumSchedule
      else if blockNumber \<ge> EIP158ForkBlock p then EIP158Schedule
      else if blockNumber \<ge> EIP150ForkBlock p then EIP150Schedule
      else if blockNumber \<ge> homesteadForkBlock p then HomesteadSchedule
      else FrontierSchedule)"

definition params_blockReward :: "ChainOperationParams \<Rightarrow> EVMSchedule \<Rightarrow> u256" where
  "params_blockReward p sch = (case blockRewardOverwrite sch of Some r \<Rightarrow> r | None \<Rightarrow> cp_blockReward p)"

definition setBlockReward :: "u256 \<Rightarrow> ChainOperationParams \<Rightarrow> ChainOperationParams" where
  "setBlockReward newBlockReward p = p\<lparr>cp_blockReward := newBlockReward\<rparr>"

section \<open>The seal engine\<close>

definition blockReward :: "ChainOperationParams \<Rightarrow> u256 \<Rightarrow> u256" where
  "blockReward p blockNumber = params_blockReward p (scheduleForBlockNumber p blockNumber)"

definition isPrecompiled :: "ChainOperationParams \<Rightarrow> address \<Rightarrow> u256 \<Rightarrow> bool" where
  "isPrecompiled p a blockNumber = (case precompiled p a of None \<Rightarrow> False | Some c \<Rightarrow> blockNumber \<ge> pc_startingBlock c)"

text \<open>\<open>at\<close> of the table; it is called for an address that \<open>isPrecompiled\<close> accepts.\<close>

definition costOfPrecompiled :: "ChainOperationParams \<Rightarrow> address \<Rightarrow> bytes \<Rightarrow> nat" where
  "costOfPrecompiled p a i = (case precompiled p a of Some c \<Rightarrow> pc_cost c i | None \<Rightarrow> 0)"

definition executePrecompiled :: "ChainOperationParams \<Rightarrow> address \<Rightarrow> bytes \<Rightarrow> bool \<times> bytes" where
  "executePrecompiled p a i = (case precompiled p a of Some c \<Rightarrow> pc_execute c i | None \<Rightarrow> (False, []))"

section \<open>Checking a transaction\<close>

record ImportRequirements =
  TransactionBasic :: bool
  TransactionSignatures :: bool

definition Everything :: ImportRequirements where
  "Everything = \<lparr>TransactionBasic = True, TransactionSignatures = True\<rparr>"

datatype tx_reject =
    BadSignature tx_error
  | InvalidZeroSignatureTransaction
  | OutOfGasIntrinsic
  | BlockGasLimitReached

definition verifyTransaction ::
  "ChainOperationParams \<Rightarrow> ImportRequirements \<Rightarrow> TransactionBase \<Rightarrow> u256 \<Rightarrow> u256 \<Rightarrow> u256 \<Rightarrow> tx_reject option"
where
  "verifyTransaction p ir t number gasLimit gasUsed =
     (if TransactionSignatures ir \<and> number < EIP158ForkBlock p \<and> isReplayProtected t then Some (BadSignature InvalidSignature)
      else if TransactionSignatures ir \<and> number < constantinopleForkBlock p \<and> hasZeroSignature t then Some (BadSignature InvalidSignature)
      else if TransactionBasic ir \<and> number \<ge> constantinopleForkBlock p \<and> hasZeroSignature t \<and>
        (t_value t \<noteq> 0 \<or> t_gasPrice t \<noteq> 0 \<or> t_nonce t \<noteq> 0) then Some InvalidZeroSignatureTransaction
      else
        (case (if number \<ge> homesteadForkBlock p \<and> TransactionSignatures ir \<and> hasSignature t then checkLowS t else Inr ()) of
           Inl e \<Rightarrow> Some (BadSignature e)
         | Inr _ \<Rightarrow>
             let base = baseGasRequired (isCreation t) (t_data t) (scheduleForBlockNumber p number) in
             if TransactionBasic ir \<and> base > unat (t_gas t) then Some OutOfGasIntrinsic
             else if unat gasUsed + unat (t_gas t) > unat gasLimit then Some BlockGasLimitReached
             else None))"

section \<open>Laws\<close>

lemma scheduleForBlockNumber_ok: "schedule_ok (scheduleForBlockNumber p n)"
  using schedule_ok_schedules by (simp add: scheduleForBlockNumber_def schedules_def)

text \<open>What an accepted transaction satisfies.\<close>

lemma verifyTransaction_accepts:
  assumes "verifyTransaction p Everything t number gasLimit gasUsed = None"
  shows "baseGasRequired (isCreation t) (t_data t) (scheduleForBlockNumber p number) \<le> unat (t_gas t)"
    "unat gasUsed + unat (t_gas t) \<le> unat gasLimit"
    "hasZeroSignature t \<Longrightarrow> t_value t = 0 \<and> t_gasPrice t = 0 \<and> t_nonce t = 0 \<and> constantinopleForkBlock p \<le> number"
  using assms by (auto simp: verifyTransaction_def Everything_def Let_def not_less split: if_splits sum.splits)

end
