(* ===== verification/Receipt.thy ===== *)
theory Receipt
  imports ExtVMFace Transaction
begin

text \<open>
  Log blooms and transaction receipts: the bloom functions of \<open>libdevcore/FixedHash.h\<close>, \<open>LogEntry\<close> of \<open>libwingcore/LogEntry.h\<close> and \<open>LogEntry.cpp\<close>, and
  \<open>TransactionReceipt\<close> of \<open>libwing/TransactionReceipt.h\<close> and \<open>TransactionReceipt.cpp\<close>. A \<open>FixedHash\<close> is here the list of its bytes. Reading a receipt from RLP is left out.
\<close>

unbundle bit_operations_syntax

section \<open>Bloom filters\<close>

definition hash_or :: "bytes \<Rightarrow> bytes \<Rightarrow> bytes" where
  "hash_or h c = map2 (\<lambda>a b. a OR b) h c"

definition hash_contains :: "bytes \<Rightarrow> bytes \<Rightarrow> bool" where
  "hash_contains h c \<longleftrightarrow> map2 (\<lambda>a b. a AND b) h c = c"

fun StaticLog2 :: "nat \<Rightarrow> nat" where
  "StaticLog2 n = (if n \<le> 1 then 0 else 1 + StaticLog2 (n div 2))"

declare StaticLog2.simps [simp del]

text \<open>\<open>bloomPart<P, M>\<close>: the loop over the parts, from the byte at which the pointer \<open>p\<close> stands.\<close>

fun bloom_loop :: "nat \<Rightarrow> nat \<Rightarrow> nat \<Rightarrow> bytes \<Rightarrow> bytes \<Rightarrow> bytes" where
  "bloom_loop 0 m c_bloomBytes p acc = acc"
| "bloom_loop (Suc i) m c_bloomBytes p acc =
     (let index = be_nat (take c_bloomBytes p) mod 2 ^ 32 mod (m * 8);
          k = m - 1 - index div 8 in
      bloom_loop i m c_bloomBytes (drop c_bloomBytes p) (acc[k := acc ! k OR push_bit (index mod 8) 1]))"

definition bloomPart :: "nat \<Rightarrow> nat \<Rightarrow> bytes \<Rightarrow> bytes" where
  "bloomPart p m h = bloom_loop p m ((StaticLog2 (m * 8) + 7) div 8) h (replicate m 0)"

definition shiftBloom :: "nat \<Rightarrow> bytes \<Rightarrow> bytes \<Rightarrow> bytes" where
  "shiftBloom p h this = hash_or this (bloomPart p (length this) h)"

definition containsBloom :: "nat \<Rightarrow> bytes \<Rightarrow> bytes \<Rightarrow> bool" where
  "containsBloom p h this = hash_contains this (bloomPart p (length this) h)"

section \<open>Logs\<close>

definition LogEntry_bloom :: "(bytes \<Rightarrow> h256) \<Rightarrow> LogEntry \<Rightarrow> bytes" where
  "LogEntry_bloom sha3 l =
     foldl (\<lambda>acc t. shiftBloom 3 (hash_bytes (sha3 (hash_bytes t))) acc)
       (shiftBloom 3 (hash_bytes (sha3 (address_bytes (le_address l)))) (replicate 256 0)) (le_topics l)"

definition bloom :: "(bytes \<Rightarrow> h256) \<Rightarrow> LogEntry list \<Rightarrow> bytes" where
  "bloom sha3 ls = foldl (\<lambda>acc l. hash_or acc (LogEntry_bloom sha3 l)) (replicate 256 0) ls"

definition LogEntry_streamRLP :: "LogEntry \<Rightarrow> rlp_stream \<Rightarrow> rlp_error + rlp_stream" where
  "LogEntry_streamRLP l s =
     ebind (appendList 3 s) (append_all (\<lambda>f. f)
       [append_hash (address_bytes (le_address l)) False False,
        appendVector (\<lambda>t. append_hash (hash_bytes t) False False) (le_topics l),
        append_bytes (le_data l) False])"

section \<open>Receipts\<close>

record TransactionReceipt =
  tr_statusCodeOrStateRoot :: "byte + h256"
  tr_gasUsed :: u256
  tr_bloom :: bytes
  tr_log :: "LogEntry list"

definition TransactionReceipt_root :: "(bytes \<Rightarrow> h256) \<Rightarrow> h256 \<Rightarrow> u256 \<Rightarrow> LogEntry list \<Rightarrow> TransactionReceipt" where
  "TransactionReceipt_root sha3 root gasUsed log =
     \<lparr>tr_statusCodeOrStateRoot = Inr root, tr_gasUsed = gasUsed, tr_bloom = bloom sha3 log, tr_log = log\<rparr>"

definition TransactionReceipt_status :: "(bytes \<Rightarrow> h256) \<Rightarrow> byte \<Rightarrow> u256 \<Rightarrow> LogEntry list \<Rightarrow> TransactionReceipt" where
  "TransactionReceipt_status sha3 status gasUsed log =
     \<lparr>tr_statusCodeOrStateRoot = Inl status, tr_gasUsed = gasUsed, tr_bloom = bloom sha3 log, tr_log = log\<rparr>"

definition hasStatusCode :: "TransactionReceipt \<Rightarrow> bool" where
  "hasStatusCode r = (case tr_statusCodeOrStateRoot r of Inl _ \<Rightarrow> True | Inr _ \<Rightarrow> False)"

text \<open>\<open>None\<close>: the exception \<open>TransactionReceiptVersionError\<close>.\<close>

definition statusCode :: "TransactionReceipt \<Rightarrow> byte option" where
  "statusCode r = (case tr_statusCodeOrStateRoot r of Inl c \<Rightarrow> Some c | Inr _ \<Rightarrow> None)"

definition receipt_stateRoot :: "TransactionReceipt \<Rightarrow> h256 option" where
  "receipt_stateRoot r = (case tr_statusCodeOrStateRoot r of Inl _ \<Rightarrow> None | Inr h \<Rightarrow> Some h)"

definition receipt_streamRLP :: "TransactionReceipt \<Rightarrow> rlp_stream \<Rightarrow> rlp_error + rlp_stream" where
  "receipt_streamRLP r s =
     ebind (appendList 4 s) (\<lambda>s.
     ebind (append_all (\<lambda>f. f)
       [case tr_statusCodeOrStateRoot r of Inl c \<Rightarrow> append_bigint (unat c) | Inr h \<Rightarrow> append_hash (hash_bytes h) False False,
        append_bigint (unat (tr_gasUsed r)), append_hash (tr_bloom r) False False] s) (\<lambda>s.
     ebind (appendList (length (tr_log r)) s) (append_all LogEntry_streamRLP (tr_log r))))"

definition receipt_rlp :: "TransactionReceipt \<Rightarrow> rlp_error + bytes" where
  "receipt_rlp r = ebind (receipt_streamRLP r RLPStream_new) out"

section \<open>The filter misses no log\<close>

lemma length_bloom_loop [simp]: "length (bloom_loop i m b p acc) = length acc"
  by (induction i m b p acc rule: bloom_loop.induct) (simp_all add: Let_def)

lemma length_bloomPart [simp]: "length (bloomPart p m h) = m"
  by (simp add: bloomPart_def)

lemma length_hash_or [simp]: "length (hash_or h c) = min (length h) (length c)"
  by (simp add: hash_or_def)

lemma length_shiftBloom [simp]: "length (shiftBloom p h t) = length t"
  by (simp add: shiftBloom_def)

lemma hash_contains_iff: "length h = length c \<Longrightarrow> hash_contains h c \<longleftrightarrow> (\<forall>i < length c. h ! i AND c ! i = c ! i)"
  by (auto simp: hash_contains_def list_eq_iff_nth_eq)

lemma hash_contains_or:
  assumes "length h = length d" "length d = length c"
  shows "hash_contains h c \<Longrightarrow> hash_contains (hash_or h d) c" "hash_contains d c \<Longrightarrow> hash_contains (hash_or h d) c"
proof -
  have "(x OR y) AND z = z" if "x AND z = z \<or> y AND z = z" for x y z :: byte
    using that by (auto simp: bit_eq_iff bit_simps)
  then show "hash_contains h c \<Longrightarrow> hash_contains (hash_or h d) c" "hash_contains d c \<Longrightarrow> hash_contains (hash_or h d) c"
    using assms by (simp_all add: hash_contains_iff) (simp_all add: hash_or_def)
qed

lemma hash_contains_refl: "hash_contains c c"
  by (simp add: hash_contains_iff)

text \<open>An accumulator of the loops: joining with a further filter loses nothing.\<close>

lemma foldl_or_contains:
  assumes "\<And>acc x. length acc = n \<Longrightarrow> \<exists>d. f acc x = hash_or acc d \<and> length d = n \<and> (x = y \<longrightarrow> hash_contains d c)" "length acc = n" "length c = n"
  shows "length (foldl f acc xs) = n" "hash_contains acc c \<or> y \<in> set xs \<Longrightarrow> hash_contains (foldl f acc xs) c"
proof -
  have "length (foldl f acc xs) = n \<and> (hash_contains acc c \<or> y \<in> set xs \<longrightarrow> hash_contains (foldl f acc xs) c)"
    using assms(2)
  proof (induction xs arbitrary: acc)
    case (Cons x xs)
    obtain d where "f acc x = hash_or acc d" "length d = n" "x = y \<longrightarrow> hash_contains d c"
      using assms(1) Cons.prems by blast
    then show ?case
      using Cons.IH [of "f acc x"] Cons.prems hash_contains_or [of acc d c] assms(3) by auto
  qed simp
  then show "length (foldl f acc xs) = n" "hash_contains acc c \<or> y \<in> set xs \<Longrightarrow> hash_contains (foldl f acc xs) c"
    by simp_all
qed

lemma LogEntry_bloom_contains:
  shows "length (LogEntry_bloom sha3 l) = 256"
    "hash_contains (LogEntry_bloom sha3 l) (bloomPart 3 256 (hash_bytes (sha3 (address_bytes (le_address l)))))"
    "t \<in> set (le_topics l) \<Longrightarrow> hash_contains (LogEntry_bloom sha3 l) (bloomPart 3 256 (hash_bytes (sha3 (hash_bytes t))))"
proof -
  let ?f = "\<lambda>acc t. shiftBloom 3 (hash_bytes (sha3 (hash_bytes t))) acc"
  let ?a = "bloomPart 3 256 (hash_bytes (sha3 (address_bytes (le_address l))))"
  let ?acc = "shiftBloom 3 (hash_bytes (sha3 (address_bytes (le_address l)))) (replicate 256 0)"
  have f: "\<exists>d. ?f acc x = hash_or acc d \<and> length d = 256 \<and>
      (x = y \<longrightarrow> hash_contains d (bloomPart 3 256 (hash_bytes (sha3 (hash_bytes y)))))" if "length acc = 256" for acc x y
    using that hash_contains_refl by (auto simp: shiftBloom_def)
  have a: "hash_contains ?acc ?a"
    using hash_contains_or(2) [of "replicate 256 0" ?a ?a] hash_contains_refl by (simp add: shiftBloom_def)
  show "length (LogEntry_bloom sha3 l) = 256"
    unfolding LogEntry_bloom_def by (rule foldl_or_contains(1) [OF f]) simp_all
  show "t \<in> set (le_topics l) \<Longrightarrow> hash_contains (LogEntry_bloom sha3 l) (bloomPart 3 256 (hash_bytes (sha3 (hash_bytes t))))"
    unfolding LogEntry_bloom_def by (rule foldl_or_contains(2) [OF f]) simp_all
  have "hash_contains (foldl ?f acc ts) ?a" if "hash_contains acc ?a" "length acc = 256" for ts acc
    using that
  proof (induction ts arbitrary: acc)
    case (Cons t ts)
    then show ?case
      using hash_contains_or(1) [of acc "bloomPart 3 256 (hash_bytes (sha3 (hash_bytes t)))" ?a] by (simp add: shiftBloom_def)
  qed simp
  with a show "hash_contains (LogEntry_bloom sha3 l) ?a"
    unfolding LogEntry_bloom_def by simp
qed

lemma bloom_contains:
  assumes "l \<in> set ls" "hash_contains (LogEntry_bloom sha3 l) c" "length c = 256"
  shows "hash_contains (bloom sha3 ls) c" "length (bloom sha3 ls) = 256"
proof -
  have f: "\<exists>d. hash_or acc (LogEntry_bloom sha3 x) = hash_or acc d \<and> length d = 256 \<and> (x = l \<longrightarrow> hash_contains d c)" for acc x
    using LogEntry_bloom_contains(1) assms(2) by blast
  show "hash_contains (bloom sha3 ls) c" "length (bloom sha3 ls) = 256"
    using foldl_or_contains [of 256 "\<lambda>acc l. hash_or acc (LogEntry_bloom sha3 l)" l c, OF f] assms unfolding bloom_def by simp_all
qed

text \<open>(C15) The bloom filter of a receipt misses no log: for every log of the receipt, of either kind, a search for the address of the log or
  for one of its topics finds the filter positive.\<close>

theorem receipt_bloom_complete:
  assumes "r = TransactionReceipt_root sha3 root g ls \<or> r = TransactionReceipt_status sha3 c g ls" "l \<in> set (tr_log r)"
  shows "containsBloom 3 (hash_bytes (sha3 (address_bytes (le_address l)))) (tr_bloom r) \<and>
    (\<forall>t \<in> set (le_topics l). containsBloom 3 (hash_bytes (sha3 (hash_bytes t))) (tr_bloom r))"
proof -
  have r: "tr_bloom r = bloom sha3 ls" "l \<in> set ls"
    using assms by (auto simp: TransactionReceipt_root_def TransactionReceipt_status_def)
  have "length (bloom sha3 ls) = 256"
    by (rule bloom_contains(2) [OF r(2) LogEntry_bloom_contains(2)]) simp
  then show ?thesis
    using bloom_contains(1) [OF r(2) LogEntry_bloom_contains(2)] bloom_contains(1) [OF r(2) LogEntry_bloom_contains(3)]
    by (simp add: containsBloom_def r(1))
qed

theorem receipt_bloom_complete_witness:
  "containsBloom 3 (hash_bytes (7 * fromBigEndian (address_bytes 5)))
     (tr_bloom (TransactionReceipt_status (\<lambda>b. 7 * fromBigEndian b) 1 21000 [\<lparr>le_address = 5, le_topics = [9], le_data = [1]\<rparr>]))"
  using receipt_bloom_complete [of "TransactionReceipt_status (\<lambda>b. 7 * fromBigEndian b) 1 21000 [\<lparr>le_address = 5, le_topics = [9], le_data = [1]\<rparr>]"
      "\<lambda>b. 7 * fromBigEndian b" 0 21000 "[\<lparr>le_address = 5, le_topics = [9], le_data = [1]\<rparr>]" 1 "\<lparr>le_address = 5, le_topics = [9], le_data = [1]\<rparr>"]
  by (simp add: TransactionReceipt_status_def)

end
