(* ===== verification/Executive.thy ===== *)
theory Executive
  imports LegacyVMFrame NativeStorage SealEngine Receipt
begin

text \<open>
  Execution of calls, creations and transactions: class \<open>Executive\<close> of \<open>libwing/Executive.h\<close> and \<open>Executive.cpp\<close>, class \<open>ExtVM\<close> of \<open>libwing/ExtVM.h\<close> and
  \<open>ExtVM.cpp\<close>, which gives the interpreter access to the world state, and \<open>State::execute\<close>. An \<open>Executive\<close> makes an \<open>ExtVM\<close> and runs the
  interpreter on it; a call or creation of the running code makes the next \<open>Executive\<close>, one level deeper. The operations below take the
  function \<open>run\<close> for the \<open>go\<close> of that nested \<open>Executive\<close>; \<open>go\<close> closes the recursion with a bound on the number of levels.
  Tracing, logging and the move to another thread stack at a certain depth are left out.
\<close>

section \<open>Data\<close>

datatype TransactionException =
    TE_None
  | TE_Unknown
  | TE_BadRLP
  | TE_InvalidFormat
  | TE_OutOfGasIntrinsic
  | TE_InvalidSignature
  | TE_InvalidNonce
  | TE_NotEnoughCash
  | TE_OutOfGasBase
  | TE_BlockGasLimitReached
  | TE_BadInstruction
  | TE_BadJumpDestination
  | TE_OutOfGas
  | TE_OutOfStack
  | TE_StackUnderflow
  | TE_RevertInstruction
  | TE_InvalidZeroSignatureFormat
  | TE_AddressAlreadyUsed

datatype CodeDeposit = CodeDeposit_None | CodeDeposit_Failed | CodeDeposit_Success

record ExecutionResult =
  er_gasUsed :: u256
  er_excepted :: TransactionException
  er_newAddress :: address
  er_output :: bytes
  er_codeDeposit :: CodeDeposit
  er_gasRefunded :: u256
  er_depositSize :: nat
  er_gasForDeposit :: u256

definition ExecutionResult_new :: ExecutionResult where
  "ExecutionResult_new = \<lparr>er_gasUsed = 0, er_excepted = TE_Unknown, er_newAddress = 0, er_output = [], er_codeDeposit = CodeDeposit_None,
     er_gasRefunded = 0, er_depositSize = 0, er_gasForDeposit = 0\<rparr>"

text \<open>
  What leaves an \<open>Executive\<close> as an exception. \<open>LengthError\<close> is the exception of a vector that would have \<open>2 ^ 64\<close> elements.
  \<open>ProcessExit\<close> is the call of \<open>exit\<close> in \<open>go\<close>. \<open>Undefined\<close> marks undefined behaviour, \<open>UndefinedTier\<close>
  that of the interpreter at an undefined opcode, and \<open>Diverges\<close> an execution that does not end within the levels it was given.
\<close>

datatype exec_error =
    StateExc state_error
  | TxExc tx_error
  | Rejected tx_reject
  | InvalidNonce
  | LengthError
  | ProcessExit
  | Undefined
  | UndefinedTier
  | Diverges

text \<open>The order of the tests of \<open>toTransactionException\<close> does not matter: the exceptions do not derive from one another.\<close>

definition toTransactionException_tx :: "tx_error \<Rightarrow> TransactionException" where
  "toTransactionException_tx e = (case e of TxRLP _ \<Rightarrow> TE_BadRLP | InvalidSignature \<Rightarrow> TE_InvalidSignature | _ \<Rightarrow> TE_Unknown)"

definition toTransactionException_reject :: "tx_reject \<Rightarrow> TransactionException" where
  "toTransactionException_reject e = (case e of
     BadSignature t \<Rightarrow> toTransactionException_tx t
   | InvalidZeroSignatureTransaction \<Rightarrow> TE_Unknown
   | OutOfGasIntrinsic \<Rightarrow> TE_OutOfGasIntrinsic
   | BlockGasLimitReached \<Rightarrow> TE_BlockGasLimitReached)"

definition toTransactionException_vm :: "'e vm_error \<Rightarrow> TransactionException" where
  "toTransactionException_vm e = (case e of
     BadInstruction \<Rightarrow> TE_BadInstruction
   | BadJumpDestination \<Rightarrow> TE_BadJumpDestination
   | OutOfGas \<Rightarrow> TE_OutOfGas
   | OutOfStack \<Rightarrow> TE_OutOfStack
   | StackUnderflow \<Rightarrow> TE_StackUnderflow
   | _ \<Rightarrow> TE_Unknown)"

definition transactionExceptionToEvmcStatusCode :: "TransactionException \<Rightarrow> evmc_status_code" where
  "transactionExceptionToEvmcStatusCode ex = (case ex of
     TE_None \<Rightarrow> EVMC_SUCCESS
   | TE_RevertInstruction \<Rightarrow> EVMC_REVERT
   | TE_OutOfGas \<Rightarrow> EVMC_OUT_OF_GAS
   | TE_BadInstruction \<Rightarrow> EVMC_UNDEFINED_INSTRUCTION
   | TE_OutOfStack \<Rightarrow> EVMC_STACK_OVERFLOW
   | TE_StackUnderflow \<Rightarrow> EVMC_STACK_UNDERFLOW
   | TE_BadJumpDestination \<Rightarrow> EVMC_BAD_JUMP_DESTINATION
   | _ \<Rightarrow> EVMC_FAILURE)"

text \<open>
  The surroundings of an execution: the hash function, the recovery of public keys, the roots of storage and account tries, the
  parameters of the chain, and the block with the hashes of its ancestors and the gas used before.
\<close>

record exec_context =
  cx_sha3 :: "bytes \<Rightarrow> h256"
  cx_recover :: "SignatureStruct \<Rightarrow> h256 \<Rightarrow> u512"
  cx_storageRoot :: "(u256 \<rightharpoonup> bytes) \<Rightarrow> h256"
  cx_stateRoot :: "(address \<rightharpoonup> bytes) \<Rightarrow> h256"
  cx_params :: ChainOperationParams
  cx_info :: EnvInfo
  cx_parentHash :: h256
  cx_precedingHashes :: "h256 \<Rightarrow> h256 list"
  cx_gasUsed :: u256

definition cx_number :: "exec_context \<Rightarrow> u256" where
  "cx_number c = word_of_int (env_number (cx_info c))"

definition cx_schedule :: "exec_context \<Rightarrow> EVMSchedule" where
  "cx_schedule c = scheduleForBlockNumber (cx_params c) (cx_number c)"

text \<open>The members of an \<open>ExtVM\<close> object.\<close>

record ExtVM =
  ev_myAddress :: address
  ev_caller :: address
  ev_origin :: address
  ev_value :: u256
  ev_gasPrice :: u256
  ev_data :: bytes
  ev_code :: bytes
  ev_codeHash :: h256
  ev_sub :: SubState
  ev_depth :: nat
  ev_isCreate :: bool
  ev_staticCall :: bool

record Executive =
  x_ext :: "ExtVM option"
  x_native :: "address option"
  x_output :: bytes
  x_res :: "ExecutionResult option"
  x_depth :: nat
  x_excepted :: TransactionException
  x_baseGasRequired :: nat
  x_gas :: u256
  x_refunded :: u256
  x_t :: TransactionBase
  x_logs :: "LogEntry list"
  x_gasCost :: u256
  x_isCreation :: bool
  x_newAddress :: address
  x_savepoint :: nat

definition Executive_new :: "nat \<Rightarrow> Executive" where
  "Executive_new level = \<lparr>x_ext = None, x_native = None, x_output = [], x_res = None, x_depth = level, x_excepted = TE_None,
     x_baseGasRequired = 0, x_gas = 0, x_refunded = 0, x_t = TransactionBase_null, x_logs = [], x_gasCost = 0, x_isCreation = False,
     x_newAddress = 0, x_savepoint = 0\<rparr>"

section \<open>Operations on the executive and the state\<close>

type_synonym 'a xop = "Executive \<times> state \<Rightarrow> (exec_error + 'a) \<times> Executive \<times> state"

definition xret :: "'a \<Rightarrow> 'a xop" where
  "xret a q = (Inr a, q)"

definition xthrow :: "exec_error \<Rightarrow> 'a xop" where
  "xthrow e q = (Inl e, q)"

definition xbind :: "'a xop \<Rightarrow> ('a \<Rightarrow> 'b xop) \<Rightarrow> 'b xop" where
  "xbind m f q = (case m q of (Inl e, q') \<Rightarrow> (Inl e, q') | (Inr a, q') \<Rightarrow> f a q')"

definition xget :: "(Executive \<Rightarrow> 'a) \<Rightarrow> 'a xop" where
  "xget f q = (Inr (f (fst q)), q)"

definition xset :: "(Executive \<Rightarrow> Executive) \<Rightarrow> unit xop" where
  "xset f q = (Inr (), f (fst q), snd q)"

text \<open>An operation of the state.\<close>

definition xs :: "'a op \<Rightarrow> 'a xop" where
  "xs m q = (case m (snd q) of (Inl e, s) \<Rightarrow> (Inl (StateExc e), fst q, s) | (Inr a, s) \<Rightarrow> (Inr a, fst q, s))"

definition xassert :: "bool \<Rightarrow> unit xop" where
  "xassert b = (if b then xret () else xthrow (StateExc AssertionFailed))"

text \<open>The result if there is a recipient for it.\<close>

definition note_res :: "(Executive \<Rightarrow> ExecutionResult \<Rightarrow> ExecutionResult) \<Rightarrow> unit xop" where
  "note_res f = xset (\<lambda>x. x\<lparr>x_res := map_option (f x) (x_res x)\<rparr>)"

text \<open>\<open>m_t.sender()\<close>, which fills the cache of the transaction.\<close>

definition tx_sender :: "exec_context \<Rightarrow> address xop" where
  "tx_sender c q = (case sender (cx_sha3 c) (cx_recover c) (x_t (fst q)) of (r, t) \<Rightarrow>
     ((case r of Inl e \<Rightarrow> Inl (TxExc e) | Inr a \<Rightarrow> Inr a), (fst q)\<lparr>x_t := t\<rparr>, snd q))"

definition gasUsed :: "Executive \<Rightarrow> u256" where
  "gasUsed x = t_gas (x_t x) - x_gas x"

definition accrueSubState :: "Executive \<Rightarrow> SubState \<Rightarrow> SubState" where
  "accrueSubState x parentContext = (case x_ext x of None \<Rightarrow> parentContext | Some v \<Rightarrow> SubState_add parentContext (ev_sub v))"

definition revert :: "exec_context \<Rightarrow> unit xop" where
  "revert c =
     xbind (xset (\<lambda>x. x\<lparr>x_ext := map_option (\<lambda>v. v\<lparr>ev_sub := SubState_clear (ev_sub v)\<rparr>) (x_ext x), x_newAddress := 0\<rparr>)) (\<lambda>_.
       \<lambda>(x, s). case rollback (cx_sha3 c) (x_savepoint x) s of None \<Rightarrow> (Inl Undefined, x, s) | Some s' \<Rightarrow> (Inr (), x, s'))"

section \<open>Starting a call or a creation\<close>

definition ExtVM_make :: "exec_context \<Rightarrow> ExtVM \<Rightarrow> unit xop" where
  "ExtVM_make c v =
     (if length (ev_data v) \<ge> 2 ^ 64 \<or> length (ev_code v) \<ge> 2 ^ 64 then xthrow LengthError
      else xbind (xs (addressInUse (cx_sha3 c) (ev_myAddress v))) (\<lambda>used.
        xbind (xassert used) (\<lambda>_. xset (\<lambda>x. x\<lparr>x_ext := Some (v\<lparr>ev_depth := x_depth x\<rparr>)\<rparr>))))"

definition note_savepoint :: "unit xop" where
  "note_savepoint = (\<lambda>(x, s). (Inr (), x\<lparr>x_savepoint := savepoint s\<rparr>, s))"

text \<open>The end of \<open>call\<close>; \<open>True\<close> is the answer that there is nothing to run.\<close>

definition call_transfer :: "exec_context \<Rightarrow> CallParameters \<Rightarrow> bool xop" where
  "call_transfer c p =
     xbind (xs (transferBalance (cx_sha3 c) (senderAddress p) (receiveAddress p) (valueTransfer p))) (\<lambda>_. xget (\<lambda>x. x_ext x = None))"

definition call_precompiled :: "exec_context \<Rightarrow> CallParameters \<Rightarrow> bool xop" where
  "call_precompiled c p =
     (let g = costOfPrecompiled (cx_params c) (codeAddress p) (call_data p) in
      if unat (call_gas p) < g then
        xbind (xset (\<lambda>x. x\<lparr>x_excepted := TE_OutOfGasBase\<rparr>)) (\<lambda>_.
        xbind (if cx_number c \<ge> EIP158ForkBlock (cx_params c) then xs (addBalance (cx_sha3 c) (codeAddress p) 0) else xret ()) (\<lambda>_.
        xret True))
      else
        xbind (xset (\<lambda>x. x\<lparr>x_gas := of_nat (unat (call_gas p) - g)\<rparr>)) (\<lambda>_.
        (case executePrecompiled (cx_params c) (codeAddress p) (call_data p) of (success, output) \<Rightarrow>
          if length output \<ge> 2 ^ 64 then xthrow LengthError
          else
            xbind (xset (\<lambda>x. x\<lparr>x_output := output\<rparr>)) (\<lambda>_.
            if \<not> success then xbind (xset (\<lambda>x. x\<lparr>x_gas := 0, x_excepted := TE_OutOfGas\<rparr>)) (\<lambda>_. xret True)
            else call_transfer c p))))"

definition call_code :: "exec_context \<Rightarrow> CallParameters \<Rightarrow> u256 \<Rightarrow> address \<Rightarrow> bool xop" where
  "call_code c p gasPrice org =
     xbind (xset (\<lambda>x. x\<lparr>x_gas := call_gas p\<rparr>)) (\<lambda>_.
     xbind (xs (isNativeContract (cx_sha3 c) (codeAddress p))) (\<lambda>isNative.
     xbind (if isNative then xret True else xs (addressHasCode (cx_sha3 c) (codeAddress p))) (\<lambda>runs.
     xbind
       (if runs then
          xbind (if isNative then xret [] else xs (code (cx_sha3 c) (codeAddress p))) (\<lambda>cd.
          xbind (if isNative then xret 0 else xs (codeHash (cx_sha3 c) (codeAddress p))) (\<lambda>h.
          xbind (ExtVM_make c \<lparr>ev_myAddress = receiveAddress p, ev_caller = senderAddress p, ev_origin = org, ev_value = apparentValue p,
              ev_gasPrice = gasPrice, ev_data = call_data p, ev_code = cd, ev_codeHash = h, ev_sub = SubState_new, ev_depth = 0,
              ev_isCreate = False, ev_staticCall = call_static p\<rparr>) (\<lambda>_.
          if isNative then xset (\<lambda>x. x\<lparr>x_native := Some (codeAddress p)\<rparr>) else xret ())))
        else xret ()) (\<lambda>_.
     call_transfer c p))))"

definition Executive_call :: "exec_context \<Rightarrow> CallParameters \<Rightarrow> u256 \<Rightarrow> address \<Rightarrow> bool xop" where
  "Executive_call c p gasPrice org =
     xbind (xget (\<lambda>x. nonNull (x_t x) \<and>
         (senderAddress p \<noteq> MaxAddress \<or> cx_number c < constantinopleForkBlock (cx_params c)))) (\<lambda>inc.
     xbind (if inc then xs (incNonce (cx_sha3 c) (senderAddress p)) else xret ()) (\<lambda>_.
     xbind note_savepoint (\<lambda>_.
     if isPrecompiled (cx_params c) (codeAddress p) (cx_number c) then call_precompiled c p
     else call_code c p gasPrice org)))"

definition executeCreate :: "exec_context \<Rightarrow> address \<Rightarrow> u256 \<Rightarrow> u256 \<Rightarrow> u256 \<Rightarrow> bytes \<Rightarrow> address \<Rightarrow> bool xop" where
  "executeCreate c sdr endowment gasPrice gas init org =
     xbind (if sdr \<noteq> MaxAddress \<or> cx_number c < constantinopleForkBlock (cx_params c) then xs (incNonce (cx_sha3 c) sdr) else xret ()) (\<lambda>_.
     xbind note_savepoint (\<lambda>_.
     xbind (xset (\<lambda>x. x\<lparr>x_isCreation := True, x_gas := gas\<rparr>)) (\<lambda>_.
     xbind (xget x_newAddress) (\<lambda>newAddress.
     xbind (xs (addressHasCode (cx_sha3 c) newAddress)) (\<lambda>hasCode.
     xbind (if hasCode then xret True else xs (sbind (getNonce (cx_sha3 c) newAddress) (\<lambda>n. sret (n > 0)))) (\<lambda>accountAlreadyExist.
     if accountAlreadyExist then
       xbind (xset (\<lambda>x. x\<lparr>x_gas := 0, x_excepted := TE_AddressAlreadyUsed\<rparr>)) (\<lambda>_.
       xbind (revert c) (\<lambda>_.
       xbind (xset (\<lambda>x. x\<lparr>x_ext := None\<rparr>)) (\<lambda>_. xret True)))
     else
       xbind (xs (transferBalance (cx_sha3 c) sdr newAddress endowment)) (\<lambda>_.
       xbind (xs requireAccountStartNonce) (\<lambda>n.
       xbind (xs (setNonce (cx_sha3 c) newAddress (if cx_number c \<ge> EIP158ForkBlock (cx_params c) then n + 1 else n))) (\<lambda>_.
       xbind (if init \<noteq> [] then
           ExtVM_make c \<lparr>ev_myAddress = newAddress, ev_caller = sdr, ev_origin = org, ev_value = endowment, ev_gasPrice = gasPrice,
             ev_data = [], ev_code = init, ev_codeHash = cx_sha3 c init, ev_sub = SubState_new, ev_depth = 0, ev_isCreate = True, ev_staticCall = False\<rparr>
         else xret ()) (\<lambda>_.
       xget (\<lambda>x. x_ext x = None))))))))))) "

definition createOpcode :: "exec_context \<Rightarrow> address \<Rightarrow> u256 \<Rightarrow> u256 \<Rightarrow> u256 \<Rightarrow> bytes \<Rightarrow> address \<Rightarrow> bool xop" where
  "createOpcode c sdr endowment gasPrice gas init org =
     xbind (xs (getNonce (cx_sha3 c) sdr)) (\<lambda>nonce.
     xbind (xs (lift_rlp (rlpList [append_hash (address_bytes sdr) False False, append_bigint (unat nonce)]))) (\<lambda>bs.
     xbind (xset (\<lambda>x. x\<lparr>x_newAddress := ucast (cx_sha3 c bs)\<rparr>)) (\<lambda>_.
     executeCreate c sdr endowment gasPrice gas init org)))"

definition create2Opcode :: "exec_context \<Rightarrow> address \<Rightarrow> u256 \<Rightarrow> u256 \<Rightarrow> u256 \<Rightarrow> bytes \<Rightarrow> address \<Rightarrow> u256 \<Rightarrow> bool xop" where
  "create2Opcode c sdr endowment gasPrice gas init org salt =
     xbind (xset (\<lambda>x. x\<lparr>x_newAddress :=
         ucast (cx_sha3 c (address_bytes sdr @ toBigEndian (unat salt) 32 @ hash_bytes (cx_sha3 c init)))\<rparr>)) (\<lambda>_.
     executeCreate c sdr endowment gasPrice gas init org)"

section \<open>Transactions\<close>

text \<open>\<open>initialize\<close>: the exceptions are recorded in \<open>m_excepted\<close> and thrown on.\<close>

definition initialize :: "exec_context \<Rightarrow> TransactionBase \<Rightarrow> unit xop" where
  "initialize c t =
     xbind (xset (\<lambda>x. x\<lparr>x_t := t, x_baseGasRequired := baseGasRequired (isCreation t) (t_data t) (cx_schedule c)\<rparr>)) (\<lambda>_.
     (case verifyTransaction (cx_params c) Everything t (cx_number c) (env_gasLimit (cx_info c)) (cx_gasUsed c) of
        Some e \<Rightarrow> xbind (xset (\<lambda>x. x\<lparr>x_excepted := toTransactionException_reject e\<rparr>)) (\<lambda>_. xthrow (Rejected e))
      | None \<Rightarrow>
          if hasZeroSignature t then xret ()
          else
            xbind (\<lambda>q. case tx_sender c q of
                (Inl (TxExc InvalidSignature), x, s) \<Rightarrow> (Inl (TxExc InvalidSignature), x\<lparr>x_excepted := TE_InvalidSignature\<rparr>, s)
              | r \<Rightarrow> r) (\<lambda>a.
            xbind (xs (getNonce (cx_sha3 c) a)) (\<lambda>nonceReq.
            if t_nonce t \<noteq> nonceReq then xbind (xset (\<lambda>x. x\<lparr>x_excepted := TE_InvalidNonce\<rparr>)) (\<lambda>_. xthrow InvalidNonce)
            else
              (let gasCost = unat (t_gas t) * unat (t_gasPrice t);
                   totalCost = unat (t_value t) + gasCost in
               xbind (xs (balance (cx_sha3 c) a)) (\<lambda>b.
               if unat b < totalCost then xbind (xset (\<lambda>x. x\<lparr>x_excepted := TE_NotEnoughCash\<rparr>)) (\<lambda>_. xthrow (StateExc NotEnoughCash))
               else xset (\<lambda>x. x\<lparr>x_gasCost := of_nat gasCost\<rparr>)))))))"

definition execute :: "exec_context \<Rightarrow> bool xop" where
  "execute c =
     xbind (tx_sender c) (\<lambda>a.
     xbind (xget (\<lambda>x. x)) (\<lambda>x.
     xbind (xs (subBalance (cx_sha3 c) a (x_gasCost x))) (\<lambda>_.
     xbind (xassert (t_gas (x_t x) \<ge> of_nat (x_baseGasRequired x))) (\<lambda>_.
     (let t = x_t x; gas = t_gas t - of_nat (x_baseGasRequired x) in
      if isCreation t then createOpcode c a (t_value t) (t_gasPrice t) gas (t_data t) a
      else
        Executive_call c \<lparr>senderAddress = a, codeAddress = t_receiveAddress t, receiveAddress = t_receiveAddress t,
          valueTransfer = t_value t, apparentValue = t_value t, call_gas = gas, call_data = t_data t, call_static = False\<rparr> (t_gasPrice t) a)))))"

fun kill_all :: "(bytes \<Rightarrow> h256) \<Rightarrow> address list \<Rightarrow> unit op" where
  "kill_all sha3 [] = sret ()"
| "kill_all sha3 (a # as) = sbind (kill sha3 a) (\<lambda>_. kill_all sha3 as)"

definition finalize :: "exec_context \<Rightarrow> bool xop" where
  "finalize c =
     xbind (xset (\<lambda>x. x\<lparr>x_ext := map_option (\<lambda>v. v\<lparr>ev_sub := (ev_sub v)\<lparr>refunds := refunds (ev_sub v) +
         of_nat (suicideRefundGas (cx_schedule c)) * of_nat (card (suicides (ev_sub v)))\<rparr>\<rparr>) (x_ext x)\<rparr>)) (\<lambda>_.
     xbind (xset (\<lambda>x. x\<lparr>x_refunded := (case x_ext x of None \<Rightarrow> 0 | Some v \<Rightarrow> min ((t_gas (x_t x) - x_gas x) div 2) (refunds (ev_sub v)))\<rparr>)) (\<lambda>_.
     xbind (xset (\<lambda>x. x\<lparr>x_gas := x_gas x + x_refunded x\<rparr>)) (\<lambda>_.
     xbind (xget (\<lambda>x. x)) (\<lambda>x.
     xbind
       (if nonNull (x_t x) then
          xbind (tx_sender c) (\<lambda>a.
          xbind (xs (addBalance (cx_sha3 c) a (x_gas x * t_gasPrice (x_t x)))) (\<lambda>_.
          xs (addBalance (cx_sha3 c) (env_author (cx_info c)) ((t_gas (x_t x) - x_gas x) * t_gasPrice (x_t x)))))
        else xret ()) (\<lambda>_.
     xbind (case x_ext x of None \<Rightarrow> xret () | Some v \<Rightarrow> xs (kill_all (cx_sha3 c) (sorted_list_of_set (suicides (ev_sub v))))) (\<lambda>_.
     xbind (xset (\<lambda>x. case x_ext x of None \<Rightarrow> x | Some v \<Rightarrow> x\<lparr>x_logs := logs (ev_sub v)\<rparr>)) (\<lambda>_.
     xbind (note_res (\<lambda>x r. r\<lparr>er_gasUsed := gasUsed x, er_excepted := x_excepted x, er_newAddress := x_newAddress x,
         er_gasRefunded := (case x_ext x of None \<Rightarrow> 0 | Some v \<Rightarrow> refunds (ev_sub v))\<rparr>)) (\<lambda>_.
     xget (\<lambda>x. x_excepted x = TE_None)))))))))"

section \<open>A transaction on the state\<close>

datatype Permanence = Reverted | Committed | Uncommitted

text \<open>\<open>executeTransaction\<close>; \<open>run\<close> is \<open>go\<close>.\<close>

definition executeTransaction :: "exec_context \<Rightarrow> unit xop \<Rightarrow> TransactionBase \<Rightarrow> bool xop" where
  "executeTransaction c run t =
     xbind (initialize c t) (\<lambda>_.
     xbind (execute c) (\<lambda>finished.
     xbind (if finished then xret () else run) (\<lambda>_.
     finalize c)))"

definition State_execute ::
  "exec_context \<Rightarrow> unit xop \<Rightarrow> TransactionBase \<Rightarrow> Permanence \<Rightarrow> state \<Rightarrow> (exec_error + ExecutionResult \<times> TransactionReceipt) \<times> state"
where
  "State_execute c run t perm s =
     (case xbind (executeTransaction c run t) (\<lambda>status.
          xbind (xs (case perm of
              Reverted \<Rightarrow> smodify (\<lambda>s. s\<lparr>m_cache := []\<rparr>)
            | Committed \<Rightarrow> WorldState.commit (cx_sha3 c) (cx_storageRoot c)
                (if cx_number c \<ge> EIP158ForkBlock (cx_params c) then RemoveEmptyAccounts else KeepEmptyAccounts)
            | Uncommitted \<Rightarrow> sret ())) (\<lambda>_. xret status)) ((Executive_new 0)\<lparr>x_res := Some ExecutionResult_new\<rparr>, s) of
        (Inl e, _, s') \<Rightarrow> (Inl e, s')
      | (Inr status, x, s') \<Rightarrow>
          (Inr (case x_res x of None \<Rightarrow> ExecutionResult_new | Some r \<Rightarrow> r,
             if cx_number c \<ge> byzantiumForkBlock (cx_params c)
             then TransactionReceipt_status (cx_sha3 c) (of_bool status) (cx_gasUsed c + gasUsed x) (x_logs x)
             else TransactionReceipt_root (cx_sha3 c) (cx_stateRoot c (map_of (m_state s'))) (cx_gasUsed c + gasUsed x) (x_logs x)), s'))"

text \<open>
  \<open>executeBlockTransactions\<close> for the first transactions of a block, \<open>run\<close> being \<open>go\<close> in the surroundings of one transaction.
  The result is the variable \<open>gasUsed\<close> at the end.
\<close>

fun executeBlockTransactions ::
  "exec_context \<Rightarrow> (exec_context \<Rightarrow> unit xop) \<Rightarrow> TransactionBase list \<Rightarrow> u256 \<Rightarrow> state \<Rightarrow> (exec_error + u256) \<times> state"
where
  "executeBlockTransactions c run [] gas s = (Inr gas, s)"
| "executeBlockTransactions c run (t # ts) gas s =
     (let c' = c\<lparr>cx_gasUsed := gas\<rparr> in
      case executeTransaction c' (run c') t (Executive_new 0, s) of
        (Inl z, _, s') \<Rightarrow> (Inl z, s')
      | (Inr _, x, s') \<Rightarrow> executeBlockTransactions c run ts (gas + gasUsed x) s')"

section \<open>The environment of the interpreter\<close>

definition hs :: "'a op \<Rightarrow> (exec_error, state, 'a) hop" where
  "hs m e = (case m (world e) of (Inl z, s) \<Rightarrow> (Inl (StateExc z), e\<lparr>world := s\<rparr>) | (Inr a, s) \<Rightarrow> (Inr a, e\<lparr>world := s\<rparr>))"

text \<open>A nested executive: \<open>start\<close> is \<open>call\<close> or one of the creations; \<open>go\<close> follows when there is something to run.\<close>

definition nested :: "bool xop \<Rightarrow> unit xop \<Rightarrow> ExtVM \<Rightarrow> (Executive \<Rightarrow> 'a) \<Rightarrow> (exec_error, state, 'a) hop" where
  "nested start run v result e =
     (case xbind start (\<lambda>finished. xbind (if finished then xret () else run) (\<lambda>_. xret finished)) (Executive_new (ev_depth v + 1), world e) of
        (Inl z, _, s) \<Rightarrow> (Inl z, e\<lparr>world := s\<rparr>)
      | (Inr finished, x, s) \<Rightarrow>
          if length (x_output x) \<ge> 2 ^ 64 then (Inl LengthError, e\<lparr>world := s\<rparr>)
          else (Inr (result x), e\<lparr>world := s, sub := (if finished then sub e else accrueSubState x (sub e))\<rparr>))"

definition ExtVM_call :: "exec_context \<Rightarrow> unit xop \<Rightarrow> ExtVM \<Rightarrow> CallParameters \<Rightarrow> (exec_error, state, CallResult \<times> u256) hop" where
  "ExtVM_call c run v p =
     nested (Executive_call c p (ev_gasPrice v) (ev_origin v)) run v
       (\<lambda>x. (\<lparr>cr_status = transactionExceptionToEvmcStatusCode (x_excepted x), cr_output = x_output x\<rparr>, x_gas x))"

definition ExtVM_create ::
  "exec_context \<Rightarrow> unit xop \<Rightarrow> ExtVM \<Rightarrow> u256 \<Rightarrow> u256 \<Rightarrow> bytes \<Rightarrow> Instruction \<Rightarrow> u256 \<Rightarrow> (exec_error, state, CreateResult \<times> u256) hop"
where
  "ExtVM_create c run v endowment gas cd op salt =
     nested (if op = 0xf0 then createOpcode c (ev_myAddress v) endowment (ev_gasPrice v) gas cd (ev_origin v)
         else create2Opcode c (ev_myAddress v) endowment (ev_gasPrice v) gas cd (ev_origin v) salt) run v
       (\<lambda>x. (\<lparr>ct_status = transactionExceptionToEvmcStatusCode (x_excepted x), ct_output = x_output x, ct_address = x_newAddress x\<rparr>, x_gas x))"

definition ExtVM_suicide :: "exec_context \<Rightarrow> ExtVM \<Rightarrow> address \<Rightarrow> (exec_error, state, unit) hop" where
  "ExtVM_suicide c v a e =
     (case hs (sbind (balance (cx_sha3 c) (ev_myAddress v)) (\<lambda>b.
          sbind (addBalance (cx_sha3 c) a b) (\<lambda>_. setBalance (cx_sha3 c) (ev_myAddress v) 0))) e of
        (Inl z, e') \<Rightarrow> (Inl z, e')
      | (Inr _, e') \<Rightarrow> (Inr (), e'\<lparr>sub := (sub e')\<lparr>suicides := insert (ev_myAddress v) (suicides (sub e'))\<rparr>\<rparr>))"

definition ExtVM_exists :: "exec_context \<Rightarrow> address \<Rightarrow> (exec_error, state, bool) hop" where
  "ExtVM_exists c a =
     hs (if emptinessIsNonexistence (cx_schedule c) then accountNonemptyAndExisting (cx_sha3 c) a else addressInUse (cx_sha3 c) a)"

definition ExtVM_codeAt :: "exec_context \<Rightarrow> address \<Rightarrow> (exec_error, state, bytes) hop" where
  "ExtVM_codeAt c a e = (case hs (code (cx_sha3 c) a) e of
     (Inl z, e') \<Rightarrow> (Inl z, e') | (Inr cd, e') \<Rightarrow> if length cd \<ge> 2 ^ 64 then (Inl LengthError, e') else (Inr cd, e'))"

definition c_blockhashContractAddress :: address where
  "c_blockhashContractAddress = 0xf0"

text \<open>Up to 256 blocks after the fork the hashes come from the headers. Later on the block hash contract is run as a transaction of its own.\<close>

definition ExtVM_blockHash :: "exec_context \<Rightarrow> unit xop \<Rightarrow> ExtVM \<Rightarrow> u256 \<Rightarrow> (exec_error, state, h256) hop" where
  "ExtVM_blockHash c run v number e =
     (let currentNumber = cx_number c in
      if number \<ge> currentNumber \<or> number < max 256 currentNumber - 256 then (Inr 0, e)
      else if currentNumber < constantinopleForkBlock (cx_params c) + 256 then
        (let lastHashes = cx_precedingHashes c (cx_parentHash c); i = u32 (unat (currentNumber - 1 - number)) in
         if i < length lastHashes then (Inr (lastHashes ! i), e) else (Inl (StateExc AssertionFailed), e))
      else
        (case hs (getNonce (cx_sha3 c) (ev_caller v)) e of
           (Inl z, e') \<Rightarrow> (Inl z, e')
         | (Inr nonce, e') \<Rightarrow>
             (let tx = forceSender (ev_caller v) (TransactionBase_call 0 0 1000000 c_blockhashContractAddress (toBigEndian (unat number) 32) nonce) in
              case State_execute c run tx Reverted (world e') of
                (Inl z, s) \<Rightarrow> (Inl z, e'\<lparr>world := s\<rparr>)
              | (Inr (res, _), s) \<Rightarrow>
                  (Inr (if length (er_output res) = 32 then fromBigEndian (er_output res) else 0), e'\<lparr>world := s\<rparr>))))"

definition ExtVM_face :: "exec_context \<Rightarrow> unit xop \<Rightarrow> ExtVM \<Rightarrow> (exec_error, state) ExtVMFace" where
  "ExtVM_face c run v =
     \<lparr>myAddress = ev_myAddress v, caller = ev_caller v, origin = ev_origin v, ext_value = ev_value v, ext_gasPrice = ev_gasPrice v,
      ext_data = ev_data v, ext_code = ev_code v, ext_depth = ev_depth v, staticCall = ev_staticCall v, envInfo = cx_info c,
      evmSchedule = cx_schedule c,
      ext_store = (\<lambda>n. hs (storage (cx_sha3 c) (ev_myAddress v) n)),
      ext_setStore = (\<lambda>n x. hs (setStorage (cx_sha3 c) (ev_myAddress v) n x)),
      ext_balance = (\<lambda>a. hs (balance (cx_sha3 c) a)),
      ext_codeAt = ExtVM_codeAt c,
      ext_codeSizeAt = (\<lambda>a. hs (codeSize (cx_sha3 c) a)),
      ext_exists = ExtVM_exists c,
      ext_suicide = ExtVM_suicide c v,
      ext_create = ExtVM_create c run v,
      ext_call = ExtVM_call c run v,
      ext_blockHash = ExtVM_blockHash c run v\<rparr>"

section \<open>Running the code\<close>

text \<open>\<open>vm->exec(m_gas, *m_ext)\<close>; the gas and the object are written also when it throws.\<close>

definition exec_vm :: "exec_context \<Rightarrow> unit xop \<Rightarrow> ExtVM \<Rightarrow> (exec_error vm_error + bytes) xop" where
  "exec_vm c run v q =
     (case exec (cx_sha3 c) (ExtVM_face c run v) (x_gas (fst q)) \<lparr>sub = ev_sub v, world = snd q\<rparr> of
        None \<Rightarrow> (Inl Diverges, q)
      | Some (r, g, e) \<Rightarrow> (Inr r, (fst q)\<lparr>x_gas := g, x_ext := Some (v\<lparr>ev_sub := sub e\<rparr>)\<rparr>, world e))"

text \<open>The rest of a creation, when the code \<open>output\<close> is to be stored. The result is the exception, if one is thrown.\<close>

definition store_code :: "exec_context \<Rightarrow> ExtVM \<Rightarrow> bytes \<Rightarrow> exec_error vm_error option xop" where
  "store_code c v output =
     xbind (note_res (\<lambda>_ r. r\<lparr>er_output := output\<rparr>)) (\<lambda>_.
     xbind (xs (setCode (cx_sha3 c) (ev_myAddress v) output)) (\<lambda>_. xret None))"

definition deposit_code :: "exec_context \<Rightarrow> ExtVM \<Rightarrow> bytes \<Rightarrow> exec_error vm_error option xop" where
  "deposit_code c v output =
     xbind (note_res (\<lambda>x r. r\<lparr>er_gasForDeposit := x_gas x, er_depositSize := u32 (length output)\<rparr>)) (\<lambda>_.
     if length output > maxCodeSize (cx_schedule c) then xret (Some OutOfGas)
     else
       (let cost = u64 (length output * createDataGas (cx_schedule c)) in
        xbind (xget x_gas) (\<lambda>gas.
        if cost \<le> unat gas then
          xbind (note_res (\<lambda>_ r. r\<lparr>er_codeDeposit := CodeDeposit_Success\<rparr>)) (\<lambda>_.
          xbind (xset (\<lambda>x. x\<lparr>x_gas := x_gas x - of_nat cost\<rparr>)) (\<lambda>_.
          store_code c v output))
        else if exceptionalFailedCodeDeposit (cx_schedule c) then xret (Some OutOfGas)
        else
          xbind (note_res (\<lambda>_ r. r\<lparr>er_codeDeposit := CodeDeposit_Failed\<rparr>)) (\<lambda>_.
          store_code c v []))))"

text \<open>The block of \<open>try\<close>.\<close>

definition go_try :: "exec_context \<Rightarrow> unit xop \<Rightarrow> ExtVM \<Rightarrow> exec_error vm_error option xop" where
  "go_try c run v =
     xbind (xget (\<lambda>x. x)) (\<lambda>x.
     if x_isCreation x then
       xbind (xs (clearStorage (cx_sha3 c) (ev_myAddress v))) (\<lambda>_.
       xbind (exec_vm c run v) (\<lambda>r. case r of Inl e \<Rightarrow> xret (Some e) | Inr output \<Rightarrow> deposit_code c v output))
     else
       (case x_native x of
          Some a \<Rightarrow> xbind (xs (callVM (cx_sha3 c) a (ev_depth v))) (\<lambda>output. xbind (xset (\<lambda>x. x\<lparr>x_output := output\<rparr>)) (\<lambda>_. xret None))
        | None \<Rightarrow>
            xbind (exec_vm c run v) (\<lambda>r. case r of
              Inl e \<Rightarrow> xret (Some e)
            | Inr output \<Rightarrow> xbind (xset (\<lambda>x. x\<lparr>x_output := output\<rparr>)) (\<lambda>_. xret None))))"

definition catching :: "exec_error vm_error option xop \<Rightarrow> exec_error vm_error option xop" where
  "catching m q = (case m q of (Inl z, q') \<Rightarrow> (Inr (Some (External z)), q') | r \<Rightarrow> r)"

text \<open>
  The \<open>catch\<close> clauses. Exceptions that are not of the virtual machine end the process; an assertion, undefined behaviour and divergence are no exceptions.
\<close>

definition escape :: "exec_error \<Rightarrow> exec_error" where
  "escape z = (case z of StateExc AssertionFailed \<Rightarrow> z | Undefined \<Rightarrow> z | UndefinedTier \<Rightarrow> z | Diverges \<Rightarrow> z | _ \<Rightarrow> ProcessExit)"

definition vm_failure :: "exec_context \<Rightarrow> TransactionException \<Rightarrow> unit xop" where
  "vm_failure c te = xbind (xset (\<lambda>x. x\<lparr>x_gas := 0, x_excepted := te\<rparr>)) (\<lambda>_. revert c)"

definition go_catch :: "exec_context \<Rightarrow> exec_error vm_error \<Rightarrow> unit xop" where
  "go_catch c e =
     (case e of
        RevertInstruction output \<Rightarrow>
          xbind (revert c) (\<lambda>_. xset (\<lambda>x. x\<lparr>x_output := output, x_excepted := TE_RevertInstruction\<rparr>))
      | External z \<Rightarrow>
          if z = StateExc AssetContractCalledDirectly then vm_failure c TE_Unknown else xthrow (escape z)
      | UndefinedBehaviour \<Rightarrow> xthrow Undefined
      | TierOutOfRange \<Rightarrow> xthrow UndefinedTier
      | _ \<Rightarrow> vm_failure c (toTransactionException_vm e))"

definition Executive_go :: "exec_context \<Rightarrow> unit xop \<Rightarrow> unit xop" where
  "Executive_go c run =
     xbind (xget x_ext) (\<lambda>ext. case ext of
         None \<Rightarrow> xret ()
       | Some v \<Rightarrow>
           xbind (catching (go_try c run v)) (\<lambda>r.
           xbind (case r of None \<Rightarrow> xret () | Some e \<Rightarrow> go_catch c e) (\<lambda>_.
           note_res (\<lambda>x r. if x_output x \<noteq> [] then r\<lparr>er_output := x_output x\<rparr> else r))))"

text \<open>\<open>go\<close> with at most \<open>n\<close> nested levels of execution.\<close>

primrec go :: "exec_context \<Rightarrow> nat \<Rightarrow> unit xop" where
  "go c 0 = xthrow Diverges"
| "go c (Suc n) = Executive_go c (go c n)"

end
