(* ===== verification/ExecutiveRun.thy ===== *)
theory ExecutiveRun
  imports Executive
begin

text \<open>
  Every execution ends: the nesting of calls is bounded by the depth that the interpreter checks, each run of the interpreter by its gas, and the undo log is never
  rolled back below the savepoint that \<open>revert\<close> returns to. The rules of a weakest-precondition calculus for the operations of \<open>Executive\<close> carry the proofs.
\<close>

section \<open>The undo log only grows\<close>

definition logged :: "state \<Rightarrow> nat" where
  "logged s = length (m_changeLog s)"

definition grows :: "'a op \<Rightarrow> bool" where
  "grows m \<longleftrightarrow> (\<forall>s. logged s \<le> logged (snd (m s)))"

named_theorems grow_rules

lemma grows_basic [grow_rules]: "grows (sret x)" "grows (sthrow e)" "grows (sget f)"
  by (simp_all add: grows_def sret_def sthrow_def sget_def)

lemma grows_sbind [grow_rules]: "grows m \<Longrightarrow> (\<And>x. grows (f x)) \<Longrightarrow> grows (sbind m f)"
  unfolding grows_def
proof
  fix s
  assume m: "\<forall>s. logged s \<le> logged (snd (m s))" and f: "\<And>x. \<forall>s. logged s \<le> logged (snd (f x s))"
  have "logged s \<le> logged (snd (m s))"
    using m by blast
  then show "logged s \<le> logged (snd (sbind m f s))"
    using f by (auto simp: sbind_def split: sum.split prod.split intro: order_trans)
qed

lemma grows_smodify [grow_rules]: "(\<And>s. logged s \<le> logged (f s)) \<Longrightarrow> grows (smodify f)"
  by (simp add: grows_def smodify_def)

lemma grows_if [grow_rules]: "grows m \<Longrightarrow> grows n \<Longrightarrow> grows (if b then m else n)"
  by simp

lemma grows_case_option [grow_rules]: "(\<And>x. grows (f x)) \<Longrightarrow> grows m \<Longrightarrow> grows (case r of None \<Rightarrow> m | Some x \<Rightarrow> f x)"
  by (simp split: option.split)

lemma grows_case_sum [grow_rules]: "(\<And>x. grows (f x)) \<Longrightarrow> (\<And>y. grows (g y)) \<Longrightarrow> grows (case r of Inl x \<Rightarrow> f x | Inr y \<Rightarrow> g y)"
  by (simp split: sum.split)

lemma evict_log [simp]: "m_changeLog (evict i s) = m_changeLog s"
  by (simp add: evict_def Let_def split: option.split)

lemma clearCache_log [simp]: "m_changeLog (clearCacheIfTooLarge s) = m_changeLog s"
  by (induction s rule: clearCacheIfTooLarge.induct) (subst clearCacheIfTooLarge.simps, simp add: draw_def)

lemma on_entry_log [simp]: "m_changeLog (on_entry sha3 a f s) = m_changeLog s"
  by (simp add: on_entry_def)

lemma store_code_size_log [simp]: "m_changeLog (store_code_size h n s) = m_changeLog s"
  by (simp add: store_code_size_def removeRandomElement_def draw_def Let_def)

lemma grows_access [grow_rules]: "grows (find_account sha3 a)" "grows (on_cached a f)" "grows (log_change ch)" "grows requireAccountStartNonce"
  by (auto simp: grows_def logged_def find_account_def on_cached_def smodify_def log_change_def requireAccountStartNonce_def Let_def split: option.splits sum.splits)

lemma grows_queries [grow_rules]:
  "grows (addressInUse sha3 a)" "grows (accountNonemptyAndExisting sha3 a)" "grows (addressHasCode sha3 a)" "grows (balance sha3 a)"
  "grows (getNonce sha3 a)" "grows (codeHash sha3 a)" "grows (storage sha3 a k)" "grows (code sha3 a)"
  unfolding addressInUse_def accountNonemptyAndExisting_def addressHasCode_def balance_def getNonce_def codeHash_def storage_def code_def
  by (intro grow_rules; simp add: logged_def)+

lemma grows_codeSize [grow_rules]: "grows (codeSize sha3 a)"
  unfolding codeSize_def by (intro grow_rules; simp add: logged_def)

lemma grows_create [grow_rules]: "grows (createAccount sha3 a acct)" "grows (createContract sha3 a)"
  unfolding createContract_def createAccount_def by (intro grow_rules; simp add: logged_def)+

lemma grows_updates [grow_rules]:
  "grows (incNonce sha3 a)" "grows (setNonce sha3 a n)" "grows (addBalance sha3 a v)" "grows (setStorage sha3 a k w)" "grows (clearStorage sha3 a)"
  "grows (setCode sha3 a cd)" "grows (kill sha3 a)"
  unfolding incNonce_def setNonce_def addBalance_def setStorage_def clearStorage_def setCode_def kill_def
  by (intro grow_rules; simp add: logged_def)+

lemma grows_balances [grow_rules]:
  "grows (subBalance sha3 a v)" "grows (setBalance sha3 a v)" "grows (transferBalance sha3 a b v)" "grows (kill_all sha3 as)"
proof -
  show "grows (subBalance sha3 a v)" "grows (setBalance sha3 a v)" "grows (transferBalance sha3 a b v)"
    unfolding subBalance_def setBalance_def transferBalance_def by (intro grow_rules)+
  show "grows (kill_all sha3 as)"
    by (induction as) (auto intro: grow_rules)
qed

lemma grows_lift_rlp [grow_rules]: "grows (lift_rlp r)"
  unfolding lift_rlp_def by (intro grow_rules)

lemma grows_getData_loop [grow_rules]: "grows (getData_loop sha3 a k len buf)"
proof (induction sha3 a k len buf rule: getData_loop.induct)
  case (1 sha3 a k len buf)
  then show ?case
    by (subst getData_loop.simps) (auto simp: getWord_def intro!: grow_rules)
qed

lemma grows_getData [grow_rules]: "grows (getData sha3 a k buf)"
  unfolding getData_def getWord_def Let_def by (intro grow_rules)

lemma grows_native [grow_rules]: "grows (isNativeContract sha3 a)" "grows (callVM sha3 a d)"
  unfolding isNativeContract_def callVM_def keyOn_address_def AssetVM_exec_def case_prod_beta by (intro grow_rules)+

lemma rollback_logged: "sp \<le> logged s \<Longrightarrow> \<exists>s'. rollback sha3 sp s = Some s' \<and> logged s' = sp"
proof (induction sha3 sp s rule: rollback.induct)
  case (1 sha3 sp s)
  show ?case
  proof (cases "sp = logged s")
    case True
    then show ?thesis
      by (subst rollback.simps) (simp add: logged_def)
  next
    case False
    then have "m_changeLog s \<noteq> []" "sp \<noteq> length (m_changeLog s)"
      using 1(2) by (auto simp: logged_def)
    then show ?thesis
      using 1(1) 1(2) by (subst rollback.simps) (auto simp: logged_def)
  qed
qed

section \<open>Weakest preconditions\<close>

definition xwp :: "(exec_error \<Rightarrow> Executive \<times> state \<Rightarrow> bool) \<Rightarrow> 'a xop \<Rightarrow> ('a \<Rightarrow> Executive \<times> state \<Rightarrow> bool) \<Rightarrow> Executive \<times> state \<Rightarrow> bool" where
  "xwp E m Q q \<longleftrightarrow> (case m q of (Inr a, q') \<Rightarrow> Q a q' | (Inl z, q') \<Rightarrow> E z q')"

named_theorems xwp_simps

lemma xwp_rules [xwp_simps]:
  "xwp E (xret a) Q1 q = Q1 a q"
  "xwp E (xthrow z) Q2 q = E z q"
  "xwp E (xbind m f) Q3 q = xwp E m (\<lambda>a. xwp E (f a) Q3) q"
  "xwp E (xget g) Q4 q = Q4 (g (fst q)) q"
  "xwp E (xset h) Q q = Q () (h (fst q), snd q)"
  "xwp E (xassert b) Q q = (if b then Q () q else E (StateExc AssertionFailed) q)"
  "xwp E (note_res k) Q q = Q () ((fst q)\<lparr>x_res := map_option (k (fst q)) (x_res (fst q))\<rparr>, snd q)"
  "xwp E note_savepoint Q q = Q () ((fst q)\<lparr>x_savepoint := logged (snd q)\<rparr>, snd q)"
  by (auto simp: xwp_def xret_def xthrow_def xbind_def xget_def xset_def xassert_def note_res_def note_savepoint_def savepoint_def logged_def
      split: sum.splits prod.splits)

lemma xwp_conseq: "xwp E m Q q \<Longrightarrow> (\<And>a q'. Q a q' \<Longrightarrow> R a q') \<Longrightarrow> (\<And>z q'. E z q' \<Longrightarrow> F z q') \<Longrightarrow> xwp F m R q"
  by (auto simp: xwp_def split: sum.splits prod.splits)

lemma xwp_xs:
  assumes "grows m" "\<And>a s'. logged s \<le> logged s' \<Longrightarrow> Q a (x, s')" "\<And>e s'. logged s \<le> logged s' \<Longrightarrow> E (StateExc e) (x, s')"
  shows "xwp E (xs m) Q (x, s)"
proof -
  have "logged s \<le> logged (snd (m s))"
    using assms(1) by (simp add: grows_def)
  then show ?thesis
    using assms(2,3) by (auto simp: xwp_def xs_def split: sum.splits prod.splits)
qed

lemma xwp_tx_sender:
  assumes "\<And>a t'. Q a (x\<lparr>x_t := (x_t x)\<lparr>t_hashWith := fst t', t_sender := snd t'\<rparr>\<rparr>, s)"
    "\<And>z t'. E (TxExc z) (x\<lparr>x_t := (x_t x)\<lparr>t_hashWith := fst t', t_sender := snd t'\<rparr>\<rparr>, s)"
  shows "xwp E (tx_sender c) Q (x, s)"
proof -
  let ?t = "snd (sender (cx_sha3 c) (cx_recover c) (x_t x))"
  have h: "snd (tx_sha3 h b t) = t\<lparr>t_hashWith := t_hashWith (snd (tx_sha3 h b t))\<rparr>" for h b t
    by (auto simp: tx_sha3_def split: sum.split)
  have "?t = (x_t x)\<lparr>t_hashWith := t_hashWith ?t, t_sender := t_sender ?t\<rparr>"
    using h [of "cx_sha3 c" False "x_t x"] by (auto simp: sender_def Let_def split: option.split prod.split sum.split)
  then show ?thesis
    using assms [of _ "(t_hashWith ?t, t_sender ?t)"] by (auto simp: xwp_def tx_sender_def split: prod.splits sum.splits)
qed

lemma xwp_revert:
  assumes "x_savepoint x \<le> logged s"
    "\<And>s'. logged s' = x_savepoint x \<Longrightarrow>
      Q () (x\<lparr>x_ext := map_option (\<lambda>v. v\<lparr>ev_sub := SubState_clear (ev_sub v)\<rparr>) (x_ext x), x_newAddress := 0\<rparr>, s')"
  shows "xwp E (revert c) Q (x, s)"
  using rollback_logged [OF assms(1), of "cx_sha3 c"] assms(2) by (auto simp: xwp_def revert_def xbind_def xset_def split: option.split)

text \<open>The exceptions other than divergence and undefined behaviour, with a log that has not shrunk below \<open>n\<close>.\<close>

definition tame :: "(exec_error \<Rightarrow> bool) \<Rightarrow> bool" where
  "tame D \<longleftrightarrow> (\<forall>z. z \<noteq> Diverges \<and> z \<noteq> Undefined \<longrightarrow> D z)"

definition err_in :: "(exec_error \<Rightarrow> bool) \<Rightarrow> nat \<Rightarrow> exec_error \<Rightarrow> Executive \<times> state \<Rightarrow> bool" where
  "err_in D n z q \<longleftrightarrow> D z \<and> n \<le> logged (snd q)"

text \<open>An executive whose \<open>go\<close> can be called.\<close>

definition go_ready :: "Executive \<Rightarrow> bool" where
  "go_ready x \<longleftrightarrow> (case x_ext x of None \<Rightarrow> True
     | Some v \<Rightarrow> length (ev_data v) < 2 ^ 64 \<and> length (ev_code v) < 2 ^ 64 \<and> ev_depth v = x_depth x)"

section \<open>Starting a call or a creation\<close>

definition starts :: "nat \<Rightarrow> u256 \<Rightarrow> nat \<Rightarrow> Executive \<Rightarrow> bool \<Rightarrow> Executive \<times> state \<Rightarrow> bool" where
  "starts d g n x0 fin q \<longleftrightarrow> (case q of (x, s) \<Rightarrow> x_depth x = d \<and> x_gas x \<le> g \<and> go_ready x \<and> n \<le> x_savepoint x \<and> x_savepoint x \<le> logged s \<and>
     x_t x = x_t x0 \<and> x_res x = x_res x0)"

lemma xwp_ExtVM_make:
  assumes "tame D" "n \<le> logged s"
    "\<And>s'. logged s \<le> logged s' \<Longrightarrow> length (ev_data v) < 2 ^ 64 \<Longrightarrow> length (ev_code v) < 2 ^ 64 \<Longrightarrow> Q () (x\<lparr>x_ext := Some (v\<lparr>ev_depth := x_depth x\<rparr>)\<rparr>, s')"
  shows "xwp (err_in D n) (ExtVM_make c v) Q (x, s)"
  unfolding ExtVM_make_def
  using assms by (auto simp: xwp_simps err_in_def tame_def not_le intro!: xwp_xs grow_rules)

lemma xwp_transfer:
  assumes "tame D" "n \<le> logged s" "\<And>s'. logged s \<le> logged s' \<Longrightarrow> Q (x_ext x = None) (x, s')"
  shows "xwp (err_in D n) (call_transfer c p) Q (x, s)"
  unfolding call_transfer_def using assms by (auto simp: xwp_simps err_in_def tame_def intro!: xwp_xs grow_rules)

lemma Executive_call_starts:
  assumes D: "tame D" and n: "n \<le> logged s" and x: "x_depth x = d" "x_ext x = None" "x_gas x = 0"
  shows "xwp (err_in D n) (Executive_call c p gp org) (starts d (call_gas p) n x) (x, s)"
proof -
  have E: "err_in D n z q" if "z \<noteq> Diverges" "z \<noteq> Undefined" "n \<le> logged (snd q)" for z q
    using that D by (simp add: err_in_def tame_def)
  have g: "call_gas p - of_nat k \<le> call_gas p" if "\<not> unat (call_gas p) < k" for k
    by (rule word_sub_le) (use that in \<open>simp add: word_le_nat_alt unat_of_nat le_trans [OF mod_less_eq_dividend]\<close>)
  have pre: "xwp (err_in D n) (call_precompiled c p) (starts d (call_gas p) n x) (x\<lparr>x_savepoint := logged t\<rparr>, t)" if "logged s \<le> logged t" for t
    unfolding call_precompiled_def Let_def
    using that n x g by (auto simp: xwp_simps starts_def go_ready_def not_le split: prod.split intro!: xwp_xs grow_rules xwp_transfer D E)
  have code: "xwp (err_in D n) (call_code c p gp org) (starts d (call_gas p) n x) (x\<lparr>x_savepoint := logged t\<rparr>, t)" if "logged s \<le> logged t" for t
    unfolding call_code_def
    using that n x by (auto simp: xwp_simps starts_def go_ready_def intro!: xwp_xs grow_rules xwp_ExtVM_make xwp_transfer D E)
  show ?thesis
    unfolding Executive_call_def using n pre code by (auto simp: xwp_simps intro!: xwp_xs grow_rules E)
qed

lemma executeCreate_starts:
  assumes D: "tame D" and n: "n \<le> logged s" and x: "x_depth x = d" "x_ext x = None"
  shows "xwp (err_in D n) (executeCreate c a v gp g ini org) (starts d g n x) (x, s)"
proof -
  have E: "err_in D n z q" if "z \<noteq> Diverges" "z \<noteq> Undefined" "n \<le> logged (snd q)" for z q
    using that D by (simp add: err_in_def tame_def)
  show ?thesis
    unfolding executeCreate_def
    using n x by (auto simp: xwp_simps starts_def go_ready_def intro!: xwp_xs xwp_revert grow_rules xwp_ExtVM_make D E)
qed

lemma create_starts:
  assumes D: "tame D" and n: "n \<le> logged s" and x: "x_depth x = d" "x_ext x = None"
  shows "xwp (err_in D n) (createOpcode c a v gp g ini org) (starts d g n x) (x, s)"
    "xwp (err_in D n) (create2Opcode c a v gp g ini org salt) (starts d g n x) (x, s)"
proof -
  have E: "err_in D n z q" if "z \<noteq> Diverges" "z \<noteq> Undefined" "n \<le> logged (snd q)" for z q
    using that D by (simp add: err_in_def tame_def)
  have e: "xwp (err_in D n) (executeCreate c a v gp g ini org) (starts d g n x) (x\<lparr>x_newAddress := na\<rparr>, t)" if "logged s \<le> logged t" for na t
    by (rule xwp_conseq [OF executeCreate_starts [of D n t "x\<lparr>x_newAddress := na\<rparr>" d]]) (use that n x D in \<open>auto simp: starts_def\<close>)
  show "xwp (err_in D n) (createOpcode c a v gp g ini org) (starts d g n x) (x, s)"
    "xwp (err_in D n) (create2Opcode c a v gp g ini org salt) (starts d g n x) (x, s)"
    unfolding createOpcode_def create2Opcode_def using n by (auto simp: xwp_simps intro!: xwp_xs grow_rules E e)
qed

section \<open>Running\<close>

definition runs :: "(exec_error \<Rightarrow> bool) \<Rightarrow> nat \<Rightarrow> unit xop \<Rightarrow> bool" where
  "runs D d run \<longleftrightarrow> (\<forall>x s n. x_depth x = d \<and> go_ready x \<and> n \<le> x_savepoint x \<and> x_savepoint x \<le> logged s \<longrightarrow>
     xwp (err_in D n) run (\<lambda>_ (x', s'). n \<le> logged s' \<and> x_gas x' \<le> x_gas x \<and> x_t x' = x_t x \<and> (x_res x' = None \<longleftrightarrow> x_res x = None)) (x, s))"

lemma nested_result:
  assumes run: "runs D (ev_depth v + 1) run" and D: "tame D" and n: "n \<le> logged (world e)"
    and st: "xwp (err_in D n) start (starts (ev_depth v + 1) g n (Executive_new (ev_depth v + 1))) (Executive_new (ev_depth v + 1), world e)"
  shows "nested start run v result e = (Inl z, e') \<Longrightarrow> D z \<and> n \<le> logged (world e')"
    "nested start run v result e = (Inr a, e') \<Longrightarrow> (\<exists>x. a = result x \<and> x_gas x \<le> g \<and> length (x_output x) < 2 ^ 64) \<and> n \<le> logged (world e')"
proof -
  let ?x = "Executive_new (ev_depth v + 1)"
  have "xwp (err_in D n) (xbind start (\<lambda>finished. xbind (if finished then xret () else run) (\<lambda>_. xret finished)))
      (\<lambda>_ (x', s'). n \<le> logged s' \<and> x_gas x' \<le> g) (?x, world e)"
    unfolding xwp_rules(3)
  proof (rule xwp_conseq [OF st])
    fix fin q
    assume q: "starts (ev_depth v + 1) g n ?x fin q"
    obtain x s where "q = (x, s)"
      by fastforce
    then show "xwp (err_in D n) (if fin then xret () else run) (\<lambda>a. xwp (err_in D n) (xret fin) (\<lambda>_ (x', s'). n \<le> logged s' \<and> x_gas x' \<le> g)) q"
      using q run [unfolded runs_def, rule_format, of x n s] by (auto simp: xwp_simps starts_def elim!: xwp_conseq)
  qed simp
  then show "nested start run v result e = (Inl z, e') \<Longrightarrow> D z \<and> n \<le> logged (world e')"
    "nested start run v result e = (Inr a, e') \<Longrightarrow> (\<exists>x. a = result x \<and> x_gas x \<le> g \<and> length (x_output x) < 2 ^ 64) \<and> n \<le> logged (world e')"
    using D by (auto simp: nested_def xwp_def err_in_def tame_def split: sum.splits prod.splits if_splits)
qed

lemma hkeepsI:
  assumes "\<And>e z e'. P e \<Longrightarrow> h e = (Inl z, e') \<Longrightarrow> E z e'" "\<And>e a e'. P e \<Longrightarrow> h e = (Inr a, e') \<Longrightarrow> P e'"
  shows "hkeeps P E h"
  unfolding hkeeps_def by (intro allI impI) (auto split: sum.split prod.split intro: assms)

lemma hkeepsD: "hkeeps P E h \<Longrightarrow> P e \<Longrightarrow> h e = (Inl z, e') \<Longrightarrow> E z e'" "hkeeps P E h \<Longrightarrow> P e \<Longrightarrow> h e = (Inr a, e') \<Longrightarrow> P e'"
  by (auto simp: hkeeps_def dest!: spec [of _ e])

lemma hkeeps_hs:
  assumes "grows m" "tame D"
  shows "hkeeps (\<lambda>e. n \<le> logged (world e)) (\<lambda>z e. D z \<and> n \<le> logged (world e)) (hs m)"
  unfolding hkeeps_def
proof (intro allI impI)
  fix e :: "state ext"
  assume "n \<le> logged (world e)"
  moreover have "logged (world e) \<le> logged (snd (m (world e)))"
    using assms(1) by (simp add: grows_def)
  ultimately show "case hs m e of (Inl z, e') \<Rightarrow> D z \<and> n \<le> logged (world e') | (Inr _, e') \<Rightarrow> n \<le> logged (world e')"
    using assms(2) by (auto simp: hs_def tame_def split: sum.splits prod.splits)
qed

text \<open>The environment that \<open>ExtVM\<close> provides satisfies the contract of the interpreter.\<close>

lemma ExtVM_calls:
  assumes "runs D (ev_depth v + 1) run" "tame D" "n \<le> logged (world e)"
  shows "ExtVM_call c run v p e = (Inl z, e') \<Longrightarrow> D z \<and> n \<le> logged (world e')"
    "ExtVM_call c run v p e = (Inr (r, g), e') \<Longrightarrow> g \<le> call_gas p \<and> length (cr_output r) < 2 ^ 64 \<and> n \<le> logged (world e')"
    "ExtVM_create c run v w gas cd op salt e = (Inl z, e') \<Longrightarrow> D z \<and> n \<le> logged (world e')"
    "ExtVM_create c run v w gas cd op salt e = (Inr (q, g), e') \<Longrightarrow> g \<le> gas \<and> length (ct_output q) < 2 ^ 64 \<and> n \<le> logged (world e')"
proof -
  have new: "x_depth (Executive_new k) = k" "x_ext (Executive_new k) = None" "x_gas (Executive_new k) = 0" for k
    by (simp_all add: Executive_new_def)
  note call = nested_result [OF assms Executive_call_starts [OF assms(2,3) new]]
  have "xwp (err_in D n) (if op = 0xf0 then createOpcode c (ev_myAddress v) w (ev_gasPrice v) gas cd (ev_origin v)
         else create2Opcode c (ev_myAddress v) w (ev_gasPrice v) gas cd (ev_origin v) salt)
      (starts (ev_depth v + 1) gas n (Executive_new (ev_depth v + 1))) (Executive_new (ev_depth v + 1), world e)"
    using create_starts [OF assms(2,3) new(1,2)] by simp
  note create = nested_result [OF assms this]
  show "ExtVM_call c run v p e = (Inl z, e') \<Longrightarrow> D z \<and> n \<le> logged (world e')"
    "ExtVM_call c run v p e = (Inr (r, g), e') \<Longrightarrow> g \<le> call_gas p \<and> length (cr_output r) < 2 ^ 64 \<and> n \<le> logged (world e')"
    unfolding ExtVM_call_def by (auto dest: call)
  show "ExtVM_create c run v w gas cd op salt e = (Inl z, e') \<Longrightarrow> D z \<and> n \<le> logged (world e')"
    "ExtVM_create c run v w gas cd op salt e = (Inr (q, g), e') \<Longrightarrow> g \<le> gas \<and> length (ct_output q) < 2 ^ 64 \<and> n \<le> logged (world e')"
    unfolding ExtVM_create_def by (auto dest: create)
qed

lemma face_ok:
  assumes "runs (\<lambda>_. True) (ev_depth v + 1) run" "length (ev_data v) < 2 ^ 64" "length (ev_code v) < 2 ^ 64"
  shows "host_ok (ExtVM_face c run v)"
proof -
  have t: "tame (\<lambda>_. True)"
    by (simp add: tame_def)
  have "length cd < 2 ^ 64" if "ExtVM_codeAt c a e = (Inr cd, e')" for a e cd e'
    using that by (auto simp: ExtVM_codeAt_def split: sum.splits prod.splits if_splits)
  moreover have "g' \<le> g \<and> length (ct_output r) < 2 ^ 64" if "ExtVM_create c run v w g cd op salt e = (Inr (r, g'), e')" for w g cd op salt e r g' e'
    using ExtVM_calls(4) [OF assms(1) t _ that, of 0] by simp
  moreover have "g' \<le> call_gas p \<and> length (cr_output r) < 2 ^ 64" if "ExtVM_call c run v p e = (Inr (r, g'), e')" for p e r g' e'
    using ExtVM_calls(2) [OF assms(1) t _ that, of 0] by simp
  ultimately show ?thesis
    using assms(2,3) scheduleForBlockNumber_ok by (simp add: host_ok_def ExtVM_face_def cx_schedule_def)
qed

lemma hkeeps_ExtVM_calls:
  assumes "runs D (ev_depth v + 1) run" "tame D"
  shows "hkeeps (\<lambda>e. n \<le> logged (world e)) (\<lambda>z e. D z \<and> n \<le> logged (world e)) (ExtVM_call c run v p)"
    "hkeeps (\<lambda>e. n \<le> logged (world e)) (\<lambda>z e. D z \<and> n \<le> logged (world e)) (ExtVM_create c run v w g cd op salt)"
proof -
  note cl = ExtVM_calls [OF assms, of n]
  show "hkeeps (\<lambda>e. n \<le> logged (world e)) (\<lambda>z e. D z \<and> n \<le> logged (world e)) (ExtVM_call c run v p)"
  proof (rule hkeepsI)
    fix e a e'
    assume "n \<le> logged (world e)" "ExtVM_call c run v p e = (Inr a, e')"
    then show "n \<le> logged (world e')"
      using cl(2) by (cases a) blast
  qed (rule cl(1))
  show "hkeeps (\<lambda>e. n \<le> logged (world e)) (\<lambda>z e. D z \<and> n \<le> logged (world e)) (ExtVM_create c run v w g cd op salt)"
  proof (rule hkeepsI)
    fix e a e'
    assume "n \<le> logged (world e)" "ExtVM_create c run v w g cd op salt e = (Inr a, e')"
    then show "n \<le> logged (world e')"
      using cl(4) by (cases a) blast
  qed (rule cl(3))
qed

text \<open>An operation on top of one that keeps the property, which changes its result or the sub-state only.\<close>

lemma hkeeps_after:
  assumes "hkeeps P E h" "\<And>a e. P e \<Longrightarrow> (case k a e of (Inr _, e') \<Rightarrow> P e' | (Inl z, e') \<Rightarrow> E z e')"
  shows "hkeeps P E (\<lambda>e. case h e of (Inl z, e') \<Rightarrow> (Inl z, e') | (Inr a, e') \<Rightarrow> k a e')"
  unfolding hkeeps_def
proof (intro allI impI)
  fix e
  assume e: "P e"
  obtain r t where h: "h e = (r, t)"
    by fastforce
  show "case (case h e of (Inl z, e') \<Rightarrow> (Inl z, e') | (Inr a, e') \<Rightarrow> k a e') of (Inl z, e') \<Rightarrow> E z e' | (Inr _, e') \<Rightarrow> P e'"
  proof (cases r)
    case (Inl z)
    then show ?thesis
      using hkeepsD(1) [OF assms(1) e] h by simp
  next
    case (Inr a)
    then show ?thesis
      using assms(2) [OF hkeepsD(2) [OF assms(1) e], of a t a] h by simp
  qed
qed

lemma hkeeps_codeAt:
  assumes "tame D"
  shows "hkeeps (\<lambda>e. n \<le> logged (world e)) (\<lambda>z e. D z \<and> n \<le> logged (world e)) (ExtVM_codeAt c a)"
  unfolding ExtVM_codeAt_def
  by (rule hkeeps_after [OF hkeeps_hs [OF grows_queries(8) assms]]) (use assms in \<open>simp_all add: tame_def\<close>)

lemma hkeeps_suicide:
  assumes "tame D"
  shows "hkeeps (\<lambda>e. n \<le> logged (world e)) (\<lambda>z e. D z \<and> n \<le> logged (world e)) (ExtVM_suicide c v a)"
  unfolding ExtVM_suicide_def
  by (rule hkeeps_after [OF hkeeps_hs [OF _ assms]]) (intro grow_rules | simp)+

lemma face_keeps:
  assumes D: "tame D" and run: "ev_depth v < 1024 \<Longrightarrow> runs D (ev_depth v + 1) run"
    and fork: "cx_number c < constantinopleForkBlock (cx_params c) + 256"
  shows "host_keeps (\<lambda>e. n \<le> logged (world e)) (\<lambda>z e. D z \<and> n \<le> logged (world e)) (ExtVM_face c run v)"
proof -
  let ?P = "\<lambda>e. n \<le> logged (world e)" and ?E = "\<lambda>z e. D z \<and> n \<le> logged (world e)"
  note h = hkeeps_hs [OF _ D, of _ n]
  have "hkeeps ?P ?E (ExtVM_exists c a)" for a
    unfolding ExtVM_exists_def by (intro h grow_rules)
  moreover have "hkeeps ?P ?E (ExtVM_blockHash c run v k)" for k
    using fork D by (auto simp: hkeeps_def ExtVM_blockHash_def tame_def Let_def)
  moreover have "hkeeps ?P ?E (ext_log x ts bs)" for x ts bs
    by (simp add: hkeeps_def ext_log_def)
  ultimately have r: "host_reads ?P ?E (ExtVM_face c run v)" "host_writes ?P ?E (ExtVM_face c run v)"
    using hkeeps_ExtVM_calls [OF run D, of n] hkeeps_codeAt [OF D, of n] hkeeps_suicide [OF D, of n]
    by (simp_all add: host_reads_def host_writes_def ExtVM_face_def call_allowed_def h grow_rules)
  then show ?thesis
    using hkeeps_ExtVM_calls(2) [OF run D, of n] by (simp add: host_keeps_def) (simp add: ExtVM_face_def)
qed

text \<open>A run of the interpreter inside \<open>go\<close>.\<close>

lemma xwp_exec_vm:
  assumes D: "tame D" and run: "runs (\<lambda>_. True) (ev_depth v + 1) run" "ev_depth v < 1024 \<Longrightarrow> runs D (ev_depth v + 1) run"
    and v: "length (ev_data v) < 2 ^ 64" "length (ev_code v) < 2 ^ 64" and n: "n \<le> logged s"
    and fork: "cx_number c < constantinopleForkBlock (cx_params c) + 256"
    and Q: "\<And>r g sub s'. r \<noteq> Inl UndefinedBehaviour \<Longrightarrow> (\<And>z. r = Inl (External z) \<Longrightarrow> D z) \<Longrightarrow> n \<le> logged s' \<Longrightarrow> g \<le> x_gas x \<Longrightarrow>
        Q r (x\<lparr>x_gas := g, x_ext := Some (v\<lparr>ev_sub := sub\<rparr>)\<rparr>, s')"
  shows "xwp E (exec_vm c run v) Q (x, s)"
proof -
  let ?e = "\<lparr>sub = ev_sub v, world = s\<rparr>"
  obtain r g e' where r: "exec (cx_sha3 c) (ExtVM_face c run v) (x_gas x) ?e = Some (r, g, e')" "unat g \<le> u64 (unat (x_gas x))"
    "r \<noteq> Inl UndefinedBehaviour"
    by (rule exec_returns [OF face_ok [OF run(1) v]])
  have "case r of Inl (External z) \<Rightarrow> D z \<and> n \<le> logged (world e') | _ \<Rightarrow> n \<le> logged (world e')"
    by (rule exec_frame [OF face_keeps [OF D run(2) fork] r(1)]) (simp_all add: n)
  then have "n \<le> logged (world e')" "r = Inl (External z) \<Longrightarrow> D z" for z
    by (auto split: sum.splits vm_error.splits)
  moreover have "g \<le> x_gas x"
    using r(2) by (auto simp: word_le_nat_alt u64_def intro: order_trans [OF _ mod_less_eq_dividend])
  ultimately show ?thesis
    using Q [OF r(3)] by (simp add: xwp_def exec_vm_def r(1))
qed

lemma xwp_catching: "xwp E (catching m) Q q = xwp (\<lambda>z. Q (Some (External z))) m Q q"
  by (auto simp: xwp_def catching_def split: sum.splits prod.splits)

text \<open>After the block of \<open>try\<close>: the gas has not grown, the log has not shrunk below the savepoint.\<close>

definition tried :: "(exec_error \<Rightarrow> bool) \<Rightarrow> Executive \<Rightarrow> exec_error vm_error option \<Rightarrow> Executive \<times> state \<Rightarrow> bool" where
  "tried D x r q \<longleftrightarrow> (case q of (x', s') \<Rightarrow> x_savepoint x \<le> logged s' \<and> x_savepoint x' = x_savepoint x \<and> x_gas x' \<le> x_gas x \<and> x_t x' = x_t x \<and>
     (x_res x' = None \<longleftrightarrow> x_res x = None) \<and> r \<noteq> Some UndefinedBehaviour \<and> (\<forall>z. r = Some (External z) \<longrightarrow> D z))"

lemma xwp_deposit_code:
  assumes D: "tame D" and q: "x_savepoint x \<le> logged s" "x_savepoint x' = x_savepoint x" "x_gas x' \<le> x_gas x" "x_t x' = x_t x"
    "x_res x' = None \<longleftrightarrow> x_res x = None"
  shows "xwp (\<lambda>z. tried D x (Some (External z))) (deposit_code c v output) (tried D x) (x', s)"
proof -
  have g: "x_gas x' - of_nat k \<le> x_gas x" if "k \<le> unat (x_gas x')" for k
  proof -
    have "x_gas x' - of_nat k \<le> x_gas x'"
      by (rule word_sub_le) (use that in \<open>simp add: word_le_nat_alt unat_of_nat le_trans [OF mod_less_eq_dividend]\<close>)
    then show ?thesis
      using q(3) by simp
  qed
  have st: "xwp (\<lambda>z. tried D x (Some (External z))) (store_code c v out) (tried D x) (y, s)"
    if "x_savepoint y = x_savepoint x" "x_gas y \<le> x_gas x" "x_t y = x_t x" "x_res y = None \<longleftrightarrow> x_res x = None" for y out
    unfolding store_code_def using that q(1) D by (auto simp: xwp_simps tried_def tame_def intro!: xwp_xs grow_rules)
  show ?thesis
    unfolding deposit_code_def Let_def using q g by (auto simp: xwp_simps tried_def intro!: st)
qed

lemma xwp_go_try:
  assumes D: "tame D" and run: "runs (\<lambda>_. True) (ev_depth v + 1) run" "ev_depth v < 1024 \<Longrightarrow> runs D (ev_depth v + 1) run"
    and v: "length (ev_data v) < 2 ^ 64" "length (ev_code v) < 2 ^ 64" and n: "x_savepoint x \<le> logged s"
    and fork: "cx_number c < constantinopleForkBlock (cx_params c) + 256"
  shows "xwp E (catching (go_try c run v)) (tried D x) (x, s)"
proof -
  have b: "D (StateExc e)" for e
    using D by (simp add: tame_def)
  have ex: "xwp (\<lambda>z. tried D x (Some (External z))) (exec_vm c run v) Q (x, t)"
    if "x_savepoint x \<le> logged t" "\<And>r g sub s'. r \<noteq> Inl UndefinedBehaviour \<Longrightarrow> (\<And>z. r = Inl (External z) \<Longrightarrow> D z) \<Longrightarrow> x_savepoint x \<le> logged s' \<Longrightarrow> g \<le> x_gas x \<Longrightarrow>
        Q r (x\<lparr>x_gas := g, x_ext := Some (v\<lparr>ev_sub := sub\<rparr>)\<rparr>, s')" for Q t
    by (rule xwp_exec_vm [OF D run v that(1) fork]) (assumption | rule that(2))+
  show ?thesis
    unfolding xwp_catching go_try_def xwp_simps
    using n D b by (auto simp: xwp_simps tried_def split: option.split sum.split intro!: xwp_xs grow_rules ex xwp_deposit_code)
qed

lemma xwp_go_catch:
  assumes D: "tame D" and t: "tried D x (Some e) (x', s')" and n: "n \<le> x_savepoint x"
  shows "xwp (err_in D n) (go_catch c e)
    (\<lambda>_ (x', s'). n \<le> logged s' \<and> x_gas x' \<le> x_gas x \<and> x_t x' = x_t x \<and> (x_res x' = None \<longleftrightarrow> x_res x = None)) (x', s')"
proof -
  have z: "D (escape z)" if "D z" for z
    using that D by (auto simp: escape_def tame_def split: exec_error.splits state_error.splits)
  have te: "xwp (err_in D n) (vm_failure c te)
      (\<lambda>_ (x', s'). n \<le> logged s' \<and> x_gas x' \<le> x_gas x \<and> x_t x' = x_t x \<and> (x_res x' = None \<longleftrightarrow> x_res x = None)) (x', s')" for te
    unfolding vm_failure_def xwp_simps by (rule xwp_revert) (use t n in \<open>auto simp: tried_def\<close>)
  have "D UndefinedTier"
    using D by (simp add: tame_def)
  then show ?thesis
    using t n z te by (auto simp: go_catch_def xwp_simps tried_def err_in_def split: vm_error.split intro!: xwp_revert)
qed

lemma go_runs:
  assumes D: "tame D" and run: "runs (\<lambda>_. True) (d + 1) run" "d < 1024 \<Longrightarrow> runs D (d + 1) run"
    and fork: "cx_number c < constantinopleForkBlock (cx_params c) + 256"
  shows "runs D d (Executive_go c run)"
  unfolding runs_def
proof (intro allI impI)
  fix x s n
  assume a: "x_depth x = d \<and> go_ready x \<and> n \<le> x_savepoint x \<and> x_savepoint x \<le> logged s"
  let ?Q = "\<lambda>_ (x', s'). n \<le> logged s' \<and> x_gas x' \<le> x_gas x \<and> x_t x' = x_t x \<and> (x_res x' = None \<longleftrightarrow> x_res x = None)"
  show "xwp (err_in D n) (Executive_go c run) ?Q (x, s)"
  proof (cases "x_ext x")
    case None
    then show ?thesis
      using a by (simp add: Executive_go_def xwp_simps)
  next
    case (Some v)
    then have v: "length (ev_data v) < 2 ^ 64" "length (ev_code v) < 2 ^ 64" "ev_depth v = d"
      using a by (simp_all add: go_ready_def)
    have t: "xwp (err_in D n) (catching (go_try c run v)) (tried D x) (x, s)"
      by (rule xwp_go_try [OF D _ _ v(1,2) _ fork]) (use run a v(3) in simp_all)
    have "xwp (err_in D n) (case r of None \<Rightarrow> xret () | Some e \<Rightarrow> go_catch c e) ?Q q" if "tried D x r q" for r q
      using that xwp_go_catch [OF D, of x _ "fst q" "snd q" n c] a
      by (cases r; cases q) (auto simp: xwp_simps tried_def)
    then have "xwp (err_in D n) (case r of None \<Rightarrow> xret () | Some e \<Rightarrow> go_catch c e) (\<lambda>_ q.
        ?Q () ((fst q)\<lparr>x_res := map_option ((\<lambda>x r. if x_output x \<noteq> [] then r\<lparr>er_output := x_output x\<rparr> else r) (fst q)) (x_res (fst q))\<rparr>, snd q)) q"
      if "tried D x r q" for r q
      by (rule xwp_conseq [OF _ _ _]) (use that in \<open>auto split: prod.splits\<close>)
    then show ?thesis
      unfolding Executive_go_def xwp_simps fst_conv Some option.case
      by (intro xwp_conseq [OF t]) simp_all
  qed
qed

text \<open>The levels that the depth limit allows are enough.\<close>

lemma go_levels:
  assumes "cx_number c < constantinopleForkBlock (cx_params c) + 256"
  shows "runs (\<lambda>z. (d \<le> 1024 \<and> 1025 \<le> k + d \<longrightarrow> z \<noteq> Diverges) \<and> z \<noteq> Undefined) d (go c k)"
proof (induction k arbitrary: d)
  case 0
  then show ?case
    by (auto simp: runs_def xwp_simps err_in_def)
next
  case (Suc k)
  have m: "runs F d run" if "runs D d run" "\<And>z. D z \<Longrightarrow> F z" for D F d run
    unfolding runs_def
    by (intro allI impI, rule xwp_conseq [OF that(1) [unfolded runs_def, rule_format]], assumption) (auto simp: err_in_def that(2))
  show ?case
    unfolding go.simps
  proof (rule go_runs [OF _ _ _ assms])
    show "runs (\<lambda>_. True) (d + 1) (go c k)"
      by (rule m [OF Suc.IH]) simp
    show "runs (\<lambda>z. (d \<le> 1024 \<and> 1025 \<le> Suc k + d \<longrightarrow> z \<noteq> Diverges) \<and> z \<noteq> Undefined) (d + 1) (go c k)" if "d < 1024"
      by (rule m [OF Suc.IH]) (use that in auto)
  qed (auto simp: tame_def)
qed

section \<open>Transactions\<close>

text \<open>A transaction with other caches.\<close>

definition same_tx :: "TransactionBase \<Rightarrow> TransactionBase \<Rightarrow> bool" where
  "same_tx t t' \<longleftrightarrow> (\<exists>h a. t' = t\<lparr>t_hashWith := h, t_sender := a\<rparr>)"

lemma same_tx_simps:
  "same_tx t t" "same_tx t t' \<Longrightarrow> t_gas t' = t_gas t" "same_tx t t' \<Longrightarrow> same_tx t (t'\<lparr>t_hashWith := h, t_sender := a\<rparr>)"
proof -
  show "same_tx t t"
    unfolding same_tx_def by (intro exI [of _ "t_hashWith t"] exI [of _ "t_sender t"]) simp
  show "same_tx t t' \<Longrightarrow> same_tx t (t'\<lparr>t_hashWith := h, t_sender := a\<rparr>)"
    unfolding same_tx_def by (elim exE, intro exI [of _ h] exI [of _ a]) simp
qed (auto simp: same_tx_def)

lemma xwp_initialize:
  assumes x: "x_ext x = None" "x_gas x = 0" "x_depth x = 0" and E: "\<And>z q. z \<noteq> Diverges \<Longrightarrow> z \<noteq> Undefined \<Longrightarrow> E z q"
  shows "xwp E (initialize c t) (\<lambda>_ (x', s'). same_tx t (x_t x') \<and> x_ext x' = None \<and> x_gas x' = 0 \<and> x_depth x' = 0 \<and> x_res x' = x_res x \<and>
    x_baseGasRequired x' = baseGasRequired (isCreation t) (t_data t) (cx_schedule c) \<and>
    verifyTransaction (cx_params c) Everything t (cx_number c) (env_gasLimit (cx_info c)) (cx_gasUsed c) = None) (x, s)"
proof -
  have snd: "xwp E (\<lambda>q. case tx_sender c q of
        (Inl (TxExc InvalidSignature), x, s) \<Rightarrow> (Inl (TxExc InvalidSignature), x\<lparr>x_excepted := TE_InvalidSignature\<rparr>, s) | r \<Rightarrow> r) Q (y, s)"
    if "\<And>a h b. Q a (y\<lparr>x_t := (x_t y)\<lparr>t_hashWith := h, t_sender := b\<rparr>\<rparr>, s)" for Q y
  proof -
    have t: "xwp (\<lambda>z q. \<exists>e. z = TxExc e) (tx_sender c) Q (y, s)"
      by (rule xwp_tx_sender) (use that in auto)
    obtain r y' s' where "tx_sender c (y, s) = (r, y', s')"
      by (cases "tx_sender c (y, s)")
    with t E show ?thesis
      by (auto simp: xwp_def split: sum.splits exec_error.splits tx_error.splits)
  qed
  show ?thesis
    unfolding initialize_def xwp_simps Let_def
    using x E by (auto simp: xwp_simps same_tx_simps split: option.split intro!: xwp_xs grow_rules snd)
qed

lemma xwp_execute:
  assumes D: "tame D" and x: "same_tx t (x_t x)" "x_ext x = None" "x_gas x = 0" "x_depth x = 0"
  shows "xwp (err_in D 0) (execute c) (\<lambda>_ (x', s'). x_depth x' = 0 \<and> go_ready x' \<and> x_savepoint x' \<le> logged s' \<and>
    x_gas x' \<le> t_gas t - of_nat (x_baseGasRequired x) \<and> same_tx t (x_t x') \<and> x_res x' = x_res x) (x, s)"
proof -
  let ?g = "t_gas t - of_nat (x_baseGasRequired x)"
  let ?Q = "\<lambda>_ (x', s'). x_depth x' = 0 \<and> go_ready x' \<and> x_savepoint x' \<le> logged s' \<and> x_gas x' \<le> ?g \<and> same_tx t (x_t x') \<and> x_res x' = x_res x"
  have E: "err_in D 0 z q" if "z \<noteq> Diverges" "z \<noteq> Undefined" for z q
    using that D by (simp add: err_in_def tame_def)
  have st: "xwp (err_in D 0) m ?Q q" if "xwp (err_in D 0) m (starts 0 ?g 0 y) q" "same_tx t (x_t y)" "x_res y = x_res x" for m y q
    by (rule xwp_conseq [OF that(1)]) (use that(2,3) in \<open>auto simp: starts_def split: prod.splits\<close>)
  have call: "xwp (err_in D 0) (Executive_call c p gp org) ?Q (y, s')"
    if "call_gas p = ?g" "same_tx t (x_t y)" "x_res y = x_res x" "x_depth y = 0" "x_ext y = None" "x_gas y = 0" for p y s' gp org
    using st [OF Executive_call_starts [OF D, of 0 s' y 0 _ p, unfolded that(1)] that(2,3)] that by simp
  have create: "xwp (err_in D 0) (createOpcode c a v gp ?g ini org) ?Q (y, s')"
    if "same_tx t (x_t y)" "x_res y = x_res x" "x_depth y = 0" "x_ext y = None" "x_gas y = 0" for y s' gp org a v ini
    using st [OF create_starts(1) [OF D, of 0 s' y 0, where g = ?g] that(1,2)] that by simp
  show ?thesis
    unfolding execute_def Let_def
    by (simp only: xwp_rules(3), rule xwp_tx_sender)
      (use x same_tx_simps in \<open>auto simp: xwp_simps intro!: E xwp_xs grow_rules call create\<close>)
qed

text \<open>The refund: at most half of the gas that was used.\<close>

lemma refund_bounds:
  fixes T G R :: u256
  assumes "b \<le> unat T" "G \<le> T - of_nat b" "R \<le> (T - G) div 2"
  shows "unat (T - (G + R)) \<le> unat T" "b \<le> 2 * unat (T - (G + R))"
proof -
  have "b < 2 ^ 256"
    using assms(1) unsigned_less [of T, where ?'a = nat] by simp
  then have b: "unat (of_nat b :: u256) = b"
    by (simp add: unat_of_nat)
  then have "unat (T - of_nat b) = unat T - b"
    using assms(1) by (simp add: unat_sub word_le_nat_alt)
  then have "unat G \<le> unat T - b"
    using assms(2) by (simp add: word_le_nat_alt)
  then have g: "unat G + b \<le> unat T" "unat (T - G) = unat T - unat G"
    using assms(1) by (simp_all add: unat_sub word_le_nat_alt)
  have r: "unat R \<le> (unat T - unat G) div 2"
    using assms(3) g(2) by (simp add: word_le_nat_alt unat_div)
  then have "unat (T - G - R) = unat T - unat G - unat R"
    using g(2) by (subst unat_sub) (simp_all add: word_le_nat_alt)
  then have "unat (T - (G + R)) = unat T - unat G - unat R"
    by (simp add: diff_diff_add)
  moreover have "2 * unat R \<le> unat T - unat G"
    using r by simp
  ultimately show "unat (T - (G + R)) \<le> unat T" "b \<le> 2 * unat (T - (G + R))"
    using g(1) by arith+
qed

text \<open>What the gas used by a transaction is between, and that it is noted in the result.\<close>

definition charged :: "exec_context \<Rightarrow> TransactionBase \<Rightarrow> Executive \<Rightarrow> bool" where
  "charged c t x \<longleftrightarrow> baseGasRequired (isCreation t) (t_data t) (cx_schedule c) \<le> 2 * unat (gasUsed x) \<and> gasUsed x \<le> t_gas t \<and>
     unat (cx_gasUsed c) + unat (gasUsed x) \<le> unat (env_gasLimit (cx_info c)) \<and> (\<forall>r. x_res x = Some r \<longrightarrow> er_gasUsed r = gasUsed x)"

lemma xwp_finalize:
  assumes E: "\<And>z q. z \<noteq> Diverges \<Longrightarrow> z \<noteq> Undefined \<Longrightarrow> E z q"
    and x: "b \<le> unat (t_gas t)" "x_gas x \<le> t_gas t - of_nat b" "same_tx t (x_t x)"
  shows "xwp E (finalize c) (\<lambda>_ (x', s'). (x_res x' = None \<longleftrightarrow> x_res x = None) \<and> (\<forall>r. x_res x' = Some r \<longrightarrow> er_gasUsed r = gasUsed x') \<and>
    unat (gasUsed x') \<le> unat (t_gas t) \<and> b \<le> 2 * unat (gasUsed x')) (x, s)"
proof -
  have g: "t_gas (x_t x) = t_gas t"
    using x(3) by (simp add: same_tx_simps)
  have R: "unat (t_gas t - (x_gas x + R)) \<le> unat (t_gas t)" "b \<le> 2 * unat (t_gas t - (x_gas x + R))" if "R \<le> (t_gas t - x_gas x) div 2" for R
    using refund_bounds [OF x(1,2) that] by blast+
  show ?thesis
    unfolding finalize_def
    using E g R [of 0] R [OF min.cobounded1]
    by (auto simp: xwp_simps gasUsed_def split: option.split intro!: xwp_xs grow_rules xwp_tx_sender)
qed

lemma xwp_executeTransaction:
  assumes run: "runs D 0 run" and D: "tame D" and x: "x_ext x = None" "x_gas x = 0" "x_depth x = 0"
  shows "xwp (\<lambda>z _. D z) (executeTransaction c run t) (\<lambda>_ (x', s'). charged c t x' \<and> (x_res x' = None \<longleftrightarrow> x_res x = None)) (x, s)"
proof -
  let ?b = "baseGasRequired (isCreation t) (t_data t) (cx_schedule c)"
  let ?Q = "\<lambda>_ (x', s'). charged c t x' \<and> (x_res x' = None \<longleftrightarrow> x_res x = None)"
  have E: "D z" if "z \<noteq> Diverges" "z \<noteq> Undefined" for z
    using that D by (simp add: tame_def)
  have err: "D z" if "err_in D 0 z q" for z q
    using that by (simp add: err_in_def)
  show ?thesis
    unfolding executeTransaction_def xwp_rules(3)
  proof (rule xwp_conseq [OF xwp_initialize [OF x(1-3), of "\<lambda>z _. D z"]], rule E, assumption, assumption, clarify)
    fix x1 :: Executive and s1 :: state
    assume x1: "same_tx t (x_t x1)" "x_ext x1 = None" "x_gas x1 = 0" "x_depth x1 = 0" "x_res x1 = x_res x" "x_baseGasRequired x1 = ?b"
      and ok: "verifyTransaction (cx_params c) Everything t (cx_number c) (env_gasLimit (cx_info c)) (cx_gasUsed c) = None"
    note lim = verifyTransaction_accepts(1,2) [OF ok, folded cx_schedule_def]
    have fin: "xwp (\<lambda>z _. D z) (finalize c) ?Q (x2, s2)"
      if "x_gas x2 \<le> t_gas t - of_nat ?b" "same_tx t (x_t x2)" "x_res x2 = None \<longleftrightarrow> x_res x = None" for x2 s2
      by (rule xwp_conseq [OF xwp_finalize [OF E lim(1) that(1,2)]]) (use lim(2) that(3) in \<open>auto simp: charged_def word_le_nat_alt split: prod.splits\<close>)
    show "xwp (\<lambda>z _. D z) (execute c) (\<lambda>fin. xwp (\<lambda>z _. D z) (if fin then xret () else run) (\<lambda>_. xwp (\<lambda>z _. D z) (finalize c) ?Q)) (x1, s1)"
    proof (rule xwp_conseq [OF xwp_execute [OF D x1(1-4)] _ err])
      fix fin q
      assume q: "case q of (x', s') \<Rightarrow> x_depth x' = 0 \<and> go_ready x' \<and> x_savepoint x' \<le> logged s' \<and>
        x_gas x' \<le> t_gas t - of_nat (x_baseGasRequired x1) \<and> same_tx t (x_t x') \<and> x_res x' = x_res x1"
      obtain x2 s2 where q2: "q = (x2, s2)"
        by (cases q)
      show "xwp (\<lambda>z _. D z) (if fin then xret () else run) (\<lambda>_. xwp (\<lambda>z _. D z) (finalize c) ?Q) q"
      proof (cases fin)
        case True
        then show ?thesis
          using q x1 unfolding q2 by (auto simp: xwp_simps intro!: fin)
      next
        case False
        have "xwp (err_in D 0) run (\<lambda>_ (x', s'). 0 \<le> logged s' \<and> x_gas x' \<le> x_gas x2 \<and> x_t x' = x_t x2 \<and> (x_res x' = None \<longleftrightarrow> x_res x2 = None)) (x2, s2)"
          using run [unfolded runs_def, rule_format, of x2 0 s2] q q2 by simp
        then show ?thesis
          using False q x1 unfolding q2 by (auto intro!: fin err elim!: xwp_conseq)
      qed
    qed
  qed
qed

lemma executeTransaction_ends:
  assumes "cx_number c < constantinopleForkBlock (cx_params c) + 256" "1025 \<le> k"
  shows "xwp (\<lambda>z _. z \<noteq> Diverges \<and> z \<noteq> Undefined) (executeTransaction c (go c k) t)
    (\<lambda>_ (x', s'). charged c t x' \<and> (x_res x' = None \<longleftrightarrow> x_res ((Executive_new 0)\<lparr>x_res := r\<rparr>) = None)) ((Executive_new 0)\<lparr>x_res := r\<rparr>, s)"
proof -
  let ?D = "\<lambda>z. (0 \<le> (1024 :: nat) \<and> 1025 \<le> k + 0 \<longrightarrow> z \<noteq> Diverges) \<and> z \<noteq> Undefined"
  have "tame ?D"
    by (simp add: tame_def)
  from xwp_executeTransaction [OF go_levels [OF assms(1)] this, of "(Executive_new 0)\<lparr>x_res := r\<rparr>" c t s] show ?thesis
    using assms(2) by (simp add: Executive_new_def)
qed

text \<open>How an execution may end without a result: with an exception of the program, or in one of three ways that the code does not handle.\<close>

definition thrown :: "exec_error \<Rightarrow> bool" where
  "thrown z = (case z of StateExc e \<Rightarrow> e \<noteq> AssertionFailed | TxExc _ \<Rightarrow> True | Rejected _ \<Rightarrow> True | InvalidNonce \<Rightarrow> True | LengthError \<Rightarrow> True | _ \<Rightarrow> False)"

definition unhandled :: "exec_error set" where
  "unhandled = {ProcessExit, StateExc AssertionFailed, UndefinedTier}"

lemma error_kinds: "thrown z \<or> z \<in> unhandled \<longleftrightarrow> z \<noteq> Diverges \<and> z \<noteq> Undefined"
  by (cases z) (auto simp: thrown_def unhandled_def)


text \<open>(C4) The transactions of a block: in a block before the 256th after the Constantinople fork, \<open>executeBlockTransactions\<close> comes to an end for any list of transactions on any state: with an
  exception of the program, in one of the three ways that the code does not handle, or with the gas of all
  transactions together. The sum is at most the gas limit of the block, so that it has not wrapped around on the way.\<close>

theorem block_transactions_end:
  assumes "cx_number c < constantinopleForkBlock (cx_params c) + 256" "1025 \<le> k" "gas \<le> env_gasLimit (cx_info c)"
  shows "case executeBlockTransactions c (\<lambda>c. go c k) ts gas s of
      (Inl z, s') \<Rightarrow> thrown z \<or> z \<in> unhandled
    | (Inr used, s') \<Rightarrow> gas \<le> used \<and> used \<le> env_gasLimit (cx_info c)"
  using assms(3) unfolding error_kinds
proof (induction ts arbitrary: gas s)
  case (Cons t ts)
  let ?c = "c\<lparr>cx_gasUsed := gas\<rparr>"
  have c: "cx_number ?c < constantinopleForkBlock (cx_params ?c) + 256"
    using assms(1) by (simp add: cx_number_def)
  note t = executeTransaction_ends [OF c assms(2), of t None s]
  have new: "(Executive_new 0)\<lparr>x_res := None\<rparr> = Executive_new 0"
    by (simp add: Executive_new_def)
  show ?case
  proof (cases "executeTransaction ?c (go ?c k) t (Executive_new 0, s)")
    case (fields r x s')
    show ?thesis
    proof (cases r)
      case (Inl z)
      then show ?thesis
        using t fields by (simp add: xwp_def new)
    next
      case (Inr b)
      then have "unat gas + unat (gasUsed x) \<le> unat (env_gasLimit (cx_info c))"
        using t fields by (simp add: xwp_def new charged_def)
      then have g: "gas \<le> gas + gasUsed x" "gas + gasUsed x \<le> env_gasLimit (cx_info c)"
        using unsigned_less [of "env_gasLimit (cx_info c)", where ?'a = nat] by (simp_all add: word_le_nat_alt unat_word_ariths)
      show ?thesis
        using Cons.IH [OF g(2), of s'] g(1) fields Inr by (auto split: sum.splits prod.splits)
    qed
  qed
qed simp

text \<open>A chain under the rules of Byzantium, and a transfer on its empty state.\<close>

definition demo_params :: ChainOperationParams where
  "demo_params = ChainOperationParams_new\<lparr>homesteadForkBlock := 0, EIP150ForkBlock := 0, EIP158ForkBlock := 0, byzantiumForkBlock := 0\<rparr>"

definition demo_context :: exec_context where
  "demo_context = \<lparr>cx_sha3 = (\<lambda>b. 1 + fromBigEndian b), cx_recover = (\<lambda>_ _. 1), cx_storageRoot = (\<lambda>_. 1), cx_stateRoot = (\<lambda>_. 1), cx_params = demo_params,
     cx_info = bare_env\<lparr>env_gasLimit := 1000000\<rparr>, cx_parentHash = 0, cx_precedingHashes = (\<lambda>_. []), cx_gasUsed = 0\<rparr>"

definition demo_tx :: TransactionBase where
  "demo_tx = forceSender 5 (TransactionBase_call 0 0 21000 7 [] 0)"


theorem block_transactions_end_witness:
  "case executeBlockTransactions demo_context (\<lambda>c. go c 1025) [demo_tx, demo_tx] 0 (State_empty (\<lambda>b. 1 + fromBigEndian b) 0 (\<lambda>_. 0)) of
      (Inl z, s') \<Rightarrow> thrown z \<or> z \<in> unhandled
    | (Inr used, s') \<Rightarrow> used \<le> 1000000"
proof -
  have c: "cx_number demo_context < constantinopleForkBlock (cx_params demo_context) + 256"
    by (simp add: demo_context_def demo_params_def ChainOperationParams_new_def c_infiniteBlockNumer_def cx_number_def bare_env_def)
  have "env_gasLimit (cx_info demo_context) = 1000000"
    by (simp add: demo_context_def)
  then show ?thesis
    using block_transactions_end [OF c, of 1025 0 "[demo_tx, demo_tx]" "State_empty (\<lambda>b. 1 + fromBigEndian b) 0 (\<lambda>_. 0)"]
    by (simp split: prod.splits sum.splits del: executeBlockTransactions.simps)
qed

end
