(* ===== verification/ExecutiveFees.thy ===== *)
theory ExecutiveFees
  imports ExecutiveRun
begin

text \<open>
  The fees of a transaction: what \<open>finalize\<close> of \<open>libwing/Executive.cpp\<close> gives back to the sender and pays to the author of the block.
\<close>

lemma addBalance_credits:
  assumes ok: "state_ok sha3 s" and st: "started s"
  shows "\<exists>s'. addBalance sha3 a amount s = (Inr (), s') \<and> state_ok sha3 s' \<and> started s' \<and>
    balance_of sha3 s' = (balance_of sha3 s)(a := balance_of sha3 s a + amount)"
proof (cases "view sha3 s a")
  case (Some v)
  then show ?thesis
    using addBalance_found [OF ok Some, of amount] st by (auto simp: step_def same_tries_def started_def balance_of_def fun_eq_iff)
next
  case None
  then show ?thesis
    using addBalance_absent(1) [OF ok None st, of amount] st by (auto simp: step_def same_tries_def started_def balance_of_def fresh_view_def fun_eq_iff)
qed

text \<open>The refund that \<open>finalize\<close> computes.\<close>

definition refund_of :: "exec_context \<Rightarrow> Executive \<Rightarrow> u256" where
  "refund_of c x = (case x_ext x of None \<Rightarrow> 0 | Some v \<Rightarrow> min ((t_gas (x_t x) - x_gas x) div 2)
     (refunds (ev_sub v) + of_nat (suicideRefundGas (cx_schedule c)) * of_nat (card (suicides (ev_sub v)))))"

lemma finalize_run:
  assumes t: "nonNull (x_t x)" "t_sender (x_t x) = a" "a \<noteq> 0" and v: "\<And>v. x_ext x = Some v \<Longrightarrow> suicides (ev_sub v) = {}"
    and g: "g = x_gas x + refund_of c x"
    and s1: "addBalance (cx_sha3 c) a (g * t_gasPrice (x_t x)) s = (Inr (), s1)"
    and s2: "addBalance (cx_sha3 c) (env_author (cx_info c)) ((t_gas (x_t x) - g) * t_gasPrice (x_t x)) s1 = (Inr (), s2)"
  shows "\<exists>x'. finalize c (x, s) = (Inr (x_excepted x = TE_None), x', s2) \<and> gasUsed x' = t_gas (x_t x) - g \<and> x_gas x' = g"
proof -
  have "sender (cx_sha3 c) (cx_recover c) (x_t x) = (Inr a, x_t x)"
    using t by (simp add: sender_def)
  then show ?thesis
    using t(1) v s1 s2 unfolding g
    by (cases "x_ext x") (auto simp: finalize_def refund_of_def xbind_def xset_def xget_def xret_def xs_def note_res_def tx_sender_def gasUsed_def sret_def)
qed

text \<open>(C3) The fees. \<open>finalize\<close> of a transaction without self-destructions succeeds and changes two balances only. The refund is what the sub-state has recorded, and at most half of the gas
  used. The sender gets the price of the unused gas and of the refund, and the author of the block the price of the rest; together they get the price of the whole gas limit, which \<open>execute\<close> has
  taken from the sender.\<close>

theorem fees_are_conserved:
  assumes "state_ok (cx_sha3 c) s" "started s" "nonNull (x_t x)" "t_sender (x_t x) = a" "a \<noteq> 0"
    and "\<And>v. x_ext x = Some v \<Longrightarrow> suicides (ev_sub v) = {}"
  shows "\<exists>x' s'. finalize c (x, s) = (Inr (x_excepted x = TE_None), x', s') \<and> state_ok (cx_sha3 c) s' \<and>
    x_gas x' = x_gas x + (case x_ext x of None \<Rightarrow> 0 | Some v \<Rightarrow> min ((t_gas (x_t x) - x_gas x) div 2) (refunds (ev_sub v))) \<and>
    gasUsed x' = t_gas (x_t x) - x_gas x' \<and>
    (\<forall>b. balance_of (cx_sha3 c) s' b = balance_of (cx_sha3 c) s b +
       (if b = a then x_gas x' * t_gasPrice (x_t x) else 0) + (if b = env_author (cx_info c) then gasUsed x' * t_gasPrice (x_t x) else 0)) \<and>
    x_gas x' * t_gasPrice (x_t x) + gasUsed x' * t_gasPrice (x_t x) = t_gas (x_t x) * t_gasPrice (x_t x)"
proof -
  let ?g = "x_gas x + refund_of c x"
  obtain s1 where s1: "addBalance (cx_sha3 c) a (?g * t_gasPrice (x_t x)) s = (Inr (), s1)" "state_ok (cx_sha3 c) s1" "started s1"
    "balance_of (cx_sha3 c) s1 = (balance_of (cx_sha3 c) s)(a := balance_of (cx_sha3 c) s a + ?g * t_gasPrice (x_t x))"
    using addBalance_credits [OF assms(1,2)] by blast
  obtain s2 where s2: "addBalance (cx_sha3 c) (env_author (cx_info c)) ((t_gas (x_t x) - ?g) * t_gasPrice (x_t x)) s1 = (Inr (), s2)" "state_ok (cx_sha3 c) s2"
    "balance_of (cx_sha3 c) s2 = (balance_of (cx_sha3 c) s1)(env_author (cx_info c) :=
       balance_of (cx_sha3 c) s1 (env_author (cx_info c)) + (t_gas (x_t x) - ?g) * t_gasPrice (x_t x))"
    using addBalance_credits [OF s1(2,3)] by blast
  obtain x' where x': "finalize c (x, s) = (Inr (x_excepted x = TE_None), x', s2)" "gasUsed x' = t_gas (x_t x) - ?g" "x_gas x' = ?g"
    using finalize_run [OF assms(3-6) refl s1(1) s2(1)] by blast
  have "x_gas x' * t_gasPrice (x_t x) + gasUsed x' * t_gasPrice (x_t x) = t_gas (x_t x) * t_gasPrice (x_t x)"
    unfolding x'(2,3) by (simp flip: distrib_right)
  moreover have "balance_of (cx_sha3 c) s2 b = (balance_of (cx_sha3 c) s b +
       (if b = a then x_gas x' * t_gasPrice (x_t x) else 0) + (if b = env_author (cx_info c) then gasUsed x' * t_gasPrice (x_t x) else 0))" for b
    unfolding x'(2,3) s2(3) s1(4) by simp
  moreover have "gasUsed x' = t_gas (x_t x) - x_gas x'"
    using x'(2,3) by simp
  moreover have "refund_of c x = (case x_ext x of None \<Rightarrow> 0 | Some v \<Rightarrow> min ((t_gas (x_t x) - x_gas x) div 2) (refunds (ev_sub v)))"
    using assms(6) by (simp add: refund_of_def split: option.split)
  ultimately show ?thesis
    using x'(1,3) s2(2) by metis
qed

text \<open>A call that has left 4000 of its gas of 25000, at the price 2, and has recorded a refund of 15000, of which 10500 are granted.\<close>

definition demo_sub :: ExtVM where
  "demo_sub = \<lparr>ev_myAddress = 9, ev_caller = 5, ev_origin = 5, ev_value = 0, ev_gasPrice = 2, ev_data = [], ev_code = [], ev_codeHash = 0,
     ev_sub = \<lparr>suicides = {}, logs = [], refunds = 15000\<rparr>, ev_depth = 0, ev_isCreate = False, ev_staticCall = False\<rparr>"

theorem fees_are_conserved_witness:
  "let c = demo_context; s = State_empty (cx_sha3 c) 0 (\<lambda>_. 0);
     x = (Executive_new 0)\<lparr>x_t := forceSender 5 (TransactionBase_call 0 2 25000 7 [] 0), x_gas := 4000, x_ext := Some demo_sub\<rparr> in
   \<exists>x' s'. finalize c (x, s) = (Inr True, x', s') \<and> x_gas x' = 14500 \<and>
     balance_of (cx_sha3 c) s' 5 = balance_of (cx_sha3 c) s 5 + 29000"
proof -
  let ?s = "State_empty (cx_sha3 demo_context) 0 (\<lambda>_. 0)"
  let ?x = "(Executive_new 0)\<lparr>x_t := forceSender 5 (TransactionBase_call 0 2 25000 7 [] 0), x_gas := 4000, x_ext := Some demo_sub\<rparr>"
  have "EmptyTrie (cx_sha3 demo_context) \<noteq> 0"
    by (simp add: EmptyTrie_def demo_context_def fromBigEndian_def)
  then have ok: "state_ok (cx_sha3 demo_context) ?s" "started ?s"
    by (rule State_empty_ok) (simp add: started_def State_empty_def Invalid256_def)
  have x: "nonNull (x_t ?x)" "t_sender (x_t ?x) = 5" "(5::address) \<noteq> 0" "x_excepted ?x = TE_None" "t_gasPrice (x_t ?x) = 2"
    "env_author (cx_info demo_context) = 0" "t_gas (x_t ?x) = 25000"
    by (simp_all add: forceSender_def TransactionBase_call_def TransactionBase_null_def nonNull_def Executive_new_def demo_context_def bare_env_def)
  have v: "x_ext ?x = Some demo_sub" "suicides (ev_sub demo_sub) = {}" "refunds (ev_sub demo_sub) = 15000" "x_gas ?x = 4000"
    by (simp_all add: demo_sub_def)
  obtain x' s' where "finalize demo_context (?x, ?s) = (Inr True, x', s')" "x_gas x' = 4000 + min ((25000 - 4000) div 2) 15000" "gasUsed x' = 25000 - x_gas x'"
    "balance_of (cx_sha3 demo_context) s' 5 = balance_of (cx_sha3 demo_context) ?s 5 + x_gas x' * 2"
    using fees_are_conserved [OF ok x(1-3)] v x(4-7) by auto
  then show ?thesis
    unfolding Let_def by auto
qed

end
