(* ===== verification/ExecutiveStatic.thy ===== *)
theory ExecutiveStatic
  imports ExecutiveRun
begin

text \<open>
  Static calls on the world state: the guarantee of \<open>LegacyVMFrame\<close> carried through \<open>ExtVM\<close> and \<open>Executive\<close>, down to the accounts. The calls of a static call may
  touch accounts and create empty ones, which \<open>revert\<close> undoes; what can be observed of any account stays as it was.
\<close>

section \<open>What can be observed of the accounts\<close>

record observation =
  o_nonce :: u256
  o_balance :: u256
  o_codeHash :: h256
  o_code :: bytes
  o_storage :: "u256 \<Rightarrow> u256"

text \<open>An absent account reads like an empty one.\<close>

definition observe :: "(bytes \<Rightarrow> h256) \<Rightarrow> u256 \<Rightarrow> account_view option \<Rightarrow> observation" where
  "observe sha3 start r = (case r of
     Some v \<Rightarrow> \<lparr>o_nonce = v_nonce v, o_balance = v_balance v, o_codeHash = v_codeHash v, o_code = v_code v, o_storage = v_storage v\<rparr>
   | None \<Rightarrow> \<lparr>o_nonce = start, o_balance = 0, o_codeHash = EmptySHA3 sha3, o_code = [], o_storage = (\<lambda>_. 0)\<rparr>)"

definition observed :: "(bytes \<Rightarrow> h256) \<Rightarrow> state \<Rightarrow> address \<Rightarrow> observation" where
  "observed sha3 s a = observe sha3 (m_accountStartNonce s) (view sha3 s a)"

definition unobserved :: "(bytes \<Rightarrow> h256) \<Rightarrow> state \<Rightarrow> state \<Rightarrow> bool" where
  "unobserved sha3 s s' \<longleftrightarrow> undoable sha3 s s' \<and> observed sha3 s' = observed sha3 s"

lemma unobserved_ok: "unobserved sha3 s s' \<Longrightarrow> state_ok sha3 s'"
  by (auto simp: unobserved_def dest: undoable_ok)

lemma unobserved_trans: "unobserved sha3 s t \<Longrightarrow> unobserved sha3 t u \<Longrightarrow> unobserved sha3 s u"
  by (auto simp: unobserved_def intro: undoable_trans)

lemma quiet_unobserved: "quiet sha3 s s' \<Longrightarrow> unobserved sha3 s s'"
  by (auto simp: unobserved_def quiet_undoable observed_def fun_eq_iff dest!: quietD)

lemma unobserved_refl: "state_ok sha3 s \<Longrightarrow> unobserved sha3 s s"
  by (simp add: quiet_unobserved quiet_refl)

text \<open>Undoing everything up to the start.\<close>

lemma unobserved_rollback:
  assumes "unobserved sha3 s s'"
  shows "\<exists>s''. rollback sha3 (savepoint s) s' = Some s'' \<and> unobserved sha3 s s''"
proof -
  obtain s'' where s'': "rollback sha3 (savepoint s) s' = Some s''" "state_ok sha3 s''" "view sha3 s'' = view sha3 s" "same_tries s s''"
    "m_changeLog s'' = m_changeLog s" "dirty_set s \<subseteq> dirty_set s''"
    using undoable_rollback [of sha3 s s'] assms by (auto simp: unobserved_def)
  then have "undoable sha3 s s''"
    unfolding undoable_def by (intro conjI exI [of _ "[]"] exI [of _ "dirty_set s''"]) auto
  then show ?thesis
    using s'' by (auto simp: unobserved_def observed_def same_tries_def)
qed

section \<open>Operations that change nothing observable\<close>

definition silent :: "(bytes \<Rightarrow> h256) \<Rightarrow> 'a op \<Rightarrow> bool" where
  "silent sha3 m \<longleftrightarrow> (\<forall>s. state_ok sha3 s \<longrightarrow> unobserved sha3 s (snd (m s)))"

named_theorems silent_rules

lemma silent_basic [silent_rules]: "silent sha3 (sret x)" "silent sha3 (sthrow e)" "silent sha3 (sget f)"
  by (simp_all add: silent_def sret_def sthrow_def sget_def unobserved_refl)

lemma silent_sbind [silent_rules]:
  assumes "silent sha3 m" "\<And>x. silent sha3 (f x)"
  shows "silent sha3 (sbind m f)"
  unfolding silent_def
proof (intro allI impI)
  fix s
  assume "state_ok sha3 s"
  then have m: "unobserved sha3 s (snd (m s))"
    using assms(1) by (simp add: silent_def)
  show "unobserved sha3 s (snd (sbind m f s))"
  proof (cases "m s")
    case (Pair r t)
    then show ?thesis
      using m assms(2) unobserved_ok [OF m] unobserved_trans [OF m] by (cases r) (simp_all add: sbind_def silent_def)
  qed
qed

lemma silent_cases [silent_rules]:
  "silent sha3 m \<Longrightarrow> silent sha3 n \<Longrightarrow> silent sha3 (if b then m else n)"
  "(\<And>x. silent sha3 (f x)) \<Longrightarrow> silent sha3 m \<Longrightarrow> silent sha3 (case r of None \<Rightarrow> m | Some x \<Rightarrow> f x)"
  "(\<And>x. silent sha3 (f x)) \<Longrightarrow> (\<And>y. silent sha3 (g y)) \<Longrightarrow> silent sha3 (case q of Inl y \<Rightarrow> g y | Inr x \<Rightarrow> f x)"
  by (simp_all split: option.split sum.split)

lemma reads_silent: "(\<And>s. state_ok sha3 s \<Longrightarrow> \<exists>x. StateViews.reads sha3 s m x) \<Longrightarrow> silent sha3 m"
  unfolding silent_def StateViews.reads_def by (metis quiet_unobserved snd_conv)

lemma silent_queries [silent_rules]:
  "silent sha3 (addressInUse sha3 a)" "silent sha3 (accountNonemptyAndExisting sha3 a)" "silent sha3 (addressHasCode sha3 a)"
  "silent sha3 (balance sha3 a)" "silent sha3 (getNonce sha3 a)" "silent sha3 (codeHash sha3 a)" "silent sha3 (codeSize sha3 a)"
  by (rule reads_silent, rule exI, (rule simple_queries_read codeSize_reads), assumption)+

lemma silent_storage [silent_rules]: "silent sha3 (storage sha3 a k)"
  unfolding silent_def using storage_spec quiet_unobserved by (metis snd_conv)

lemma silent_code [silent_rules]: "silent sha3 (code sha3 a)"
  unfolding silent_def using code_spec quiet_unobserved by (metis snd_conv)

lemma silent_native [silent_rules]: "silent sha3 (isNativeContract sha3 a)" "silent sha3 (callVM sha3 a d)"
proof -
  have loop: "silent sha3 (getData_loop sha3 a k len buf)" for a k len buf
  proof (induction sha3 a k len buf rule: getData_loop.induct)
    case (1 sha3 a k len buf)
    then show ?case
      by (subst getData_loop.simps) (auto simp: getWord_def intro!: silent_rules)
  qed
  show "silent sha3 (isNativeContract sha3 a)" "silent sha3 (callVM sha3 a d)"
    unfolding isNativeContract_def callVM_def keyOn_address_def AssetVM_exec_def case_prod_beta lift_rlp_def getData_def getWord_def Let_def
    by (intro silent_rules loop)+
qed

text \<open>Transfers of nothing, and from an account to itself.\<close>

lemma addBalance_silent [silent_rules]: "silent sha3 (addBalance sha3 a 0)"
  unfolding silent_def
proof (intro allI impI)
  fix s
  assume ok: "state_ok sha3 s"
  have u: "undoable sha3 s (snd (addBalance sha3 a 0 s))"
    by (rule addBalance_undoable [OF ok])
  show "unobserved sha3 s (snd (addBalance sha3 a 0 s))"
  proof (cases "view sha3 s a")
    case (Some v)
    then show ?thesis
      using addBalance_found [OF ok Some, of 0] u by (auto simp: unobserved_def observed_def step_def same_tries_def fun_eq_iff)
  next
    case None
    show ?thesis
    proof (cases "started s")
      case True
      then obtain s' where "addBalance sha3 a 0 s = (Inr (), s')" "view sha3 s' = (view sha3 s)(a \<mapsto> fresh_view sha3 (m_accountStartNonce s) 0)" "same_tries s s'"
        using addBalance_absent(1) [OF ok None True, of 0] by (auto simp: step_def)
      then show ?thesis
        using u None by (auto simp: unobserved_def observed_def observe_def same_tries_def fresh_view_def fun_eq_iff)
    next
      case False
      then show ?thesis
        using addBalance_absent(2) [OF ok None False, of 0] quiet_unobserved by auto
    qed
  qed
qed

lemma transfer_self_silent: "silent sha3 (transferBalance sha3 a a x)"
  unfolding silent_def
proof (intro allI impI)
  fix s
  assume ok: "state_ok sha3 s"
  note sub = subBalance_spec [OF ok, of x a]
  show "unobserved sha3 s (snd (transferBalance sha3 a a x s))"
  proof (cases "x = 0")
    case True
    then show ?thesis
      using sub(1) addBalance_silent [of sha3 a] ok by (simp add: transferBalance_def sbind_def silent_def)
  next
    case x: False
    show ?thesis
    proof (cases "\<exists>v. view sha3 s a = Some v \<and> x \<le> v_balance v")
      case True
      then obtain v t where v: "view sha3 s a = Some v" and t: "subBalance sha3 a x s = (Inr (), t)" "state_ok sha3 t" "same_tries s t"
          "view sha3 t = (view sha3 s)(a \<mapsto> v\<lparr>v_balance := v_balance v - x\<rparr>)"
        using sub(2) [OF x] by (auto simp: step_def)
      then obtain u where u: "addBalance sha3 a x t = (Inr (), u)" "same_tries t u" "view sha3 u = (view sha3 t)(a \<mapsto> v)"
        using addBalance_found [OF t(2), of a "v\<lparr>v_balance := v_balance v - x\<rparr>" x] by (auto simp: step_def)
      have "undoable sha3 s t" "undoable sha3 t u"
        using balance_ops_undoable(1) [OF ok, of a x] t(1) addBalance_undoable [OF t(2), of a x] u(1) by simp_all
      then have "undoable sha3 s u"
        by (rule undoable_trans)
      moreover have "view sha3 u = view sha3 s" "m_accountStartNonce u = m_accountStartNonce s"
        using u t v by (auto simp: same_tries_def)
      ultimately show ?thesis
        using t(1) u(1) by (simp add: transferBalance_def sbind_def unobserved_def observed_def fun_eq_iff)
    next
      case False
      then have "case view sha3 s a of None \<Rightarrow> True | Some v \<Rightarrow> v_balance v < x"
        by (auto simp: not_le split: option.split)
      then show ?thesis
        using sub(3) [OF x] quiet_unobserved by (auto simp: transferBalance_def sbind_def)
    qed
  qed
qed

lemma silent_transfer: "x = 0 \<or> a = b \<Longrightarrow> silent sha3 (transferBalance sha3 a b x)"
proof (erule disjE)
  assume "x = 0"
  then have "transferBalance sha3 a b x = addBalance sha3 b 0"
    by (simp add: transferBalance_def subBalance_def sbind_def sret_def fun_eq_iff)
  then show ?thesis
    using addBalance_silent by simp
next
  assume "a = b"
  then show ?thesis
    using transfer_self_silent by simp
qed

section \<open>Static calls\<close>

lemma xwp_silent:
  assumes "silent sha3 m" "unobserved sha3 s0 s" "\<And>a s'. unobserved sha3 s0 s' \<Longrightarrow> Q a (x, s')" "\<And>e s'. unobserved sha3 s0 s' \<Longrightarrow> E (StateExc e) (x, s')"
  shows "xwp E (xs m) Q (x, s)"
proof -
  have "unobserved sha3 s0 (snd (m s))"
    using assms(1,2) unobserved_ok [OF assms(2)] unobserved_trans [OF assms(2)] by (simp add: silent_def)
  then show ?thesis
    using assms(3,4) by (auto simp: xwp_def xs_def split: sum.splits prod.splits)
qed

lemma xwp_silent_revert:
  assumes "unobserved sha3 s0 s" "x_savepoint x = savepoint s0" "sha3 = cx_sha3 c"
    "\<And>s'. unobserved sha3 s0 s' \<Longrightarrow>
      Q () (x\<lparr>x_ext := map_option (\<lambda>v. v\<lparr>ev_sub := SubState_clear (ev_sub v)\<rparr>) (x_ext x), x_newAddress := 0\<rparr>, s')"
  shows "xwp E (revert c) Q (x, s)"
  using unobserved_rollback [OF assms(1)] assms(2-4) by (auto simp: xwp_def revert_def xbind_def xset_def split: option.split)

text \<open>An executive of a static call, with nothing in its sub-state.\<close>

definition static_exec :: "Executive \<Rightarrow> bool" where
  "static_exec x \<longleftrightarrow> \<not> x_isCreation x \<and> (\<forall>v. x_ext x = Some v \<longrightarrow> ev_staticCall v \<and> ev_sub v = SubState_new)"

definition static_params :: "CallParameters \<Rightarrow> bool" where
  "static_params p \<longleftrightarrow> call_static p \<and> (valueTransfer p = 0 \<or> senderAddress p = receiveAddress p)"

lemma static_call_starts:
  assumes p: "static_params p" and ok: "state_ok (cx_sha3 c) s" and x: "x_ext x = None" "\<not> x_isCreation x" "\<not> nonNull (x_t x)"
  shows "xwp (\<lambda>_ (x', s'). unobserved (cx_sha3 c) s s') (Executive_call c p gp org)
    (\<lambda>fin (x', s'). unobserved (cx_sha3 c) s s' \<and> x_savepoint x' = savepoint s \<and> static_exec x') (x, s)"
proof -
  have t: "silent (cx_sha3 c) (transferBalance (cx_sha3 c) (senderAddress p) (receiveAddress p) (valueTransfer p))"
    using p by (intro silent_transfer) (simp add: static_params_def)
  have r: "unobserved (cx_sha3 c) s s"
    by (rule unobserved_refl [OF ok])
  have tr: "xwp (\<lambda>_ (x', s'). unobserved (cx_sha3 c) s s') (call_transfer c p) Q (y, s')"
    if "unobserved (cx_sha3 c) s s'" "\<And>b s'. unobserved (cx_sha3 c) s s' \<Longrightarrow> Q b (y, s')" for Q y s'
    unfolding call_transfer_def xwp_simps by (rule xwp_silent [OF t that(1)]) (auto simp: xwp_simps intro: that(2))
  have mk: "xwp (\<lambda>_ (x', s'). unobserved (cx_sha3 c) s s') (ExtVM_make c v) Q (y, s')"
    if "unobserved (cx_sha3 c) s s'" "\<And>s'. unobserved (cx_sha3 c) s s' \<Longrightarrow> Q () (y\<lparr>x_ext := Some (v\<lparr>ev_depth := x_depth y\<rparr>)\<rparr>, s')" for Q y v s'
    unfolding ExtVM_make_def
    using that by (auto simp: xwp_simps intro!: xwp_silent [OF silent_queries(1) that(1)])
  note xwp_s = xwp_silent [of "cx_sha3 c" _ s]
  have "xwp (\<lambda>_ (x', s'). unobserved (cx_sha3 c) s s') (call_precompiled c p)
      (\<lambda>fin (x', s'). unobserved (cx_sha3 c) s s' \<and> x_savepoint x' = savepoint s \<and> static_exec x') (x\<lparr>x_savepoint := savepoint s\<rparr>, s)"
    unfolding call_precompiled_def Let_def
    using r x by (auto simp: xwp_simps static_exec_def split: prod.split intro!: tr xwp_s silent_rules)
  moreover have "xwp (\<lambda>_ (x', s'). unobserved (cx_sha3 c) s s') (call_code c p gp org)
      (\<lambda>fin (x', s'). unobserved (cx_sha3 c) s s' \<and> x_savepoint x' = savepoint s \<and> static_exec x') (x\<lparr>x_savepoint := savepoint s\<rparr>, s)"
    unfolding call_code_def
    using r x p by (auto simp: xwp_simps static_exec_def static_params_def intro!: tr mk xwp_s silent_rules)
  ultimately show ?thesis
    unfolding Executive_call_def using x by (simp add: xwp_simps savepoint_def logged_def)
qed

section \<open>Running a static call\<close>

text \<open>A \<open>go\<close> that, in a static call, changes nothing observable and leaves the sub-state empty.\<close>

definition static_runs :: "(bytes \<Rightarrow> h256) \<Rightarrow> unit xop \<Rightarrow> bool" where
  "static_runs sha3 run \<longleftrightarrow> (\<forall>x s s0. static_exec x \<and> x_savepoint x = savepoint s0 \<and> unobserved sha3 s0 s \<longrightarrow>
     xwp (\<lambda>_ (x', s'). unobserved sha3 s0 s') run (\<lambda>_ (x', s'). unobserved sha3 s0 s' \<and> static_exec x') (x, s))"

lemma accrue_static: "static_exec x \<Longrightarrow> accrueSubState x \<sigma> = \<sigma>"
  by (auto simp: accrueSubState_def static_exec_def SubState_add_def SubState_new_def split: option.split)

lemma static_nested:
  assumes run: "static_runs (cx_sha3 c) run" and p: "static_params p" and ok: "state_ok (cx_sha3 c) (world e)"
    and r: "ExtVM_call c run v p e = (r, e')"
  shows "sub e' = sub e \<and> unobserved (cx_sha3 c) (world e) (world e')"
proof -
  let ?x = "Executive_new (ev_depth v + 1)"
  have x: "x_ext ?x = None" "\<not> x_isCreation ?x" "\<not> nonNull (x_t ?x)"
    by (simp_all add: Executive_new_def TransactionBase_null_def nonNull_def)
  have "xwp (\<lambda>_ (x', s'). unobserved (cx_sha3 c) (world e) s')
      (xbind (Executive_call c p (ev_gasPrice v) (ev_origin v)) (\<lambda>finished. xbind (if finished then xret () else run) (\<lambda>_. xret finished)))
      (\<lambda>_ (x', s'). unobserved (cx_sha3 c) (world e) s' \<and> static_exec x') (?x, world e)"
    unfolding xwp_rules(3)
  proof (rule xwp_conseq [OF static_call_starts [OF p ok x]])
    fix fin q
    assume q: "case q of (x', s') \<Rightarrow> unobserved (cx_sha3 c) (world e) s' \<and> x_savepoint x' = savepoint (world e) \<and> static_exec x'"
    obtain x s where "q = (x, s)"
      by fastforce
    then show "xwp (\<lambda>_ (x', s'). unobserved (cx_sha3 c) (world e) s') (if fin then xret () else run)
        (\<lambda>a. xwp (\<lambda>_ (x', s'). unobserved (cx_sha3 c) (world e) s') (xret fin) (\<lambda>_ (x', s'). unobserved (cx_sha3 c) (world e) s' \<and> static_exec x')) q"
      using q run [unfolded static_runs_def, rule_format, of x "world e" s] by (auto simp: xwp_simps elim!: xwp_conseq)
  qed simp
  then show ?thesis
    using r by (auto simp: ExtVM_call_def nested_def xwp_def accrue_static split: sum.splits prod.splits if_splits)
qed

text \<open>What a run of the interpreter keeps, and what holds when an exception of the environment ends it.\<close>

abbreviation still :: "(bytes \<Rightarrow> h256) \<Rightarrow> state \<Rightarrow> state ext \<Rightarrow> bool" where
  "still sha3 s0 e \<equiv> sub e = SubState_new \<and> unobserved sha3 s0 (world e)"

lemma still_hs: "silent sha3 m \<Longrightarrow> hkeeps (still sha3 s0) (\<lambda>_ e. unobserved sha3 s0 (world e)) (hs m)"
  unfolding hkeeps_def
proof (intro allI impI)
  fix e :: "state ext"
  assume m: "silent sha3 m" and e: "still sha3 s0 e"
  then have "unobserved sha3 s0 (snd (m (world e)))"
    using unobserved_ok unobserved_trans by (metis silent_def)
  then show "case hs m e of (Inl z, e') \<Rightarrow> unobserved sha3 s0 (world e') | (Inr _, e') \<Rightarrow> still sha3 s0 e'"
    using e by (auto simp: hs_def split: sum.splits prod.splits)
qed

lemma static_face:
  assumes run: "static_runs (cx_sha3 c) run" and v: "ev_staticCall v"
    and c: "\<not> haveCreate2 (cx_schedule c)" "cx_number c < constantinopleForkBlock (cx_params c) + 256"
  shows "host_keeps (still (cx_sha3 c) s0) (\<lambda>_ e. unobserved (cx_sha3 c) s0 (world e)) (ExtVM_face c run v)"
proof -
  let ?P = "still (cx_sha3 c) s0" and ?E = "\<lambda>(_::exec_error) e. unobserved (cx_sha3 c) s0 (world e)"
  have "hkeeps ?P ?E (ExtVM_exists c a)" "hkeeps ?P ?E (ExtVM_codeAt c a)" "hkeeps ?P ?E (ExtVM_blockHash c run v k)" for a k
    using c(2) unfolding ExtVM_exists_def ExtVM_codeAt_def
    by (intro still_hs silent_rules, intro hkeeps_after still_hs silent_rules, simp, simp add: hkeeps_def ExtVM_blockHash_def Let_def)
  moreover have "hkeeps ?P ?E (ExtVM_call c run v p)" if "static_params p" for p
    by (rule hkeepsI; elim conjE; drule static_nested [OF run that, rotated]) (auto intro: unobserved_ok unobserved_trans)
  ultimately have "host_reads ?P ?E (ExtVM_face c run v)"
    using v by (simp add: host_reads_def ExtVM_face_def call_allowed_def static_params_def still_hs silent_rules)
  then show ?thesis
    using v c(1) by (simp add: host_keeps_def may_create_def) (simp add: ExtVM_face_def)
qed

lemma xwp_static_vm:
  assumes run: "static_runs (cx_sha3 c) run" and v: "ev_staticCall v" "ev_sub v = SubState_new"
    and c: "\<not> haveCreate2 (cx_schedule c)" "cx_number c < constantinopleForkBlock (cx_params c) + 256"
    and s: "unobserved (cx_sha3 c) s0 s" "\<And>z. E z (x, s)"
    and Q: "\<And>r g sub s'. unobserved (cx_sha3 c) s0 s' \<Longrightarrow> (\<forall>z. r \<noteq> Inl (External z)) \<longrightarrow> sub = SubState_new \<Longrightarrow>
      Q r (x\<lparr>x_gas := g, x_ext := Some (v\<lparr>ev_sub := sub\<rparr>)\<rparr>, s')"
  shows "xwp E (exec_vm c run v) Q (x, s)"
proof (cases "exec (cx_sha3 c) (ExtVM_face c run v) (x_gas x) \<lparr>sub = ev_sub v, world = s\<rparr>")
  case None
  then show ?thesis
    using s(2) by (simp add: xwp_def exec_vm_def)
next
  case (Some a)
  then obtain r g e' where a: "exec (cx_sha3 c) (ExtVM_face c run v) (x_gas x) \<lparr>sub = ev_sub v, world = s\<rparr> = Some (r, g, e')"
    by (cases a) auto
  have "case r of Inl (External z) \<Rightarrow> unobserved (cx_sha3 c) s0 (world e') | _ \<Rightarrow> still (cx_sha3 c) s0 e'"
    by (rule exec_frame [OF static_face [OF run v(1) c] a]) (simp add: v s)
  then have "unobserved (cx_sha3 c) s0 (world e')" "(\<forall>z. r \<noteq> Inl (External z)) \<longrightarrow> sub e' = SubState_new"
    by (auto split: sum.splits vm_error.splits)
  then show ?thesis
    using Q by (simp add: xwp_def exec_vm_def a)
qed

text \<open>After the block of \<open>try\<close>.\<close>

definition static_tried :: "(bytes \<Rightarrow> h256) \<Rightarrow> state \<Rightarrow> exec_error vm_error option \<Rightarrow> Executive \<times> state \<Rightarrow> bool" where
  "static_tried sha3 s0 r q \<longleftrightarrow> (case q of (x, s) \<Rightarrow> unobserved sha3 s0 s \<and> x_savepoint x = savepoint s0 \<and> \<not> x_isCreation x \<and>
     (\<forall>v. x_ext x = Some v \<longrightarrow> ev_staticCall v \<and> ((\<forall>z. r \<noteq> Some (External z)) \<longrightarrow> ev_sub v = SubState_new)))"

lemma xwp_static_try:
  assumes run: "static_runs (cx_sha3 c) run" and x: "static_exec x" "x_ext x = Some v" "x_savepoint x = savepoint s0"
    and c: "\<not> haveCreate2 (cx_schedule c)" "cx_number c < constantinopleForkBlock (cx_params c) + 256"
    and s: "unobserved (cx_sha3 c) s0 s"
  shows "xwp E (catching (go_try c run v)) (static_tried (cx_sha3 c) s0) (x, s)"
proof -
  have v: "ev_staticCall v" "ev_sub v = SubState_new" "\<not> x_isCreation x"
    using x by (simp_all add: static_exec_def)
  show ?thesis
    unfolding xwp_catching go_try_def xwp_simps
    using s x v by (auto simp: xwp_simps static_tried_def split: option.split sum.split intro!: xwp_silent [OF silent_native(2)] xwp_static_vm [OF run v(1,2) c s])
qed

lemma SubState_clear_new: "SubState_clear \<sigma> = SubState_new"
  by (simp add: SubState_clear_def SubState_new_def)

lemma xwp_static_catch:
  assumes "static_tried (cx_sha3 c) s0 (Some e) (x, s)"
  shows "xwp (\<lambda>_ (x', s'). unobserved (cx_sha3 c) s0 s') (go_catch c e) (\<lambda>_ (x', s'). unobserved (cx_sha3 c) s0 s' \<and> static_exec x') (x, s)"
proof -
  have a: "unobserved (cx_sha3 c) s0 s" "x_savepoint x = savepoint s0" "\<not> x_isCreation x" "\<And>v. x_ext x = Some v \<Longrightarrow> ev_staticCall v"
    using assms by (simp_all add: static_tried_def)
  then show ?thesis
    by (auto simp: go_catch_def vm_failure_def xwp_simps static_exec_def SubState_clear_new split: vm_error.split intro!: xwp_silent_revert)
qed

lemma static_go:
  assumes c: "\<not> haveCreate2 (cx_schedule c)" "cx_number c < constantinopleForkBlock (cx_params c) + 256" and run: "static_runs (cx_sha3 c) run"
  shows "static_runs (cx_sha3 c) (Executive_go c run)"
  unfolding static_runs_def
proof (intro allI impI)
  fix x s s0
  assume a: "static_exec x \<and> x_savepoint x = savepoint s0 \<and> unobserved (cx_sha3 c) s0 s"
  let ?E = "\<lambda>_ (x', s'). unobserved (cx_sha3 c) s0 s'" and ?Q = "\<lambda>_ (x', s'). unobserved (cx_sha3 c) s0 s' \<and> static_exec x'"
  show "xwp ?E (Executive_go c run) ?Q (x, s)"
  proof (cases "x_ext x")
    case None
    then show ?thesis
      using a by (simp add: Executive_go_def xwp_simps)
  next
    case (Some v)
    have "xwp ?E (case r of None \<Rightarrow> xret () | Some e \<Rightarrow> go_catch c e) ?Q q" if "static_tried (cx_sha3 c) s0 r q" for r q
      using that xwp_static_catch [of c s0 _ "fst q" "snd q"]
      by (cases r; cases q) (auto simp: xwp_simps static_tried_def static_exec_def)
    then have "xwp ?E (case r of None \<Rightarrow> xret () | Some e \<Rightarrow> go_catch c e) (\<lambda>_ q.
        ?Q () ((fst q)\<lparr>x_res := map_option ((\<lambda>x r. if x_output x \<noteq> [] then r\<lparr>er_output := x_output x\<rparr> else r) (fst q)) (x_res (fst q))\<rparr>, snd q)) q"
      if "static_tried (cx_sha3 c) s0 r q" for r q
      by (rule xwp_conseq [OF _ _ _]) (use that in \<open>auto simp: static_exec_def split: prod.splits\<close>)
    then show ?thesis
      unfolding Executive_go_def xwp_simps fst_conv Some option.case
      using a Some by (intro xwp_conseq [OF xwp_static_try [OF run _ _ _ c, of x v s0 s]]) simp_all
  qed
qed

lemma static_go_levels:
  assumes "\<not> haveCreate2 (cx_schedule c)" "cx_number c < constantinopleForkBlock (cx_params c) + 256"
  shows "static_runs (cx_sha3 c) (go c k)"
proof (induction k)
  case 0
  then show ?case
    by (simp add: static_runs_def xwp_simps)
next
  case (Suc k)
  then show ?case
    using static_go [OF assms] by simp
qed

section \<open>The guarantee\<close>

text \<open>(C2) Static calls leave the world as it was. Under a schedule without \<open>CREATE2\<close> and in a block before the 256th after the Constantinople fork, a static call in which no value moves to another account, with everything that it calls
  in turn to any depth, succeeds, fails or is cut short by an exception without a change that could be observed: no account has another nonce, balance, code or storage than before, no log,
  refund or self-destruction is added to the sub-state, and what was written to the caches can be rolled back to the state before, account by account.\<close>

theorem static_call_preserves_state:
  assumes "\<not> haveCreate2 (cx_schedule c)" "cx_number c < constantinopleForkBlock (cx_params c) + 256"
    and "call_static p" "valueTransfer p = 0 \<or> senderAddress p = receiveAddress p"
    and "state_ok (cx_sha3 c) (world e)" "ExtVM_call c (go c k) v p e = (r, e')"
  shows "sub e' = sub e \<and> state_ok (cx_sha3 c) (world e') \<and> observed (cx_sha3 c) (world e') = observed (cx_sha3 c) (world e) \<and>
    (\<exists>s. rollback (cx_sha3 c) (savepoint (world e)) (world e') = Some s \<and> view (cx_sha3 c) s = view (cx_sha3 c) (world e))"
proof -
  have "sub e' = sub e \<and> unobserved (cx_sha3 c) (world e) (world e')"
    by (rule static_nested [OF static_go_levels [OF assms(1,2)] _ assms(5,6)]) (simp add: static_params_def assms(3,4))
  then show ?thesis
    using undoable_rollback [of "cx_sha3 c" "world e" "world e'"] by (auto simp: unobserved_def dest: undoable_ok)
qed

text \<open>A static call of an account that does not exist.\<close>

theorem static_call_preserves_state_witness:
  "let c = demo_context; s = State_empty (cx_sha3 c) 0 (\<lambda>_. 0); v = \<lparr>ev_myAddress = 5, ev_caller = 6, ev_origin = 6, ev_value = 0, ev_gasPrice = 1, ev_data = [],
       ev_code = [], ev_codeHash = 0, ev_sub = SubState_new, ev_depth = 0, ev_isCreate = False, ev_staticCall = False\<rparr>;
     p = CallParameters_init\<lparr>senderAddress := 5, receiveAddress := 7, codeAddress := 7, call_gas := 100, call_static := True\<rparr>;
     e' = snd (ExtVM_call c (go c 1025) v p \<lparr>sub = SubState_new, world = s\<rparr>) in
   sub e' = SubState_new \<and> observed (cx_sha3 c) (world e') = observed (cx_sha3 c) s"
proof -
  let ?c = demo_context and ?s = "State_empty (cx_sha3 demo_context) 0 (\<lambda>_. 0)"
  let ?p = "CallParameters_init\<lparr>senderAddress := 5, receiveAddress := 7, codeAddress := 7, call_gas := 100, call_static := True\<rparr>"
  have c: "\<not> haveCreate2 (cx_schedule ?c)" "cx_number ?c < constantinopleForkBlock (cx_params ?c) + 256"
    by (simp_all add: cx_schedule_def demo_context_def demo_params_def ChainOperationParams_new_def c_infiniteBlockNumer_def cx_number_def bare_env_def
        scheduleForBlockNumber_def schedule_defs not_le)
  have "EmptyTrie (cx_sha3 ?c) \<noteq> 0"
    by (simp add: EmptyTrie_def demo_context_def fromBigEndian_def)
  then have ok: "state_ok (cx_sha3 ?c) (world \<lparr>sub = SubState_new, world = ?s\<rparr>)"
    by (simp add: State_empty_ok)
  show ?thesis
    unfolding Let_def
    using static_call_preserves_state [OF c, of ?p, OF _ _ ok, of 1025, OF _ _ prod.collapse [symmetric]] by (simp add: CallParameters_init_def)
qed

section \<open>The block hash contract\<close>

text \<open>(C5) From 256 blocks after the Constantinople fork on, \<open>BLOCKHASH\<close> runs the block hash contract as a transaction of its own and then clears the cache of the state
  with all changes that are not yet committed: those of the running transaction and of the ones before it in the block too, not only those of the contract.\<close>

theorem blockhash_drops_pending_changes:
  assumes "number < cx_number c" "max 256 (cx_number c) - 256 \<le> number" "constantinopleForkBlock (cx_params c) + 256 \<le> cx_number c"
    and "ExtVM_blockHash c run v number e = (Inr h, e')"
  shows "m_cache (world e') = []"
  using assms by (auto simp: ExtVM_blockHash_def Let_def not_le not_less State_execute_def xbind_def xs_def xret_def smodify_def split: sum.splits prod.splits if_splits)

definition late_context :: exec_context where
  "late_context = demo_context\<lparr>cx_sha3 := \<lambda>_. 1, cx_params := demo_params\<lparr>constantinopleForkBlock := 0\<rparr>,
     cx_info := bare_env\<lparr>env_gasLimit := 2000000, env_number := 300\<rparr>\<rparr>"

definition late_vm :: ExtVM where
  "late_vm = \<lparr>ev_myAddress = 7, ev_caller = 5, ev_origin = 5, ev_value = 0, ev_gasPrice = 1, ev_data = [],
       ev_code = [], ev_codeHash = 0, ev_sub = SubState_new, ev_depth = 0, ev_isCreate = False, ev_staticCall = False\<rparr>"

definition late_state :: state where
  "late_state = snd (addBalance (\<lambda>_. 1) 7 100 (State_empty (\<lambda>_. 1) 0 (\<lambda>_. 0)))"

lemma late_context_simps [simp]:
  "cx_sha3 late_context = (\<lambda>_. 1)" "cx_number late_context = 300" "env_gasLimit (cx_info late_context) = 2000000" "cx_gasUsed late_context = 0"
  "env_author (cx_info late_context) = 0" "cx_schedule late_context = ConstantinopleSchedule" "constantinopleForkBlock (cx_params late_context) = 0"
  "EIP158ForkBlock (cx_params late_context) = 0" "homesteadForkBlock (cx_params late_context) = 0" "byzantiumForkBlock (cx_params late_context) = 0"
  "precompiled (cx_params late_context) = Map.empty"
  by (simp_all add: late_context_def demo_context_def demo_params_def ChainOperationParams_new_def c_infiniteBlockNumer_def cx_number_def bare_env_def cx_schedule_def
      scheduleForBlockNumber_def)

definition late_ext :: "state ext" where
  "late_ext = \<lparr>sub = SubState_new, world = late_state\<rparr>"

lemmas exec_eval = xbind_def xret_def xget_def xset_def xs_def xthrow_def xassert_def note_res_def note_savepoint_def

definition late_tx :: TransactionBase where
  "late_tx = forceSender 5 (TransactionBase_call 0 0 1000000 c_blockhashContractAddress (toBigEndian 290 32) 0)"

lemma late_tx_simps [simp]:
  "t_type late_tx = MessageCall" "t_nonce late_tx = 0" "t_value late_tx = 0" "t_receiveAddress late_tx = 0xf0" "t_gasPrice late_tx = 0" "t_gas late_tx = 1000000"
  "t_sender late_tx = 5" "hasZeroSignature late_tx = False" "isCreation late_tx = False" "nonNull late_tx" "hasSignature late_tx = False"
  "sender h r late_tx = (Inr 5, late_tx)"
  by (simp_all add: late_tx_def forceSender_def TransactionBase_call_def TransactionBase_null_def hasZeroSignature_def isCreation_def nonNull_def hasSignature_def sender_def
     c_blockhashContractAddress_def)

lemma toBigEndian_numeral: "toBigEndian n (numeral k) = toBigEndian (n div 256) (pred_numeral k) @ [of_nat (n mod 256)]"
  by (simp only: numeral_eq_Suc [of k] toBigEndian.simps)

lemma late_gas [simp]: "baseGasRequired False (t_data late_tx) ConstantinopleSchedule = 21256"
proof -
  have "t_data late_tx = [0, 0, 0, 0, 0, 0, 0, 0, 0, 0, 0, 0, 0, 0, 0, 0, 0, 0, 0, 0, 0, 0, 0, 0, 0, 0, 0, 0, 0, 0, 1, 34]"
    by (simp add: late_tx_def forceSender_def TransactionBase_call_def toBigEndian_numeral)
  moreover have "txDataNonZeroGas ConstantinopleSchedule = 68" "txDataZeroGas ConstantinopleSchedule = 4" "txGas ConstantinopleSchedule = 21000"
    by (simp_all add: schedule_defs)
  ultimately show ?thesis
    by (simp add: baseGasRequired_def)
qed

lemma late_verify [simp]: "verifyTransaction (cx_params late_context) Everything late_tx 300 2000000 0 = None"
  using late_gas late_context_simps(6) by (simp add: verifyTransaction_def cx_schedule_def)

lemmas late_eval = late_state_def state_eval initialize_def exec_eval tx_sender_def getNonce_def balance_def Executive_new_def ExecutionResult_new_def execute_def Let_def
   Executive_call_def isPrecompiled_def call_code_def incNonce_def MaxAddress_def isNativeContract_def PartitionNativeContracts_def registry_keyOn getData_def
   getWord_def addressHasCode_def call_transfer_def transferBalance_def RootContractAddress_def savepoint_def

lemma late_nonce: "getNonce (\<lambda>_. 1) 5 late_state = (Inr 0, snd (getNonce (\<lambda>_. 1) 5 late_state))"
  by (simp add: late_eval)

abbreviation late_account :: "u256 \<Rightarrow> u256 \<Rightarrow> account" where
  "late_account n b \<equiv> \<lparr>m_isAlive = True, m_isUnchanged = False, m_hasNewCode = False, m_nonce = n, m_balance = b, m_storageRoot = 1, m_codeHash = 1,
     m_storageOverlay = [], m_codeCache = []\<rparr>"

definition late_after :: state where
  "late_after = (State_empty (\<lambda>_. 1) 0 (\<lambda>_. 0))\<lparr>m_cache := [(7, late_account 0 100), (5, late_account 1 0), (240, late_account 0 0)],
     m_nonExistingAccountsCache := {RootContractAddress}, m_changeLog := [Create 7, Balance 7 100, Create 5, Create 240]\<rparr>"

definition late_executive :: Executive where
  "late_executive = (Executive_new 0)\<lparr>x_res := Some ExecutionResult_new, x_baseGasRequired := 21256, x_gas := 978744, x_t := late_tx, x_savepoint := 3\<rparr>"

lemma late_call:
  "xbind (initialize late_context late_tx) (\<lambda>_. execute late_context) ((Executive_new 0)\<lparr>x_res := Some ExecutionResult_new\<rparr>, snd (getNonce (\<lambda>_. 1) 5 late_state)) =
     (Inr True, late_executive, late_after)"
  by (simp add: late_eval late_executive_def late_after_def del: One_nat_def)

lemma late_finalize: "\<exists>b x s. finalize late_context (late_executive, late_after) = (Inr b, x, s)"
  by (simp add: finalize_def late_executive_def late_after_def gasUsed_def late_eval del: One_nat_def) (rule exI, rule TrueI)

lemma late_execute: "\<exists>r s. State_execute late_context run late_tx Reverted (snd (getNonce (\<lambda>_. 1) 5 late_state)) = (Inr r, s)"
proof -
  obtain b x s where "finalize late_context (late_executive, late_after) = (Inr b, x, s)"
    using late_finalize by blast
  moreover have "executeTransaction late_context run late_tx q = xbind (xbind (initialize late_context late_tx) (\<lambda>_. execute late_context)) (\<lambda>finished.
      xbind (if finished then xret () else run) (\<lambda>_. finalize late_context)) q" for q
    by (simp add: executeTransaction_def xbind_def split: prod.splits sum.splits)
  ultimately show ?thesis
    using late_call by (simp add: State_execute_def xbind_def [of "executeTransaction _ _ _"] xbind_def [of "xbind _ _"] xbind_def [of "xret _"]
        xbind_def [of "xs _"] xret_def xs_def smodify_def)
qed

lemma late_blockHash: "\<exists>h e'. ExtVM_blockHash late_context run late_vm 290 late_ext = (Inr h, e')"
proof -
  obtain t where t: "getNonce (\<lambda>_. 1) 5 late_state = (Inr 0, t)" "t = snd (getNonce (\<lambda>_. 1) 5 late_state)"
    using late_nonce by blast
  then obtain r s where "State_execute late_context run late_tx Reverted t = (Inr r, s)"
    using late_execute by blast
  then show ?thesis
    by (simp add: ExtVM_blockHash_def hs_def late_vm_def late_ext_def t(1) late_tx_def Let_def split: prod.split)
qed

text \<open>The account 7 has received 100 in the block; after the instruction it has nothing.\<close>

theorem blockhash_drops_pending_changes_witness:
  "\<exists>h e'. ExtVM_blockHash late_context (go late_context 1025) late_vm 290 late_ext = (Inr h, e') \<and> m_cache (world e') = [] \<and>
    map_option m_balance (map_of (m_cache (world late_ext)) 7) = Some 100"
proof -
  obtain h e' where e: "ExtVM_blockHash late_context (go late_context 1025) late_vm 290 late_ext = (Inr h, e')"
    using late_blockHash by blast
  have "m_cache (world e') = []"
    by (rule blockhash_drops_pending_changes [OF _ _ _ e]) simp_all
  moreover have "map_option m_balance (map_of (m_cache (world late_ext)) 7) = Some 100"
    by (simp add: late_ext_def late_eval)
  ultimately show ?thesis
    using e by blast
qed

end
