(* ===== verification/TransactionQueue.thy ===== *)
theory TransactionQueue
  imports Transaction
begin

text \<open>
  The pool of pending transactions: class \<open>TransactionQueue\<close> of \<open>libwing/TransactionQueue.h\<close> and \<open>TransactionQueue.cpp\<close>. The set \<open>m_current\<close> owns
  the transactions that can be mined; \<open>m_currentByHash\<close> and \<open>m_currentByAddressAndNonce\<close> hold iterators into it. Iterators are explicit: a node of the set has a number, and
  using an iterator that is singular or whose node is gone is undefined behaviour. Every public operation holds a lock from its first access to its last, so that the operations of different
  threads are interleaved as a whole; the threads that verify incoming transactions have a second lock for their input queue. Logging is left out; the signals that are raised
  are recorded in \<open>m_raised\<close>.
\<close>

section \<open>Ordered maps\<close>

text \<open>\<open>std::map\<close> as a list in the order of the keys.\<close>

fun omap_put :: "'k::linorder \<Rightarrow> 'v \<Rightarrow> ('k \<times> 'v) list \<Rightarrow> ('k \<times> 'v) list" where
  "omap_put k v [] = [(k, v)]"
| "omap_put k v ((k', v') # m) = (if k < k' then (k, v) # (k', v') # m else if k = k' then (k, v) # m else (k', v') # omap_put k v m)"

text \<open>\<open>insert\<close> and \<open>emplace\<close> keep the entry that is there.\<close>

definition omap_insert :: "'k::linorder \<Rightarrow> 'v \<Rightarrow> ('k \<times> 'v) list \<Rightarrow> ('k \<times> 'v) list" where
  "omap_insert k v m = (if map_of m k = None then omap_put k v m else m)"

definition omap_erase :: "'k \<Rightarrow> ('k \<times> 'v) list \<Rightarrow> ('k \<times> 'v) list" where
  "omap_erase k m = filter (\<lambda>p. fst p \<noteq> k) m"

section \<open>Data\<close>

datatype handle = Singular | Node nat

datatype ImportResult =
    Import_Success
  | UnknownParent
  | FutureTimeKnown
  | FutureTimeUnknown
  | AlreadyInChain
  | AlreadyKnown
  | Malformed
  | OverbidGasPrice
  | BadChain
  | ZeroSignature

datatype IfDropped = Ignore | Retry

datatype tq_signal = OnReady | OnReplaced h256 | OnImport ImportResult h256 u512

record TransactionQueue =
  m_known :: "h256 set"
  m_dropped :: "h256 set"
  m_current :: "(nat \<times> TransactionBase) list"
  m_currentByHash :: "h256 \<rightharpoonup> handle"
  m_currentByAddressAndNonce :: "address \<rightharpoonup> (u256 \<times> handle) list"
  m_future :: "(address \<times> (u256 \<times> TransactionBase) list) list"
  m_limit :: nat
  m_futureLimit :: nat
  m_futureSize :: nat
  m_unverified :: "(bytes \<times> u512) list"
  m_inWork :: "(bytes \<times> u512) list"
  m_raised :: "tq_signal list"
  m_nextNode :: nat

text \<open>
  \<open>m_future\<close> is an unordered map: its first entry is that whose index is \<open>tq_begin\<close>. \<open>tq_tree\<close> and \<open>tq_meets\<close> tell, for a set that is not in the order of its comparison, where the search
  ends and whether it meets an element for which the comparison throws. \<open>m_futureSize\<close> is decremented only together with the removal of a future transaction. \<open>m_inWork\<close> has the items that verifier threads have taken and not yet imported.
\<close>

record tq_env =
  tq_sha3 :: "bytes \<Rightarrow> h256"
  tq_recover :: "SignatureStruct \<Rightarrow> h256 \<Rightarrow> u512"
  tq_begin :: "address list \<Rightarrow> nat"
  tq_tree :: "TransactionBase list \<Rightarrow> TransactionBase \<Rightarrow> nat"
  tq_meets :: "TransactionBase list \<Rightarrow> TransactionBase \<Rightarrow> bool"

definition TransactionQueue_new :: "nat \<Rightarrow> nat \<Rightarrow> TransactionQueue" where
  "TransactionQueue_new limit futureLimit = \<lparr>m_known = {}, m_dropped = {}, m_current = [], m_currentByHash = Map.empty,
     m_currentByAddressAndNonce = Map.empty, m_future = [], m_limit = limit, m_futureLimit = futureLimit, m_futureSize = 0, m_unverified = [],
     m_inWork = [], m_raised = [], m_nextNode = 0\<rparr>"

text \<open>What leaves an operation other than by a return. A loop that repeats in the same state does not end.\<close>

datatype tq_error = TqThrow tx_error | TqAssert | TqUndefined | TqForever

type_synonym 'a tqop = "TransactionQueue \<Rightarrow> (tq_error + 'a) \<times> TransactionQueue"

definition tret :: "'a \<Rightarrow> 'a tqop" where
  "tret a q = (Inr a, q)"

definition tthrow :: "tq_error \<Rightarrow> 'a tqop" where
  "tthrow z q = (Inl z, q)"

definition tbind :: "'a tqop \<Rightarrow> ('a \<Rightarrow> 'b tqop) \<Rightarrow> 'b tqop" where
  "tbind m f q = (case m q of (Inl z, q') \<Rightarrow> (Inl z, q') | (Inr a, q') \<Rightarrow> f a q')"

definition tget :: "(TransactionQueue \<Rightarrow> 'a) \<Rightarrow> 'a tqop" where
  "tget f q = (Inr (f q), q)"

definition tset :: "(TransactionQueue \<Rightarrow> TransactionQueue) \<Rightarrow> unit tqop" where
  "tset f q = (Inr (), f q)"

definition traise :: "tq_signal \<Rightarrow> unit tqop" where
  "traise g = tset (\<lambda>q. q\<lparr>m_raised := m_raised q @ [g]\<rparr>)"

section \<open>Transactions in the queue\<close>

text \<open>
  Hash, sender and \<open>from\<close> of a transaction of the queue. Its caches have been filled before it was queued, so that asking again changes nothing.
\<close>

definition hash_of :: "tq_env \<Rightarrow> TransactionBase \<Rightarrow> tx_error + h256" where
  "hash_of e t = fst (tx_sha3 (tq_sha3 e) True t)"

definition sender_of :: "tq_env \<Rightarrow> TransactionBase \<Rightarrow> tx_error + address" where
  "sender_of e t = fst (sender (tq_sha3 e) (tq_recover e) t)"

definition from_of :: "tq_env \<Rightarrow> TransactionBase \<Rightarrow> address" where
  "from_of e t = fst (safeSender (tq_sha3 e) (tq_recover e) t)"

definition tx_hash :: "tq_env \<Rightarrow> TransactionBase \<Rightarrow> h256 tqop" where
  "tx_hash e t = (case hash_of e t of Inl z \<Rightarrow> tthrow (TqThrow z) | Inr h \<Rightarrow> tret h)"

definition deref :: "handle \<Rightarrow> TransactionBase tqop" where
  "deref x q = (case x of
     Singular \<Rightarrow> (Inl TqUndefined, q)
   | Node i \<Rightarrow> (case map_of (m_current q) i of None \<Rightarrow> (Inl TqUndefined, q) | Some t \<Rightarrow> (Inr t, q)))"

section \<open>The priority queue\<close>

text \<open>The height of a transaction in \<open>PriorityCompare\<close>: the distance from the first nonce of its sender.\<close>

definition priority_height :: "tq_env \<Rightarrow> TransactionQueue \<Rightarrow> TransactionBase \<Rightarrow> tq_error + u256" where
  "priority_height e q t = (case sender_of e t of
     Inl z \<Rightarrow> Inl (TqThrow z)
   | Inr a \<Rightarrow> (case m_currentByAddressAndNonce q a of
       Some ((n, _) # _) \<Rightarrow> Inr (t_nonce t - n)
     | _ \<Rightarrow> Inl TqUndefined))"

definition PriorityCompare :: "u256 \<Rightarrow> TransactionBase \<Rightarrow> u256 \<Rightarrow> TransactionBase \<Rightarrow> bool" where
  "PriorityCompare height1 t1 height2 t2 \<longleftrightarrow> height1 < height2 \<or> height1 = height2 \<and> t_gasPrice t1 > t_gasPrice t2"

text \<open>
  The place of a new element: none is compared in an empty set. In a set in the order of the comparison it is the upper bound; the heights change with
  the first nonce of a sender, and a set that is out of order is searched as its tree happens to be.
\<close>

definition current_place :: "tq_env \<Rightarrow> TransactionBase \<Rightarrow> TransactionQueue \<Rightarrow> tq_error + nat" where
  "current_place e t q =
     (let ts = map snd (m_current q); hs = map (priority_height e q) ts in
      if ts = [] then Inr 0
      else (case priority_height e q t of
        Inl z \<Rightarrow> Inl z
      | Inr height \<Rightarrow>
          if Inl TqUndefined \<in> set hs then Inl TqUndefined
          else if list_all (\<lambda>h. case h of Inr _ \<Rightarrow> True | Inl _ \<Rightarrow> False) hs then
            (let ps = zip (map (\<lambda>h. case h of Inr n \<Rightarrow> n | Inl _ \<Rightarrow> 0) hs) ts in
             if sorted_wrt (\<lambda>p p'. \<not> PriorityCompare (fst p') (snd p') (fst p) (snd p)) ps
             then Inr (length (takeWhile (\<lambda>p. \<not> PriorityCompare height t (fst p) (snd p)) ps))
             else Inr (tq_tree e ts t))
          else if tq_meets e ts t then Inl (TqThrow InvalidSignature)
          else Inr (tq_tree e ts t)))"

definition emplace_current :: "tq_env \<Rightarrow> TransactionBase \<Rightarrow> handle tqop" where
  "emplace_current e t q = (case current_place e t q of
     Inl z \<Rightarrow> (Inl z, q)
   | Inr k \<Rightarrow> (Inr (Node (m_nextNode q)),
       q\<lparr>m_current := take k (m_current q) @ [(m_nextNode q, t)] @ drop k (m_current q), m_nextNode := m_nextNode q + 1\<rparr>))"

definition erase_current :: "handle \<Rightarrow> unit tqop" where
  "erase_current x = tbind (deref x) (\<lambda>_. tset (\<lambda>q. q\<lparr>m_current := filter (\<lambda>p. Node (fst p) \<noteq> x) (m_current q)\<rparr>))"

text \<open>The lines that put a transaction into the set and both indices. The entry for the nonce is made before the set is searched.\<close>

definition index_by_nonce :: "address \<Rightarrow> u256 \<Rightarrow> handle \<Rightarrow> (u256 \<Rightarrow> handle \<Rightarrow> (u256 \<times> handle) list \<Rightarrow> (u256 \<times> handle) list) \<Rightarrow> unit tqop" where
  "index_by_nonce a n x ins = tset (\<lambda>q. q\<lparr>m_currentByAddressAndNonce :=
     (m_currentByAddressAndNonce q)(a \<mapsto> ins n x (case m_currentByAddressAndNonce q a of None \<Rightarrow> [] | Some m \<Rightarrow> m))\<rparr>)"

definition add_current :: "tq_env \<Rightarrow> address \<Rightarrow> TransactionBase \<Rightarrow> unit tqop" where
  "add_current e a t =
     tbind (index_by_nonce a (t_nonce t) Singular omap_insert) (\<lambda>_.
     tbind (emplace_current e t) (\<lambda>x.
     tbind (index_by_nonce a (t_nonce t) x omap_put) (\<lambda>_.
     tbind (tx_hash e t) (\<lambda>h.
     tset (\<lambda>q. q\<lparr>m_currentByHash := (m_currentByHash q)(h \<mapsto> x)\<rparr>)))))"

section \<open>Removing\<close>

definition remove_WITH_LOCK :: "tq_env \<Rightarrow> h256 \<Rightarrow> bool tqop" where
  "remove_WITH_LOCK e h =
     tbind (tget (\<lambda>q. m_currentByHash q h)) (\<lambda>r. case r of
       None \<Rightarrow> tret False
     | Some x \<Rightarrow>
         tbind (deref x) (\<lambda>t.
         tbind (tget (\<lambda>q. m_currentByAddressAndNonce q (from_of e t))) (\<lambda>it. case it of
           None \<Rightarrow> tthrow TqAssert
         | Some m \<Rightarrow>
             tbind (erase_current x) (\<lambda>_.
             tbind (tset (\<lambda>q. q\<lparr>m_currentByHash := (m_currentByHash q)(h := None),
                 m_currentByAddressAndNonce := (m_currentByAddressAndNonce q)(from_of e t :=
                   (if omap_erase (t_nonce t) m = [] then None else Some (omap_erase (t_nonce t) m))),
                 m_known := m_known q - {h}\<rparr>)) (\<lambda>_. tret True)))))"

text \<open>The loop that drops the last transactions above the limit. When nothing is removed the loop is back where it was.\<close>

lemma remove_shorter: "remove_WITH_LOCK e h q = (Inr True, q') \<Longrightarrow> length (m_current q') < length (m_current q)"
  by (auto simp: remove_WITH_LOCK_def erase_current_def deref_def tbind_def tget_def tret_def tset_def tthrow_def
      split: option.splits handle.splits sum.splits prod.splits dest!: map_of_SomeD intro!: length_filter_less)

function trim_current :: "tq_env \<Rightarrow> unit tqop" where
  "trim_current e q =
     (if length (m_current q) > m_limit q then
        (case tbind (tx_hash e (snd (last (m_current q)))) (remove_WITH_LOCK e) q of
           (Inl z, q') \<Rightarrow> (Inl z, q')
         | (Inr removed, q') \<Rightarrow> if removed then trim_current e q' else (Inl TqForever, q'))
      else (Inr (), q))"
  by pat_completeness auto
termination
proof (relation "measure (\<lambda>(e, q). length (m_current q))", goal_cases)
  case (2 e q x q' removed)
  then have "tbind (tx_hash e (snd (last (m_current q)))) (remove_WITH_LOCK e) q = (Inr True, q')"
    by auto
  then show ?case
    by (auto simp: tbind_def tx_hash_def tret_def tthrow_def dest: remove_shorter split: sum.splits prod.splits)
qed simp

declare trim_current.simps [simp del]

section \<open>Future transactions\<close>

definition future_at :: "address \<Rightarrow> TransactionQueue \<Rightarrow> (u256 \<times> TransactionBase) list" where
  "future_at a q = (case map_of (m_future q) a of None \<Rightarrow> [] | Some m \<Rightarrow> m)"

text \<open>A map of the future transactions of \<open>a\<close>; an empty one is erased.\<close>

definition set_future :: "address \<Rightarrow> (u256 \<times> TransactionBase) list \<Rightarrow> TransactionQueue \<Rightarrow> TransactionQueue" where
  "set_future a m q = q\<lparr>m_future := (if m = [] then AList.delete a (m_future q) else AList.update a m (m_future q))\<rparr>"

text \<open>
  The loop of \<open>makeCurrent\<close> over the following nonces. A transaction is moved into the node of the set before its place is searched: when the search throws, it and those before it in the loop are
  still in \<open>m_future\<close> without their data.
  The result is the number of transactions passed.
\<close>

definition moved_from :: "address \<Rightarrow> u256 \<Rightarrow> TransactionBase \<Rightarrow> TransactionQueue \<Rightarrow> TransactionQueue" where
  "moved_from a n t q =
     q\<lparr>m_future := AList.map_entry a (\<lambda>l. map (\<lambda>p. if fst p = n then (n, t\<lparr>t_data := []\<rparr>) else p) l) (m_future q)\<rparr>"

fun future_loop :: "tq_env \<Rightarrow> address \<Rightarrow> u256 \<Rightarrow> (u256 \<times> TransactionBase) list \<Rightarrow> nat tqop" where
  "future_loop e a nonce [] q = (Inr 0, q)"
| "future_loop e a nonce ((n, t) # m) q =
     (if t_nonce t = nonce then
        (case add_current e a t q of
           (Inl z, q') \<Rightarrow> (Inl z, moved_from a n t q')
         | (Inr _, q') \<Rightarrow>
             (case future_loop e a (nonce + 1) m (q'\<lparr>m_futureSize := m_futureSize q' - 1\<rparr>) of
                (Inl z, q'') \<Rightarrow> (Inl z, moved_from a n t q'')
              | (Inr k, q'') \<Rightarrow> (Inr (k + 1), q'')))
      else (Inr 0, q))"

text \<open>The loop that drops future transactions above the limit, from the end of the first chain. An empty map has no first chain.\<close>

function trim_future :: "tq_env \<Rightarrow> unit tqop" where
  "trim_future e q =
     (if m_futureSize q > m_futureLimit q then
        (if m_future q = [] then (Inl TqUndefined, q)
         else
           (case m_future q ! (tq_begin e (map fst (m_future q)) mod length (m_future q)) of (a, m) \<Rightarrow>
              if m = [] then (Inl TqUndefined, q)
              else trim_future e (set_future a (butlast m) (q\<lparr>m_futureSize := m_futureSize q - 1\<rparr>))))
      else (Inr (), q))"
  by pat_completeness auto
termination
  by (relation "measure (\<lambda>(e, q). m_futureSize q)") (auto simp: set_future_def)

declare trim_future.simps [simp del]

definition makeCurrent_WITH_LOCK :: "tq_env \<Rightarrow> TransactionBase \<Rightarrow> unit tqop" where
  "makeCurrent_WITH_LOCK e t =
     (let a = from_of e t; nonce = t_nonce t + 1 in
      tbind (tget (future_at a)) (\<lambda>m.
      tbind
        (if map_of m nonce = None then tret False
         else
           (let before = takeWhile (\<lambda>p. fst p \<noteq> nonce) m; rest = dropWhile (\<lambda>p. fst p \<noteq> nonce) m in
            tbind (future_loop e a nonce rest) (\<lambda>k.
            tbind (tset (set_future a (before @ drop k rest))) (\<lambda>_. tret (k > 0))))) (\<lambda>newCurrent.
      tbind (trim_future e) (\<lambda>_.
      if newCurrent then traise OnReady else tret ()))))"

section \<open>Importing\<close>

definition insertCurrent_WITH_LOCK :: "tq_env \<Rightarrow> h256 \<Rightarrow> TransactionBase \<Rightarrow> unit tqop" where
  "insertCurrent_WITH_LOCK e h t =
     tbind (tget (\<lambda>q. m_currentByHash q h)) (\<lambda>r.
     if r \<noteq> None then tret ()
     else
       tbind (add_current e (from_of e t) t) (\<lambda>_.
       tbind (makeCurrent_WITH_LOCK e t) (\<lambda>_.
       tset (\<lambda>q. q\<lparr>m_known := insert h (m_known q)\<rparr>))))"

definition check_WITH_LOCK :: "h256 \<Rightarrow> IfDropped \<Rightarrow> TransactionQueue \<Rightarrow> ImportResult" where
  "check_WITH_LOCK h ik q =
     (if h \<in> m_known q then AlreadyKnown else if h \<in> m_dropped q \<and> ik = Ignore then AlreadyInChain else Import_Success)"

text \<open>The two tests for a transaction with the same nonce; \<open>False\<close> is the answer that its gas price is higher.\<close>

definition replace_current :: "tq_env \<Rightarrow> TransactionBase \<Rightarrow> bool tqop" where
  "replace_current e t =
     tbind (tget (\<lambda>q. Option.bind (m_currentByAddressAndNonce q (from_of e t)) (\<lambda>m. map_of m (t_nonce t)))) (\<lambda>r. case r of
       None \<Rightarrow> tret True
     | Some x \<Rightarrow>
         tbind (deref x) (\<lambda>old.
         if t_gasPrice t < t_gasPrice old then tret False
         else
           tbind (tx_hash e old) (\<lambda>dropped.
           tbind (remove_WITH_LOCK e dropped) (\<lambda>_.
           tbind (traise (OnReplaced dropped)) (\<lambda>_. tret True)))))"

definition replace_future :: "tq_env \<Rightarrow> TransactionBase \<Rightarrow> bool tqop" where
  "replace_future e t =
     (let a = from_of e t in
      tbind (tget (future_at a)) (\<lambda>m. case map_of m (t_nonce t) of
        None \<Rightarrow> tret True
      | Some old \<Rightarrow>
          if t_gasPrice t < t_gasPrice old then tret False
          else tbind (tset (\<lambda>q. set_future a (omap_erase (t_nonce t) m) (q\<lparr>m_futureSize := m_futureSize q - 1\<rparr>))) (\<lambda>_. tret True)))"

text \<open>The exceptions of the standard library and of the program are caught; an assertion, undefined behaviour and an endless loop are none.\<close>

definition manageImport_WITH_LOCK :: "tq_env \<Rightarrow> h256 \<Rightarrow> TransactionBase \<Rightarrow> ImportResult tqop" where
  "manageImport_WITH_LOCK e h t q =
     (case tbind (replace_current e t) (\<lambda>ok. if \<not> ok then tret OverbidGasPrice
         else tbind (replace_future e t) (\<lambda>ok. if \<not> ok then tret OverbidGasPrice
           else
             tbind (insertCurrent_WITH_LOCK e h t) (\<lambda>_.
             tbind (trim_current e) (\<lambda>_.
             tbind (traise OnReady) (\<lambda>_. tret Import_Success))))) q of
        (Inl (TqThrow z), q') \<Rightarrow> (Inr Malformed, q')
      | r \<Rightarrow> r)"

definition import_tx :: "tq_env \<Rightarrow> TransactionBase \<Rightarrow> IfDropped \<Rightarrow> ImportResult tqop" where
  "import_tx e t ik q =
     (if hasZeroSignature t then (Inr ZeroSignature, q)
      else
        (case tx_sha3 (tq_sha3 e) True t of
           (Inl z, _) \<Rightarrow> (Inl (TqThrow z), q)
         | (Inr h, t1) \<Rightarrow>
             if check_WITH_LOCK h ik q \<noteq> Import_Success then (Inr (check_WITH_LOCK h ik q), q)
             else manageImport_WITH_LOCK e h (snd (safeSender (tq_sha3 e) (tq_recover e) t1)) q))"

definition import_rlp :: "tq_env \<Rightarrow> bytes \<Rightarrow> IfDropped \<Rightarrow> ImportResult tqop" where
  "import_rlp e rlp ik q =
     (case TransactionBase_rlp (tq_sha3 e) (tq_recover e) CheckEverything rlp of
        Inl _ \<Rightarrow> (Inr Malformed, q)
      | Inr t \<Rightarrow> (case import_tx e t ik q of (Inl (TqThrow z), q') \<Rightarrow> (Inr Malformed, q') | r \<Rightarrow> r))"

section \<open>The other operations\<close>

fun top_loop :: "tq_env \<Rightarrow> nat \<Rightarrow> h256 set \<Rightarrow> TransactionBase list \<Rightarrow> TransactionBase list \<Rightarrow> tx_error + TransactionBase list" where
  "top_loop e limit avoid [] ret = Inr ret"
| "top_loop e limit avoid (t # ts) ret =
     (if length ret < limit then
        (case hash_of e t of Inl z \<Rightarrow> Inl z | Inr h \<Rightarrow> top_loop e limit avoid ts (if h \<in> avoid then ret else ret @ [t]))
      else Inr ret)"

definition topTransactions :: "tq_env \<Rightarrow> nat \<Rightarrow> h256 set \<Rightarrow> TransactionQueue \<Rightarrow> tx_error + TransactionBase list" where
  "topTransactions e limit avoid q = top_loop e limit avoid (map snd (m_current q)) []"

definition knownTransactions :: "TransactionQueue \<Rightarrow> h256 set" where
  "knownTransactions q = m_known q"

definition maxNonce :: "address \<Rightarrow> TransactionQueue \<Rightarrow> u256" where
  "maxNonce a q =
     (let ret = (case m_currentByAddressAndNonce q a of None \<Rightarrow> 0 | Some m \<Rightarrow> if m = [] then 0 else fst (last m) + 1) in
      case map_of (m_future q) a of None \<Rightarrow> ret | Some m \<Rightarrow> if m = [] then ret else max ret (fst (last m) + 1))"

definition waiting :: "address \<Rightarrow> TransactionQueue \<Rightarrow> nat" where
  "waiting a q = (case m_currentByAddressAndNonce q a of None \<Rightarrow> 0 | Some m \<Rightarrow> length m) +
     (case map_of (m_future q) a of None \<Rightarrow> 0 | Some m \<Rightarrow> length m)"

text \<open>The loop of \<open>setFuture\<close> over the entries from the nonce on. The first of them is the transaction that was found by its hash, so that the chain in \<open>m_future\<close> is not left empty.\<close>

fun setFuture_loop :: "tq_env \<Rightarrow> address \<Rightarrow> (u256 \<times> handle) list \<Rightarrow> unit tqop" where
  "setFuture_loop e a [] = tret ()"
| "setFuture_loop e a ((n, x) # m) =
     tbind (deref x) (\<lambda>t.
     tbind (tx_hash e t) (\<lambda>h.
     tbind (tset (\<lambda>q. (set_future a (omap_insert (t_nonce t) t (future_at a q)) q)\<lparr>m_currentByHash := (m_currentByHash q)(h := None)\<rparr>)) (\<lambda>_.
     tbind (erase_current x) (\<lambda>_.
     tbind (tset (\<lambda>q. q\<lparr>m_futureSize := m_futureSize q + 1\<rparr>)) (\<lambda>_.
     setFuture_loop e a m)))))"

definition setFuture :: "tq_env \<Rightarrow> h256 \<Rightarrow> unit tqop" where
  "setFuture e h =
     tbind (tget (\<lambda>q. m_currentByHash q h)) (\<lambda>r. case r of
       None \<Rightarrow> tret ()
     | Some x \<Rightarrow>
         tbind (deref x) (\<lambda>t.
         (let a = from_of e t in
          tbind (tget (\<lambda>q. case m_currentByAddressAndNonce q a of None \<Rightarrow> [] | Some m \<Rightarrow> m)) (\<lambda>m.
          tbind (setFuture_loop e a (dropWhile (\<lambda>p. fst p < t_nonce t) m)) (\<lambda>_.
          (let keep = takeWhile (\<lambda>p. fst p < t_nonce t) m in
           tset (\<lambda>q. q\<lparr>m_currentByAddressAndNonce := (m_currentByAddressAndNonce q)(a := (if keep = [] then None else Some keep))\<rparr>)))))))"

definition tq_drop :: "tq_env \<Rightarrow> h256 \<Rightarrow> unit tqop" where
  "tq_drop e h =
     tbind (tget (\<lambda>q. h \<in> m_known q)) (\<lambda>known.
     if \<not> known then tret ()
     else
       tbind (tset (\<lambda>q. q\<lparr>m_dropped := insert h (m_dropped q)\<rparr>)) (\<lambda>_.
       tbind (remove_WITH_LOCK e h) (\<lambda>_. tret ())))"

definition dropGood :: "tq_env \<Rightarrow> TransactionBase \<Rightarrow> unit tqop" where
  "dropGood e t =
     tbind (makeCurrent_WITH_LOCK e t) (\<lambda>_.
     tbind (tx_hash e t) (\<lambda>h.
     tbind (tget (\<lambda>q. h \<in> m_known q)) (\<lambda>known.
     if \<not> known then tret () else tbind (remove_WITH_LOCK e h) (\<lambda>_. tret ()))))"

definition tq_clear :: "unit tqop" where
  "tq_clear = tset (\<lambda>q. q\<lparr>m_known := {}, m_current := [], m_dropped := {}, m_currentByAddressAndNonce := Map.empty, m_currentByHash := Map.empty,
     m_future := [], m_futureSize := 0\<rparr>)"

section \<open>The verification queue\<close>

definition c_maxVerificationQueueSize :: nat where
  "c_maxVerificationQueueSize = 8192"

text \<open>\<open>enqueue\<close> for the items of the list that was received.\<close>

definition enqueue :: "bytes list \<Rightarrow> u512 \<Rightarrow> unit tqop" where
  "enqueue ds nodeId = tset (\<lambda>q. q\<lparr>m_unverified := m_unverified q @
     map (\<lambda>b. (b, nodeId)) (take (c_maxVerificationQueueSize - length (m_unverified q)) ds)\<rparr>)"

text \<open>A round of \<open>verifierBody\<close>: taking an item under the lock of the verification queue, and importing it. Every exception is caught.\<close>

definition verifier_take :: "unit tqop" where
  "verifier_take q = (case m_unverified q of
     [] \<Rightarrow> (Inr (), q)
   | w # ws \<Rightarrow> (Inr (), q\<lparr>m_unverified := ws, m_inWork := m_inWork q @ [w]\<rparr>))"

definition verifier_import :: "tq_env \<Rightarrow> bytes \<times> u512 \<Rightarrow> unit tqop" where
  "verifier_import e w q0 =
     (let q = q0\<lparr>m_inWork := remove1 w (m_inWork q0)\<rparr> in
      case TransactionBase_rlp (tq_sha3 e) (tq_recover e) CheckCheap (fst w) of
        Inl _ \<Rightarrow> (Inr (), q)
      | Inr t \<Rightarrow>
          (case tbind (import_tx e t Ignore) (\<lambda>ir. tbind (tx_hash e t) (\<lambda>h. traise (OnImport ir h (snd w)))) q of
             (Inl (TqThrow z), q') \<Rightarrow> (Inr (), q')
           | r \<Rightarrow> r))"

end
