(* ===== verification/TransactionQueueInv.thy ===== *)
theory TransactionQueueInv
  imports TransactionQueue
begin

text \<open>
  The invariant of the transaction queue: both indices have exactly the nodes of the set \<open>m_current\<close>, every future transaction is filed under its sender and nonce, no hash and no pair of sender
  and nonce occurs twice, and all hashes are known. The operations keep it, so that no iterator is ever used after its node is gone, as long as the
  senders of the transactions can be recovered; a transaction with an invalid signature breaks it.
\<close>

section \<open>Ordered maps\<close>

lemma map_of_omap_put [simp]: "map_of (omap_put k v m) = (map_of m)(k \<mapsto> v)"
  by (induction m) (auto simp: fun_eq_iff)

lemma set_omap_put: "set (omap_put k v m) \<subseteq> insert (k, v) (set m)"
  by (induction m) (auto split: if_splits)

lemma keys_omap_put: "fst ` set (omap_put k v m) = insert k (fst ` set m)"
  by (induction k v m rule: omap_put.induct) (simp_all add: insert_commute)

lemma sorted_omap_put: "sorted_wrt (<) (map fst m) \<Longrightarrow> sorted_wrt (<) (map fst (omap_put k v m))"
proof (induction m)
  case (Cons p m)
  then show ?case
    using keys_omap_put [of k v m] by (cases p) (auto simp flip: image_set)
qed simp

lemma omap_put_not_Nil [simp]: "omap_put k v m \<noteq> []"
  by (induction k v m rule: omap_put.induct) simp_all

lemma omap_put_fresh: "map_of m k = None \<Longrightarrow> sorted_wrt (<) (map fst m) \<Longrightarrow> set (omap_put k v m) = insert (k, v) (set m) \<and> length (omap_put k v m) = Suc (length m)"
  by (induction m) (auto split: if_splits)

lemma map_of_omap_erase [simp]: "map_of (omap_erase k m) = (map_of m)(k := None)"
  by (induction m) (auto simp: omap_erase_def fun_eq_iff)

lemma omap_erase_props:
  "sorted_wrt (<) (map fst m) \<Longrightarrow> sorted_wrt (<) (map fst (omap_erase k m))" "set (omap_erase k m) = {p \<in> set m. fst p \<noteq> k}"
  by (induction m) (auto simp: omap_erase_def)

lemma omap_erase_length: "sorted_wrt (<) (map fst m) \<Longrightarrow> map_of m (k :: 'k::linorder) \<noteq> None \<Longrightarrow> length (omap_erase k m) + 1 = length m"
proof (induction m)
  case (Cons p m)
  show ?case
  proof (cases "fst p = k")
    case True
    then have "\<forall>x \<in> set m. k < fst x"
      using Cons.prems by auto
    then have "filter (\<lambda>p. fst p \<noteq> k) m = m"
      by (intro filter_True ballI) (metis order_less_irrefl)
    then show ?thesis
      using True by (simp add: omap_erase_def)
  next
    case False
    then show ?thesis
      using Cons by (cases p) (auto simp: omap_erase_def)
  qed
qed simp

lemma sorted_distinct: "sorted_wrt (<) (map fst m) \<Longrightarrow> distinct (map fst (m :: ('k::linorder \<times> 'v) list))"
  by (simp add: strict_sorted_iff)

lemma omap_lookup: "sorted_wrt (<) (map fst m) \<Longrightarrow> map_of m k = Some v \<longleftrightarrow> (k :: 'k::linorder, v) \<in> set m"
  by (simp add: map_of_eq_Some_iff sorted_distinct)

section \<open>Indices\<close>

text \<open>An index of a set of nodes by a key of their transactions.\<close>

definition indexes :: "(TransactionBase \<Rightarrow> 'k) \<Rightarrow> (nat \<times> TransactionBase) set \<Rightarrow> ('k \<rightharpoonup> handle) \<Rightarrow> bool" where
  "indexes key C B \<longleftrightarrow> (\<forall>k x. B k = Some x \<longleftrightarrow> (\<exists>i t. (i, t) \<in> C \<and> k = key t \<and> x = Node i))"

lemma indexes_Some: "indexes key C B \<Longrightarrow> B k = Some x \<longleftrightarrow> (\<exists>i t. (i, t) \<in> C \<and> k = key t \<and> x = Node i)"
  by (simp add: indexes_def)

lemma indexes_mem: "indexes key C B \<Longrightarrow> (i, t) \<in> C \<Longrightarrow> B (key t) = Some (Node i)"
  by (auto simp: indexes_def)

lemma indexes_None: "indexes key C B \<Longrightarrow> B k = None \<longleftrightarrow> (\<forall>i t. (i, t) \<in> C \<longrightarrow> k \<noteq> key t)"
  by (metis indexes_Some indexes_mem option.exhaust option.simps(3))

lemma indexes_insert: "indexes key C B \<Longrightarrow> B (key t) = None \<Longrightarrow> indexes key (insert (i, t) C) (B(key t \<mapsto> Node i))"
  using indexes_None [of key C B "key t"] by (auto simp: indexes_def)

lemma indexes_remove:
  assumes "indexes key C B" "(i, t) \<in> C" "\<And>t'. (i, t') \<in> C \<Longrightarrow> t' = t"
  shows "indexes key (C - {(i, t)}) (B(key t := None))"
proof -
  have "i' = i \<and> t' = t" if "(i', t') \<in> C" "key t' = key t" for i' t'
    using indexes_mem [OF assms(1,2)] indexes_mem [OF assms(1) that(1)] that assms(3) by auto
  then show ?thesis
    using assms(1) by (auto simp: indexes_def)
qed

section \<open>The invariant\<close>

definition good_tx :: "tq_env \<Rightarrow> TransactionBase \<Rightarrow> bool" where
  "good_tx e t \<longleftrightarrow> (\<exists>a. sender_of e t = Inr a) \<and> (\<exists>h. hash_of e t = Inr h)"

definition hsh :: "tq_env \<Rightarrow> TransactionBase \<Rightarrow> h256" where
  "hsh e t = (case hash_of e t of Inr h \<Rightarrow> h | Inl _ \<Rightarrow> 0)"

definition key_of :: "tq_env \<Rightarrow> TransactionBase \<Rightarrow> address \<times> u256" where
  "key_of e t = (from_of e t, t_nonce t)"

definition nonce_index :: "TransactionQueue \<Rightarrow> address \<times> u256 \<Rightarrow> handle option" where
  "nonce_index q k = Option.bind (m_currentByAddressAndNonce q (fst k)) (\<lambda>m. map_of m (snd k))"

definition fut_set :: "TransactionQueue \<Rightarrow> TransactionBase set" where
  "fut_set q = (\<Union>a. snd ` set (future_at a q))"

definition maps_ok :: "TransactionQueue \<Rightarrow> bool" where
  "maps_ok q \<longleftrightarrow> (\<forall>a m. m_currentByAddressAndNonce q a = Some m \<longrightarrow> m \<noteq> [] \<and> sorted_wrt (<) (map fst m))"

definition nodes_ok :: "tq_env \<Rightarrow> TransactionQueue \<Rightarrow> bool" where
  "nodes_ok e q \<longleftrightarrow> distinct (map fst (m_current q)) \<and> (\<forall>(i, t) \<in> set (m_current q). i < m_nextNode q \<and> good_tx e t) \<and>
     indexes (hsh e) (set (m_current q)) (m_currentByHash q)"

definition cur_ok :: "tq_env \<Rightarrow> TransactionQueue \<Rightarrow> bool" where
  "cur_ok e q \<longleftrightarrow> nodes_ok e q \<and> indexes (key_of e) (set (m_current q)) (nonce_index q) \<and> maps_ok q"

definition fut_ok :: "tq_env \<Rightarrow> TransactionQueue \<Rightarrow> bool" where
  "fut_ok e q \<longleftrightarrow> distinct (map fst (m_future q)) \<and> (\<forall>(a, m) \<in> set (m_future q). m \<noteq> []) \<and>
     (\<forall>a. sorted_wrt (<) (map fst (future_at a q)) \<and> (\<forall>(n, t) \<in> set (future_at a q). good_tx e t \<and> key_of e t = (a, n))) \<and>
     inj_on (hsh e) (fut_set q) \<and> m_futureSize q = sum_list (map (\<lambda>p. length (snd p)) (m_future q))"

definition apart :: "tq_env \<Rightarrow> TransactionBase set \<Rightarrow> TransactionQueue \<Rightarrow> bool" where
  "apart e F q \<longleftrightarrow> (\<forall>t \<in> F. m_currentByHash q (hsh e t) = None \<and> nonce_index q (key_of e t) = None)"

definition within :: "tq_env \<Rightarrow> TransactionBase set \<Rightarrow> h256 set \<Rightarrow> TransactionQueue \<Rightarrow> bool" where
  "within e F K q \<longleftrightarrow> dom (m_currentByHash q) \<union> hsh e ` F \<subseteq> K"

text \<open>The invariant with the hashes that are known as an argument.\<close>

definition pool_inv :: "tq_env \<Rightarrow> h256 set \<Rightarrow> TransactionQueue \<Rightarrow> bool" where
  "pool_inv e K q \<longleftrightarrow> cur_ok e q \<and> fut_ok e q \<and> apart e (fut_set q) q \<and> within e (fut_set q) K q"

definition tq_inv :: "tq_env \<Rightarrow> TransactionQueue \<Rightarrow> bool" where
  "tq_inv e q \<longleftrightarrow> pool_inv e (m_known q) q"

lemma good_txD: "good_tx e t \<Longrightarrow> hash_of e t = Inr (hsh e t)" "good_tx e t \<Longrightarrow> sender_of e t = Inr (from_of e t)"
  by (auto simp: good_tx_def hsh_def sender_of_def from_of_def safeSender_def split: sum.splits prod.splits)

lemma cur_okD:
  assumes "cur_ok e q"
  shows "distinct (map fst (m_current q))" "(i, t) \<in> set (m_current q) \<Longrightarrow> good_tx e t" "indexes (hsh e) (set (m_current q)) (m_currentByHash q)"
    "indexes (key_of e) (set (m_current q)) (nonce_index q)" "maps_ok q"
  using assms by (auto simp: cur_ok_def nodes_ok_def)

text \<open>What the operations on the current transactions leave alone.\<close>

definition same_rest :: "TransactionQueue \<Rightarrow> TransactionQueue \<Rightarrow> bool" where
  "same_rest q q' \<longleftrightarrow> m_future q' = m_future q \<and> m_futureSize q' = m_futureSize q \<and> m_limit q' = m_limit q \<and> m_futureLimit q' = m_futureLimit q"

lemma same_rest_future: "same_rest q q' \<Longrightarrow> future_at a q' = future_at a q" "same_rest q q' \<Longrightarrow> fut_set q' = fut_set q" "same_rest q q' \<Longrightarrow> fut_ok e q' = fut_ok e q"
  by (simp_all add: same_rest_def future_at_def fut_set_def fut_ok_def)

section \<open>Weakest preconditions\<close>

definition twp :: "(tq_error \<Rightarrow> TransactionQueue \<Rightarrow> bool) \<Rightarrow> 'a tqop \<Rightarrow> ('a \<Rightarrow> TransactionQueue \<Rightarrow> bool) \<Rightarrow> TransactionQueue \<Rightarrow> bool" where
  "twp E m Q q \<longleftrightarrow> (case m q of (Inr a, q') \<Rightarrow> Q a q' | (Inl z, q') \<Rightarrow> E z q')"

named_theorems twp_simps

lemma twp_rules [twp_simps]:
  "twp E (tret a) Q1 q = Q1 a q"
  "twp E (tthrow z) Q2 q = E z q"
  "twp E (tbind m f) Q3 q = twp E m (\<lambda>a. twp E (f a) Q3) q"
  "twp E (tget g) Q4 q = Q4 (g q) q"
  "twp E (tset h) Q q = Q () (h q)"
  "twp E (traise s) Q q = Q () (q\<lparr>m_raised := m_raised q @ [s]\<rparr>)"
  by (auto simp: twp_def tret_def tthrow_def tbind_def tget_def tset_def traise_def split: sum.splits prod.splits)

lemma twp_conseq: "twp E m Q q \<Longrightarrow> (\<And>a q'. Q a q' \<Longrightarrow> R a q') \<Longrightarrow> (\<And>z q'. E z q' \<Longrightarrow> G z q') \<Longrightarrow> twp G m R q"
  by (auto simp: twp_def split: sum.splits prod.splits)

lemma twp_no_throw: "twp (\<lambda>_ _. False) m Q q \<Longrightarrow> twp E m Q q"
  by (erule twp_conseq) auto

lemma twp_tx_hash: "good_tx e t \<Longrightarrow> twp E (tx_hash e t) Q q = Q (hsh e t) q"
  using good_txD(1) [of e t] by (simp add: tx_hash_def twp_simps)

lemma twp_deref: "distinct (map fst (m_current q)) \<Longrightarrow> (i, t) \<in> set (m_current q) \<Longrightarrow> twp E (deref (Node i)) Q q = Q t q"
  by (simp add: twp_def deref_def)

section \<open>Adding to the current transactions\<close>

lemma current_place_ok:
  assumes "\<And>t'. t' \<in> insert t (snd ` set (m_current q)) \<Longrightarrow> \<exists>n. priority_height e q t' = Inr n"
  shows "\<exists>k. current_place e t q = Inr k"
proof -
  have "list_all (\<lambda>h. case h of Inr _ \<Rightarrow> True | Inl _ \<Rightarrow> False) (map (priority_height e q) (map snd (m_current q)))"
    unfolding list_all_iff
  proof
    fix h
    assume "h \<in> set (map (priority_height e q) (map snd (m_current q)))"
    then obtain t' where "t' \<in> snd ` set (m_current q)" "h = priority_height e q t'"
      by auto
    then show "case h of Inr _ \<Rightarrow> True | Inl _ \<Rightarrow> False"
      using assms [of t'] by auto
  qed
  moreover have "Inl TqUndefined \<notin> set (map (priority_height e q) (map snd (m_current q)))"
    using assms by (metis (no_types, lifting) Inl_Inr_False image_iff image_set insertI2)
  moreover obtain n where "priority_height e q t = Inr n"
    using assms by blast
  ultimately show ?thesis
    by (simp add: current_place_def Let_def)
qed

lemma nonce_index_put: "nonce_index (q\<lparr>m_currentByAddressAndNonce := (m_currentByAddressAndNonce q)(a \<mapsto> omap_put n x (case m_currentByAddressAndNonce q a of None \<Rightarrow> [] | Some m \<Rightarrow> m))\<rparr>) =
    (nonce_index q)((a, n) \<mapsto> x)"
  by (auto simp: nonce_index_def fun_eq_iff split: option.splits)

lemma add_current_ok:
  assumes c: "cur_ok e q" and t: "good_tx e t" "m_currentByHash q (hsh e t) = None" "nonce_index q (key_of e t) = None"
    and Q: "\<And>i q'. cur_ok e q' \<Longrightarrow> same_rest q q' \<Longrightarrow> m_known q' = m_known q \<Longrightarrow> m_currentByHash q' = (m_currentByHash q)(hsh e t \<mapsto> Node i) \<Longrightarrow>
      nonce_index q' = (nonce_index q)(key_of e t \<mapsto> Node i) \<Longrightarrow> set (m_current q') = insert (i, t) (set (m_current q)) \<Longrightarrow> Q () q'"
  shows "twp E (add_current e (from_of e t) t) Q q"
proof -
  let ?a = "from_of e t" and ?n = "t_nonce t" and ?m = "case m_currentByAddressAndNonce q (from_of e t) of None \<Rightarrow> [] | Some m \<Rightarrow> m"
  have fresh: "map_of ?m ?n = None" and sorted: "sorted_wrt (<) (map fst ?m)"
    using t(3) cur_okD(5) [OF c] by (auto simp: nonce_index_def key_of_def maps_ok_def split: option.splits)
  define q1 where "q1 = q\<lparr>m_currentByAddressAndNonce := (m_currentByAddressAndNonce q)(?a \<mapsto> omap_put ?n Singular ?m)\<rparr>"
  have heights: "\<exists>n. priority_height e q1 t' = Inr n" if "t' \<in> insert t (snd ` set (m_current q1))" for t'
  proof -
    have g: "good_tx e t'"
      using that t(1) cur_okD(2) [OF c] by (auto simp: q1_def)
    have "\<exists>m. m_currentByAddressAndNonce q1 (from_of e t') = Some m \<and> m \<noteq> []"
    proof (cases "from_of e t' = ?a")
      case False
      then have "t' \<in> snd ` set (m_current q)"
        using that by (auto simp: q1_def)
      then obtain i where "(i, t') \<in> set (m_current q)"
        by auto
      then have "nonce_index q (key_of e t') = Some (Node i)"
        using indexes_mem [OF cur_okD(4) [OF c]] by simp
      then show ?thesis
        using False cur_okD(5) [OF c] by (auto simp: nonce_index_def key_of_def q1_def maps_ok_def bind_eq_Some_conv)
    qed (simp add: q1_def)
    then show ?thesis
      using good_txD(2) [OF g] by (auto simp: priority_height_def neq_Nil_conv)
  qed
  obtain k where k: "current_place e t q1 = Inr k"
    using current_place_ok heights by blast
  let ?i = "m_nextNode q" and ?cur = "take k (m_current q) @ [(m_nextNode q, t)] @ drop k (m_current q)"
  have set_cur: "set ?cur = insert (?i, t) (set (m_current q))"
    using arg_cong [OF append_take_drop_id [of k "m_current q"], of set] by (auto simp del: append_take_drop_id)
  have "distinct (map fst (m_current q))" "?i \<notin> fst ` set (m_current q)"
    using c by (auto simp: cur_ok_def nodes_ok_def)
  moreover have "map fst ?cur = take k (map fst (m_current q)) @ ?i # drop k (map fst (m_current q))"
    by (simp add: take_map drop_map)
  ultimately have dist: "distinct (map fst ?cur)"
    by (simp add: distinct_append set_take_disj_set_drop_if_distinct) (auto dest: in_set_takeD in_set_dropD)
  define q2 where "q2 = q\<lparr>m_current := ?cur, m_nextNode := ?i + 1, m_currentByHash := (m_currentByHash q)(hsh e t \<mapsto> Node ?i),
      m_currentByAddressAndNonce := (m_currentByAddressAndNonce q)(?a \<mapsto> omap_put ?n (Node ?i) ?m)\<rparr>"
  have put: "omap_put ?n x (omap_put ?n y m) = omap_put ?n x m" for x y :: handle and m
    by (induction m) auto
  have ni: "nonce_index q2 = (nonce_index q)(key_of e t \<mapsto> Node ?i)"
    using nonce_index_put [of q ?a ?n "Node ?i"] by (simp add: q2_def key_of_def nonce_index_def fun_eq_iff)
  have "cur_ok e q2"
    unfolding cur_ok_def nodes_ok_def
  proof (intro conjI)
    show "indexes (hsh e) (set (m_current q2)) (m_currentByHash q2)"
      using indexes_insert [OF cur_okD(3) [OF c] t(2)] set_cur by (simp add: q2_def)
    show "indexes (key_of e) (set (m_current q2)) (nonce_index q2)"
      using indexes_insert [OF cur_okD(4) [OF c] t(3)] set_cur unfolding ni by (simp add: q2_def)
    show "maps_ok q2"
      using cur_okD(5) [OF c] sorted_omap_put [OF sorted] by (auto simp: maps_ok_def q2_def)
    show "distinct (map fst (m_current q2))"
      using dist by (simp add: q2_def)
    show "\<forall>(i, t) \<in> set (m_current q2). i < m_nextNode q2 \<and> good_tx e t"
      using set_cur c t(1) by (auto simp: q2_def cur_ok_def nodes_ok_def)
  qed
  then have "Q () q2"
    by (rule Q) (use ni set_cur in \<open>simp_all add: same_rest_def q2_def\<close>)
  moreover have "q1\<lparr>m_current := ?cur, m_nextNode := ?i + 1, m_currentByAddressAndNonce := (m_currentByAddressAndNonce q1)(?a \<mapsto> omap_put ?n (Node ?i) (omap_put ?n Singular ?m)),
      m_currentByHash := (m_currentByHash q)(hsh e t \<mapsto> Node ?i)\<rparr> = q2"
    by (simp add: q1_def q2_def put)
  moreover have "twp E (emplace_current e t) R q1 = R (Node ?i) (q1\<lparr>m_current := ?cur, m_nextNode := ?i + 1\<rparr>)" for R
    by (simp add: twp_def emplace_current_def k) (simp add: q1_def)
  ultimately show ?thesis
    using fresh t(1) unfolding add_current_def index_by_nonce_def
    by (simp add: twp_simps twp_tx_hash omap_insert_def q1_def [symmetric]) (simp add: q1_def)
qed

section \<open>Removing\<close>

lemma current_unique: "cur_ok e q \<Longrightarrow> (i, t) \<in> set (m_current q) \<Longrightarrow> (i, t') \<in> set (m_current q) \<Longrightarrow> t' = t"
  using cur_okD(1) [of e q] by (metis eq_key_imp_eq_value)

lemma filter_node: "distinct (map fst l) \<Longrightarrow> (i, t) \<in> set l \<Longrightarrow> set (filter (\<lambda>p. Node (fst p) \<noteq> Node i) l) = set l - {(i, t)}"
  by (auto dest: eq_key_imp_eq_value)

lemma distinct_map_filter_fst: "distinct (map fst l) \<Longrightarrow> distinct (map fst (filter P l))"
  by (induction l) auto

lemma remove_ok:
  assumes c: "cur_ok e q" and h: "h = hsh e t" "(i, t) \<in> set (m_current q)"
    and Q: "\<And>q'. cur_ok e q' \<Longrightarrow> same_rest q q' \<Longrightarrow> m_known q' = m_known q - {h} \<Longrightarrow> m_currentByHash q' = (m_currentByHash q)(h := None) \<Longrightarrow>
      nonce_index q' = (nonce_index q)(key_of e t := None) \<Longrightarrow> set (m_current q') = set (m_current q) - {(i, t)} \<Longrightarrow> Q True q'"
  shows "twp E (remove_WITH_LOCK e h) Q q"
proof -
  let ?a = "from_of e t" and ?n = "t_nonce t"
  have byh: "m_currentByHash q h = Some (Node i)"
    using indexes_mem [OF cur_okD(3) [OF c] h(2)] h(1) by simp
  have "nonce_index q (key_of e t) = Some (Node i)"
    using indexes_mem [OF cur_okD(4) [OF c] h(2)] by simp
  then obtain m where m: "m_currentByAddressAndNonce q ?a = Some m"
    by (auto simp: nonce_index_def key_of_def bind_eq_Some_conv)
  let ?m = "omap_erase ?n m"
  define q1 where "q1 = q\<lparr>m_current := filter (\<lambda>p. Node (fst p) \<noteq> Node i) (m_current q), m_currentByHash := (m_currentByHash q)(h := None),
      m_currentByAddressAndNonce := (m_currentByAddressAndNonce q)(?a := (if ?m = [] then None else Some ?m)), m_known := m_known q - {h}\<rparr>"
  have cur: "set (m_current q1) = set (m_current q) - {(i, t)}"
    using filter_node [OF cur_okD(1) [OF c] h(2)] by (simp add: q1_def)
  have ni: "nonce_index q1 = (nonce_index q)(key_of e t := None)"
  proof
    fix k
    have "?m = [] \<Longrightarrow> n \<noteq> ?n \<Longrightarrow> map_of m n = None" for n
      using map_of_omap_erase [of ?n m] by (metis fun_upd_apply map_of.simps(1))
    then show "nonce_index q1 k = ((nonce_index q)(key_of e t := None)) k"
      using m by (cases k) (auto simp: nonce_index_def q1_def key_of_def)
  qed
  note rm = indexes_remove [OF _ h(2) current_unique [OF c h(2)]]
  have "cur_ok e q1"
    unfolding cur_ok_def nodes_ok_def
  proof (intro conjI)
    show "distinct (map fst (m_current q1))"
      using cur_okD(1) [OF c] by (simp add: q1_def distinct_map_filter_fst)
    show "\<forall>(i, t) \<in> set (m_current q1). i < m_nextNode q1 \<and> good_tx e t"
      using c by (auto simp: q1_def cur_ok_def nodes_ok_def)
    show "indexes (hsh e) (set (m_current q1)) (m_currentByHash q1)"
      using rm [OF cur_okD(3) [OF c]] h(1) unfolding cur by (simp add: q1_def)
    show "indexes (key_of e) (set (m_current q1)) (nonce_index q1)"
      using rm [OF cur_okD(4) [OF c]] unfolding cur ni .
    show "maps_ok q1"
      using cur_okD(5) [OF c] m by (auto simp: maps_ok_def q1_def omap_erase_props split: if_splits)
  qed
  then have "Q True q1"
    by (rule Q) (use cur ni in \<open>simp_all add: same_rest_def q1_def\<close>)
  then show ?thesis
    unfolding remove_WITH_LOCK_def erase_current_def
    using byh m by (simp add: twp_simps twp_deref [OF cur_okD(1) [OF c] h(2)] q1_def)
qed

lemma remove_absent: "m_currentByHash q h = None \<Longrightarrow> Q False q \<Longrightarrow> twp E (remove_WITH_LOCK e h) Q q"
  by (simp add: remove_WITH_LOCK_def twp_simps)

lemma apart_shrinks:
  assumes "apart e F q" "\<And>h. m_currentByHash q h = None \<Longrightarrow> m_currentByHash q' h = None" "\<And>k. nonce_index q k = None \<Longrightarrow> nonce_index q' k = None" "F' \<subseteq> F"
  shows "apart e F' q'"
  unfolding apart_def
proof (intro ballI conjI)
  fix t
  assume "t \<in> F'"
  then have "m_currentByHash q (hsh e t) = None \<and> nonce_index q (key_of e t) = None"
    using assms(1,4) by (auto simp: apart_def)
  then show "m_currentByHash q' (hsh e t) = None" "nonce_index q' (key_of e t) = None"
    using assms(2,3) by blast+
qed

text \<open>Removing keeps the invariant; the known hashes may lose that of the transaction.\<close>

lemma remove_inv:
  assumes p: "tq_inv e q"
    and Q: "\<And>r q'. tq_inv e q' \<Longrightarrow> same_rest q q' \<Longrightarrow> m_known q' \<subseteq> m_known q \<Longrightarrow> m_currentByHash q' h = None \<Longrightarrow>
      (\<And>k. nonce_index q k = None \<Longrightarrow> nonce_index q' k = None) \<Longrightarrow>
      (\<And>t. hsh e t = h \<Longrightarrow> t \<in> snd ` set (m_current q) \<Longrightarrow> r \<and> nonce_index q' (key_of e t) = None) \<Longrightarrow>
      (r \<Longrightarrow> length (m_current q') < length (m_current q)) \<Longrightarrow> Q r q'"
  shows "twp E (remove_WITH_LOCK e h) Q q"
proof (cases "m_currentByHash q h")
  case None
  have c: "cur_ok e q"
    using p by (simp add: tq_inv_def pool_inv_def)
  have "hsh e t \<noteq> h" if im: "t \<in> snd ` set (m_current q)" for t
  proof -
    obtain i where "(i, t) \<in> set (m_current q)"
      using im by auto
    then show ?thesis
      using None indexes_None [OF cur_okD(3) [OF c], of h] by blast
  qed
  then show ?thesis
    by (intro remove_absent [OF None] Q) (use p None in \<open>auto simp: same_rest_def\<close>)
next
  case (Some x)
  have c: "cur_ok e q" "fut_ok e q" "apart e (fut_set q) q" "within e (fut_set q) (m_known q) q"
    using p by (simp_all add: tq_inv_def pool_inv_def)
  obtain i t where t: "(i, t) \<in> set (m_current q)" "h = hsh e t"
    using Some indexes_Some [OF cur_okD(3) [OF c(1)], of h x] by auto
  show ?thesis
  proof (rule remove_ok [OF c(1) t(2,1)])
    fix q'
    assume q': "cur_ok e q'" "same_rest q q'" "m_known q' = m_known q - {h}" "m_currentByHash q' = (m_currentByHash q)(h := None)"
      "nonce_index q' = (nonce_index q)(key_of e t := None)" "set (m_current q') = set (m_current q) - {(i, t)}"
    have "h \<notin> hsh e ` fut_set q"
      using c(3) Some by (auto simp: apart_def)
    then have w: "within e (fut_set q) (m_known q') q'"
      using c(4) q'(3,4) by (auto simp: within_def)
    have a: "apart e (fut_set q) q'"
      by (rule apart_shrinks [OF c(3)]) (use q'(4,5) in auto)
    have inv: "tq_inv e q'"
      using q'(1,2) c(2) w a by (simp add: tq_inv_def pool_inv_def same_rest_future)
    have u: "t' = t" if t': "(j, t') \<in> set (m_current q)" "hsh e t' = h" for j t'
    proof -
      have "m_currentByHash q h = Some (Node j)" "m_currentByHash q h = Some (Node i)"
        using indexes_mem [OF cur_okD(3) [OF c(1)] t'(1)] indexes_mem [OF cur_okD(3) [OF c(1)] t(1)] unfolding t'(2) t(2) [symmetric] by this+
      then show ?thesis
        using current_unique [OF c(1) t(1)] t'(1) by simp
    qed
    have "distinct (m_current q)" "distinct (m_current q')"
      using cur_okD(1) [OF c(1)] cur_okD(1) [OF q'(1)] by (auto simp: distinct_map)
    then have "length (m_current q') < length (m_current q)"
      using q'(6) t(1) by (metis distinct_card card_Diff1_less finite_set)
    then show "Q True q'"
      by (intro Q inv q'(2)) (use q' u in auto)
  qed
qed

lemma last_current: "m_current q \<noteq> [] \<Longrightarrow> snd (last (m_current q)) \<in> snd ` set (m_current q)"
  by simp

lemma trim_current_step:
  "twp E (trim_current e) Q q = (if length (m_current q) > m_limit q
     then twp E (tbind (tx_hash e (snd (last (m_current q)))) (remove_WITH_LOCK e)) (\<lambda>r q'. if r then twp E (trim_current e) Q q' else E TqForever q') q
     else Q () q)"
  by (subst twp_def, subst trim_current.simps) (auto simp: twp_def split: sum.split prod.split)

lemma trim_current_ok:
  assumes "tq_inv e q"
    and "\<And>q'. tq_inv e q' \<Longrightarrow> same_rest q q' \<Longrightarrow> length (m_current q') \<le> m_limit q \<Longrightarrow> m_known q' \<subseteq> m_known q \<Longrightarrow> Q () q'"
  shows "twp E (trim_current e) Q q"
  using assms
proof (induction "length (m_current q)" arbitrary: q rule: less_induct)
  case less
  show ?case
  proof (cases "length (m_current q) > m_limit q")
    case True
    let ?t = "snd (last (m_current q))"
    have mem: "?t \<in> snd ` set (m_current q)"
      using True by (intro last_current) auto
    have g: "good_tx e ?t"
      using less(2) cur_okD(2) mem by (force simp: tq_inv_def pool_inv_def)
    have "twp E (tbind (tx_hash e ?t) (remove_WITH_LOCK e)) (\<lambda>r q'. if r then twp E (trim_current e) Q q' else E TqForever q') q"
      unfolding twp_rules(3) twp_tx_hash [OF g]
    proof (rule remove_inv [OF less(2)])
      fix r q'
      assume q': "tq_inv e q'" "same_rest q q'" "m_known q' \<subseteq> m_known q"
        "\<And>t. hsh e t = hsh e ?t \<Longrightarrow> t \<in> snd ` set (m_current q) \<Longrightarrow> r \<and> nonce_index q' (key_of e t) = None"
        "r \<Longrightarrow> length (m_current q') < length (m_current q)"
      have r
        using q'(4) mem by blast
      have "twp E (trim_current e) Q q'"
        by (rule less(1) [OF q'(5) [OF \<open>r\<close>] q'(1)], rule less(3)) (use q'(2,3) in \<open>auto simp: same_rest_def\<close>)
      then show "if r then twp E (trim_current e) Q q' else E TqForever q'"
        using \<open>r\<close> by simp
    qed
    then show ?thesis
      using True by (subst trim_current_step) simp
  next
    case False
    then show ?thesis
      using less(2,3) by (subst trim_current_step) (simp add: same_rest_def)
  qed
qed

section \<open>Future transactions\<close>

lemma future_at_set_future [simp]: "future_at b (set_future a m q) = (if b = a then m else future_at b q)"
  by (auto simp: future_at_def set_future_def update_conv' delete_conv')

lemma set_future_frame [simp]:
  "m_currentByHash (set_future a m q) = m_currentByHash q" "m_currentByAddressAndNonce (set_future a m q) = m_currentByAddressAndNonce q"
  "m_current (set_future a m q) = m_current q" "m_known (set_future a m q) = m_known q" "m_limit (set_future a m q) = m_limit q"
  "m_futureLimit (set_future a m q) = m_futureLimit q" "m_futureSize (set_future a m q) = m_futureSize q" "m_nextNode (set_future a m q) = m_nextNode q"
  "nonce_index (set_future a m q) = nonce_index q"
  by (simp_all add: set_future_def nonce_index_def fun_eq_iff)

lemma fut_set_set_future: "fut_set (set_future a m q) = snd ` set m \<union> (\<Union>b \<in> - {a}. snd ` set (future_at b q))"
proof -
  have u: "(UNIV :: address set) = insert a (- {a})"
    by auto
  show ?thesis
    unfolding fut_set_def by (subst u) simp
qed

lemma fut_set_frame [simp]:
  "future_at b (q\<lparr>m_futureSize := s\<rparr>) = future_at b q" "fut_set (q\<lparr>m_futureSize := s\<rparr>) = fut_set q"
  "fut_set (set_future a m (q\<lparr>m_futureSize := s\<rparr>)) = fut_set (set_future a m q)"
  by (simp_all add: fut_set_set_future) (simp_all add: fut_set_def future_at_def)

definition future_count :: "TransactionQueue \<Rightarrow> nat" where
  "future_count q = sum_list (map (\<lambda>p. length (snd p)) (m_future q))"

lemma count_update:
  "distinct (map fst l) \<Longrightarrow> sum_list (map (\<lambda>p. length (snd p)) (AList.update a m l)) + length (case map_of l a of None \<Rightarrow> [] | Some m \<Rightarrow> m) =
     sum_list (map (\<lambda>p. length (snd p)) l) + length m"
  by (induction l) (auto simp: map_of_eq_None_iff)

lemma delete_absent: "a \<notin> fst ` set l \<Longrightarrow> AList.delete a l = l"
  by (induction l) auto

lemma count_delete:
  "distinct (map fst l) \<Longrightarrow> sum_list (map (\<lambda>p. length (snd p)) (AList.delete a l)) + length (case map_of l a of None \<Rightarrow> [] | Some m \<Rightarrow> m) =
     sum_list (map (\<lambda>p. length (snd p)) l)"
  by (induction l) (auto simp: delete_absent)

lemma future_count_set: "distinct (map fst (m_future q)) \<Longrightarrow> future_count (set_future a m q) + length (future_at a q) = future_count q + length m"
  using count_update [of "m_future q" a m] count_delete [of "m_future q" a] by (simp add: future_count_def set_future_def future_at_def)

lemma fut_okD:
  assumes "fut_ok e q"
  shows "distinct (map fst (m_future q))" "sorted_wrt (<) (map fst (future_at a q))" "(n, t) \<in> set (future_at a q) \<Longrightarrow> good_tx e t"
    "(n, t) \<in> set (future_at a q) \<Longrightarrow> key_of e t = (a, n)" "inj_on (hsh e) (fut_set q)" "m_futureSize q = future_count q"
  using assms by (auto simp: fut_ok_def future_count_def)

text \<open>Another map for one sender; the number of future transactions is set to \<open>s\<close>.\<close>

lemma fut_ok_set:
  assumes f: "fut_ok e q" and m: "sorted_wrt (<) (map fst m)" "\<And>n t. (n, t) \<in> set m \<Longrightarrow> good_tx e t \<and> key_of e t = (a, n)"
    and inj: "inj_on (hsh e) (fut_set (set_future a m q))" and s: "s + length (future_at a q) = m_futureSize q + length m"
  shows "fut_ok e (set_future a m (q\<lparr>m_futureSize := s\<rparr>))"
proof -
  let ?q = "set_future a m q" and ?r = "set_future a m (q\<lparr>m_futureSize := s\<rparr>)"
  have r: "m_future ?r = m_future ?q" "future_at b ?r = future_at b ?q" "fut_set ?r = fut_set ?q" for b
    by (simp_all add: set_future_def future_at_def fut_set_def)
  have "distinct (map fst (m_future ?q))"
    using fut_okD(1) [OF f] by (simp add: set_future_def distinct_update distinct_delete)
  moreover have "\<forall>(b, l) \<in> set (m_future ?q). l \<noteq> []"
  proof (clarify)
    fix b
    assume "(b, []) \<in> set (m_future ?q)"
    then have "map_of (m_future ?q) b = Some []"
      using \<open>distinct (map fst (m_future ?q))\<close> by simp
    then show False
      using f by (auto simp: set_future_def update_conv' delete_conv' fut_ok_def split: if_splits dest: map_of_SomeD)
  qed
  moreover have "m_futureSize ?r = future_count ?q"
    using future_count_set [OF fut_okD(1) [OF f], of a m] fut_okD(6) [OF f] s by simp
  moreover have "\<forall>(n, t) \<in> set m. good_tx e t \<and> key_of e t = (a, n)"
    using m(2) by auto
  ultimately show ?thesis
    using f m(1) inj unfolding fut_ok_def r by (simp add: future_count_def fut_ok_def)
qed

text \<open>What the operations on the future transactions leave alone.\<close>

definition same_cur :: "TransactionQueue \<Rightarrow> TransactionQueue \<Rightarrow> bool" where
  "same_cur q q' \<longleftrightarrow> m_current q' = m_current q \<and> m_nextNode q' = m_nextNode q \<and> m_currentByHash q' = m_currentByHash q \<and>
     m_currentByAddressAndNonce q' = m_currentByAddressAndNonce q \<and> m_known q' = m_known q \<and> m_limit q' = m_limit q \<and> m_futureLimit q' = m_futureLimit q"

lemma same_cur_index: "same_cur q q' \<Longrightarrow> nonce_index q' = nonce_index q"
  by (rule ext) (simp add: same_cur_def nonce_index_def)

lemma same_cur_simps:
  "same_cur q (set_future a m (q\<lparr>m_futureSize := s\<rparr>))" "same_cur q q' \<Longrightarrow> same_cur q' q'' \<Longrightarrow> same_cur q q''" "same_cur q q' \<Longrightarrow> cur_ok e q' = cur_ok e q"
  "same_cur q q' \<Longrightarrow> m_currentByHash q' = m_currentByHash q"
  using same_cur_index [of q q'] by (simp_all add: same_cur_def cur_ok_def nodes_ok_def maps_ok_def)

lemma pool_inv_future:
  assumes "pool_inv e K q" "fut_ok e q'" "same_cur q q'" "fut_set q' \<subseteq> fut_set q"
  shows "pool_inv e K q'"
  using assms by (simp add: pool_inv_def apart_def within_def same_cur_simps same_cur_index) blast

lemma trim_future_ok:
  assumes "pool_inv e K q"
    and "\<And>q'. pool_inv e K q' \<Longrightarrow> same_cur q q' \<Longrightarrow> fut_set q' \<subseteq> fut_set q \<Longrightarrow> m_futureSize q' \<le> m_futureLimit q \<Longrightarrow> Q () q'"
  shows "twp E (trim_future e) Q q"
  using assms
proof (induction "m_futureSize q" arbitrary: q rule: less_induct)
  case less
  have f: "fut_ok e q"
    using less(2) by (simp add: pool_inv_def)
  show ?case
  proof (cases "m_futureSize q > m_futureLimit q")
    case True
    then have ne: "m_future q \<noteq> []"
      using fut_okD(6) [OF f] by (auto simp: future_count_def)
    define i where "i = tq_begin e (map fst (m_future q)) mod length (m_future q)"
    obtain a m where am: "m_future q ! i = (a, m)"
      by fastforce
    have "i < length (m_future q)"
      using ne by (simp add: i_def)
    then have mem: "(a, m) \<in> set (m_future q)"
      using am nth_mem by metis
    then have m: "future_at a q = m" "m \<noteq> []"
      using fut_okD(1) [OF f] f by (auto simp: future_at_def fut_ok_def)
    let ?q = "set_future a (butlast m) (q\<lparr>m_futureSize := m_futureSize q - 1\<rparr>)"
    have sub: "fut_set (set_future a (butlast m) q) \<subseteq> fut_set q"
      using m(1) unfolding fut_set_set_future by (auto simp: fut_set_def dest: in_set_butlastD)
    have "fut_ok e ?q"
    proof (rule fut_ok_set [OF f])
      show "sorted_wrt (<) (map fst (butlast m))"
        using fut_okD(2) [OF f, of a] m(1) sorted_wrt_take [of "(<)" "map fst m" "length m - 1"] by (simp add: butlast_conv_take take_map)
      show "good_tx e t \<and> key_of e t = (a, n)" if "(n, t) \<in> set (butlast m)" for n t
        using fut_okD(3,4) [OF f, of n t a] m(1) in_set_butlastD [OF that] by simp
      show "inj_on (hsh e) (fut_set (set_future a (butlast m) q))"
        using inj_on_subset [OF fut_okD(5) [OF f] sub] .
      show "m_futureSize q - 1 + length (future_at a q) = m_futureSize q + length (butlast m)"
        using m True by (cases m) auto
    qed
    moreover have sub': "fut_set ?q \<subseteq> fut_set q"
      using sub by simp
    ultimately have p: "pool_inv e K ?q"
      using pool_inv_future [OF less(2)] same_cur_simps(1) by blast
    have "twp E (trim_future e) Q ?q"
      by (rule less(1) [OF _ p], use True in simp, rule less(3)) (use sub' in \<open>auto intro: same_cur_simps(2) [OF same_cur_simps(1)]\<close>)
    then show ?thesis
      using True ne am m(2) unfolding twp_def by (subst trim_future.simps) (simp add: i_def)
  next
    case False
    then show ?thesis
      using less(2,3) unfolding twp_def by (subst trim_future.simps) (simp add: same_cur_def)
  qed
qed

text \<open>The loop of \<open>makeCurrent\<close>: the first transactions of the list become current.\<close>

lemma future_loop_never_throws:
  assumes "cur_ok e q" "apart e (snd ` set m) q" "inj_on (hsh e) (snd ` set m)" "distinct (map fst m)"
    and "\<And>n t. (n, t) \<in> set m \<Longrightarrow> good_tx e t \<and> key_of e t = (a, n)"
    and "\<And>k q'. k \<le> length m \<Longrightarrow> cur_ok e q' \<Longrightarrow> m_known q' = m_known q \<Longrightarrow> m_future q' = m_future q \<Longrightarrow> m_futureSize q' = m_futureSize q - k \<Longrightarrow>
      m_limit q' = m_limit q \<Longrightarrow> m_futureLimit q' = m_futureLimit q \<Longrightarrow>
      (\<And>h. m_currentByHash q h = None \<Longrightarrow> h \<notin> hsh e ` snd ` set (take k m) \<Longrightarrow> m_currentByHash q' h = None) \<Longrightarrow>
      (\<And>x. nonce_index q x = None \<Longrightarrow> x \<notin> key_of e ` snd ` set (take k m) \<Longrightarrow> nonce_index q' x = None) \<Longrightarrow> Q k q'"
  shows "twp (\<lambda>_ _. False) (future_loop e a nonce m) Q q"
  using assms
proof (induction m arbitrary: q nonce Q)
  case Nil
  then show ?case
    by (simp add: twp_def)
next
  case (Cons p m)
  obtain n t where p: "p = (n, t)"
    by fastforce
  have t: "good_tx e t" "from_of e t = a" "t_nonce t = n" "m_currentByHash q (hsh e t) = None" "nonce_index q (key_of e t) = None"
    using Cons.prems(2) Cons.prems(5) [of n t] p by (auto simp: apart_def key_of_def)
  show ?case
  proof (cases "t_nonce t = nonce")
    case True
    have "twp (\<lambda>_ _. False) (add_current e a t) (\<lambda>_ q'. twp (\<lambda>_ _. False) (future_loop e a (nonce + 1) m) (\<lambda>k. Q (k + 1)) (q'\<lparr>m_futureSize := m_futureSize q' - 1\<rparr>)) q"
    proof (unfold t(2) [symmetric], rule add_current_ok [OF Cons.prems(1) t(1,4,5)])
      fix i q'
      assume q': "cur_ok e q'" "same_rest q q'" "m_known q' = m_known q" "m_currentByHash q' = (m_currentByHash q)(hsh e t \<mapsto> Node i)"
        "nonce_index q' = (nonce_index q)(key_of e t \<mapsto> Node i)"
      let ?q = "q'\<lparr>m_futureSize := m_futureSize q' - 1\<rparr>"
      have frame: "cur_ok e ?q" "nonce_index ?q = nonce_index q'"
        using q'(1) same_cur_simps(3) [of q' ?q] same_cur_index [of q' ?q] by (simp_all add: same_cur_def)
      have ne: "hsh e t' \<noteq> hsh e t" "key_of e t' \<noteq> key_of e t" if "t' \<in> snd ` set m" for t'
      proof -
        obtain n' where n': "(n', t') \<in> set m"
          using \<open>t' \<in> snd ` set m\<close> by auto
        then have "n' \<noteq> n"
          using Cons.prems(4) p by (auto simp: image_iff)
        then show k: "key_of e t' \<noteq> key_of e t"
          using Cons.prems(5) [of n t] Cons.prems(5) [of n' t'] n' p by auto
        then show "hsh e t' \<noteq> hsh e t"
          using Cons.prems(3) p that by (auto simp: inj_on_def)
      qed
      show "twp (\<lambda>_ _. False) (future_loop e (from_of e t) (nonce + 1) m) (\<lambda>k. Q (k + 1)) ?q"
        unfolding t(2)
      proof (rule Cons.IH [OF frame(1)])
        show "apart e (snd ` set m) ?q"
          using Cons.prems(2) ne q'(4,5) frame(2) p by (auto simp: apart_def)
        show "inj_on (hsh e) (snd ` set m)" "distinct (map fst m)"
          using Cons.prems(3,4) by auto
        show "good_tx e t' \<and> key_of e t' = (a, n')" if "(n', t') \<in> set m" for n' t'
          using Cons.prems(5) [of n' t'] that by simp
        fix k q''
        assume q'': "k \<le> length m" "cur_ok e q''" "m_known q'' = m_known ?q" "m_future q'' = m_future ?q" "m_futureSize q'' = m_futureSize ?q - k"
          "m_limit q'' = m_limit ?q" "m_futureLimit q'' = m_futureLimit ?q"
          "\<And>h. m_currentByHash ?q h = None \<Longrightarrow> h \<notin> hsh e ` snd ` set (take k m) \<Longrightarrow> m_currentByHash q'' h = None"
          "\<And>x. nonce_index ?q x = None \<Longrightarrow> x \<notin> key_of e ` snd ` set (take k m) \<Longrightarrow> nonce_index q'' x = None"
        show "Q (k + 1) q''"
          by (rule Cons.prems(6)) (use q'' q' frame(2) p in \<open>auto simp: same_rest_def\<close>)
      qed
    qed
    then show ?thesis
      using True p by (auto simp: twp_def split: sum.splits prod.splits)
  next
    case False
    then show ?thesis
      using Cons.prems(1) Cons.prems(6) [of 0 q] p by (simp add: twp_def)
  qed
qed

lemmas future_loop_ok = twp_no_throw [OF future_loop_never_throws]

lemma fut_cong:
  assumes "m_future q' = m_future q"
  shows "future_at a q' = future_at a q" "fut_set q' = fut_set q" "fut_set (set_future a m q') = fut_set (set_future a m q)"
    "m_futureSize q' = m_futureSize q \<Longrightarrow> fut_ok e q' = fut_ok e q"
  using assms by (simp_all add: fut_ok_def fut_set_set_future) (simp_all add: fut_set_def future_at_def fut_ok_def)

lemma future_at_length: "fut_ok e q \<Longrightarrow> length (future_at a q) \<le> m_futureSize q"
  using future_count_set [of q a "[]"] fut_okD(1,6) [of e q] by simp

lemma fut_set_at: "snd ` set (future_at a q) \<subseteq> fut_set q"
  unfolding fut_set_def by blast

text \<open>A part of the future transactions of \<open>a\<close>, in the middle of its map, has become current.\<close>

lemma moved_inv:
  assumes p: "pool_inv e K q" and m: "future_at a q = b @ r @ d"
    and q1: "cur_ok e q1" "m_future q1 = m_future q" "m_futureSize q1 = m_futureSize q - length r"
      "\<And>h. m_currentByHash q h = None \<Longrightarrow> h \<notin> hsh e ` snd ` set r \<Longrightarrow> m_currentByHash q1 h = None"
      "\<And>x. nonce_index q x = None \<Longrightarrow> x \<notin> key_of e ` snd ` set r \<Longrightarrow> nonce_index q1 x = None"
  shows "pool_inv e K (set_future a (b @ d) q1)"
proof -
  let ?q = "set_future a (b @ d) q1"
  have c: "fut_ok e q" "apart e (fut_set q) q" "within e (fut_set q) K q"
    using p by (simp_all add: pool_inv_def)
  have sorted: "sorted_wrt (<) (map fst (b @ r @ d))"
    using fut_okD(2) [OF c(1), of a] m by simp
  have F: "fut_set ?q = snd ` set (b @ d) \<union> (\<Union>c \<in> - {a}. snd ` set (future_at c q))"
    by (simp add: fut_set_set_future fut_cong(1) [OF q1(2)])
  have r: "snd ` set r \<subseteq> fut_set q" "snd ` set (b @ d) \<subseteq> fut_set q"
    using fut_set_at [of a q] unfolding m by auto
  have sub: "fut_set ?q \<subseteq> fut_set q"
    unfolding F by (intro Un_least UN_least fut_set_at r(2))
  have key: "key_of e t \<notin> key_of e ` snd ` set r" if t: "t \<in> fut_set ?q" for t
  proof
    assume "key_of e t \<in> key_of e ` snd ` set r"
    then obtain n t' where t': "(n, t') \<in> set r" "key_of e t = key_of e t'"
      by auto
    then have k: "key_of e t = (a, n)"
      using fut_okD(4) [OF c(1), of n t' a] m by simp
    from t show False
      unfolding F
    proof
      assume "t \<in> snd ` set (b @ d)"
      then obtain n' where "(n', t) \<in> set (b @ d)"
        by (metis imageE prod.collapse)
      moreover from this have "n' = n"
        using fut_okD(4) [OF c(1), of n' t a] m k by auto
      ultimately show False
        using t'(1) sorted_distinct [OF sorted] by (force simp: image_iff)
    next
      assume "t \<in> (\<Union>c \<in> - {a}. snd ` set (future_at c q))"
      then show False
        using fut_okD(4) [OF c(1)] k by force
    qed
  qed
  have hash: "hsh e t \<notin> hsh e ` snd ` set r" if t: "t \<in> fut_set ?q" for t
  proof
    assume "hsh e t \<in> hsh e ` snd ` set r"
    then obtain t' where t': "t' \<in> snd ` set r" "hsh e t = hsh e t'"
      by auto
    then have "t = t'"
      using inj_onD [OF fut_okD(5) [OF c(1)] t'(2)] sub r(1) t by blast
    then show False
      using key [OF t] t'(1) by blast
  qed
  have "fut_ok e (set_future a (b @ d) (q\<lparr>m_futureSize := m_futureSize q - length r\<rparr>))"
  proof (rule fut_ok_set [OF c(1)])
    show "sorted_wrt (<) (map fst (b @ d))"
      using sorted by (auto simp: sorted_wrt_append)
    show "good_tx e t \<and> key_of e t = (a, n)" if "(n, t) \<in> set (b @ d)" for n t
      using fut_okD(3,4) [OF c(1), of n t a] that m by auto
    show "inj_on (hsh e) (fut_set (set_future a (b @ d) q))"
      using inj_on_subset [OF fut_okD(5) [OF c(1)] sub] by (simp add: fut_cong(3) [OF q1(2)])
    show "m_futureSize q - length r + length (future_at a q) = m_futureSize q + length (b @ d)"
      using future_at_length [OF c(1), of a] m by simp
  qed
  moreover have eq: "m_future ?q = m_future (set_future a (b @ d) (q\<lparr>m_futureSize := m_futureSize q - length r\<rparr>))"
    using q1(2) by (simp add: set_future_def)
  ultimately have "fut_ok e ?q"
    using fut_cong(4) [OF eq, of e] q1(3) by simp
  moreover have "apart e (fut_set ?q) ?q"
    unfolding apart_def set_future_frame
  proof (intro ballI conjI)
    fix t
    assume t: "t \<in> fut_set ?q"
    then have "m_currentByHash q (hsh e t) = None" "nonce_index q (key_of e t) = None"
      using c(2) sub by (auto simp: apart_def)
    then show "m_currentByHash q1 (hsh e t) = None" "nonce_index q1 (key_of e t) = None"
      using q1(4) hash [OF t] q1(5) key [OF t] by blast+
  qed
  moreover have "within e (fut_set ?q) K ?q"
  proof -
    have k: "dom (m_currentByHash q) \<subseteq> K" "hsh e ` fut_set q \<subseteq> K"
      using c(3) by (simp_all add: within_def)
    have d: "dom (m_currentByHash q1) \<subseteq> dom (m_currentByHash q) \<union> hsh e ` snd ` set r"
    proof
      fix h
      assume "h \<in> dom (m_currentByHash q1)"
      then show "h \<in> dom (m_currentByHash q) \<union> hsh e ` snd ` set r"
        using q1(4) [of h] by (cases "h \<in> hsh e ` snd ` set r") (auto simp: domIff)
    qed
    have "dom (m_currentByHash q1) \<subseteq> K" "hsh e ` fut_set ?q \<subseteq> K"
      by (rule order_trans [OF d Un_least [OF k(1) order_trans [OF image_mono [OF r(1)] k(2)]]], rule order_trans [OF image_mono [OF sub] k(2)])
    then show ?thesis
      by (simp add: within_def)
  qed
  moreover have "cur_ok e ?q"
    using q1(1) same_cur_simps(3) [of q1 ?q] by (simp add: same_cur_def)
  ultimately show ?thesis
    by (simp add: pool_inv_def)
qed

lemma makeCurrent_ok:
  assumes p: "pool_inv e K q"
    and Q: "\<And>q'. pool_inv e K q' \<Longrightarrow> m_known q' = m_known q \<Longrightarrow> m_limit q' = m_limit q \<Longrightarrow> m_futureLimit q' = m_futureLimit q \<Longrightarrow>
      m_futureSize q' \<le> m_futureLimit q \<Longrightarrow> Q () q'"
  shows "twp E (makeCurrent_WITH_LOCK e t) Q q"
proof -
  let ?a = "from_of e t" and ?n = "t_nonce t + 1"
  define m where "m = future_at ?a q"
  have c: "cur_ok e q" "fut_ok e q" "apart e (fut_set q) q" "within e (fut_set q) K q"
    using p by (simp_all add: pool_inv_def)
  have trim: "twp E (tbind (trim_future e) (\<lambda>_. if b then traise OnReady else tret ())) Q q1"
    if "pool_inv e K q1" "m_known q1 = m_known q" "m_limit q1 = m_limit q" "m_futureLimit q1 = m_futureLimit q" for q1 b
    unfolding twp_rules(3)
  proof (rule trim_future_ok [OF that(1)])
    fix q2
    assume q2: "pool_inv e K q2" "same_cur q1 q2" "m_futureSize q2 \<le> m_futureLimit q1"
    have "pool_inv e K (q2\<lparr>m_raised := s\<rparr>)" for s
      by (rule pool_inv_future [OF q2(1)]) (use q2(1) in \<open>auto simp: pool_inv_def fut_ok_def fut_set_def future_at_def same_cur_def\<close>)
    then show "twp E (if b then traise OnReady else tret ()) Q q2"
      using q2 that by (auto simp: twp_simps same_cur_def intro!: Q)
  qed
  show ?thesis
  proof (cases "map_of m ?n")
    case None
    then show ?thesis
      using trim [OF p refl refl refl, of False] unfolding makeCurrent_WITH_LOCK_def Let_def by (simp add: twp_simps m_def)
  next
    case (Some t')
    let ?before = "takeWhile (\<lambda>p. fst p \<noteq> ?n) m" and ?rest = "dropWhile (\<lambda>p. fst p \<noteq> ?n) m"
    have m: "?before @ ?rest = m"
      by simp
    have sub: "snd ` set ?rest \<subseteq> fut_set q"
      unfolding fut_set_def m_def by (auto dest: set_dropWhileD)
    have "distinct (map fst (?before @ ?rest))"
      using fut_okD(2) [OF c(2), of ?a] unfolding m by (simp add: m_def sorted_distinct)
    then have dist: "distinct (map fst ?rest)"
      unfolding map_append distinct_append by blast
    have "twp E (future_loop e ?a ?n ?rest) (\<lambda>k. twp E (tbind (tset (set_future ?a (?before @ drop k ?rest))) (\<lambda>_. tret (0 < k)))
        (\<lambda>b. twp E (tbind (trim_future e) (\<lambda>_. if b then traise OnReady else tret ())) Q)) q"
    proof (rule future_loop_ok [OF c(1)])
      show "apart e (snd ` set ?rest) q"
        by (rule apart_shrinks [OF c(3)]) (use sub in auto)
      show "inj_on (hsh e) (snd ` set ?rest)"
        using inj_on_subset [OF fut_okD(5) [OF c(2)] sub] .
      show "good_tx e t \<and> key_of e t = (?a, n)" if "(n, t) \<in> set ?rest" for n t
        using fut_okD(3,4) [OF c(2)] set_dropWhileD [OF that] by (simp add: m_def)
      fix k q1
      assume k: "k \<le> length ?rest" and q1: "cur_ok e q1" "m_known q1 = m_known q" "m_future q1 = m_future q" "m_futureSize q1 = m_futureSize q - k"
        "m_limit q1 = m_limit q" "m_futureLimit q1 = m_futureLimit q"
        "\<And>h. m_currentByHash q h = None \<Longrightarrow> h \<notin> hsh e ` snd ` set (take k ?rest) \<Longrightarrow> m_currentByHash q1 h = None"
        "\<And>x. nonce_index q x = None \<Longrightarrow> x \<notin> key_of e ` snd ` set (take k ?rest) \<Longrightarrow> nonce_index q1 x = None"
      have "pool_inv e K (set_future ?a (?before @ drop k ?rest) q1)"
        by (rule moved_inv [OF p, where r = "take k ?rest"]) (use q1 k m in \<open>simp_all add: m_def\<close>)
      then show "twp E (tbind (tset (set_future ?a (?before @ drop k ?rest))) (\<lambda>_. tret (0 < k)))
          (\<lambda>b. twp E (tbind (trim_future e) (\<lambda>_. if b then traise OnReady else tret ())) Q) q1"
        unfolding twp_simps using q1 trim by (simp add: twp_simps)
    qed (rule dist)
    then show ?thesis
      using Some unfolding makeCurrent_WITH_LOCK_def Let_def by (simp add: twp_simps m_def [symmetric])
  qed
qed

end
