(* ===== verification/TransactionQueueOps.thy ===== *)
theory TransactionQueueOps
  imports TransactionQueueInv
begin

text \<open>
  The operations of the transaction queue, in any order and interleaving: the step relation of the queue with its verifier threads, the invariant of every state that
  can be reached, and what happens when a transaction comes without a valid signature.
\<close>

section \<open>Importing\<close>

lemma tq_inv_cong:
  assumes "tq_inv e q" "same_cur q q'" "m_future q' = m_future q" "m_futureSize q' = m_futureSize q"
  shows "tq_inv e q'"
  using assms fut_cong(2,4) [OF assms(3)] pool_inv_future [of e "m_known q" q q'] by (simp add: tq_inv_def pool_inv_def same_cur_def)

lemma deref_index:
  assumes "cur_ok e q" "nonce_index q k = Some x"
  obtains i t where "x = Node i" "(i, t) \<in> set (m_current q)" "key_of e t = k"
  using indexes_Some [OF cur_okD(4) [OF assms(1)], of k x] assms(2) by auto

text \<open>The tests for a transaction with the same nonce: the import ends, or no transaction is left with this nonce.\<close>

lemma replace_current_ok:
  assumes p: "tq_inv e q"
    and Q: "Q False q"
      "\<And>q'. tq_inv e q' \<Longrightarrow> same_rest q q' \<Longrightarrow> m_known q' \<subseteq> m_known q \<Longrightarrow> nonce_index q' (key_of e t) = None \<Longrightarrow> Q True q'"
  shows "twp E (replace_current e t) Q q"
proof -
  have c: "cur_ok e q"
    using p by (simp add: tq_inv_def pool_inv_def)
  have r: "Option.bind (m_currentByAddressAndNonce q (from_of e t)) (\<lambda>m. map_of m (t_nonce t)) = nonce_index q (key_of e t)"
    by (simp add: nonce_index_def key_of_def)
  show ?thesis
  proof (cases "nonce_index q (key_of e t)")
    case None
    then show ?thesis
      using Q(2) [OF p] by (simp add: replace_current_def twp_simps r same_rest_def)
  next
    case (Some x)
    obtain i old where i: "x = Node i" "(i, old) \<in> set (m_current q)" "key_of e old = key_of e t"
      by (rule deref_index [OF c Some])
    have "twp E (remove_WITH_LOCK e (hsh e old)) (\<lambda>_. twp E (tbind (traise (OnReplaced (hsh e old))) (\<lambda>_. tret True)) Q) q"
    proof (rule remove_inv [OF p])
      fix r q'
      assume q': "tq_inv e q'" "same_rest q q'" "m_known q' \<subseteq> m_known q"
        "\<And>t. hsh e t = hsh e old \<Longrightarrow> t \<in> snd ` set (m_current q) \<Longrightarrow> r \<and> nonce_index q' (key_of e t) = None"
      let ?q = "q'\<lparr>m_raised := m_raised q' @ [OnReplaced (hsh e old)]\<rparr>"
      have "old \<in> snd ` set (m_current q)"
        using i(2) by force
      then have "nonce_index q' (key_of e t) = None"
        using q'(4) i(3) by metis
      moreover have "same_cur q' ?q"
        by (simp add: same_cur_def)
      ultimately have "Q True ?q"
        using q' tq_inv_cong [OF q'(1)] same_cur_index [of q' ?q] by (intro Q(2)) (simp_all add: same_rest_def)
      then show "twp E (tbind (traise (OnReplaced (hsh e old))) (\<lambda>_. tret True)) Q q'"
        by (simp add: twp_simps)
    qed
    then show ?thesis
      using Some Q(1) i by (simp add: replace_current_def twp_simps r twp_deref [OF cur_okD(1) [OF c] i(2)] twp_tx_hash [OF cur_okD(2) [OF c i(2)]])
  qed
qed

lemma replace_future_ok:
  assumes p: "tq_inv e q"
    and Q: "Q False q"
      "\<And>q'. tq_inv e q' \<Longrightarrow> same_cur q q' \<Longrightarrow> key_of e t \<notin> key_of e ` fut_set q' \<Longrightarrow> Q True q'"
  shows "twp E (replace_future e t) Q q"
proof -
  let ?a = "from_of e t" and ?n = "t_nonce t"
  have c: "fut_ok e q" "pool_inv e (m_known q) q"
    using p by (simp_all add: tq_inv_def pool_inv_def)
  have key: "map_of (future_at ?a q') ?n \<noteq> None" if f: "fut_ok e q'" and k: "key_of e t \<in> key_of e ` fut_set q'" for q'
  proof -
    obtain t' a n where t': "(n, t') \<in> set (future_at a q')" "key_of e t' = key_of e t"
      using k by (auto simp: fut_set_def)
    then have "(?n, t') \<in> set (future_at ?a q')"
      using fut_okD(4) [OF f t'(1)] by (simp add: key_of_def)
    then show ?thesis
      using omap_lookup [OF fut_okD(2) [OF f]] by (metis option.distinct(1))
  qed
  show ?thesis
  proof (cases "map_of (future_at ?a q) ?n")
    case None
    have "Q True q"
      by (rule Q(2) [OF p]) (use None key [OF c(1)] in \<open>auto simp: same_cur_def\<close>)
    then show ?thesis
      using None by (simp add: replace_future_def Let_def twp_simps)
  next
    case (Some old)
    let ?m = "omap_erase ?n (future_at ?a q)"
    let ?q = "set_future ?a ?m (q\<lparr>m_futureSize := m_futureSize q - 1\<rparr>)"
    have sub: "fut_set (set_future ?a ?m q) \<subseteq> fut_set q"
    proof -
      have "snd ` set ?m \<subseteq> fut_set q"
        using fut_set_at [of ?a q] by (auto simp: omap_erase_props(2))
      then show ?thesis
        unfolding fut_set_set_future by (intro Un_least UN_least fut_set_at)
    qed
    have f: "fut_ok e ?q"
    proof (rule fut_ok_set [OF c(1)])
      show "good_tx e t' \<and> key_of e t' = (?a, n)" if "(n, t') \<in> set ?m" for n t'
        using that fut_okD(3,4) [OF c(1), of n t' ?a] by (simp add: omap_erase_props(2))
      show "inj_on (hsh e) (fut_set (set_future ?a ?m q))"
        by (rule inj_on_subset [OF fut_okD(5) [OF c(1)] sub])
      have "length ?m + 1 = length (future_at ?a q)"
        by (rule omap_erase_length [OF fut_okD(2) [OF c(1)]]) (simp add: Some)
      then show "m_futureSize q - 1 + length (future_at ?a q) = m_futureSize q + length ?m"
        using future_at_length [OF c(1), of ?a] by simp
    qed (rule omap_erase_props(1) [OF fut_okD(2) [OF c(1)]])
    have "tq_inv e ?q"
      using pool_inv_future [OF c(2) f same_cur_simps(1)] sub by (simp add: tq_inv_def)
    then have "Q True ?q"
      by (rule Q(2) [OF _ same_cur_simps(1)]) (use key [OF f] in auto)
    then show ?thesis
      using Some Q(1) by (simp add: replace_future_def Let_def twp_simps)
  qed
qed

lemma insertCurrent_ok:
  assumes p: "tq_inv e q" and t: "good_tx e t" "h = hsh e t" "h \<notin> m_known q" "nonce_index q (key_of e t) = None" "key_of e t \<notin> key_of e ` fut_set q"
    and Q: "\<And>q'. tq_inv e q' \<Longrightarrow> m_limit q' = m_limit q \<Longrightarrow> m_futureLimit q' = m_futureLimit q \<Longrightarrow> m_futureSize q' \<le> m_futureLimit q \<Longrightarrow>
      m_known q' = insert h (m_known q) \<Longrightarrow> Q () q'"
  shows "twp E (insertCurrent_WITH_LOCK e h t) Q q"
proof -
  have c: "cur_ok e q" "fut_ok e q" "apart e (fut_set q) q" "within e (fut_set q) (m_known q) q"
    using p by (simp_all add: tq_inv_def pool_inv_def)
  have h: "m_currentByHash q h = None" "h \<notin> hsh e ` fut_set q"
    using c(4) t(3) by (auto simp: within_def)
  have "twp E (add_current e (from_of e t) t) (\<lambda>_. twp E (tbind (makeCurrent_WITH_LOCK e t) (\<lambda>_. tset (\<lambda>q. q\<lparr>m_known := insert h (m_known q)\<rparr>))) Q) q"
  proof (rule add_current_ok [OF c(1) t(1) _ t(4)])
    fix i q1
    assume q1: "cur_ok e q1" "same_rest q q1" "m_known q1 = m_known q" "m_currentByHash q1 = (m_currentByHash q)(hsh e t \<mapsto> Node i)"
      "nonce_index q1 = (nonce_index q)(key_of e t \<mapsto> Node i)"
    have "apart e (fut_set q) q1"
      using c(3) h(2) t(2,5) q1(4,5) by (auto simp: apart_def image_iff)
    moreover have "within e (fut_set q) (insert h (m_known q)) q1"
      using c(4) q1(4) t(2) by (auto simp: within_def)
    ultimately have "pool_inv e (insert h (m_known q)) q1"
      using q1(1,2) c(2) by (simp add: pool_inv_def same_rest_future)
    then show "twp E (tbind (makeCurrent_WITH_LOCK e t) (\<lambda>_. tset (\<lambda>q. q\<lparr>m_known := insert h (m_known q)\<rparr>))) Q q1"
      unfolding twp_simps
    proof (rule makeCurrent_ok)
      fix q2
      assume q2: "pool_inv e (insert h (m_known q)) q2" "m_known q2 = m_known q1" "m_limit q2 = m_limit q1" "m_futureLimit q2 = m_futureLimit q1"
        "m_futureSize q2 \<le> m_futureLimit q1"
      let ?q = "q2\<lparr>m_known := insert h (m_known q2)\<rparr>"
      have "tq_inv e ?q"
        using q2(1,2) q1(3) fut_cong(2) [of ?q q2] fut_cong(4) [of ?q q2 e]
        by (simp add: tq_inv_def pool_inv_def cur_ok_def nodes_ok_def maps_ok_def apart_def within_def nonce_index_def)
          (simp add: nonce_index_def [abs_def])
      then show "Q () ?q"
        by (rule Q) (use q1 q2 in \<open>simp_all add: same_rest_def\<close>)
    qed
  qed (use h t(2) in simp)
  then show ?thesis
    using h(1) by (simp add: insertCurrent_WITH_LOCK_def twp_simps)
qed

text \<open>The outcome of an import, for a transaction whose sender can be recovered.\<close>

definition imported :: "tq_env \<Rightarrow> TransactionQueue \<Rightarrow> ImportResult \<Rightarrow> TransactionQueue \<Rightarrow> bool" where
  "imported e q r q' \<longleftrightarrow> tq_inv e q' \<and> m_limit q' = m_limit q \<and> m_futureLimit q' = m_futureLimit q \<and>
     (r = Import_Success \<longrightarrow> length (m_current q') \<le> m_limit q \<and> m_futureSize q' \<le> m_futureLimit q)"

lemma manageImport_ok:
  assumes p: "tq_inv e q" and t: "good_tx e t" "h = hsh e t" "h \<notin> m_known q"
  shows "twp E (manageImport_WITH_LOCK e h t) (imported e q) q"
proof -
  let ?body = "tbind (replace_current e t) (\<lambda>ok. if \<not> ok then tret OverbidGasPrice
         else tbind (replace_future e t) (\<lambda>ok. if \<not> ok then tret OverbidGasPrice
           else
             tbind (insertCurrent_WITH_LOCK e h t) (\<lambda>_.
             tbind (trim_current e) (\<lambda>_.
             tbind (traise OnReady) (\<lambda>_. tret Import_Success)))))"
  have fin: "twp E' (tbind (trim_current e) (\<lambda>_. tbind (traise OnReady) (\<lambda>_. tret Import_Success))) (imported e q) q3"
    if q3: "tq_inv e q3" "m_limit q3 = m_limit q" "m_futureLimit q3 = m_futureLimit q" "m_futureSize q3 \<le> m_futureLimit q" for q3 E'
    unfolding twp_simps
  proof (rule trim_current_ok [OF q3(1)])
    fix q4
    assume q4: "tq_inv e q4" "same_rest q3 q4" "length (m_current q4) \<le> m_limit q3"
    show "imported e q Import_Success (q4\<lparr>m_raised := m_raised q4 @ [OnReady]\<rparr>)"
      using q3 q4 tq_inv_cong [OF q4(1), of "q4\<lparr>m_raised := m_raised q4 @ [OnReady]\<rparr>"] by (simp add: imported_def same_rest_def same_cur_def)
  qed
  have "twp (\<lambda>_ _. False) ?body (imported e q) q"
    unfolding twp_rules(3)
  proof (rule replace_current_ok [OF p], goal_cases)
    case 1
    then show ?case
      using p by (simp add: twp_simps imported_def)
  next
    case (2 q1)
    show ?case
      unfolding not_True_eq_False if_False twp_rules(3)
    proof (rule replace_future_ok [OF 2(1)], goal_cases)
      case 1
      then show ?case
        using 2 by (simp add: twp_simps imported_def same_rest_def)
    next
      case (2 q2)
      then have k: "h \<notin> m_known q2" "nonce_index q2 (key_of e t) = None"
        using t(3) \<open>m_known q1 \<subseteq> m_known q\<close> \<open>nonce_index q1 (key_of e t) = None\<close> same_cur_index [of q1 q2] by (auto simp: same_cur_def)
      show ?case
        unfolding not_True_eq_False if_False twp_rules(3)
      proof (rule insertCurrent_ok [OF 2(1) t(1,2) k 2(3)], goal_cases)
        case (1 q3)
        then show ?case
          using fin [of q3] \<open>same_rest q q1\<close> \<open>same_cur q1 q2\<close> unfolding twp_rules(3) by (simp add: same_rest_def same_cur_def)
      qed
    qed
  qed
  then show ?thesis
    unfolding manageImport_WITH_LOCK_def by (auto simp: twp_def split: sum.splits prod.splits)
qed

lemma streamRLP_caches [simp]: "streamRLP (t\<lparr>t_hashWith := h\<rparr>) = streamRLP t" "streamRLP (t\<lparr>t_sender := a\<rparr>) = streamRLP t"
  by (simp_all add: streamRLP_def hasZeroSignature_def fun_eq_iff cong: if_cong option.case_cong)

lemma sender_fst:
  "fst (sender f r t) = (if t_sender t \<noteq> 0 then Inr (t_sender t) else if hasZeroSignature t then Inr MaxAddress
     else case t_vrs t of None \<Rightarrow> Inl TransactionIsUnsigned | Some vrs \<Rightarrow> (case fst (tx_sha3 f False t) of Inl e \<Rightarrow> Inl e
       | Inr h \<Rightarrow> if r vrs h = 0 then Inl InvalidSignature else Inr (ucast (f (toBigEndian (unat (r vrs h)) 64)))))"
  by (simp add: sender_def Let_def split: option.split prod.split sum.split)

text \<open>The caches that \<open>import\<close> fills do not change hash and sender.\<close>

lemma sha3_cache:
  assumes "tx_sha3 f True t = (Inr h, t1)"
  shows "fst (tx_sha3 f True t1) = Inr h" "fst (sender f r t1) = fst (sender f r t)" "\<exists>c. t1 = t\<lparr>t_hashWith := c\<rparr>"
proof -
  obtain c where t1: "t1 = t\<lparr>t_hashWith := c\<rparr>"
    using assms that [of h] that [of "t_hashWith t"] by (auto simp: tx_sha3_def split: if_splits sum.splits)
  show "fst (tx_sha3 f True t1) = Inr h"
    using assms by (auto simp: tx_sha3_def split: if_splits sum.splits)
  show "\<exists>c. t1 = t\<lparr>t_hashWith := c\<rparr>"
    using t1 by blast
  have "fst (tx_sha3 f False t1) = fst (tx_sha3 f False t)"
    by (simp add: t1 tx_sha3_def split: sum.split)
  then show "fst (sender f r t1) = fst (sender f r t)"
    unfolding sender_fst by (simp add: t1 hasZeroSignature_def split: option.split)
qed

lemma sender_cache:
  "fst (sender f r (snd (sender f r t))) = fst (sender f r t)" "fst (tx_sha3 f True (snd (sender f r t))) = fst (tx_sha3 f True t)"
proof -
  have n: "snd (tx_sha3 f False u) = u" for u
    by (simp add: tx_sha3_def split: sum.split)
  have s: "snd (sender f r t) = t \<or> (\<exists>a. fst (sender f r t) = Inr a \<and> snd (sender f r t) = t\<lparr>t_sender := a\<rparr> \<and> t_sender t = 0)"
    using n [of t] by (auto simp: sender_def Let_def split: option.split prod.split sum.split)
  then show "fst (tx_sha3 f True (snd (sender f r t))) = fst (tx_sha3 f True t)"
    by (auto simp: tx_sha3_def split: sum.split)
  show "fst (sender f r (snd (sender f r t))) = fst (sender f r t)"
  proof (cases "snd (sender f r t) = t")
    case False
    then obtain a where a: "fst (sender f r t) = Inr a" "snd (sender f r t) = t\<lparr>t_sender := a\<rparr>" "t_sender t = 0"
      using s by blast
    have "a \<noteq> 0"
    proof
      assume "a = 0"
      then have "t\<lparr>t_sender := a\<rparr> = t"
        using a(3) by (metis TransactionBase.surjective TransactionBase.update_convs(11))
      then show False
        using False a(2) by simp
    qed
    then show ?thesis
      using a by (simp add: sender_def)
  qed simp
qed

lemma import_good:
  assumes "tx_sha3 (tq_sha3 e) True t = (Inr h, t1)"
  defines "t2 \<equiv> snd (safeSender (tq_sha3 e) (tq_recover e) t1)"
  shows "hash_of e t2 = Inr h" "hsh e t2 = h" "sender_of e t2 = sender_of e t"
proof -
  have t2: "t2 = snd (sender (tq_sha3 e) (tq_recover e) t1)"
    by (simp add: t2_def safeSender_def split: prod.split sum.split)
  show h: "hash_of e t2 = Inr h"
    using sha3_cache(1) [OF assms(1)] by (simp add: hash_of_def t2 sender_cache)
  then show "hsh e t2 = h"
    by (simp add: hsh_def)
  show "sender_of e t2 = sender_of e t"
    using sha3_cache(2) [OF assms(1)] by (simp add: sender_of_def t2 sender_cache)
qed

text \<open>An exception of \<open>import\<close> leaves the queue as it was.\<close>

lemma import_ok:
  assumes p: "tq_inv e q" and t: "\<exists>a. sender_of e t = Inr a"
  shows "twp (\<lambda>z q'. (\<exists>x. z = TqThrow x) \<and> q' = q) (import_tx e t ik) (imported e q) q"
proof (cases "tx_sha3 (tq_sha3 e) True t")
  case (Pair r t1)
  show ?thesis
  proof (cases r)
    case (Inl z)
    then show ?thesis
      using Pair p by (simp add: twp_def import_tx_def imported_def)
  next
    case (Inr h)
    let ?t = "snd (safeSender (tq_sha3 e) (tq_recover e) t1)"
    have g: "good_tx e ?t" "h = hsh e ?t"
      using import_good [OF Pair [unfolded Inr]] t by (simp_all add: good_tx_def)
    have "h \<notin> m_known q" if "check_WITH_LOCK h ik q = Import_Success"
      using that by (auto simp: check_WITH_LOCK_def split: if_splits)
    then have "twp (\<lambda>z q'. (\<exists>x. z = TqThrow x) \<and> q' = q) (manageImport_WITH_LOCK e h ?t) (imported e q) q" if "check_WITH_LOCK h ik q = Import_Success"
      using manageImport_ok [OF p g] that by blast
    then show ?thesis
      using Pair Inr p by (auto simp: twp_def import_tx_def imported_def)
  qed
qed

section \<open>Moving to the future\<close>

text \<open>The state inside the loop of \<open>setFuture\<close>: the index by nonce is not yet up to date, and the entries \<open>l\<close> are still to be moved.\<close>

definition moving :: "tq_env \<Rightarrow> h256 set \<Rightarrow> address \<Rightarrow> (u256 \<times> handle) list \<Rightarrow> TransactionQueue \<Rightarrow> bool" where
  "moving e K a l q \<longleftrightarrow> nodes_ok e q \<and> fut_ok e q \<and> (\<forall>t \<in> fut_set q. m_currentByHash q (hsh e t) = None) \<and> within e (fut_set q) K q \<and>
     distinct (map fst l) \<and> (\<forall>(n, x) \<in> set l. (\<exists>i t. x = Node i \<and> (i, t) \<in> set (m_current q) \<and> key_of e t = (a, n)) \<and> map_of (future_at a q) n = None)"

definition same_base :: "TransactionQueue \<Rightarrow> TransactionQueue \<Rightarrow> bool" where
  "same_base q q' \<longleftrightarrow> m_currentByAddressAndNonce q' = m_currentByAddressAndNonce q \<and> m_known q' = m_known q \<and> m_limit q' = m_limit q \<and> m_futureLimit q' = m_futureLimit q"

lemma move_one:
  assumes mv: "moving e K a ((n, x) # l) q" and i: "x = Node i" "(i, t) \<in> set (m_current q)" "key_of e t = (a, n)"
  defines "q' \<equiv> (set_future a (omap_put n t (future_at a q)) (q\<lparr>m_futureSize := m_futureSize q + 1\<rparr>))\<lparr>m_currentByHash := (m_currentByHash q)(hsh e t := None),
      m_current := filter (\<lambda>p. Node (fst p) \<noteq> Node i) (m_current q)\<rparr>"
  shows "moving e K a l q'" "set (m_current q') = set (m_current q) - {(i, t)}" "future_at b q' = (if b = a then omap_put n t (future_at a q) else future_at b q)"
proof -
  have n: "nodes_ok e q" "fut_ok e q" "\<forall>t \<in> fut_set q. m_currentByHash q (hsh e t) = None" "within e (fut_set q) K q"
    and l: "n \<notin> fst ` set l" "distinct (map fst l)" "map_of (future_at a q) n = None"
      "\<And>n x. (n, x) \<in> set l \<Longrightarrow> (\<exists>i t. x = Node i \<and> (i, t) \<in> set (m_current q) \<and> key_of e t = (a, n)) \<and> map_of (future_at a q) n = None"
    using mv by (auto simp: moving_def)
  have d: "distinct (map fst (m_current q))" and g: "good_tx e t" and ix: "indexes (hsh e) (set (m_current q)) (m_currentByHash q)"
    using n(1) i(2) by (auto simp: nodes_ok_def)
  have by_hash: "m_currentByHash q (hsh e t) = Some (Node i)"
    by (rule indexes_mem [OF ix i(2)])
  show cur: "set (m_current q') = set (m_current q) - {(i, t)}"
    using filter_node [OF d i(2)] by (simp add: q'_def)
  show fa: "future_at b q' = (if b = a then omap_put n t (future_at a q) else future_at b q)" for b
    by (simp add: q'_def future_at_def set_future_def update_conv')
  have uniq: "t' = t" if "(i, t') \<in> set (m_current q)" for t'
    using d i(2) that by (metis eq_key_imp_eq_value)
  have put: "set (omap_put n t (future_at a q)) = insert (n, t) (set (future_at a q))" "length (omap_put n t (future_at a q)) = Suc (length (future_at a q))"
    using omap_put_fresh [OF l(3) fut_okD(2) [OF n(2)]] by auto
  have F: "fut_set (set_future a (omap_put n t (future_at a q)) q) = insert t (fut_set q)"
  proof -
    have u: "(UNIV :: address set) = insert a (- {a})"
      by auto
    have "fut_set q = snd ` set (future_at a q) \<union> (\<Union>b \<in> - {a}. snd ` set (future_at b q))"
      unfolding fut_set_def by (subst u) simp
    then show ?thesis
      unfolding fut_set_set_future put by simp
  qed
  have nf: "hsh e t \<notin> hsh e ` fut_set q"
    using n(3) by_hash by force
  have f: "fut_ok e (set_future a (omap_put n t (future_at a q)) (q\<lparr>m_futureSize := m_futureSize q + 1\<rparr>))"
  proof (rule fut_ok_set [OF n(2) sorted_omap_put [OF fut_okD(2) [OF n(2)]]])
    show "good_tx e t' \<and> key_of e t' = (a, m)" if "(m, t') \<in> set (omap_put n t (future_at a q))" for m t'
      using that g i(3) fut_okD(3,4) [OF n(2), of m t' a] unfolding put by auto
    show "inj_on (hsh e) (fut_set (set_future a (omap_put n t (future_at a q)) q))"
      using fut_okD(5) [OF n(2)] nf unfolding F by auto
    show "m_futureSize q + 1 + length (future_at a q) = m_futureSize q + length (omap_put n t (future_at a q))"
      by (simp add: put)
  qed
  have F': "fut_set q' = insert t (fut_set q)"
    using F fut_cong(2) [of q' "set_future a (omap_put n t (future_at a q)) q"] by (simp add: q'_def set_future_def)
  have f': "fut_ok e q'"
    using f fut_cong(4) [of q' "set_future a (omap_put n t (future_at a q)) (q\<lparr>m_futureSize := m_futureSize q + 1\<rparr>)" e] by (simp add: q'_def)
  have "nodes_ok e q'"
    using n(1) cur indexes_remove [OF ix i(2) uniq] by (auto simp: nodes_ok_def q'_def distinct_map_filter_fst)
  moreover have "\<forall>t' \<in> fut_set q'. m_currentByHash q' (hsh e t') = None"
    using n(3) unfolding F' by (auto simp: q'_def)
  moreover have "within e (fut_set q') K q'"
    using n(4) by_hash unfolding F' within_def by (auto simp: q'_def)
  moreover have "(\<exists>i t. x = Node i \<and> (i, t) \<in> set (m_current q') \<and> key_of e t = (a, m)) \<and> map_of (future_at a q') m = None" if mx: "(m, x) \<in> set l" for m x
  proof -
    obtain j u where j: "x = Node j" "(j, u) \<in> set (m_current q)" "key_of e u = (a, m)" "map_of (future_at a q) m = None"
      using l(4) [OF mx] by blast
    moreover have "m \<noteq> n"
      using l(1) mx by force
    ultimately show ?thesis
      using i(3) unfolding cur fa by auto
  qed
  ultimately show "moving e K a l q'"
    using f' l(2) by (auto simp: moving_def)
qed

lemma setFuture_loop_ok:
  assumes "moving e K a l q"
    and "\<And>q'. moving e K a [] q' \<Longrightarrow> same_base q q' \<Longrightarrow> set (m_current q') = {p \<in> set (m_current q). Node (fst p) \<notin> snd ` set l} \<Longrightarrow>
      dom (map_of (future_at a q')) = dom (map_of (future_at a q)) \<union> fst ` set l \<Longrightarrow> (\<And>b. b \<noteq> a \<Longrightarrow> future_at b q' = future_at b q) \<Longrightarrow> Q () q'"
  shows "twp E (setFuture_loop e a l) Q q"
  using assms
proof (induction l arbitrary: q)
  case Nil
  then show ?case
    by (simp add: twp_simps same_base_def)
next
  case (Cons p l)
  obtain n x where p: "p = (n, x)"
    by fastforce
  obtain i t where i: "x = Node i" "(i, t) \<in> set (m_current q)" "key_of e t = (a, n)"
    using Cons.prems(1) by (auto simp: moving_def p)
  have d: "distinct (map fst (m_current q))" and g: "good_tx e t" and fresh: "map_of (future_at a q) n = None"
    using Cons.prems(1) i(2) by (auto simp: moving_def nodes_ok_def p)
  have tn: "t_nonce t = n"
    using i(3) by (simp add: key_of_def)
  let ?q = "(set_future a (omap_put n t (future_at a q)) (q\<lparr>m_futureSize := m_futureSize q + 1\<rparr>))\<lparr>m_currentByHash := (m_currentByHash q)(hsh e t := None),
      m_current := filter (\<lambda>p. Node (fst p) \<noteq> Node i) (m_current q)\<rparr>"
  note m = move_one [OF Cons.prems(1) [unfolded p] i]
  have base: "same_base q ?q"
    by (simp add: same_base_def)
  have "twp E (setFuture_loop e a l) Q ?q"
  proof (rule Cons.IH [OF m(1)])
    fix q'
    assume q': "moving e K a [] q'" "same_base ?q q'" "set (m_current q') = {p \<in> set (m_current ?q). Node (fst p) \<notin> snd ` set l}"
      "dom (map_of (future_at a q')) = dom (map_of (future_at a ?q)) \<union> fst ` set l" "\<And>b. b \<noteq> a \<Longrightarrow> future_at b q' = future_at b ?q"
    have "set (m_current q') = {p \<in> set (m_current q). Node (fst p) \<notin> snd ` set ((n, x) # l)}"
      using q'(3) i(1) by auto
    then show "Q () q'"
      by (intro Cons.prems(2) q'(1)) (use q' m(3) base p in \<open>auto simp: same_base_def\<close>)
  qed
  moreover have "?q = (set_future a (omap_put n t (future_at a q)) q)\<lparr>m_currentByHash := (m_currentByHash q)(hsh e t := None),
      m_current := filter (\<lambda>p. fst p \<noteq> i) (m_current q), m_futureSize := m_futureSize q + 1\<rparr>"
    by (simp add: set_future_def)
  moreover have "twp E' (deref (Node i)) R s = R t s" if "m_current s = m_current q" for E' R s
    using that d i(2) by (simp add: twp_deref)
  ultimately show ?case
    using fresh by (simp add: p i(1) twp_simps erase_current_def twp_tx_hash [OF g] tn omap_insert_def)
qed

text \<open>The entries of a sender in the index by nonce are its transactions.\<close>

lemma sender_entries:
  assumes c: "cur_ok e q" and m: "m_currentByAddressAndNonce q a = Some m"
  shows "sorted_wrt (<) (map fst m)" "distinct (map fst m)" "(n, y) \<in> set m \<longleftrightarrow> (\<exists>i t. (i, t) \<in> set (m_current q) \<and> key_of e t = (a, n) \<and> y = Node i)"
    "nonce_index q (a, n) = map_of m n"
proof -
  show s: "sorted_wrt (<) (map fst m)"
    using cur_okD(5) [OF c] m unfolding maps_ok_def by blast
  then show "distinct (map fst m)"
    by (rule sorted_distinct)
  show n: "nonce_index q (a, n) = map_of m n"
    by (simp add: nonce_index_def m)
  then show "(n, y) \<in> set m \<longleftrightarrow> (\<exists>i t. (i, t) \<in> set (m_current q) \<and> key_of e t = (a, n) \<and> y = Node i)"
    using indexes_Some [OF cur_okD(4) [OF c], of "(a, n)" y] unfolding omap_lookup [OF s, of n y, symmetric] by metis
qed

text \<open>After the loop the index by nonce loses the entries from the nonce on.\<close>

lemma cut_index:
  assumes c: "cur_ok e q" and m: "m_currentByAddressAndNonce q a = Some (k @ l)" and q': "nodes_ok e q'" "same_base q q'"
    and cur: "set (m_current q') = {p \<in> set (m_current q). Node (fst p) \<notin> snd ` set l}"
  defines "q'' \<equiv> q'\<lparr>m_currentByAddressAndNonce := (m_currentByAddressAndNonce q')(a := (if k = [] then None else Some k))\<rparr>"
  shows "cur_ok e q''" "nonce_index q'' (b, n) = (if b = a then map_of k n else nonce_index q (b, n))"
proof -
  note entries = sender_entries [OF c m]
  have sk: "sorted_wrt (<) (map fst k)"
    using entries(1) by (simp add: sorted_wrt_append)
  note dist = entries(2)
  show ni: "nonce_index q'' (b, n) = (if b = a then map_of k n else nonce_index q (b, n))" for b n
    using q'(2) by (auto simp: nonce_index_def q''_def same_base_def)
  note mem = entries(3)
  have rest: "(i, t) \<in> set (m_current q') \<longleftrightarrow> (i, t) \<in> set (m_current q) \<and> (n, Node i) \<in> set k"
    if "key_of e t = (a, n)" for i t n
  proof
    assume i: "(i, t) \<in> set (m_current q')"
    then have "(n, Node i) \<in> set (k @ l)" "Node i \<notin> snd ` set l"
      using mem [of n "Node i"] that cur by auto
    then show "(i, t) \<in> set (m_current q) \<and> (n, Node i) \<in> set k"
      using i cur by force
  next
    assume i: "(i, t) \<in> set (m_current q) \<and> (n, Node i) \<in> set k"
    have "Node i \<notin> snd ` set l"
    proof
      assume "Node i \<in> snd ` set l"
      then obtain n' where n': "(n', Node i) \<in> set l"
        by (metis imageE prod.collapse)
      then have "key_of e t = (a, n')"
        using mem [of n' "Node i"] current_unique [OF c conjunct1 [OF i]] by auto
      then show False
        using that i n' dist by (force simp: image_iff)
    qed
    then show "(i, t) \<in> set (m_current q')"
      using i cur by simp
  qed
  have other: "(i, t) \<in> set (m_current q')" if it: "(i, t) \<in> set (m_current q)" "from_of e t \<noteq> a" for i t
  proof -
    have "Node i \<notin> snd ` set l"
    proof
      assume "Node i \<in> snd ` set l"
      then obtain n' where "(n', Node i) \<in> set l"
        by force
      then have "(n', Node i) \<in> set (k @ l)"
        by simp
      then show False
        using mem [of n' "Node i"] current_unique [OF c it(1)] it(2) by (auto simp: key_of_def)
    qed
    then show ?thesis
      using it(1) cur by simp
  qed
  have "indexes (key_of e) (set (m_current q')) (nonce_index q'')"
    unfolding indexes_def
  proof (intro allI)
    fix bn :: "address \<times> u256" and y
    obtain b n where bn: "bn = (b, n)"
      by fastforce
    show "nonce_index q'' bn = Some y \<longleftrightarrow> (\<exists>i t. (i, t) \<in> set (m_current q') \<and> bn = key_of e t \<and> y = Node i)"
    proof (cases "b = a")
      case True
      then have "nonce_index q'' bn = Some y \<longleftrightarrow> (n, y) \<in> set k"
        using omap_lookup [OF sk, of n y] by (simp add: bn ni)
      also have "\<dots> \<longleftrightarrow> (\<exists>i t. (i, t) \<in> set (m_current q') \<and> bn = key_of e t \<and> y = Node i)"
        using rest [of _ n] mem [of n y] True bn by force
      finally show ?thesis .
    next
      case False
      then show ?thesis
        using indexes_Some [OF cur_okD(4) [OF c], of bn y] other cur by (auto simp: bn ni key_of_def)
    qed
  qed
  moreover have "maps_ok q''"
    using cur_okD(5) [OF c] q'(2) sk by (auto simp: maps_ok_def q''_def same_base_def)
  moreover have "nodes_ok e q''" "m_current q'' = m_current q'"
    using q'(1) by (simp_all add: q''_def nodes_ok_def)
  ultimately show "cur_ok e q''"
    by (simp add: cur_ok_def)
qed

lemma moving_start:
  assumes p: "tq_inv e q" and m: "m_currentByAddressAndNonce q a = Some (k @ l)"
  shows "moving e (m_known q) a l q"
proof -
  have c: "cur_ok e q" "fut_ok e q" "apart e (fut_set q) q" "within e (fut_set q) (m_known q) q"
    using p by (simp_all add: tq_inv_def pool_inv_def)
  note entries = sender_entries [OF c(1) m]
  have "(\<exists>i t. y = Node i \<and> (i, t) \<in> set (m_current q) \<and> key_of e t = (a, n)) \<and> map_of (future_at a q) n = None" if ny: "(n, y) \<in> set l" for n y
  proof -
    obtain j u where j: "(j, u) \<in> set (m_current q)" "key_of e u = (a, n)" "y = Node j"
      using entries(3) [of n y] ny by auto
    have "map_of (future_at a q) n = None"
    proof (rule ccontr)
      assume "map_of (future_at a q) n \<noteq> None"
      then obtain v where v: "(n, v) \<in> set (future_at a q)"
        by (auto dest: map_of_SomeD)
      then have "v \<in> fut_set q"
        using fut_set_at [of a q] by force
      then show False
        using c(3) fut_okD(4) [OF c(2) v] indexes_mem [OF cur_okD(4) [OF c(1)] j(1)] j(2) by (auto simp: apart_def)
    qed
    then show ?thesis
      using j by blast
  qed
  then show ?thesis
    using c entries(2) by (auto simp: moving_def cur_ok_def apart_def)
qed

text \<open>A nonce that has a future transaction after the loop has no entry that stays in the index.\<close>

lemma moved_apart:
  assumes p: "cur_ok e q" "fut_ok e q" "apart e (fut_set q) q" and m: "m_currentByAddressAndNonce q a = Some (k @ l)" and f: "fut_ok e q'"
    and dom: "dom (map_of (future_at a q')) = dom (map_of (future_at a q)) \<union> fst ` set l" and other: "\<And>b. b \<noteq> a \<Longrightarrow> future_at b q' = future_at b q"
    and u: "(n, u) \<in> set (future_at b q')"
  shows "(if b = a then map_of k n else nonce_index q (b, n)) = None"
proof (cases "b = a")
  case True
  note entries = sender_entries [OF p(1) m]
  have "n \<in> dom (map_of (future_at a q'))"
    using u True omap_lookup [OF fut_okD(2) [OF f, of a], of n u] by auto
  then consider "n \<in> dom (map_of (future_at a q))" | "n \<in> fst ` set l"
    using dom by blast
  then have "n \<notin> fst ` set k"
  proof cases
    case 1
    then obtain w where w: "(n, w) \<in> set (future_at a q)"
      by (auto dest: map_of_SomeD)
    then have "w \<in> fut_set q"
      using fut_set_at [of a q] by force
    then have "map_of (k @ l) n = None"
      using p(3) fut_okD(4) [OF p(2) w] entries(4) [of n] by (auto simp: apart_def)
    then show ?thesis
      unfolding map_of_eq_None_iff by auto
  next
    case 2
    then show ?thesis
      using entries(2) by auto
  qed
  then show ?thesis
    by (simp add: True map_of_eq_None_iff)
next
  case False
  then have u': "(n, u) \<in> set (future_at b q)"
    using u other by simp
  then have "u \<in> fut_set q"
    using fut_set_at [of b q] by force
  then show ?thesis
    using p(3) fut_okD(4) [OF p(2) u'] False by (auto simp: apart_def)
qed

lemma setFuture_ok:
  assumes p: "tq_inv e q"
    and Q: "\<And>q'. tq_inv e q' \<Longrightarrow> m_limit q' = m_limit q \<Longrightarrow> m_futureLimit q' = m_futureLimit q \<Longrightarrow> Q () q'"
  shows "twp E (setFuture e h) Q q"
proof (cases "m_currentByHash q h")
  case None
  then show ?thesis
    using Q [OF p] by (simp add: setFuture_def twp_simps)
next
  case (Some x)
  have c: "cur_ok e q" "fut_ok e q" "apart e (fut_set q) q"
    using p by (simp_all add: tq_inv_def pool_inv_def)
  obtain i t where i: "x = Node i" "(i, t) \<in> set (m_current q)"
    using indexes_Some [OF cur_okD(3) [OF c(1)], of h x] Some by auto
  let ?a = "from_of e t"
  define m where "m = (case m_currentByAddressAndNonce q ?a of None \<Rightarrow> [] | Some m \<Rightarrow> m)"
  define l where "l = dropWhile (\<lambda>p. fst p < t_nonce t) m"
  define k where "k = takeWhile (\<lambda>p. fst p < t_nonce t) m"
  have m: "m_currentByAddressAndNonce q ?a = Some (k @ l)"
    using indexes_mem [OF cur_okD(4) [OF c(1)] i(2)] by (auto simp: k_def l_def m_def nonce_index_def key_of_def split: option.splits Option.bind_splits)
  have "twp E (setFuture_loop e ?a l) (\<lambda>_ q'. Q () (q'\<lparr>m_currentByAddressAndNonce := (m_currentByAddressAndNonce q')(?a := (if k = [] then None else Some k))\<rparr>)) q"
  proof (rule setFuture_loop_ok [OF moving_start [OF p m]])
    fix q' :: TransactionQueue
    let ?q = "q'\<lparr>m_currentByAddressAndNonce := (m_currentByAddressAndNonce q')(?a := (if k = [] then None else Some k))\<rparr>"
    assume q': "moving e (m_known q) ?a [] q'" "same_base q q'" "set (m_current q') = {p \<in> set (m_current q). Node (fst p) \<notin> snd ` set l}"
      and d: "dom (map_of (future_at ?a q')) = dom (map_of (future_at ?a q)) \<union> fst ` set l" "\<And>b. b \<noteq> ?a \<Longrightarrow> future_at b q' = future_at b q"
    have v: "nodes_ok e q'" "fut_ok e q'" "\<forall>t \<in> fut_set q'. m_currentByHash q' (hsh e t) = None" "within e (fut_set q') (m_known q) q'"
      using q'(1) by (simp_all add: moving_def)
    note cut = cut_index [OF c(1) m v(1) q'(2,3)]
    have fa: "fut_set ?q = fut_set q'" "fut_ok e ?q = fut_ok e q'"
      using fut_cong(2) [of ?q q'] fut_cong(4) [of ?q q' e] by simp_all
    have "nonce_index ?q (key_of e u) = None" if u: "u \<in> fut_set q'" for u
    proof -
      obtain b n where "(n, u) \<in> set (future_at b q')"
        using u by (auto simp: fut_set_def)
      then show ?thesis
        using moved_apart [OF c m v(2) d] cut(2) [of b n] fut_okD(4) [OF v(2)] by metis
    qed
    then have "apart e (fut_set q') ?q"
      using v(3) by (simp add: apart_def)
    moreover have "within e (fut_set q') (m_known ?q) ?q"
      using v(4) q'(2) by (simp add: within_def same_base_def)
    ultimately have "tq_inv e ?q"
      using cut(1) v(2) unfolding tq_inv_def pool_inv_def fa by blast
    then show "Q () ?q"
      by (rule Q) (use q'(2) in \<open>simp_all add: same_base_def\<close>)
  qed
  then show ?thesis
    using Some by (cases "k = []") (simp_all add: setFuture_def twp_simps twp_rules(5) [abs_def] i(1) twp_deref [OF cur_okD(1) [OF c(1)] i(2)] Let_def m_def [symmetric] l_def [symmetric] k_def [symmetric])
qed

section \<open>All operations\<close>

text \<open>The constructor with \<open>CheckTransaction::Everything\<close> has recovered the sender.\<close>

lemma rbind_InrE:
  assumes "fst (rbind m f s) = Inr x"
  obtains a s' where "m s = (Inr a, s')" "fst (f a s') = Inr x"
  using assms by (auto simp: rbind_def split: prod.splits sum.splits)

lemma checked_sender:
  assumes "TransactionBase_rlp f r CheckEverything b = Inr t"
  shows "\<exists>a. fst (sender f r t) = Inr a"
proof -
  have *: "\<exists>a. fst (sender f r t') = Inr a" if "sender f r u = (Inr a', t')" for u t' a'
    using sender_cache(1) [of f r u] that by simp
  show ?thesis
    using assms unfolding TransactionBase_rlp_def Let_def
    by (auto elim!: rbind_InrE simp: rresult_def ebind_def dest!: * split: sum.splits prod.splits if_splits)
qed

datatype tq_call =
    Call_import TransactionBase IfDropped
  | Call_import_rlp bytes IfDropped
  | Call_setFuture h256
  | Call_drop h256
  | Call_dropGood TransactionBase
  | Call_clear
  | Call_enqueue "bytes list" u512
  | Verifier_take
  | Verifier_import "bytes \<times> u512"

definition none_of :: "unit tqop \<Rightarrow> ImportResult option tqop" where
  "none_of m = tbind m (\<lambda>_. tret None)"

fun run_call :: "tq_env \<Rightarrow> tq_call \<Rightarrow> ImportResult option tqop" where
  "run_call e (Call_import t ik) = tbind (import_tx e t ik) (\<lambda>r. tret (Some r))"
| "run_call e (Call_import_rlp b ik) = tbind (import_rlp e b ik) (\<lambda>r. tret (Some r))"
| "run_call e (Call_setFuture h) = none_of (setFuture e h)"
| "run_call e (Call_drop h) = none_of (tq_drop e h)"
| "run_call e (Call_dropGood t) = none_of (dropGood e t)"
| "run_call e Call_clear = none_of tq_clear"
| "run_call e (Call_enqueue ds n) = none_of (enqueue ds n)"
| "run_call e Verifier_take = none_of verifier_take"
| "run_call e (Verifier_import w) = none_of (verifier_import e w)"

text \<open>Calls that hand over a transaction whose sender can be recovered. The constructor that reads from RLP checks this by itself, the verifier threads do not.\<close>

fun recoverable :: "tq_env \<Rightarrow> tq_call \<Rightarrow> bool" where
  "recoverable e (Call_import t ik) = (case sender_of e t of Inl _ \<Rightarrow> False | Inr _ \<Rightarrow> True)"
| "recoverable e (Verifier_import w) = (case TransactionBase_rlp (tq_sha3 e) (tq_recover e) CheckCheap (fst w) of
     Inl _ \<Rightarrow> True | Inr t \<Rightarrow> (case sender_of e t of Inl _ \<Rightarrow> False | Inr _ \<Rightarrow> True))"
| "recoverable e _ = True"

inductive tq_reach :: "tq_env \<Rightarrow> TransactionQueue \<Rightarrow> bool" for e where
  tq_init: "tq_reach e (TransactionQueue_new limit futureLimit)"
| tq_step: "tq_reach e q \<Longrightarrow> recoverable e c \<Longrightarrow> run_call e c q = (r, q') \<Longrightarrow> tq_reach e q'"

lemma empty_inv:
  assumes "m_current q = []" "m_future q = []" "m_currentByHash q = Map.empty" "m_currentByAddressAndNonce q = Map.empty" "m_futureSize q = 0"
  shows "tq_inv e q"
proof -
  have "future_at a q = []" for a
    by (simp add: future_at_def assms)
  then show ?thesis
    by (simp add: assms tq_inv_def pool_inv_def cur_ok_def nodes_ok_def maps_ok_def fut_ok_def apart_def within_def fut_set_def indexes_def nonce_index_def)
qed

text \<open>An operation that ends in the invariant, or throws in it.\<close>

definition tq_post :: "tq_env \<Rightarrow> TransactionQueue \<Rightarrow> ImportResult option \<Rightarrow> TransactionQueue \<Rightarrow> bool" where
  "tq_post e q r q' \<longleftrightarrow> tq_inv e q' \<and> m_limit q' = m_limit q \<and> m_futureLimit q' = m_futureLimit q \<and>
     (r = Some Import_Success \<longrightarrow> length (m_current q') \<le> m_limit q \<and> m_futureSize q' \<le> m_futureLimit q)"

definition tq_throw :: "tq_env \<Rightarrow> TransactionQueue \<Rightarrow> tq_error \<Rightarrow> TransactionQueue \<Rightarrow> bool" where
  "tq_throw e q z q' \<longleftrightarrow> (\<exists>x. z = TqThrow x) \<and> tq_inv e q' \<and> m_limit q' = m_limit q \<and> m_futureLimit q' = m_futureLimit q"

lemma import_call:
  assumes "tq_inv e q" "\<exists>a. sender_of e t = Inr a"
  shows "twp (tq_throw e q) (import_tx e t ik) (\<lambda>r. tq_post e q (Some r)) q"
  by (rule twp_conseq [OF import_ok [OF assms]]) (use assms(1) in \<open>auto simp: imported_def tq_post_def tq_throw_def\<close>)

lemma import_rlp_call:
  assumes p: "tq_inv e q"
  shows "twp (tq_throw e q) (import_rlp e b ik) (\<lambda>r. tq_post e q (Some r)) q"
proof (cases "TransactionBase_rlp (tq_sha3 e) (tq_recover e) CheckEverything b")
  case (Inl z)
  then show ?thesis
    using p by (simp add: twp_def import_rlp_def tq_post_def)
next
  case (Inr t)
  then have "\<exists>a. sender_of e t = Inr a"
    using checked_sender [of "tq_sha3 e" "tq_recover e" b t] by (simp add: sender_of_def)
  from import_call [OF p this, of ik] show ?thesis
    by (auto simp: twp_def import_rlp_def Inr tq_post_def tq_throw_def split: sum.splits prod.splits)
qed

lemma drop_call:
  assumes p: "tq_inv e q"
  shows "twp (tq_throw e q) (tq_drop e h) (\<lambda>_. tq_post e q None) q"
proof -
  have "twp (tq_throw e q) (remove_WITH_LOCK e h) (\<lambda>_. tq_post e q None) (q\<lparr>m_dropped := insert h (m_dropped q)\<rparr>)"
    by (rule remove_inv [OF tq_inv_cong [OF p]]) (auto simp: same_cur_def same_rest_def tq_post_def)
  then show ?thesis
    using p by (simp add: tq_drop_def twp_simps twp_rules(1) [abs_def] tq_post_def [abs_def])
qed

lemma dropGood_call:
  assumes p: "tq_inv e q"
  shows "twp (tq_throw e q) (dropGood e t) (\<lambda>_. tq_post e q None) q"
  unfolding dropGood_def twp_rules(3)
proof (rule makeCurrent_ok [OF p [unfolded tq_inv_def]], goal_cases)
  case (1 q')
  have inv: "tq_inv e q'"
    using 1 by (simp add: tq_inv_def)
  have "twp (tq_throw e q) (remove_WITH_LOCK e h) (\<lambda>_. tq_post e q None) q'" for h
    by (rule remove_inv [OF inv]) (use 1 in \<open>auto simp: same_rest_def tq_post_def\<close>)
  then show ?case
    using inv 1 by (simp add: tx_hash_def twp_simps twp_rules(1) [abs_def] tq_post_def [abs_def] tq_throw_def split: sum.split)
qed

lemma verifier_call:
  assumes p: "tq_inv e q" and w: "recoverable e (Verifier_import w)"
  shows "twp (tq_throw e q) (verifier_import e w) (\<lambda>_. tq_post e q None) q"
proof -
  let ?q = "q\<lparr>m_inWork := remove1 w (m_inWork q)\<rparr>"
  have q: "tq_inv e ?q"
    by (rule tq_inv_cong [OF p]) (simp_all add: same_cur_def)
  show ?thesis
  proof (cases "TransactionBase_rlp (tq_sha3 e) (tq_recover e) CheckCheap (fst w)")
    case (Inl z)
    then show ?thesis
      using q by (simp add: twp_def verifier_import_def tq_post_def)
  next
    case (Inr t)
    then have t: "\<exists>a. sender_of e t = Inr a"
      using w by (simp split: sum.splits)
    have raised: "tq_inv e (q'\<lparr>m_raised := l\<rparr>)" if "tq_inv e q'" for q' l
      by (rule tq_inv_cong [OF that]) (simp_all add: same_cur_def)
    have "twp (tq_throw e ?q) (tbind (import_tx e t Ignore) (\<lambda>ir. tbind (tx_hash e t) (\<lambda>h. traise (OnImport ir h (snd w))))) (\<lambda>_. tq_post e ?q None) ?q"
      unfolding twp_rules(3)
      by (rule twp_conseq [OF import_call [OF q t]]) (auto simp: tx_hash_def twp_simps tq_post_def tq_throw_def raised split: sum.split)
    then show ?thesis
      by (auto simp: verifier_import_def Inr Let_def twp_def tq_post_def tq_throw_def split: sum.splits prod.splits tq_error.splits)
  qed
qed

lemma run_call_ok:
  assumes p: "tq_inv e q" and c: "recoverable e c"
  shows "twp (tq_throw e q) (run_call e c) (tq_post e q) q"
proof (cases c)
  case (Call_import t ik)
  then show ?thesis
    using import_call [OF p] c by (simp add: twp_simps twp_rules(1) [abs_def] split: sum.splits)
next
  case (Call_setFuture h)
  then show ?thesis
    using p by (auto simp: none_of_def twp_simps tq_post_def intro!: setFuture_ok)
next
  case Call_clear
  then show ?thesis
    by (simp add: none_of_def twp_simps tq_post_def tq_clear_def empty_inv)
next
  case (Call_enqueue ds n)
  then show ?thesis
    using p by (auto simp: none_of_def twp_simps tq_post_def enqueue_def same_cur_def intro!: tq_inv_cong [OF p])
next
  case Verifier_take
  then show ?thesis
    using p by (auto simp: none_of_def tq_post_def verifier_take_def twp_def tbind_def tret_def same_cur_def split: list.split intro!: tq_inv_cong [OF p])
qed (use import_rlp_call [OF p] drop_call [OF p] dropGood_call [OF p] verifier_call [OF p] c in \<open>simp_all add: none_of_def twp_simps twp_rules(1) [abs_def]\<close>)

lemma reach_inv: "tq_reach e q \<Longrightarrow> tq_inv e q"
proof (induction rule: tq_reach.induct)
  case (tq_init limit futureLimit)
  then show ?case
    by (rule empty_inv) (simp_all add: TransactionQueue_new_def)
next
  case (tq_step q c r q')
  then show ?case
    using run_call_ok [of e q c] by (auto simp: twp_def tq_post_def tq_throw_def split: sum.splits)
qed

section \<open>Concrete data\<close>

text \<open>A hash function, a signature that belongs to nobody, and transactions with their caches filled.\<close>

definition sample_env :: tq_env where
  "sample_env = \<lparr>tq_sha3 = (\<lambda>b. of_nat (length b)), tq_recover = (\<lambda>_ _. 0), tq_begin = (\<lambda>_. 0), tq_tree = (\<lambda>_ _. 0), tq_meets = (\<lambda>_ _. True)\<rparr>"

definition sample_tx :: "h256 \<Rightarrow> address \<Rightarrow> TransactionBase" where
  "sample_tx h a = \<lparr>t_type = MessageCall, t_nonce = 7, t_value = 0, t_receiveAddress = 1, t_gasPrice = 1, t_gas = 21000, t_data = [],
     t_vrs = Some \<lparr>sig_r = 1, sig_s = 1, sig_v = 0\<rparr>, t_chainId = -4, t_hashWith = h, t_sender = a\<rparr>"

lemma sample_sender: "a \<noteq> 0 \<Longrightarrow> sender_of sample_env (sample_tx h a) = Inr a"
  by (simp add: sender_of_def sender_def sample_tx_def)

lemma sample_hash: "h \<noteq> 0 \<Longrightarrow> hash_of sample_env (sample_tx h a) = Inr h"
  by (simp add: hash_of_def tx_sha3_def sample_tx_def)

lemma sample_unsigned: "\<exists>z. sender_of sample_env (sample_tx h 0) = Inl z"
  unfolding sender_of_def sender_fst by (simp add: sample_tx_def hasZeroSignature_def isZeroSignature_def sample_env_def split: sum.split)

definition sample_queue :: TransactionQueue where
  "sample_queue = snd (run_call sample_env (Call_import (sample_tx 1 5) Ignore) (TransactionQueue_new 10 10))"

lemmas sample_eval = sample_env_def sample_tx_def TransactionQueue_new_def import_tx_def tx_sha3_def hasZeroSignature_def isZeroSignature_def check_WITH_LOCK_def safeSender_def sender_def manageImport_WITH_LOCK_def replace_current_def replace_future_def insertCurrent_WITH_LOCK_def tbind_def tget_def tset_def tret_def from_of_def future_at_def add_current_def index_by_nonce_def emplace_current_def current_place_def tx_hash_def hash_of_def makeCurrent_WITH_LOCK_def trim_future.simps trim_current.simps traise_def Let_def omap_insert_def

lemma sample_import: "run_call sample_env (Call_import (sample_tx 1 5) Ignore) (TransactionQueue_new 10 10) = (Inr (Some Import_Success), sample_queue)"
  unfolding sample_queue_def by (simp add: sample_eval)

lemma sample_queue_parts [simp]:
  "m_current sample_queue = [(0, sample_tx 1 5)]" "m_known sample_queue = {1}" "m_dropped sample_queue = {}" "m_future sample_queue = []"
  "m_currentByAddressAndNonce sample_queue = [5 \<mapsto> [(7, Node 0)]]"
  unfolding sample_queue_def by (simp_all add: sample_eval)

lemma sample_reach: "tq_reach sample_env sample_queue"
  by (rule tq_step [OF tq_init _ sample_import]) (simp add: sample_sender)

section \<open>Queries\<close>

lemma top_loop_take:
  "(\<And>t. t \<in> set ts \<Longrightarrow> good_tx e t) \<Longrightarrow> top_loop e limit avoid ts ret = Inr (ret @ take (limit - length ret) (filter (\<lambda>t. hsh e t \<notin> avoid) ts))"
proof (induction ts arbitrary: ret)
  case (Cons t ts)
  have "hash_of e t = Inr (hsh e t)"
    using Cons.prems by (simp add: good_txD(1))
  then show ?case
    using Cons by (cases "length ret < limit") (auto simp: Suc_diff_Suc [symmetric])
qed simp

lemma current_distinct:
  assumes "cur_ok e q"
  shows "distinct (map (key_of e) (map snd (m_current q)))"
proof -
  have "inj_on (\<lambda>p. key_of e (snd p)) (set (m_current q))"
    using indexes_mem [OF cur_okD(4) [OF assms]] cur_okD(1) [OF assms] by (intro inj_onI) (metis eq_key_imp_eq_value handle.inject option.inject prod.collapse)
  then show ?thesis
    using cur_okD(1) [OF assms] by (simp add: distinct_map comp_def)
qed

text \<open>The nonces that are queued for a sender.\<close>

definition nonces :: "tq_env \<Rightarrow> address \<Rightarrow> TransactionQueue \<Rightarrow> u256 set" where
  "nonces e a q = {n. \<exists>t \<in> snd ` set (m_current q) \<union> fut_set q. key_of e t = (a, n)}"

lemma last_greatest: "sorted_wrt (<) (map fst m) \<Longrightarrow> n \<in> fst ` set m \<Longrightarrow> (n :: 'k::linorder) \<le> fst (last m)"
  by (induction m) (auto simp: order.strict_implies_order split: if_splits)

lemma nonces_lists:
  fixes a :: address
  assumes p: "tq_inv e q"
  defines "m \<equiv> case m_currentByAddressAndNonce q a of None \<Rightarrow> [] | Some m \<Rightarrow> m"
  shows "nonces e a q = fst ` set m \<union> fst ` set (future_at a q)" "fst ` set m \<inter> fst ` set (future_at a q) = {}"
    "sorted_wrt (<) (map fst m)" "sorted_wrt (<) (map fst (future_at a q))"
proof -
  have c: "cur_ok e q" "fut_ok e q" "apart e (fut_set q) q"
    using p by (simp_all add: tq_inv_def pool_inv_def)
  have cur: "n \<in> fst ` set m \<longleftrightarrow> nonce_index q (a, n) \<noteq> None" for n
    by (cases "m_currentByAddressAndNonce q a") (simp_all add: m_def nonce_index_def map_of_eq_None_iff del: not_None_eq)
  then have cur': "n \<in> fst ` set m \<longleftrightarrow> (\<exists>t \<in> snd ` set (m_current q). key_of e t = (a, n))" for n
    using indexes_None [OF cur_okD(4) [OF c(1)], of "(a, n)"] by force
  have fut: "n \<in> fst ` set (future_at a q) \<longleftrightarrow> (\<exists>t \<in> fut_set q. key_of e t = (a, n))" for n
  proof
    assume "n \<in> fst ` set (future_at a q)"
    then obtain t where t: "(n, t) \<in> set (future_at a q)"
      by force
    then show "\<exists>t \<in> fut_set q. key_of e t = (a, n)"
      using fut_okD(4) [OF c(2) t] fut_set_at [of a q] by force
  next
    assume "\<exists>t \<in> fut_set q. key_of e t = (a, n)"
    then obtain t b n' where t: "(n', t) \<in> set (future_at b q)" "key_of e t = (a, n)"
      by (auto simp: fut_set_def)
    then show "n \<in> fst ` set (future_at a q)"
      using fut_okD(4) [OF c(2) t(1)] by force
  qed
  show "nonces e a q = fst ` set m \<union> fst ` set (future_at a q)"
    unfolding nonces_def set_eq_iff Un_iff cur' fut bex_Un mem_Collect_eq by blast
  show "fst ` set m \<inter> fst ` set (future_at a q) = {}"
  proof (intro equals0I, elim IntE)
    fix n
    assume n: "n \<in> fst ` set m" "n \<in> fst ` set (future_at a q)"
    obtain t where "t \<in> fut_set q" "key_of e t = (a, n)"
      using n(2) unfolding fut by blast
    then show False
      using n(1) c(3) unfolding cur apart_def by auto
  qed
  show "sorted_wrt (<) (map fst m)"
    using cur_okD(5) [OF c(1)] by (auto simp: m_def maps_ok_def split: option.splits)
  show "sorted_wrt (<) (map fst (future_at a q))"
    by (rule fut_okD(2) [OF c(2)])
qed

lemma Max_last: "sorted_wrt (<) (map fst m) \<Longrightarrow> m \<noteq> [] \<Longrightarrow> Max (fst ` set m) = (fst (last m) :: 'k::linorder)"
  by (rule Max_eqI) (auto intro: last_greatest)

lemma max_Suc_word: "a \<noteq> - 1 \<Longrightarrow> b \<noteq> - 1 \<Longrightarrow> max (a + 1) (b + 1) = max a b + (1 :: 'l::len word)"
  by (auto simp: max_def word_le_nat_alt unatSuc add.commute [of _ 1] eq_neg_iff_add_eq_0)

lemma maxNonce_Max:
  fixes a :: address and q :: TransactionQueue
  defines "m \<equiv> (case m_currentByAddressAndNonce q a of None \<Rightarrow> [] | Some m \<Rightarrow> m)"
  assumes s: "sorted_wrt (<) (map fst m)" "sorted_wrt (<) (map fst (future_at a q))"
    and N: "N = fst ` set m \<union> fst ` set (future_at a q)" "- 1 \<notin> N"
  shows "maxNonce a q = (if N = {} then 0 else Max N + 1)"
proof -
  let ?f = "future_at a q"
  have mn: "maxNonce a q = (let ret = (if m = [] then 0 else fst (last m) + 1) in if ?f = [] then ret else max ret (fst (last ?f) + 1))"
    by (auto simp: maxNonce_def m_def future_at_def Let_def split: option.split)
  have ne: "m \<noteq> [] \<Longrightarrow> fst (last m) \<noteq> - 1" "?f \<noteq> [] \<Longrightarrow> fst (last ?f) \<noteq> - 1"
    using N by (metis UnCI image_eqI last_in_set)+
  note M = Max_last [OF s(1)] Max_last [OF s(2)]
  show ?thesis
  proof (cases "m = [] \<or> ?f = []")
    case True
    then show ?thesis
      unfolding mn N(1) using M by (auto simp: Let_def)
  next
    case False
    then have "Max N = max (fst (last m)) (fst (last ?f))"
      unfolding N(1) using M by (simp add: Max_Un)
    then show ?thesis
      unfolding mn using False N(1) ne by (simp add: max_Suc_word Let_def)
  qed
qed



section \<open>The invariant\<close>

text \<open>(C12) Every interleaving of the operations, those of the verifier threads included, keeps the queue consistent, as long as the senders of the transactions can be recovered: both indices of \<open>m_current\<close> have
  exactly its transactions, no sender has two transactions with the same nonce, current and future ones taken together, \<open>m_futureSize\<close> is the number of future transactions, and every hash that is queued is in \<open>m_known\<close>. No operation
  runs into a failed assertion, an iterator to nothing or an endless loop; an exception leaves the queue consistent. After an import that succeeded both sets are within their limits.
\<close>

theorem transaction_queue_consistent:
  assumes "tq_reach e q" "recoverable e c" "run_call e c q = (r, q')"
  shows "tq_inv e q \<and> tq_inv e q' \<and> r \<notin> {Inl TqAssert, Inl TqUndefined, Inl TqForever} \<and>
    (r = Inr (Some Import_Success) \<longrightarrow> length (m_current q') \<le> m_limit q \<and> m_futureSize q' \<le> m_futureLimit q)"
  using reach_inv [OF assms(1)] run_call_ok [OF reach_inv [OF assms(1)] assms(2)] assms(3)
  by (auto simp: twp_def tq_post_def tq_throw_def split: sum.splits)

theorem transaction_queue_consistent_witness:
  "tq_inv sample_env sample_queue \<and> length (m_current sample_queue) \<le> 10"
  using transaction_queue_consistent [OF tq_init _ sample_import] by (simp add: sample_sender TransactionQueue_new_def)

section \<open>Transactions without a sender\<close>

lemma unsigned_add:
  assumes t: "sender_of e t = Inl z" and c: "m_current q \<noteq> []" "nonce_index q (0, t_nonce t) = None"
  shows "\<exists>q'. add_current e 0 t q = (Inl (TqThrow z), q') \<and> nonce_index q' = (nonce_index q)((0, t_nonce t) \<mapsto> Singular) \<and>
    m_current q' = m_current q \<and> m_known q' = m_known q \<and> m_dropped q' = m_dropped q \<and> same_rest q q'"
proof -
  let ?m = "case m_currentByAddressAndNonce q 0 of None \<Rightarrow> [] | Some m \<Rightarrow> m"
  let ?q = "q\<lparr>m_currentByAddressAndNonce := (m_currentByAddressAndNonce q)(0 \<mapsto> omap_put (t_nonce t) Singular ?m)\<rparr>"
  have "map_of ?m (t_nonce t) = None"
    using c(2) by (auto simp: nonce_index_def split: option.splits)
  moreover have "current_place e t ?q = Inl (TqThrow z)"
    using c(1) t by (simp add: current_place_def priority_height_def Let_def)
  ultimately have "add_current e 0 t q = (Inl (TqThrow z), ?q)"
    by (simp add: add_current_def index_by_nonce_def tbind_def tset_def emplace_current_def omap_insert_def)
  then show ?thesis
    using nonce_index_put [of q 0 "t_nonce t" Singular] by (auto simp: same_rest_def)
qed

text \<open>What \<open>import\<close> queues for a transaction without a sender.\<close>

lemma import_unsigned:
  assumes t: "sender_of e t = Inl z" "hash_of e t = Inr h" and q: "h \<notin> m_known q" "h \<notin> m_dropped q"
  obtains t' where "import_tx e t Ignore q = manageImport_WITH_LOCK e h t' q" "sender_of e t' = Inl z" "from_of e t' = 0" "t_nonce t' = t_nonce t" "t_gasPrice t' = t_gasPrice t"
proof -
  obtain t1 where t1: "tx_sha3 (tq_sha3 e) True t = (Inr h, t1)"
    using t(2) by (auto simp: hash_of_def prod_eq_iff)
  define t' where "t' = snd (safeSender (tq_sha3 e) (tq_recover e) t1)"
  have zero: "\<not> hasZeroSignature t"
    using t(1) unfolding sender_of_def sender_fst by (auto split: if_splits)
  have s: "sender_of e t' = Inl z"
    using import_good(3) [OF t1] t(1) by (simp add: t'_def)
  have "t_nonce t1 = t_nonce t" "t_gasPrice t1 = t_gasPrice t"
    using sha3_cache(3) [OF t1] by auto
  moreover have "t_nonce (snd (sender f r u)) = t_nonce u" "t_gasPrice (snd (sender f r u)) = t_gasPrice u" for f r u
    by (auto simp: sender_def tx_sha3_def Let_def split: option.split prod.split sum.split)
  ultimately have n: "t_nonce t' = t_nonce t" "t_gasPrice t' = t_gasPrice t"
    unfolding t'_def by (simp_all add: safeSender_def split: prod.split sum.split)
      (metis snd_conv)+
  have "from_of e t' = 0"
    using s by (auto simp: from_of_def safeSender_def sender_of_def split: prod.splits sum.splits)
  moreover have "import_tx e t Ignore q = manageImport_WITH_LOCK e h t' q"
    using t1 q zero by (simp add: import_tx_def check_WITH_LOCK_def t'_def)
  ultimately show ?thesis
    using that s n by blast
qed

text \<open>(C13) A transaction from the network whose sender cannot be recovered corrupts the queue: \<open>verifierBody\<close> reads it with \<open>CheckTransaction::Cheap\<close> and calls \<open>import\<close>. When the queue has another transaction,
  the comparison of \<open>m_current\<close> throws after the entry for the nonce has been made. \<open>import\<close> answers \<open>Malformed\<close> and leaves this entry, under the zero address and with an iterator to nothing; the next such transaction with the same
  nonce dereferences it, which is undefined behaviour.
\<close>

theorem unrecoverable_sender_corrupts_queue:
  assumes "tq_reach e q" "m_current q \<noteq> []"
    and "sender_of e t = Inl z" "hash_of e t = Inr h" "h \<notin> m_known q" "h \<notin> m_dropped q"
    and "nonce_index q (0, t_nonce t) = None" "map_of (future_at 0 q) (t_nonce t) = None"
    and "sender_of e u = Inl z'" "hash_of e u = Inr h'" "h' \<notin> m_known q" "h' \<notin> m_dropped q" "t_nonce u = t_nonce t"
  shows "\<exists>q'. import_tx e t Ignore q = (Inr Malformed, q') \<and> nonce_index q' (0, t_nonce t) = Some Singular \<and> fst (import_tx e u Ignore q') = Inl TqUndefined"
proof -
  obtain t' where t': "import_tx e t Ignore q = manageImport_WITH_LOCK e h t' q" "sender_of e t' = Inl z" "from_of e t' = 0" "t_nonce t' = t_nonce t"
    using import_unsigned [OF assms(3-6)] by metis
  obtain q' where q': "add_current e 0 t' q = (Inl (TqThrow z), q')" "nonce_index q' = (nonce_index q)((0, t_nonce t) \<mapsto> Singular)"
    "m_known q' = m_known q" "m_dropped q' = m_dropped q"
    using unsigned_add [OF t'(2) assms(2)] assms(7) t'(4) by auto
  have "m_currentByHash q h = None"
    using reach_inv [OF assms(1)] assms(5) by (auto simp: tq_inv_def pool_inv_def within_def)
  then have "import_tx e t Ignore q = (Inr Malformed, q')"
    using assms(7,8) q'(1) unfolding t'(1)
    by (simp add: manageImport_WITH_LOCK_def replace_current_def replace_future_def insertCurrent_WITH_LOCK_def tbind_def tget_def tret_def t'(3,4) nonce_index_def)
  moreover obtain u' where u': "import_tx e u Ignore q' = manageImport_WITH_LOCK e h' u' q'" "from_of e u' = 0" "t_nonce u' = t_nonce t"
    using import_unsigned [OF assms(9,10), of q'] assms(11-13) q'(3,4) by metis
  moreover have "Option.bind (m_currentByAddressAndNonce q' 0) (\<lambda>m. map_of m (t_nonce t)) = Some Singular"
    using fun_cong [OF q'(2), of "(0, t_nonce t)"] by (simp add: nonce_index_def)
  ultimately show ?thesis
    using q'(2) by (auto simp: manageImport_WITH_LOCK_def replace_current_def tbind_def tget_def deref_def)
qed

theorem unrecoverable_sender_corrupts_queue_witness:
  "\<exists>q'. import_tx sample_env (sample_tx 2 0) Ignore sample_queue = (Inr Malformed, q') \<and> nonce_index q' (0, 7) = Some Singular \<and>
     fst (import_tx sample_env (sample_tx 3 0) Ignore q') = Inl TqUndefined"
proof -
  obtain z z' where z: "sender_of sample_env (sample_tx 2 0) = Inl z" "sender_of sample_env (sample_tx 3 0) = Inl z'"
    using sample_unsigned by metis
  have "t_nonce (sample_tx h a) = 7" for h a
    by (simp add: sample_tx_def)
  then show ?thesis
    using unrecoverable_sender_corrupts_queue [OF sample_reach _ z(1) sample_hash _ _ _ _ z(2) sample_hash]
    by (simp add: nonce_index_def future_at_def)
qed

end
